(* ===== verification/Matrix_Prelude.thy ===== *)
theory Matrix_Prelude
  imports Main "HOL-Library.Word" "HOL-Library.AList" "HOL-Library.Multiset"
begin

text \<open>
  Shared vocabulary of the development: the machine types of the Go sources, Go's built-in
  maps, the order in which \<open>range\<close> visits a map, 64-bit signed arithmetic, and the generic
  lemmas about them that the component theories use.

  A Go map is an association list with distinct keys (\<open>gomap_ok\<close>): \<open>len\<close> is \<open>length\<close>,
  a lookup is \<^const>\<open>map_of\<close>, an assignment \<open>map_put\<close>, a deletion \<open>map_del\<close>.
  The language leaves the order in which \<open>range\<close> visits a map open, and it may differ from one
  loop to the next. A function whose source ranges over a map therefore takes the order as an
  argument, a function from lists to lists, and the theorems assume of it only \<open>range_order\<close>:
  every entry is visited exactly once.
\<close>

section \<open>Machine types\<close>

type_synonym u8 = "8 word"
type_synonym u16 = "16 word"
type_synonym u32 = "32 word"
type_synonym u64 = "64 word"

text \<open>\<open>common.Address\<close> is 20 bytes, \<open>common.Hash\<close> 32 bytes and \<open>common.Signature\<close> 65 bytes.
  The zero values \<open>common.Address{}\<close>, \<open>common.Hash{}\<close> and \<open>common.Signature{}\<close> are 0.\<close>

type_synonym address = "160 word"
type_synonym hash = "256 word"
type_synonym signature = "520 word"

named_theorems model_defs \<open>definitions unfolded when an operation of the model is executed\<close>
named_theorems frame_simps \<open>fields an operation leaves unchanged\<close>

section \<open>Signed 64-bit integers\<close>

text \<open>Values of the Go type \<open>int64\<close> are integers in this range; \<open>i64\<close> wraps the result of an
  operation into it.\<close>

definition i64 :: "int \<Rightarrow> int" where
  "i64 x = (x + 2 ^ 63) mod 2 ^ 64 - 2 ^ 63"

lemma i64_id [simp]: "- (2 ^ 63) \<le> x \<Longrightarrow> x < 2 ^ 63 \<Longrightarrow> i64 x = x"
  by (simp add: i64_def)

lemma i64_range: "- (2 ^ 63) \<le> i64 x \<and> i64 x < 2 ^ 63"
proof -
  have "0 \<le> (x + 2 ^ 63) mod 2 ^ 64" "(x + 2 ^ 63) mod 2 ^ 64 < (2 ^ 64 :: int)"
    by simp_all
  then show ?thesis unfolding i64_def by simp
qed

section \<open>Go maps\<close>

type_synonym ('k, 'v) gomap = "('k \<times> 'v) list"

definition gomap_ok :: "('k, 'v) gomap \<Rightarrow> bool" where
  "gomap_ok m \<longleftrightarrow> distinct (map fst m)"

definition map_put :: "'k \<Rightarrow> 'v \<Rightarrow> ('k, 'v) gomap \<Rightarrow> ('k, 'v) gomap" where
  "map_put k v m = AList.update k v m"

definition map_del :: "'k \<Rightarrow> ('k, 'v) gomap \<Rightarrow> ('k, 'v) gomap" where
  "map_del k m = AList.delete k m"

definition map_has :: "('k, 'v) gomap \<Rightarrow> 'k \<Rightarrow> bool" where
  "map_has m k \<longleftrightarrow> map_of m k \<noteq> None"

lemma gomap_ok_Nil [simp]: "gomap_ok []"
  by (simp add: gomap_ok_def)

lemma gomap_ok_put [simp]: "gomap_ok m \<Longrightarrow> gomap_ok (map_put k v m)"
  by (simp add: gomap_ok_def map_put_def distinct_update)

lemma gomap_ok_del [simp]: "gomap_ok m \<Longrightarrow> gomap_ok (map_del k m)"
  by (simp add: gomap_ok_def map_del_def distinct_delete)

lemma gomap_ok_filter [simp]: "gomap_ok m \<Longrightarrow> gomap_ok (filter P m)"
  by (auto simp: gomap_ok_def distinct_map intro: inj_on_subset)

lemma map_of_put [simp]: "map_of (map_put k v m) = (map_of m)(k \<mapsto> v)"
  by (simp add: map_put_def update_conv')

lemma map_of_del [simp]: "map_of (map_del k m) = (map_of m)(k := None)"
  by (simp add: map_del_def delete_conv')

lemma map_has_Nil [simp]: "\<not> map_has [] k"
  by (simp add: map_has_def)

lemma map_has_iff: "map_has m k \<longleftrightarrow> k \<in> fst ` set m"
  by (simp add: map_has_def map_of_eq_None_iff)

lemma keys_put [simp]: "fst ` set (map_put k v m) = insert k (fst ` set m)"
  by (simp add: map_put_def dom_update)

lemma keys_del [simp]: "fst ` set (map_del k m) = fst ` set m - {k}"
  by (auto simp: map_del_def AList.delete_eq image_iff)

lemma map_put_Nil [simp]: "map_put k v [] = [(k, v)]"
  by (simp add: map_put_def)

lemma map_put_Cons [simp]:
  "map_put k v (p # m) = (if fst p = k then (k, v) # m else p # map_put k v m)"
  by (cases p) (simp add: map_put_def)

lemma map_del_Nil [simp]: "map_del k [] = []"
  by (simp add: map_del_def)

lemma map_del_Cons [simp]:
  "map_del k (p # m) = (if fst p = k then map_del k m else p # map_del k m)"
  by (cases p) (simp add: map_del_def)

lemma map_has_Cons [simp]: "map_has (p # m) k \<longleftrightarrow> fst p = k \<or> map_has m k"
  by (cases p) (auto simp: map_has_def)

lemma length_map_put:
  "length (map_put k v m) = (if map_has m k then length m else Suc (length m))"
  by (induction m) auto

lemma map_put_new: "\<not> map_has m k \<Longrightarrow> map_put k v m = m @ [(k, v)]"
  by (induction m) auto

lemma length_map_del: "length (map_del k m) \<le> length m"
  by (simp add: map_del_def length_delete_le)

lemma map_del_absent: "\<not> map_has m k \<Longrightarrow> map_del k m = m"
  by (induction m) auto

lemma length_map_del_present: "gomap_ok m \<Longrightarrow> map_has m k \<Longrightarrow> Suc (length (map_del k m)) = length m"
  by (induction m) (auto simp: gomap_ok_def map_has_iff map_del_absent)

lemma map_put_entries: "(k', v') \<in> set (map_put k v m) \<Longrightarrow> k' = k \<and> v' = v \<or> (k', v') \<in> set m"
  by (induction m) (auto split: if_splits)

lemma map_del_entries: "(k', v') \<in> set (map_del k m) \<longleftrightarrow> k' \<noteq> k \<and> (k', v') \<in> set m"
  by (induction m) auto

lemma foldl_map_del:
  "foldl (\<lambda>m delKey. map_del delKey m) m ks = filter (\<lambda>kv. fst kv \<notin> set ks) m"
proof (induction ks arbitrary: m)
  case (Cons k ks)
  have "filter (\<lambda>kv. fst kv \<notin> set ks) (map_del k m) = filter (\<lambda>kv. fst kv \<notin> set (k # ks)) m"
    by (induction m) auto
  then show ?case using Cons by simp
qed simp

lemma gomap_ok_map_of: "gomap_ok m \<Longrightarrow> (k, v) \<in> set m \<longleftrightarrow> map_of m k = Some v"
  by (simp add: gomap_ok_def)

lemma gomap_ok_distinct: "gomap_ok m \<Longrightarrow> distinct m"
  by (simp add: gomap_ok_def distinct_map)

lemma gomap_length: "gomap_ok m \<Longrightarrow> length m = card (fst ` set m)"
  by (metis distinct_card gomap_ok_def length_map set_map)

lemma map_of_filter_key:
  "gomap_ok m \<Longrightarrow> map_of (filter P m) k =
    (case map_of m k of None \<Rightarrow> None | Some v \<Rightarrow> if P (k, v) then Some v else None)"
  by (induction m) (auto simp: gomap_ok_def map_of_eq_None_iff split: option.splits)

section \<open>The order of range\<close>

definition range_order :: "('a list \<Rightarrow> 'a list) \<Rightarrow> bool" where
  "range_order r \<longleftrightarrow> (\<forall>xs. mset (r xs) = mset xs)"

lemma range_order_mset: "range_order r \<Longrightarrow> mset (r xs) = mset xs"
  by (simp add: range_order_def)

lemma range_order_set [simp]: "range_order r \<Longrightarrow> set (r xs) = set xs"
  by (metis range_order_def set_mset_mset)

lemma range_order_length [simp]: "range_order r \<Longrightarrow> length (r xs) = length xs"
  by (metis range_order_def size_mset)

lemma range_order_id [simp]: "range_order id" "range_order (\<lambda>xs. xs)" "range_order rev"
  by (simp_all add: range_order_def)

lemma range_order_ok:
  assumes "range_order r" "gomap_ok m"
  shows "gomap_ok (r m)"
proof -
  have "mset (map fst (r m)) = mset (map fst m)"
    by (simp add: range_order_mset [OF assms(1)])
  then show ?thesis
    using assms(2) mset_eq_imp_distinct_iff unfolding gomap_ok_def by blast
qed

lemma range_order_filter_length:
  assumes "range_order r"
  shows "length (filter P (r xs)) = length (filter P xs)"
proof -
  have "mset (filter P (r xs)) = mset (filter P xs)"
    by (simp add: range_order_mset [OF assms])
  then show ?thesis by (rule mset_eq_length)
qed

lemma range_order_sum_list:
  fixes f :: "'a \<Rightarrow> 'b::comm_monoid_add"
  assumes "range_order r"
  shows "sum_list (map f (r xs)) = sum_list (map f xs)"
proof -
  have "mset (map f (r xs)) = mset (map f xs)"
    by (simp add: range_order_mset [OF assms])
  then show ?thesis by (metis sum_mset_sum_list)
qed

section \<open>First match in a list\<close>

lemma find_SomeD: "List.find P xs = Some x \<Longrightarrow> x \<in> set xs \<and> P x"
  by (induction xs) (auto split: if_splits)

lemma find_NoneD: "List.find P xs = None \<Longrightarrow> x \<in> set xs \<Longrightarrow> \<not> P x"
  by (induction xs) (auto split: if_splits)

section \<open>Words as numbers\<close>

lemma unat_mod_numeral:
  fixes x :: u64
  shows "unat (x mod n) = unat x mod unat n"
  by (rule unat_mod_distrib)

lemma unat_div_u64:
  fixes x :: u64
  shows "unat (x div n) = unat x div unat n"
  by (rule unat_div_distrib)

lemma unat_inj_iff: "unat x = unat y \<longleftrightarrow> x = y"
  by (rule word_unat_eq_iff [symmetric])

lemma unat_u64_lt: "unat (x :: u64) < 2 ^ 64"
  using unsigned_less [of x] by simp

lemma u64_eq_iff: "(x :: u64) = y \<longleftrightarrow> unat x = unat y"
  by (rule word_unat_eq_iff)

end
