(* ===== verification/Chain_Schedule.thy ===== *)
theory Chain_Schedule
  imports Matrix_Prelude
begin

text \<open>
  The shared arithmetic of the chain, package \<open>common\<close>: the broadcast and re-election schedule of
  block numbers (\<open>common/broadcast.go\<close>), role masks (\<open>common/role_type.go\<close>), elected roles and the
  16-bit positions of the topology (\<open>common/matrix.go\<close>), and the cache that throttles how often a
  message may be used again (\<open>common/reuse_msg.go\<close>).

  The locale \<open>interval_schedule\<close> is the contract shared by the broadcast and the re-election
  schedule; it is interpreted on both.
\<close>

section \<open>common/broadcast.go\<close>

definition broadcastInterval :: u64 where "broadcastInterval = 20"
definition reelectionInterval :: u64 where "reelectionInterval = 60"

definition IsBroadcastNumber :: "u64 \<Rightarrow> bool" where
  "IsBroadcastNumber number \<longleftrightarrow> number mod broadcastInterval = 0"

definition IsReElectionNumber :: "u64 \<Rightarrow> bool" where
  "IsReElectionNumber number \<longleftrightarrow> number mod reelectionInterval = 0"

definition GetLastBroadcastNumber :: "u64 \<Rightarrow> u64" where
  "GetLastBroadcastNumber number =
    (if IsBroadcastNumber number then number
     else (number div broadcastInterval) * broadcastInterval)"

definition GetLastReElectionNumber :: "u64 \<Rightarrow> u64" where
  "GetLastReElectionNumber number =
    (if IsReElectionNumber number then number
     else (number div reelectionInterval) * reelectionInterval)"

definition GetNextBroadcastNumber :: "u64 \<Rightarrow> u64" where
  "GetNextBroadcastNumber number =
    (if IsBroadcastNumber number then number
     else (number div broadcastInterval + 1) * broadcastInterval)"

definition GetNextReElectionNumber :: "u64 \<Rightarrow> u64" where
  "GetNextReElectionNumber number =
    (if IsReElectionNumber number then number
     else (number div reelectionInterval + 1) * reelectionInterval)"

definition GetBroadcastInterval :: u64 where "GetBroadcastInterval = broadcastInterval"
definition GetReElectionInterval :: u64 where "GetReElectionInterval = reelectionInterval"

lemmas schedule_defs = broadcastInterval_def reelectionInterval_def IsBroadcastNumber_def
  IsReElectionNumber_def GetLastBroadcastNumber_def GetLastReElectionNumber_def
  GetNextBroadcastNumber_def GetNextReElectionNumber_def

section \<open>common/role_type.go\<close>

type_synonym role_type = u32

definition RoleNil :: role_type where "RoleNil = 0x001"
definition RoleDefault :: role_type where "RoleDefault = 0x002"
definition RoleBucket :: role_type where "RoleBucket = 0x004"
definition RoleBackupMiner :: role_type where "RoleBackupMiner = 0x008"
definition RoleMiner :: role_type where "RoleMiner = 0x010"
definition RoleInnerMiner :: role_type where "RoleInnerMiner = 0x020"
definition RoleBackupValidator :: role_type where "RoleBackupValidator = 0x040"
definition RoleValidator :: role_type where "RoleValidator = 0x080"
definition RoleBackupBroadcast :: role_type where "RoleBackupBroadcast = 0x100"
definition RoleBroadcast :: role_type where "RoleBroadcast = 0x200"
definition RoleAll :: role_type where "RoleAll = 0xFFFF"

lemmas role_defs = RoleNil_def RoleDefault_def RoleBucket_def RoleBackupMiner_def RoleMiner_def
  RoleInnerMiner_def RoleBackupValidator_def RoleValidator_def RoleBackupBroadcast_def
  RoleBroadcast_def RoleAll_def

text \<open>\<open>strconv.Itoa\<close> on a non-negative number: decimal digits, most significant first.\<close>

fun itoa :: "nat \<Rightarrow> string" where
  "itoa n = (if n < 10 then [char_of (48 + n)] else itoa (n div 10) @ [char_of (48 + n mod 10)])"

declare itoa.simps [simp del]

definition RoleType_String :: "role_type \<Rightarrow> string" where
  "RoleType_String rt =
    (if rt = RoleNil then ''nil''
     else if rt = RoleDefault then ''default''
     else if rt = RoleBucket then ''bucket''
     else if rt = RoleBackupMiner then ''backup miner''
     else if rt = RoleMiner then ''miner''
     else if rt = RoleInnerMiner then ''inner miner''
     else if rt = RoleBackupValidator then ''backup validator''
     else if rt = RoleValidator then ''validator''
     else if rt = RoleBackupBroadcast then ''backup broadcast''
     else if rt = RoleBroadcast then ''broadcast''
     else itoa (unat rt))"

section \<open>common/matrix.go\<close>

type_synonym elect_role = u8

definition ElectRoleMiner :: elect_role where "ElectRoleMiner = 0x00"
definition ElectRoleMinerBackUp :: elect_role where "ElectRoleMinerBackUp = 0x01"
definition ElectRoleValidator :: elect_role where "ElectRoleValidator = 0x02"
definition ElectRoleValidatorBackUp :: elect_role where "ElectRoleValidatorBackUp = 0x03"

lemmas elect_role_defs = ElectRoleMiner_def ElectRoleMinerBackUp_def ElectRoleValidator_def
  ElectRoleValidatorBackUp_def

definition Transfer2CommonRole :: "elect_role \<Rightarrow> role_type" where
  "Transfer2CommonRole ert =
    (if ert = ElectRoleMiner then RoleMiner
     else if ert = ElectRoleMinerBackUp then RoleBackupMiner
     else if ert = ElectRoleValidator then RoleValidator
     else if ert = ElectRoleValidatorBackUp then RoleBackupValidator
     else RoleNil)"

definition GetRoleTypeFromPosition :: "u16 \<Rightarrow> role_type" where
  "GetRoleTypeFromPosition position = Transfer2CommonRole (ucast (drop_bit 12 position))"

definition GeneratePosition :: "u16 \<Rightarrow> elect_role \<Rightarrow> u16" where
  "GeneratePosition index electRole = push_bit 12 (ucast electRole) + index"

section \<open>common/reuse_msg.go\<close>

datatype reuse_error = ErrMsgExist | ErrMsgNotExist | ErrUseMsgTooOften

text \<open>The values stored are non-nil messages; the nil result of \<open>GetMsgByKey\<close> is \<^const>\<open>None\<close>.
  The clock \<open>time.Now().Unix()\<close> is the argument \<open>curTime\<close>.\<close>

record 'm msgCache =
  mc_msg :: 'm
  useTime :: int

record 'm ReuseMsgController =
  msgMap :: "(hash, 'm msgCache) gomap"
  useInterval :: int

definition NewReuseMsgController :: "int \<Rightarrow> 'm ReuseMsgController" where
  "NewReuseMsgController interval = \<lparr>msgMap = [], useInterval = interval\<rparr>"

definition IsExistMsg :: "'m ReuseMsgController \<Rightarrow> hash \<Rightarrow> bool" where
  "IsExistMsg self msgKey = map_has (msgMap self) msgKey"

definition AddMsg ::
  "'m ReuseMsgController \<Rightarrow> hash \<Rightarrow> 'm \<Rightarrow> int \<Rightarrow> 'm ReuseMsgController \<times> reuse_error option" where
  "AddMsg self msgKey msg lastUseTime =
    (if IsExistMsg self msgKey then (self, Some ErrMsgExist)
     else (self\<lparr>msgMap := map_put msgKey \<lparr>mc_msg = msg, useTime = lastUseTime\<rparr> (msgMap self)\<rparr>, None))"

definition GetMsgList ::
  "((hash \<times> 'm msgCache) list \<Rightarrow> (hash \<times> 'm msgCache) list) \<Rightarrow> 'm ReuseMsgController \<Rightarrow> 'm list" where
  "GetMsgList rng self = map (\<lambda>kv. mc_msg (snd kv)) (rng (msgMap self))"

definition GetMsgByKey :: "'m ReuseMsgController \<Rightarrow> hash \<Rightarrow> 'm option" where
  "GetMsgByKey self msgKey = map_option mc_msg (map_of (msgMap self) msgKey)"

definition ReUseMsg ::
  "int \<Rightarrow> 'm ReuseMsgController \<Rightarrow> hash \<Rightarrow> 'm ReuseMsgController \<times> (reuse_error + 'm)" where
  "ReUseMsg curTime self msgKey =
    (case map_of (msgMap self) msgKey of
       None \<Rightarrow> (self, Inl ErrMsgNotExist)
     | Some cache \<Rightarrow>
         if i64 (curTime - useTime cache) < useInterval self then (self, Inl ErrUseMsgTooOften)
         else (self\<lparr>msgMap := map_put msgKey (cache\<lparr>useTime := curTime\<rparr>) (msgMap self)\<rparr>,
               Inr (mc_msg cache)))"

section \<open>Schedules of block numbers\<close>

locale interval_schedule =
  fixes interval :: u64
    and is_number :: "u64 \<Rightarrow> bool"
    and last_number :: "u64 \<Rightarrow> u64"
    and next_number :: "u64 \<Rightarrow> u64"
  assumes interval_pos: "interval \<noteq> 0"
    and is_number: "is_number n \<longleftrightarrow> n mod interval = 0"
    and last_number: "last_number n = (n div interval) * interval"
    and next_number:
      "next_number n = (if is_number n then n else (n div interval + 1) * interval)"
begin

lemma unat_interval_pos: "0 < unat interval"
  using interval_pos by (simp add: unat_gt_0)

lemma is_number_unat: "is_number n \<longleftrightarrow> unat interval dvd unat n"
  by (simp add: is_number u64_eq_iff unat_mod_distrib dvd_eq_mod_eq_0)

lemma unat_last: "unat (last_number n) = unat n div unat interval * unat interval"
proof -
  have "unat n div unat interval * unat interval \<le> unat n" by simp
  then have p: "unat n div unat interval * unat interval < 2 ^ 64"
    using unat_u64_lt [of n] by (rule le_less_trans)
  have "unat n div unat interval < 2 ^ 64"
    using div_le_dividend unat_u64_lt [of n] by (rule le_less_trans)
  with p show ?thesis
    by (simp add: last_number unat_word_ariths)
qed

lemma last_is_number: "is_number (last_number n)"
  by (simp add: is_number_unat unat_last)

lemma last_le: "last_number n \<le> n"
  by (simp add: word_le_nat_alt unat_last)

lemma last_greatest: "is_number m \<Longrightarrow> m \<le> n \<Longrightarrow> m \<le> last_number n"
  unfolding is_number_unat word_le_nat_alt unat_last
  by (metis div_le_mono dvd_div_mult_self mult_le_mono1)

lemma last_fix: "is_number n \<Longrightarrow> last_number n = n"
  by (simp add: u64_eq_iff unat_last is_number_unat)

lemma unat_next:
  assumes "unat n + unat interval < 2 ^ 64" "\<not> is_number n"
  shows "unat (next_number n) = (unat n div unat interval + 1) * unat interval"
proof -
  have d: "unat n div unat interval * unat interval \<le> unat n" by simp
  have i: "1 \<le> unat interval" using unat_interval_pos by simp
  have q: "unat n div unat interval \<le> unat n" by simp
  have "(unat n div unat interval + 1) * unat interval < 2 ^ 64"
    using d assms(1) by (simp only: distrib_right mult_1)
  moreover have "unat n div unat interval + 1 < 2 ^ 64"
    using q i assms(1) by linarith
  ultimately show ?thesis
    using assms(2) by (simp add: next_number unat_word_ariths unat_div_distrib)
qed

lemma next_is_number:
  assumes "unat n + unat interval < 2 ^ 64"
  shows "is_number (next_number n)"
proof (cases "is_number n")
  case True then show ?thesis by (simp add: next_number)
next
  case False then show ?thesis using unat_next [OF assms] by (simp add: is_number_unat)
qed

lemma next_ge:
  assumes "unat n + unat interval < 2 ^ 64"
  shows "n \<le> next_number n"
proof (cases "is_number n")
  case True then show ?thesis by (simp add: next_number)
next
  case False
  have "unat n \<le> (unat n div unat interval + 1) * unat interval"
    using unat_interval_pos dividend_less_div_times [of "unat interval" "unat n"]
    by (simp add: algebra_simps)
  then show ?thesis by (simp only: word_le_nat_alt unat_next [OF assms False])
qed

lemma next_least:
  assumes "unat n + unat interval < 2 ^ 64" "is_number m" "n \<le> m"
  shows "next_number n \<le> m"
proof (cases "is_number n")
  case True then show ?thesis using assms by (simp add: next_number)
next
  case False
  obtain k where k: "unat m = unat interval * k"
    using assms(2) by (auto simp: is_number_unat)
  have "unat n \<le> unat interval * k" using assms(3) k by (simp add: word_le_nat_alt)
  moreover have "unat n \<noteq> unat interval * k" using False by (auto simp: is_number_unat)
  ultimately have "unat n div unat interval < k"
    using unat_interval_pos by (simp add: div_less_iff_less_mult mult.commute)
  then have "(unat n div unat interval + 1) * unat interval \<le> unat m"
    unfolding k by (metis Suc_eq_plus1 Suc_leI mult.commute mult_le_mono2)
  then show ?thesis by (simp only: word_le_nat_alt unat_next [OF assms(1) False])
qed

lemma last_next_gap:
  assumes "\<not> is_number n" "unat n + unat interval < 2 ^ 64"
  shows "unat (next_number n) = unat (last_number n) + unat interval"
  using unat_next [OF assms(2,1)] by (simp add: unat_last)

end

interpretation bcast: interval_schedule broadcastInterval IsBroadcastNumber
  GetLastBroadcastNumber GetNextBroadcastNumber
proof (unfold_locales)
  fix n :: u64
  show "GetLastBroadcastNumber n = n div broadcastInterval * broadcastInterval"
    using word_mod_div_equality [of n broadcastInterval]
    unfolding GetLastBroadcastNumber_def IsBroadcastNumber_def by (metis add.right_neutral)
qed (simp_all add: schedule_defs)

interpretation reelec: interval_schedule reelectionInterval IsReElectionNumber
  GetLastReElectionNumber GetNextReElectionNumber
proof (unfold_locales)
  fix n :: u64
  show "GetLastReElectionNumber n = n div reelectionInterval * reelectionInterval"
    using word_mod_div_equality [of n reelectionInterval]
    unfolding GetLastReElectionNumber_def IsReElectionNumber_def by (metis add.right_neutral)
qed (simp_all add: schedule_defs)

lemma reelection_is_broadcast: "IsReElectionNumber n \<Longrightarrow> IsBroadcastNumber n"
  unfolding reelec.is_number_unat bcast.is_number_unat
  by (simp add: broadcastInterval_def reelectionInterval_def) presburger

text \<open>\<open>GetLastBroadcastNumber\<close> is the greatest broadcast number not above its argument, and,
  unless 64-bit arithmetic wraps around, \<open>GetNextBroadcastNumber\<close> the least one not below it; the
  same holds for re-election numbers, and every re-election number is a broadcast number.\<close>

theorem schedule_bounds:
  assumes "unat n + 60 < 2 ^ 64"
  shows "IsBroadcastNumber (GetLastBroadcastNumber n) \<and> GetLastBroadcastNumber n \<le> n \<and>
    (\<forall>m. IsBroadcastNumber m \<and> m \<le> n \<longrightarrow> m \<le> GetLastBroadcastNumber n) \<and>
    IsBroadcastNumber (GetNextBroadcastNumber n) \<and> n \<le> GetNextBroadcastNumber n \<and>
    (\<forall>m. IsBroadcastNumber m \<and> n \<le> m \<longrightarrow> GetNextBroadcastNumber n \<le> m) \<and>
    IsReElectionNumber (GetLastReElectionNumber n) \<and> GetLastReElectionNumber n \<le> n \<and>
    (\<forall>m. IsReElectionNumber m \<and> m \<le> n \<longrightarrow> m \<le> GetLastReElectionNumber n) \<and>
    IsReElectionNumber (GetNextReElectionNumber n) \<and> n \<le> GetNextReElectionNumber n \<and>
    (\<forall>m. IsReElectionNumber m \<and> n \<le> m \<longrightarrow> GetNextReElectionNumber n \<le> m) \<and>
    (IsReElectionNumber n \<longrightarrow> IsBroadcastNumber n)"
proof -
  have b: "unat n + unat broadcastInterval < 2 ^ 64" and r: "unat n + unat reelectionInterval < 2 ^ 64"
    using assms by (simp_all add: broadcastInterval_def reelectionInterval_def)
  show ?thesis
    using bcast.last_is_number bcast.last_le bcast.last_greatest
      bcast.next_is_number [OF b] bcast.next_ge [OF b] bcast.next_least [OF b]
      reelec.last_is_number reelec.last_le reelec.last_greatest
      reelec.next_is_number [OF r] reelec.next_ge [OF r] reelec.next_least [OF r]
      reelection_is_broadcast by blast
qed

theorem schedule_bounds_witness:
  "IsBroadcastNumber (GetLastBroadcastNumber 119) \<and> GetLastBroadcastNumber 119 = 100 \<and>
   GetNextReElectionNumber 119 = 120 \<and> (119 :: u64) \<le> GetNextReElectionNumber 119"
  using schedule_bounds [of 119] by (simp add: schedule_defs)

text \<open>Near the top of the 64-bit range \<open>GetNextBroadcastNumber\<close> wraps around: of the last block
  number it is 4, which is neither larger nor a broadcast number.\<close>

theorem next_broadcast_wraps:
  "GetNextBroadcastNumber (2 ^ 64 - 1) = 4 \<and> \<not> IsBroadcastNumber 4"
  by (simp add: schedule_defs)

lemma position_unat:
  assumes "role \<le> 3" "index < 4096"
  shows "unat (GeneratePosition index role) = unat role * 4096 + unat index"
proof -
  have "unat role \<le> 3" "unat index < 4096"
    using assms by (simp_all add: word_le_nat_alt word_less_nat_alt)
  then show ?thesis
    by (simp add: GeneratePosition_def push_bit_eq_mult unat_word_ariths unsigned_ucast_eq
        take_bit_eq_mod)
qed

lemma position_role:
  assumes "role \<le> 3" "index < 4096"
  shows "ucast (drop_bit 12 (GeneratePosition index role)) = role"
proof -
  have "unat role \<le> 3" "unat index < 4096"
    using assms by (simp_all add: word_le_nat_alt word_less_nat_alt)
  then have "unat (ucast (drop_bit 12 (GeneratePosition index role)) :: u8) = unat role"
    using position_unat [OF assms]
    by (simp add: unsigned_ucast_eq take_bit_eq_mod drop_bit_eq_div unat_div_distrib)
  then show ?thesis by (simp add: unat_inj_iff)
qed

text \<open>Positions encode role and index without loss: for the four elected roles and an index below
  4096, \<open>GetRoleTypeFromPosition\<close> gives the role a position was generated for, and different
  arguments give different positions.\<close>

theorem position_roundtrip:
  assumes "role \<le> 3" "index < 4096" "role' \<le> 3" "index' < 4096"
  shows "GetRoleTypeFromPosition (GeneratePosition index role) = Transfer2CommonRole role \<and>
    (GeneratePosition index role = GeneratePosition index' role' \<longleftrightarrow> index = index' \<and> role = role')"
proof
  show "GetRoleTypeFromPosition (GeneratePosition index role) = Transfer2CommonRole role"
    using position_role [OF assms(1,2)] by (simp add: GetRoleTypeFromPosition_def)
  have "unat index < 4096" "unat index' < 4096"
    using assms by (simp_all add: word_less_nat_alt)
  then show "GeneratePosition index role = GeneratePosition index' role' \<longleftrightarrow>
      index = index' \<and> role = role'"
    using position_unat [OF assms(1,2)] position_unat [OF assms(3,4)]
      position_role [OF assms(1,2)] position_role [OF assms(3,4)]
    by (metis add_left_cancel unat_inj_iff)
qed

theorem position_roundtrip_witness:
  "GetRoleTypeFromPosition (GeneratePosition 17 ElectRoleValidator) = RoleValidator \<and>
   GeneratePosition 17 ElectRoleValidator \<noteq> GeneratePosition 17 ElectRoleValidatorBackUp"
  using position_roundtrip [of ElectRoleValidator 17 ElectRoleValidatorBackUp 17]
  by (simp add: elect_role_defs Transfer2CommonRole_def)

section \<open>Throttled use of a message\<close>

datatype 'm reuse_op = OpAdd hash 'm int | OpReuse hash int

text \<open>Running calls on a controller; the log has the key and the time of every successful use.\<close>

fun reuse_exec :: "'m ReuseMsgController \<Rightarrow> 'm reuse_op list \<Rightarrow> (hash \<times> int) list" where
  "reuse_exec c [] = []"
| "reuse_exec c (OpAdd k m t # ops) = reuse_exec (fst (AddMsg c k m t)) ops"
| "reuse_exec c (OpReuse k t # ops) =
    (case ReUseMsg t c k of
       (c', Inl e) \<Rightarrow> reuse_exec c' ops
     | (c', Inr m) \<Rightarrow> (k, t) # reuse_exec c' ops)"

fun op_time :: "'m reuse_op \<Rightarrow> int" where
  "op_time (OpAdd k m t) = t"
| "op_time (OpReuse k t) = t"

definition times_ok :: "'m ReuseMsgController \<Rightarrow> bool" where
  "times_ok c \<longleftrightarrow> 0 \<le> useInterval c \<and>
    (\<forall>k x. map_of (msgMap c) k = Some x \<longrightarrow> 0 \<le> useTime x \<and> useTime x < 2 ^ 62)"

lemma AddMsg_frame:
  "useInterval (fst (AddMsg c k m t)) = useInterval c"
  "map_of (msgMap c) k' = Some x \<Longrightarrow> map_of (msgMap (fst (AddMsg c k m t))) k' = Some x"
  by (auto simp: AddMsg_def IsExistMsg_def map_has_def)

lemma AddMsg_times: "times_ok c \<Longrightarrow> 0 \<le> t \<Longrightarrow> t < 2 ^ 62 \<Longrightarrow> times_ok (fst (AddMsg c k m t))"
  by (auto simp: times_ok_def AddMsg_def)

lemma ReUseMsg_error: "ReUseMsg t c k = (c', Inl e) \<Longrightarrow> c' = c"
  by (auto simp: ReUseMsg_def split: option.splits if_splits)

lemma ReUseMsg_use:
  assumes "ReUseMsg t c k = (c', Inr m)" "times_ok c" "0 \<le> t" "t < 2 ^ 62"
  shows "\<exists>x. map_of (msgMap c) k = Some x \<and> useTime x + useInterval c \<le> t \<and>
    map_of (msgMap c') = (map_of (msgMap c))(k \<mapsto> x\<lparr>useTime := t\<rparr>) \<and>
    useInterval c' = useInterval c \<and> times_ok c'"
proof -
  obtain x where x: "map_of (msgMap c) k = Some x"
    and le: "\<not> i64 (t - useTime x) < useInterval c"
    and c': "c' = c\<lparr>msgMap := map_put k (x\<lparr>useTime := t\<rparr>) (msgMap c)\<rparr>"
    using assms(1) by (auto simp: ReUseMsg_def split: option.splits if_splits)
  have "0 \<le> useTime x" "useTime x < 2 ^ 62" using assms(2) x by (auto simp: times_ok_def)
  then have "i64 (t - useTime x) = t - useTime x"
    using assms(3,4) by (intro i64_id) simp_all
  then show ?thesis using x le c' assms(2-4) by (auto simp: times_ok_def)
qed

lemma reuse_exec_after:
  assumes "times_ok c" "\<forall>op \<in> set ops. 0 \<le> op_time op \<and> op_time op < 2 ^ 62"
    and "map_of (msgMap c) k = Some x" "(k, t) \<in> set (reuse_exec c ops)"
  shows "useTime x + useInterval c \<le> t"
  using assms
proof (induction c ops arbitrary: x rule: reuse_exec.induct)
  case (2 c k' m t' ops)
  then have "map_of (msgMap (fst (AddMsg c k' m t'))) k = Some x"
    by (intro AddMsg_frame(2))
  with 2 show ?case using AddMsg_frame(1) [of c k' m t'] AddMsg_times [of c t' k' m] by auto
next
  case (3 c k' t' ops)
  obtain c' r where step: "ReUseMsg t' c k' = (c', r)" by fastforce
  show ?case
  proof (cases r)
    case (Inl e)
    then show ?thesis
      using 3 step ReUseMsg_error [of t' c k' c' e] by auto
  next
    case (Inr m)
    obtain y where y: "map_of (msgMap c) k' = Some y" "useTime y + useInterval c \<le> t'"
      "map_of (msgMap c') = (map_of (msgMap c))(k' \<mapsto> y\<lparr>useTime := t'\<rparr>)"
      "useInterval c' = useInterval c" "times_ok c'"
      using ReUseMsg_use [of t' c k' c' m] step Inr "3.prems"(1,2) by auto
    have int: "0 \<le> useInterval c" using "3.prems"(1) by (simp add: times_ok_def)
    consider (now) "k = k'" "t = t'" | (later) "(k, t) \<in> set (reuse_exec c' ops)"
      using "3.prems"(4) step Inr by auto
    then show ?thesis
    proof cases
      case now
      then show ?thesis using y "3.prems"(3) by simp
    next
      case later
      then show ?thesis
        using "3.IH"(2) [OF step [symmetric] Inr y(5)] "3.prems"(2,3) y int
        by (cases "k = k'") fastforce+
    qed
  qed
qed simp

lemma reuse_exec_spaced:
  assumes "times_ok c" "\<forall>op \<in> set ops. 0 \<le> op_time op \<and> op_time op < 2 ^ 62"
    and "i < j" "j < length (reuse_exec c ops)"
    and "fst (reuse_exec c ops ! i) = fst (reuse_exec c ops ! j)"
  shows "useInterval c \<le> snd (reuse_exec c ops ! j) - snd (reuse_exec c ops ! i)"
  using assms
proof (induction c ops arbitrary: i j rule: reuse_exec.induct)
  case (2 c k m t ops)
  then show ?case using AddMsg_frame(1) [of c k m t] AddMsg_times [of c t k m] by simp
next
  case (3 c k t ops)
  obtain c' r where step: "ReUseMsg t c k = (c', r)" by fastforce
  show ?case
  proof (cases r)
    case (Inl e)
    then show ?thesis using 3 step ReUseMsg_error [of t c k c' e] by simp
  next
    case (Inr m)
    obtain y where y: "map_of (msgMap c') = (map_of (msgMap c))(k \<mapsto> y\<lparr>useTime := t\<rparr>)"
      "useInterval c' = useInterval c" "times_ok c'"
      using ReUseMsg_use [of t c k c' m] step Inr "3.prems"(1,2) by auto
    obtain j' where j: "j = Suc j'" using "3.prems"(3) by (cases j) auto
    have j': "j' < length (reuse_exec c' ops)" using "3.prems"(4) step Inr j by simp
    show ?thesis
    proof (cases i)
      case 0
      have "(k, snd (reuse_exec c' ops ! j')) \<in> set (reuse_exec c' ops)"
        using "3.prems"(5) step Inr j 0 j' by (simp add: in_set_conv_nth) (metis prod.collapse)
      from reuse_exec_after [OF y(3) _ _ this] "3.prems"(2) y
      show ?thesis using step Inr j 0 by simp
    next
      case (Suc i')
      then show ?thesis
        using "3.IH"(2) [OF step [symmetric] Inr y(3) _ _ j', of i'] "3.prems" step Inr j y(2) by simp
    qed
  qed
qed simp

text \<open>A message is never used more often than the interval of its controller allows: in any run of
  additions and uses from a fresh controller, two successful uses of the same key are at
  least \<open>useInterval\<close> apart. Times are Unix times below \<open>2 ^ 62\<close>.\<close>

theorem reuse_throttled:
  assumes "0 \<le> interval" "\<forall>op \<in> set ops. 0 \<le> op_time op \<and> op_time op < 2 ^ 62"
    and "reuse_exec (NewReuseMsgController interval) ops = log"
    and "i < j" "j < length log" "fst (log ! i) = fst (log ! j)"
  shows "interval \<le> snd (log ! j) - snd (log ! i)"
  using reuse_exec_spaced [of "NewReuseMsgController interval" ops i j] assms
  by (simp add: times_ok_def NewReuseMsgController_def)

theorem reuse_throttled_witness:
  "reuse_exec (NewReuseMsgController 10) [OpAdd 1 () 0, OpReuse 1 5, OpReuse 1 12, OpReuse 1 21, OpReuse 1 23]
     = [(1, 12), (1, 23)] \<and> (10 :: int) \<le> 23 - 12"
proof -
  have run: "reuse_exec (NewReuseMsgController 10)
     [OpAdd 1 () 0, OpReuse 1 5, OpReuse 1 12, OpReuse 1 21, OpReuse 1 23] = [(1, 12), (1, 23)]"
    by (simp add: NewReuseMsgController_def AddMsg_def ReUseMsg_def IsExistMsg_def i64_def)
  then show ?thesis using reuse_throttled [OF _ _ run, of 0 1] by simp
qed

end
