(* ===== verification/Sign_Validate.thy ===== *)
theory Sign_Validate
  imports Matrix_Prelude
begin

text \<open>
  Signatures that carry a vote, \<open>crypto/signature_cgo.go\<close>. A signer who agrees signs the hash; one
  who disagrees signs the hash plus one and adds 2 to the recovery byte \<open>sig[64]\<close>. The verifier
  reads the vote back from that byte.

  The curve operations \<open>secp256k1.Sign\<close> and \<open>Ecrecover\<close> and the hash \<open>Keccak256\<close> are parameters
  of the model. A 65-byte signature is a 520-bit word, most significant byte first, so that
  \<open>sig[64]\<close> is its lowest byte. Hashes are 32 bytes by their type, so the length checks of the
  source never fail here. The slice expression \<open>msg.Bytes()[:32]\<close> panics when the big integer is
  shorter than 32 bytes; the panic is an outcome of the model.
\<close>

record crypto_env =
  Ecrecover :: "hash \<Rightarrow> signature \<Rightarrow> u8 list option"
  Keccak256 :: "u8 list \<Rightarrow> hash"

datatype verify_error = ErrEcrecover | ErrInvalidPublicKey

datatype sign_outcome =
    SignPanic
  | SignErr verify_error bool
  | SignOk address bool

definition sig64 :: "signature \<Rightarrow> u8" where
  "sig64 s = ucast s"

text \<open>\<open>big.Int.Bytes()[:32]\<close>: the minimal big-endian bytes of a number, cut to their first 32.
  The slice has no spare capacity, so a shorter one makes the expression panic.\<close>

definition big_bytes32 :: "nat \<Rightarrow> hash option" where
  "big_bytes32 m =
    (if m < 2 ^ 248 then None
     else if m < 2 ^ 256 then Some (of_nat m)
     else Some (of_nat (m div 2 ^ 8)))"

text \<open>The hash that is really signed: the hash itself for an agreeing vote, its successor
  for a disagreeing one. Only arguments up to \<open>2 ^ 256\<close> occur.\<close>

definition vote_hash :: "hash \<Rightarrow> bool \<Rightarrow> hash option" where
  "vote_hash h validate = (if validate then Some h else big_bytes32 (unat h + 1))"

definition SignWithValidate ::
  "(hash \<Rightarrow> 'sk \<Rightarrow> signature option) \<Rightarrow> hash \<Rightarrow> bool \<Rightarrow> 'sk \<Rightarrow> signature option option" where
  "SignWithValidate Sign h validate prv =
    (case vote_hash h validate of
       None \<Rightarrow> None
     | Some h' \<Rightarrow>
         (case Sign h' prv of
            None \<Rightarrow> Some None
          | Some sig \<Rightarrow>
              if validate then Some (Some sig)
              else Some (Some (sig - ucast (sig64 sig) + ucast (sig64 sig + 2)))))"

definition pubkey_address :: "crypto_env \<Rightarrow> u8 list \<Rightarrow> address" where
  "pubkey_address ec pub = ucast (Keccak256 ec (tl pub))"

definition VerifySignWithValidate :: "crypto_env \<Rightarrow> hash \<Rightarrow> signature \<Rightarrow> sign_outcome" where
  "VerifySignWithValidate ec sighash sig =
    (let validate = (sig64 sig < 2);
         sig' = (if validate then sig else sig - 2)
     in case vote_hash sighash validate of
          None \<Rightarrow> SignPanic
        | Some h \<Rightarrow>
            (case Ecrecover ec h sig' of
               None \<Rightarrow> SignErr ErrEcrecover validate
             | Some pub \<Rightarrow>
                 if pub = [] \<or> hd pub \<noteq> 4 then SignErr ErrInvalidPublicKey validate
                 else SignOk (pubkey_address ec pub) validate))"

section \<open>Signing and verifying\<close>

lemma vote_hash_None: "vote_hash h validate = None \<longleftrightarrow> \<not> validate \<and> unat h + 1 < 2 ^ 248"
  by (auto simp: vote_hash_def big_bytes32_def)

lemma verify_panic_iff:
  "VerifySignWithValidate ec h sig = SignPanic \<longleftrightarrow> 2 \<le> sig64 sig \<and> unat h + 1 < 2 ^ 248"
proof -
  have "VerifySignWithValidate ec h sig = SignPanic \<longleftrightarrow> vote_hash h (sig64 sig < 2) = None"
    by (simp add: VerifySignWithValidate_def Let_def split: option.splits)
  then show ?thesis by (auto simp: vote_hash_None)
qed

lemma verify_vote: "VerifySignWithValidate ec h sig = SignOk a v \<Longrightarrow> v \<longleftrightarrow> sig64 sig < 2"
  by (auto simp: VerifySignWithValidate_def Let_def split: option.splits if_splits)

lemma sig64_unat: "unat (sig64 s) = unat s mod 256"
  by (simp add: sig64_def unsigned_ucast_eq take_bit_eq_mod)

text \<open>Adding 2 to the lowest byte of a signature whose recovery byte is 0 or 1.\<close>

lemma recovery_byte_add:
  assumes "sig64 s < 2"
  shows "s - ucast (sig64 s) + ucast (sig64 s + 2) = s + 2" (is ?sum)
    and "sig64 (s + 2) = sig64 s + 2"
proof -
  have lt: "unat (sig64 s) < 2" using assms by (simp add: word_less_nat_alt)
  have "(ucast (sig64 s + 2) :: signature) = ucast (sig64 s) + 2"
    by (rule word_unat_eq_iff [THEN iffD2])
      (use lt in \<open>simp add: unsigned_ucast_eq take_bit_eq_mod unat_word_ariths\<close>)
  then show ?sum by simp
  show "sig64 (s + 2) = sig64 s + 2"
    by (rule word_unat_eq_iff [THEN iffD2])
      (simp add: sig64_unat unat_word_ariths mod_mod_cancel mod_Suc_Suc_eq)
qed

lemma sign_shape:
  assumes "SignWithValidate Sign h validate prv = Some (Some sig)"
  obtains h' s where "vote_hash h validate = Some h'" "Sign h' prv = Some s"
    "sig64 s < 2 \<longrightarrow> sig = (if validate then s else s + 2)"
proof -
  obtain h' where h': "vote_hash h validate = Some h'"
    using assms by (cases "vote_hash h validate") (auto simp: SignWithValidate_def)
  moreover obtain s where s: "Sign h' prv = Some s"
    using assms h' by (cases "Sign h' prv") (auto simp: SignWithValidate_def)
  moreover have "sig64 s < 2 \<longrightarrow> sig = (if validate then s else s + 2)"
    using assms h' s by (auto simp: SignWithValidate_def recovery_byte_add)
  ultimately show ?thesis by (rule that)
qed

lemma sig64_disagree: "sig64 s < 2 \<Longrightarrow> \<not> sig64 s + 2 < 2"
  by (auto simp: word_less_nat_alt unat_word_ariths)

text \<open>A signature made by \<open>SignWithValidate\<close> is verified by \<open>VerifySignWithValidate\<close> over the
  same hash: the recovered account is the signer's and the recovered vote is the one signed, for
  agreeing and disagreeing votes alike. The hypotheses are the documented behaviour of
  secp256k1: the recovery byte of a fresh signature is 0 or 1, and \<open>Ecrecover\<close> returns the
  uncompressed public key of the signer.\<close>

theorem sign_verify_roundtrip:
  assumes recid: "\<And>h s. Sign h prv = Some s \<Longrightarrow> sig64 s < 2"
    and recover: "\<And>h s. Sign h prv = Some s \<Longrightarrow> Ecrecover ec h s = Some (4 # pub)"
    and sign: "SignWithValidate Sign h validate prv = Some (Some sig)"
  shows "VerifySignWithValidate ec h sig = SignOk (pubkey_address ec (4 # pub)) validate"
proof -
  obtain h' s where h': "vote_hash h validate = Some h'" and s: "Sign h' prv = Some s"
    and sig: "sig64 s < 2 \<longrightarrow> sig = (if validate then s else s + 2)"
    using sign by (rule sign_shape)
  have "(sig64 sig < 2) = validate" "(if validate then sig else sig - 2) = s"
    using sig recid [OF s] recovery_byte_add [of s] sig64_disagree [of s] by auto
  then show ?thesis
    using h' recover [OF s] by (simp add: VerifySignWithValidate_def Let_def)
qed

theorem sign_verify_roundtrip_witness:
  "VerifySignWithValidate \<lparr>Ecrecover = \<lambda>h s. Some [4, 7], Keccak256 = \<lambda>b. of_nat (length b)\<rparr>
     (2 ^ 250) 2 = SignOk 1 False"
  using sign_verify_roundtrip [of "\<lambda>h (k :: unit). Some 0" "()"
    "\<lparr>Ecrecover = \<lambda>h s. Some [4, 7], Keccak256 = \<lambda>b. of_nat (length b)\<rparr>" "[7]" "2 ^ 250" False 2]
  by (simp add: SignWithValidate_def vote_hash_def big_bytes32_def sig64_def pubkey_address_def)

text \<open>A disagreeing vote makes both signing and verifying panic exactly when the hash plus one is
  shorter than 32 bytes, that is when the hash is below \<open>2 ^ 248 - 1\<close>; an agreeing vote never
  panics.\<close>

theorem disagree_panics_on_short_hash:
  "(SignWithValidate Sign h validate prv = None \<longleftrightarrow> \<not> validate \<and> unat h + 1 < 2 ^ 248) \<and>
   (VerifySignWithValidate ec h sig = SignPanic \<longleftrightarrow> 2 \<le> sig64 sig \<and> unat h + 1 < 2 ^ 248)"
proof
  have "SignWithValidate Sign h validate prv = None \<longleftrightarrow> vote_hash h validate = None"
    by (simp add: SignWithValidate_def split: option.splits)
  then show "SignWithValidate Sign h validate prv = None \<longleftrightarrow> \<not> validate \<and> unat h + 1 < 2 ^ 248"
    by (simp add: vote_hash_None)
qed (rule verify_panic_iff)

end
