(* ===== verification/Block_Types.thy ===== *)
theory Block_Types
  imports Chain_Schedule Sign_Validate
begin

text \<open>
  The block header and the data it carries: \<open>VerifiedSign\<close>, \<open>Elect\<close> and \<open>NetTopology\<close> of
  \<open>common/types.go\<close>, \<open>Header\<close> and its hashes of \<open>core/types/block.go\<close>, and the topology graph types
  of \<open>mc/msgdef.go\<close>.

  A hash of a header is the Keccak hash of the RLP encoding of a list of its fields. The model makes
  that list explicit as a value of type \<open>rlp_val\<close>; the composition of encoding and Keccak is the
  parameter \<open>rlpHash\<close>. The big integers of a header are non-nil and non-negative, as those of a
  decoded header are.
\<close>

section \<open>common/types.go\<close>

record VerifiedSign =
  vs_Sign :: signature
  vs_Account :: address
  vs_Validate :: bool
  vs_Stock :: u16

record Elect =
  el_Account :: address
  el_Stock :: u16
  el_Type :: elect_role

definition PosOffline :: u16 where "PosOffline = 0xF000"
definition PosOnline :: u16 where "PosOnline = 0xF001"

record NetTopologyData =
  nd_Account :: address
  nd_Position :: u16

definition NetTopoTypeAll :: u8 where "NetTopoTypeAll = 0"
definition NetTopoTypeChange :: u8 where "NetTopoTypeChange = 1"

record NetTopology =
  nt_Type :: u8
  nt_Data :: "NetTopologyData list"

lemmas topo_const_defs = PosOffline_def PosOnline_def NetTopoTypeAll_def NetTopoTypeChange_def

section \<open>core/types/block.go\<close>

record Header =
  h_ParentHash :: hash
  h_UncleHash :: hash
  h_Leader :: address
  h_Coinbase :: address
  h_Root :: hash
  h_TxHash :: hash
  h_ReceiptHash :: hash
  h_Bloom :: "2048 word"
  h_Difficulty :: nat
  h_Number :: nat
  h_GasLimit :: u64
  h_GasUsed :: u64
  h_Time :: nat
  h_Elect :: "Elect list"
  h_NetTopology :: NetTopology
  h_Signatures :: "signature list"
  h_Extra :: "u8 list"
  h_MixDigest :: hash
  h_Nonce :: u64
  h_Version :: "u8 list"

text \<open>\<open>header.Number.Uint64()\<close>\<close>

definition header_number :: "Header \<Rightarrow> u64" where
  "header_number h = of_nat (h_Number h)"

datatype rlp_val =
    VHash hash
  | VAddr address
  | VSig signature
  | VBloom "2048 word"
  | VNonce u64
  | VUint nat
  | VBytes "u8 list"
  | VList "rlp_val list"
  | VInt int

text \<open>\<open>RlpHash\<close>: the hash of what \<open>rlp.Encode\<close> writes. The encoder finds no writer for a type that
  contains a signed integer (\<^const>\<open>VInt\<close>); it then writes nothing, the error is dropped, and the hash is
  the Keccak hash of the empty input.\<close>

fun rlp_serializable :: "rlp_val \<Rightarrow> bool" where
  "rlp_serializable (VInt i) = False"
| "rlp_serializable (VList vs) = list_all rlp_serializable vs"
| "rlp_serializable v = True"

definition emptyKeccak :: hash where
  "emptyKeccak = 0xc5d2460186f7233c927e7db2dcc703c0e500b653ca82273b7bfad8045d85a470"

definition RlpHash :: "(rlp_val \<Rightarrow> hash) \<Rightarrow> rlp_val \<Rightarrow> hash" where
  "RlpHash rlpHash v = (if rlp_serializable v then rlpHash v else emptyKeccak)"

definition rlp_Elect :: "Elect \<Rightarrow> rlp_val" where
  "rlp_Elect e = VList [VAddr (el_Account e), VUint (unat (el_Stock e)), VUint (unat (el_Type e))]"

definition rlp_NetTopology :: "NetTopology \<Rightarrow> rlp_val" where
  "rlp_NetTopology t =
    VList [VUint (unat (nt_Type t)),
           VList (map (\<lambda>d. VList [VAddr (nd_Account d), VUint (unat (nd_Position d))]) (nt_Data t))]"

definition rlp_Header :: "Header \<Rightarrow> rlp_val" where
  "rlp_Header h = VList
    [VHash (h_ParentHash h), VHash (h_UncleHash h), VAddr (h_Leader h), VAddr (h_Coinbase h),
     VHash (h_Root h), VHash (h_TxHash h), VHash (h_ReceiptHash h), VBloom (h_Bloom h),
     VUint (h_Difficulty h), VUint (h_Number h), VUint (unat (h_GasLimit h)),
     VUint (unat (h_GasUsed h)), VUint (h_Time h), VList (map rlp_Elect (h_Elect h)),
     rlp_NetTopology (h_NetTopology h), VList (map VSig (h_Signatures h)), VBytes (h_Extra h),
     VHash (h_MixDigest h), VNonce (h_Nonce h), VBytes (h_Version h)]"

definition Header_Hash :: "(rlp_val \<Rightarrow> hash) \<Rightarrow> Header \<Rightarrow> hash" where
  "Header_Hash rlpHash h = rlpHash (rlp_Header h)"

definition HashNoNonce :: "(rlp_val \<Rightarrow> hash) \<Rightarrow> Header \<Rightarrow> hash" where
  "HashNoNonce rlpHash h = rlpHash (VList
    [VHash (h_ParentHash h), VHash (h_UncleHash h), VAddr (h_Leader h),
     VHash (h_Root h), VHash (h_TxHash h), VHash (h_ReceiptHash h), VBloom (h_Bloom h),
     VUint (h_Difficulty h), VUint (h_Number h), VUint (unat (h_GasLimit h)),
     VUint (unat (h_GasUsed h)), VUint (h_Time h), VList (map rlp_Elect (h_Elect h)),
     rlp_NetTopology (h_NetTopology h), VList (map VSig (h_Signatures h)), VBytes (h_Extra h),
     VBytes (h_Version h)])"

definition sign_fields :: "Header \<Rightarrow> rlp_val" where
  "sign_fields h = VList
    [VHash (h_ParentHash h), VHash (h_UncleHash h), VAddr (h_Leader h),
     VHash (h_Root h), VHash (h_TxHash h), VHash (h_ReceiptHash h), VBloom (h_Bloom h),
     VUint (h_Difficulty h), VUint (h_Number h), VUint (unat (h_GasLimit h)),
     VUint (unat (h_GasUsed h)), VUint (h_Time h), VList (map rlp_Elect (h_Elect h)),
     rlp_NetTopology (h_NetTopology h), VBytes (h_Extra h), VBytes (h_Version h)]"

definition HashNoSignsAndNonce :: "(rlp_val \<Rightarrow> hash) \<Rightarrow> Header \<Rightarrow> hash" where
  "HashNoSignsAndNonce rlpHash h = rlpHash (sign_fields h)"

text \<open>\<open>SignAccounts\<close>: the map from signature to signer of the agreeing signatures. \<^const>\<open>None\<close> is
  the panic of the signature check.\<close>

fun sign_accounts_loop ::
  "crypto_env \<Rightarrow> hash \<Rightarrow> (signature, address) gomap \<Rightarrow> signature list \<Rightarrow>
   (signature, address) gomap option" where
  "sign_accounts_loop ec h accounts [] = Some accounts"
| "sign_accounts_loop ec h accounts (sign # signs) =
    (case VerifySignWithValidate ec h sign of
       SignPanic \<Rightarrow> None
     | SignErr e v \<Rightarrow> sign_accounts_loop ec h accounts signs
     | SignOk account validate \<Rightarrow>
         if validate then sign_accounts_loop ec h (map_put sign account accounts) signs
         else sign_accounts_loop ec h accounts signs)"

definition SignAccounts ::
  "crypto_env \<Rightarrow> (rlp_val \<Rightarrow> hash) \<Rightarrow> Header \<Rightarrow> (signature, address) gomap option" where
  "SignAccounts ec rlpHash h =
    sign_accounts_loop ec (HashNoSignsAndNonce rlpHash h) [] (h_Signatures h)"

definition IsBroadcastHeader :: "Header \<Rightarrow> bool" where
  "IsBroadcastHeader h = IsBroadcastNumber (header_number h)"

definition IsReElectionHeader :: "Header \<Rightarrow> bool" where
  "IsReElectionHeader h = IsReElectionNumber (header_number h)"

section \<open>mc/msgdef.go\<close>

record TopologyNodeInfo =
  tn_Account :: address
  tn_Position :: u16
  tn_Type :: role_type
  tn_Stock :: u16
  tn_NodeNumber :: u8

record TopologyGraph =
  tg_Number :: u64
  tg_NodeList :: "TopologyNodeInfo list"
  tg_CurNodeNumber :: u8

section \<open>What a header hash covers\<close>

text \<open>Signatures are collected, and the seal is filled in, after the signed hash is fixed.\<close>

lemma sign_hash_frame [simp]:
  "HashNoSignsAndNonce r (h\<lparr>h_Signatures := s\<rparr>) = HashNoSignsAndNonce r h"
  "HashNoSignsAndNonce r (h\<lparr>h_Nonce := n\<rparr>) = HashNoSignsAndNonce r h"
  "HashNoSignsAndNonce r (h\<lparr>h_MixDigest := d\<rparr>) = HashNoSignsAndNonce r h"
  "HashNoSignsAndNonce r (h\<lparr>h_Coinbase := c\<rparr>) = HashNoSignsAndNonce r h"
  by (simp_all add: HashNoSignsAndNonce_def sign_fields_def)

lemma pow_hash_frame [simp]:
  "HashNoNonce r (h\<lparr>h_Nonce := n\<rparr>) = HashNoNonce r h"
  "HashNoNonce r (h\<lparr>h_MixDigest := d\<rparr>) = HashNoNonce r h"
  "HashNoNonce r (h\<lparr>h_Coinbase := c\<rparr>) = HashNoNonce r h"
  by (simp_all add: HashNoNonce_def)

lemma rlp_Elect_inj: "rlp_Elect x = rlp_Elect y \<longleftrightarrow> x = y"
  by (cases x; cases y) (auto simp: rlp_Elect_def unat_inj_iff)

lemma map_rlp_Elect_inj: "map rlp_Elect xs = map rlp_Elect ys \<longleftrightarrow> xs = ys"
  by (rule inj_map_eq_map) (auto intro: injI simp: rlp_Elect_inj)

lemma nd_eq_iff:
  "x = y \<longleftrightarrow> nd_Account x = nd_Account y \<and> nd_Position x = nd_Position (y :: NetTopologyData)"
  by (cases x; cases y) simp

lemma rlp_NetTopology_inj: "rlp_NetTopology x = rlp_NetTopology y \<longleftrightarrow> x = y"
proof -
  have "inj (\<lambda>d :: NetTopologyData. VList [VAddr (nd_Account d), VUint (unat (nd_Position d))])"
    by (rule injI) (simp add: unat_inj_iff nd_eq_iff)
  then show ?thesis
    by (cases x; cases y) (auto simp: rlp_NetTopology_def unat_inj_iff inj_map_eq_map)
qed

lemma map_VSig_inj: "map VSig xs = map VSig ys \<longleftrightarrow> xs = ys"
  by (rule inj_map_eq_map) (auto intro: injI)

definition agree_account :: "crypto_env \<Rightarrow> hash \<Rightarrow> signature \<Rightarrow> address option" where
  "agree_account ec h s =
    (case VerifySignWithValidate ec h s of SignOk a v \<Rightarrow> if v then Some a else None | _ \<Rightarrow> None)"

lemma agree_account_Some:
  "agree_account ec h s = Some a \<longleftrightarrow> VerifySignWithValidate ec h s = SignOk a True"
  by (auto simp: agree_account_def split: sign_outcome.splits)

lemma sign_accounts_loop_char:
  assumes "sign_accounts_loop ec h acc signs = Some m"
  shows "map_of m s =
    (if s \<in> set signs \<and> agree_account ec h s \<noteq> None then agree_account ec h s else map_of acc s)"
  using assms
proof (induction ec h acc signs rule: sign_accounts_loop.induct)
  case (2 ec h acc sign signs)
  show ?case
  proof (cases "VerifySignWithValidate ec h sign")
    case SignPanic then show ?thesis using "2.prems" by simp
  next
    case (SignErr e v)
    then show ?thesis using "2.IH"(1) "2.prems" by (auto simp: agree_account_def)
  next
    case (SignOk b v)
    then show ?thesis
      using "2.IH"(2,3) "2.prems" by (cases v) (auto simp: agree_account_def)
  qed
qed simp

text \<open>A header with every field zero, for concrete runs.\<close>

definition zero_header :: Header where
  "zero_header = \<lparr>h_ParentHash = 0, h_UncleHash = 0, h_Leader = 0, h_Coinbase = 0, h_Root = 0,
    h_TxHash = 0, h_ReceiptHash = 0, h_Bloom = 0, h_Difficulty = 0, h_Number = 0, h_GasLimit = 0,
    h_GasUsed = 0, h_Time = 0, h_Elect = [], h_NetTopology = \<lparr>nt_Type = 0, nt_Data = []\<rparr>,
    h_Signatures = [], h_Extra = [], h_MixDigest = 0, h_Nonce = 0, h_Version = []\<rparr>"

text \<open>\<open>SignAccounts\<close> of a header maps exactly those signatures of the header that verify over its
  signed hash as agreeing votes, each to its signer.\<close>

theorem SignAccounts_exact:
  assumes "SignAccounts ec rlpHash h = Some m"
  shows "map_of m s = Some a \<longleftrightarrow>
    s \<in> set (h_Signatures h) \<and>
    VerifySignWithValidate ec (HashNoSignsAndNonce rlpHash h) s = SignOk a True"
  using sign_accounts_loop_char [OF assms [unfolded SignAccounts_def], of s]
  by (auto simp: agree_account_Some)

theorem SignAccounts_exact_witness:
  "\<exists>m. SignAccounts \<lparr>Ecrecover = \<lambda>h s. Some [4, 7], Keccak256 = \<lambda>b. 9\<rparr> (\<lambda>v. 2 ^ 250)
      (zero_header\<lparr>h_Signatures := [0x100, 0x202]\<rparr>) = Some m \<and>
    map_of m 0x100 = Some 9 \<and> map_of m 0x202 \<noteq> Some 9"
proof -
  let ?ec = "\<lparr>Ecrecover = \<lambda>h s. Some [4, 7], Keccak256 = \<lambda>b. 9\<rparr>"
  let ?h = "zero_header\<lparr>h_Signatures := [0x100, 0x202]\<rparr>"
  obtain m where m: "SignAccounts ?ec (\<lambda>v. 2 ^ 250) ?h = Some m"
    by (simp add: SignAccounts_def VerifySignWithValidate_def HashNoSignsAndNonce_def sig64_def
        vote_hash_def big_bytes32_def)
  show ?thesis
    using m SignAccounts_exact [OF m, of "0x100" 9] SignAccounts_exact [OF m, of "0x202" 9]
    by (simp add: VerifySignWithValidate_def HashNoSignsAndNonce_def sig64_def
        vote_hash_def big_bytes32_def pubkey_address_def)
qed

text \<open>The value hashed by \<open>HashNoSignsAndNonce\<close> fixes every field of the header but the
  signatures, the coinbase, the mix digest and the nonce, and does not depend on those four: it is
  the same for two headers exactly when they agree on the other sixteen fields.\<close>

theorem sign_fields_cover:
  "sign_fields h = sign_fields h' \<longleftrightarrow>
    h\<lparr>h_Signatures := [], h_Coinbase := 0, h_MixDigest := 0, h_Nonce := 0\<rparr> =
    h'\<lparr>h_Signatures := [], h_Coinbase := 0, h_MixDigest := 0, h_Nonce := 0\<rparr>"
  by (cases h; cases h')
     (simp add: sign_fields_def unat_inj_iff map_rlp_Elect_inj rlp_NetTopology_inj)

end
