(* ===== verification/Rlp_Bytes.thy ===== *)
theory Rlp_Bytes
  imports Block_Types
begin

text \<open>
  Bytes of integers, the base of the RLP encoding: \<open>putint\<close>, \<open>intsize\<close>, \<open>headsize\<close> and
  \<open>puthead\<close> of \<open>rlp/encode.go\<close>, the big-endian bytes of a \<open>big.Int\<close>, and \<open>readSize\<close> of
  \<open>rlp/raw.go\<close>. Lengths and offsets of byte slices (Go's \<open>int\<close>) are natural numbers, the values
  the code converts to \<open>uint64\<close> are 64-bit words.

  Every integer of the encoding is its shortest big-endian byte string. \<open>big_Bytes\<close> is that
  string for a natural number and \<open>bytes_nat\<close> the number of a string; the lemmas show that they
  are inverse on strings without leading zero and that the unrolled shifts of \<open>putint\<close> and
  \<open>readSize\<close> compute them.
\<close>

unbundle bit_operations_syntax

type_synonym bytes = "u8 list"

section \<open>Big-endian bytes\<close>

text \<open>\<open>big.Int.Bytes\<close> and \<open>big.Int.SetBytes\<close> on non-negative integers.\<close>

fun big_Bytes :: "nat \<Rightarrow> bytes" where
  "big_Bytes n = (if n = 0 then [] else big_Bytes (n div 256) @ [of_nat n])"

declare big_Bytes.simps [simp del]

definition bytes_nat :: "bytes \<Rightarrow> nat" where
  "bytes_nat bs = foldl (\<lambda>n b. n * 256 + unat b) 0 bs"

text \<open>\<open>putint\<close>: the bytes it writes to the buffer; the size it returns is their number.\<close>

definition byte_at :: "u64 \<Rightarrow> nat \<Rightarrow> u8" where
  "byte_at i k = ucast (drop_bit k i)"

definition putint :: "u64 \<Rightarrow> bytes" where
  "putint i =
    (if i < 0x100 then [byte_at i 0]
     else if i < 0x10000 then [byte_at i 8, byte_at i 0]
     else if i < 0x1000000 then [byte_at i 16, byte_at i 8, byte_at i 0]
     else if i < 0x100000000 then [byte_at i 24, byte_at i 16, byte_at i 8, byte_at i 0]
     else if i < 0x10000000000 then
       [byte_at i 32, byte_at i 24, byte_at i 16, byte_at i 8, byte_at i 0]
     else if i < 0x1000000000000 then
       [byte_at i 40, byte_at i 32, byte_at i 24, byte_at i 16, byte_at i 8, byte_at i 0]
     else if i < 0x100000000000000 then
       [byte_at i 48, byte_at i 40, byte_at i 32, byte_at i 24, byte_at i 16, byte_at i 8, byte_at i 0]
     else
       [byte_at i 56, byte_at i 48, byte_at i 40, byte_at i 32, byte_at i 24, byte_at i 16,
        byte_at i 8, byte_at i 0])"

lemma unat_drop_bit_u64: "unat (drop_bit k (i :: u64)) = unat i div 2 ^ k"
  by (subst unat_drop_bit_eq) (rule drop_bit_eq_div)

function intsize :: "u64 \<Rightarrow> nat" where
  "intsize i = (let i' = drop_bit 8 i in if i' = 0 then 1 else Suc (intsize i'))"
  by auto
termination
proof (relation "measure unat", simp)
  fix i i' :: u64
  assume i': "i' = drop_bit 8 i" "i' \<noteq> 0"
  then have "unat i' = unat i div 2 ^ 8" by (simp only: unat_drop_bit_u64)
  moreover have "0 < unat i'" using i'(2) by (simp add: unat_gt_0)
  ultimately show "(i', i) \<in> measure unat" by simp
qed

declare intsize.simps [simp del]

definition headsize :: "u64 \<Rightarrow> nat" where
  "headsize sz = (if sz < 56 then 1 else 1 + intsize sz)"

definition puthead :: "u8 \<Rightarrow> u8 \<Rightarrow> u64 \<Rightarrow> bytes" where
  "puthead smalltag largetag sz =
    (if sz < 56 then [smalltag + ucast sz]
     else (largetag + of_nat (length (putint sz))) # putint sz)"

text \<open>The errors of the package, and the two errors of package \<open>io\<close> it returns. The formatted errors
  are \<open>NotSerializable\<close> (no writer for a type), \<open>NegativeBigInt\<close>, \<open>InvalidBool\<close>, \<open>BadStructTag\<close>,
  \<open>ErrDecode\<close> (a \<open>decodeError\<close>, by its message; the type and the path it names are left out) and
  \<open>TypeMismatch\<close>, the value of the model on a pair of a type and a value of another type, which the
  type system of Go excludes.\<close>

datatype decode_msg =
    NonCanonicalInteger | NonCanonicalSize | ExpectedInputList | ExpectedInputString
  | InputStringTooLong | InputStringTooShort | ListTooManyElements | ListTooFewElements
  | TooFewElements

datatype rlp_err =
    EOL | ErrExpectedString | ErrExpectedList | ErrCanonInt | ErrCanonSize | ErrElemTooLarge
  | ErrValueTooLarge | ErrMoreThanOneValue | errNotInList | errNotAtEOL | errUintOverflow
  | ErrEOF | ErrUnexpectedEOF | NotSerializable | NegativeBigInt | InvalidBool u64 | BadStructTag
  | ErrDecode decode_msg | TypeMismatch

text \<open>\<open>readSize\<close>: the size that follows a long tag. Its callers pass lengths from 1 to 8.\<close>

definition shl_byte :: "u8 \<Rightarrow> nat \<Rightarrow> u64" where
  "shl_byte b k = push_bit k (ucast b)"

definition readSize_value :: "bytes \<Rightarrow> u8 \<Rightarrow> u64" where
  "readSize_value b slen =
    (if slen = 1 then ucast (b ! 0)
     else if slen = 2 then shl_byte (b ! 0) 8 OR ucast (b ! 1)
     else if slen = 3 then shl_byte (b ! 0) 16 OR shl_byte (b ! 1) 8 OR ucast (b ! 2)
     else if slen = 4 then
       shl_byte (b ! 0) 24 OR shl_byte (b ! 1) 16 OR shl_byte (b ! 2) 8 OR ucast (b ! 3)
     else if slen = 5 then
       shl_byte (b ! 0) 32 OR shl_byte (b ! 1) 24 OR shl_byte (b ! 2) 16 OR shl_byte (b ! 3) 8 OR
       ucast (b ! 4)
     else if slen = 6 then
       shl_byte (b ! 0) 40 OR shl_byte (b ! 1) 32 OR shl_byte (b ! 2) 24 OR shl_byte (b ! 3) 16 OR
       shl_byte (b ! 4) 8 OR ucast (b ! 5)
     else if slen = 7 then
       shl_byte (b ! 0) 48 OR shl_byte (b ! 1) 40 OR shl_byte (b ! 2) 32 OR shl_byte (b ! 3) 24 OR
       shl_byte (b ! 4) 16 OR shl_byte (b ! 5) 8 OR ucast (b ! 6)
     else if slen = 8 then
       shl_byte (b ! 0) 56 OR shl_byte (b ! 1) 48 OR shl_byte (b ! 2) 40 OR shl_byte (b ! 3) 32 OR
       shl_byte (b ! 4) 24 OR shl_byte (b ! 5) 16 OR shl_byte (b ! 6) 8 OR ucast (b ! 7)
     else 0)"

definition readSize :: "bytes \<Rightarrow> u8 \<Rightarrow> rlp_err + u64" where
  "readSize b slen =
    (if unat slen > length b then Inl ErrUnexpectedEOF
     else
       let s = readSize_value b slen in
       if s < 56 \<or> b ! 0 = 0 then Inl ErrCanonSize else Inr s)"

section \<open>The bytes of a number\<close>

lemma big_Bytes_0 [simp]: "big_Bytes 0 = []"
  by (simp add: big_Bytes.simps)

lemma big_Bytes_pos: "0 < n \<Longrightarrow> big_Bytes n = big_Bytes (n div 256) @ [of_nat n]"
  by (subst big_Bytes.simps) simp

lemma big_Bytes_Nil_iff [simp]: "big_Bytes n = [] \<longleftrightarrow> n = 0"
  by (subst big_Bytes.simps) simp

lemma bytes_nat_Nil [simp]: "bytes_nat [] = 0"
  by (simp add: bytes_nat_def)

lemma bytes_nat_snoc [simp]: "bytes_nat (bs @ [b]) = bytes_nat bs * 256 + unat b"
  by (simp add: bytes_nat_def)

lemma unat_u8_lt [simp]: "unat (b :: u8) < 256"
  using unsigned_less [of b] by simp

lemma unat_of_nat_u8: "unat (of_nat n :: u8) = n mod 256"
  by (simp add: unat_of_nat)

lemma unat_ucast_u8: "unat (ucast (i :: u64) :: u8) = unat i mod 256"
  using unat_of_nat_u8 [of "unat i"] by (simp only: of_nat_unat)

lemma bytes_nat_big_Bytes [simp]: "bytes_nat (big_Bytes n) = n"
proof (induction n rule: big_Bytes.induct)
  case (1 n)
  then show ?case
    by (cases "n = 0") (simp_all add: big_Bytes_pos unat_of_nat_u8)
qed

lemma bytes_nat_single [simp]: "bytes_nat [b] = unat b"
  by (simp add: bytes_nat_def)

lemma bytes_nat_Cons: "bytes_nat (b # bs) = unat b * 256 ^ length bs + bytes_nat bs"
proof (induction bs rule: rev_induct)
  case (snoc x xs)
  have "bytes_nat (b # xs @ [x]) = bytes_nat (b # xs) * 256 + unat x"
    using bytes_nat_snoc [of "b # xs" x] by simp
  then show ?case using snoc by (simp add: algebra_simps)
qed simp

lemma bytes_nat_less: "bytes_nat bs < 256 ^ length bs"
proof (induction bs)
  case (Cons b bs)
  have "bytes_nat (b # bs) < (unat b + 1) * 256 ^ length bs"
    using Cons by (simp add: bytes_nat_Cons)
  also have "\<dots> \<le> 256 * 256 ^ length bs"
    using unat_u8_lt [of b] by (intro mult_le_mono1) linarith
  finally show ?case by simp
qed simp

lemma bytes_nat_ge: "b \<noteq> 0 \<Longrightarrow> 256 ^ length bs \<le> bytes_nat (b # bs)"
proof -
  assume "b \<noteq> 0"
  then have "1 \<le> unat b" by (simp add: Suc_le_eq unat_gt_0)
  then have "1 * 256 ^ length bs \<le> unat b * 256 ^ length bs" by (rule mult_le_mono1)
  then show "256 ^ length bs \<le> bytes_nat (b # bs)" unfolding bytes_nat_Cons by linarith
qed

lemma bytes_nat_0_iff: "bytes_nat bs = 0 \<longleftrightarrow> set bs \<subseteq> {0}"
  by (induction bs) (auto simp: bytes_nat_Cons unat_eq_zero)

text \<open>A string without leading zero byte is the shortest one of its number.\<close>

lemma big_Bytes_bytes_nat: "bs = [] \<or> List.hd bs \<noteq> 0 \<Longrightarrow> big_Bytes (bytes_nat bs) = bs"
proof (induction bs rule: rev_induct)
  case (snoc x xs)
  have nz: "0 < bytes_nat (xs @ [x])"
    using snoc.prems by (cases "xs @ [x]") (auto simp: bytes_nat_Cons unat_gt_0)
  have hd: "xs = [] \<or> List.hd xs \<noteq> 0" using snoc.prems by (cases xs) auto
  have "(bytes_nat xs * 256 + unat x) div 256 = bytes_nat xs"
    using unat_u8_lt [of x] by simp
  moreover have "(of_nat (bytes_nat xs * 256 + unat x) :: u8) = x"
  proof -
    have "unat (of_nat (bytes_nat xs * 256 + unat x) :: u8) = unat x"
      unfolding unat_of_nat_u8 using unat_u8_lt [of x] by simp
    then show ?thesis by (rule unat_inj_iff [THEN iffD1])
  qed
  ultimately show ?case using nz snoc.IH [OF hd] by (simp add: big_Bytes_pos)
qed simp

lemma hd_big_Bytes: "0 < n \<Longrightarrow> List.hd (big_Bytes n) \<noteq> 0"
proof (induction n rule: big_Bytes.induct)
  case (1 n)
  show ?case
  proof (cases "n div 256 = 0")
    case True
    then have "n < 256" by simp
    then have "unat (of_nat n :: u8) = n" by (simp add: unat_of_nat_u8)
    then have "(of_nat n :: u8) \<noteq> 0" using 1(2) by (metis unat_0 less_irrefl)
    then show ?thesis using True 1(2) by (simp add: big_Bytes_pos)
  next
    case False
    then have "List.hd (big_Bytes n) = List.hd (big_Bytes (n div 256))"
      using 1(2) by (subst big_Bytes_pos) (simp_all del: of_nat_Suc)
    moreover have "0 < n div 256" using False by (rule neq0_conv [THEN iffD1])
    ultimately show ?thesis using 1 by simp
  qed
qed

lemma big_Bytes_inj: "big_Bytes m = big_Bytes n \<longleftrightarrow> m = n"
  by (metis bytes_nat_big_Bytes)

lemma length_big_Bytes_le: "length (big_Bytes n) \<le> k \<longleftrightarrow> n < 256 ^ k"
proof
  assume "length (big_Bytes n) \<le> k"
  then have "(256::nat) ^ length (big_Bytes n) \<le> 256 ^ k" by (rule power_increasing) simp
  moreover have "n < 256 ^ length (big_Bytes n)" using bytes_nat_less [of "big_Bytes n"] by simp
  ultimately show "n < 256 ^ k" by linarith
next
  assume lt: "n < 256 ^ k"
  show "length (big_Bytes n) \<le> k"
  proof (cases "n = 0")
    case False
    then obtain b bs where bs: "big_Bytes n = b # bs" by (cases "big_Bytes n") auto
    then have "b \<noteq> 0" using hd_big_Bytes [of n] False by simp
    then have "256 ^ length bs \<le> n" using bytes_nat_ge [of b bs] bs by (metis bytes_nat_big_Bytes)
    then have "(256::nat) ^ length bs < 256 ^ k" using lt by linarith
    then have "length bs < k" by (simp add: power_strict_increasing_iff)
    then show ?thesis by (simp add: bs)
  qed simp
qed


section \<open>Machine integers\<close>

lemma byte_at_nat: "byte_at i k = of_nat (unat i div 2 ^ k)"
  unfolding byte_at_def unat_drop_bit_u64 [symmetric] of_nat_unat by (rule refl)

lemma big_Bytes_byte: "0 < n \<Longrightarrow> n < 256 \<Longrightarrow> big_Bytes n = [of_nat n]"
  by (simp add: big_Bytes_pos)

lemma putint_eq: "i \<noteq> 0 \<Longrightarrow> putint i = big_Bytes (unat i)"
proof -
  assume "i \<noteq> 0"
  then have pos: "0 < unat i" by (simp add: unat_gt_0)
  have lt: "unat i < 256 ^ 8" using unat_u64_lt [of i] by simp
  show ?thesis
    using pos lt
    by (simp add: putint_def byte_at_nat word_less_nat_alt big_Bytes_pos big_Bytes_byte div_mult2_eq
      [symmetric])
qed

lemma length_putint_pos: "0 < length (putint i)"
  by (simp add: putint_def)

lemma length_putint_le: "length (putint i) \<le> 8"
  by (simp add: putint_def)

lemma intsize_eq: "intsize i = length (putint i)"
proof (induction i rule: intsize.induct)
  case (1 i)
  show ?case
  proof (cases "drop_bit 8 i = 0")
    case True
    then have "unat i div 256 = 0" using unat_drop_bit_u64 [of 8 i] by simp
    then have "i < 0x100" by (simp add: word_less_nat_alt)
    then show ?thesis using True by (subst intsize.simps) (simp add: putint_def Let_def)
  next
    case False
    have "unat (drop_bit 8 i) \<noteq> 0" using False by (simp only: unat_eq_zero not_False_eq_True)
    then have nz: "unat i div 256 \<noteq> 0" by (simp only: unat_drop_bit_u64) simp
    then have "i \<noteq> 0" by auto
    moreover have "big_Bytes (unat i) = big_Bytes (unat i div 256) @ [of_nat (unat i)]"
      using nz by (intro big_Bytes_pos) (cases "unat i = 0", simp_all)
    moreover have "putint (drop_bit 8 i) = big_Bytes (unat i div 256)"
      using putint_eq [OF False] by (simp only: unat_drop_bit_u64) simp
    ultimately show ?thesis
      using 1 False by (subst intsize.simps) (simp add: putint_eq Let_def del: of_nat_unat)
  qed
qed

lemma shift_or_add: "push_bit 8 x OR ucast (b :: u8) = x * 256 + (ucast b :: u64)"
proof -
  have "push_bit 8 x + (ucast b :: u64) = push_bit 8 x OR ucast b"
  proof (rule disjunctive_add)
    fix n
    show "\<not> bit (push_bit 8 x) n \<or> \<not> bit (ucast b :: u64) n"
      by (cases "n < 8") (auto simp: bit_push_bit_iff bit_ucast_iff dest: bit_imp_le_length)
  qed
  then show ?thesis by (simp add: push_bit_eq_mult)
qed

lemma of_nat_bytes_snoc:
  "(of_nat (bytes_nat (bs @ [b])) :: u64) = push_bit 8 (of_nat (bytes_nat bs)) OR ucast b"
  by (simp add: shift_or_add)

lemma of_nat_bytes_single: "(of_nat (bytes_nat [b]) :: u64) = ucast b"
  by simp

lemma shl_byte_shift: "push_bit 8 (shl_byte b k) = shl_byte b (8 + k)"
  by (simp add: shl_byte_def push_bit_push_bit)

lemma shl_byte_0: "push_bit 8 (ucast b) = shl_byte b 8"
  by (simp add: shl_byte_def)

lemma bytes_take_Suc:
  "k < length b \<Longrightarrow>
   (of_nat (bytes_nat (take (Suc k) b)) :: u64) =
     push_bit 8 (of_nat (bytes_nat (take k b))) OR ucast (b ! k)"
  unfolding take_Suc_conv_app_nth of_nat_bytes_snoc by (rule refl)

lemma readSize_value_eq:
  assumes "0 < n" "n \<le> 8" "n \<le> length b"
  shows "readSize_value b (of_nat n) = of_nat (bytes_nat (take n b))"
proof -
  note shifts = push_bit_or shl_byte_shift shl_byte_0 or.assoc
  have V: "Suc k = m \<Longrightarrow> m \<le> length b \<Longrightarrow>
    of_nat (bytes_nat (take m b)) = push_bit 8 (of_nat (bytes_nat (take k b)) :: u64) OR ucast (b ! k)"
    for k m using bytes_take_Suc [of k b] by auto
  have v1: "1 \<le> length b \<Longrightarrow> of_nat (bytes_nat (take 1 b)) = (ucast (b ! 0) :: u64)"
    using V [of 0 1] by simp
  have v2: "2 \<le> length b \<Longrightarrow> of_nat (bytes_nat (take 2 b)) =
      shl_byte (b ! 0) 8 OR ucast (b ! 1)"
    using v1 V [of 1 2] by (simp del: push_bit_of_nat add: shifts)
  have v3: "3 \<le> length b \<Longrightarrow> of_nat (bytes_nat (take 3 b)) =
      shl_byte (b ! 0) 16 OR shl_byte (b ! 1) 8 OR ucast (b ! 2)"
    using v2 V [of 2 3] by (simp del: push_bit_of_nat add: shifts)
  have v4: "4 \<le> length b \<Longrightarrow> of_nat (bytes_nat (take 4 b)) =
      shl_byte (b ! 0) 24 OR shl_byte (b ! 1) 16 OR shl_byte (b ! 2) 8 OR ucast (b ! 3)"
    using v3 V [of 3 4] by (simp del: push_bit_of_nat add: shifts)
  have v5: "5 \<le> length b \<Longrightarrow> of_nat (bytes_nat (take 5 b)) =
      shl_byte (b ! 0) 32 OR shl_byte (b ! 1) 24 OR shl_byte (b ! 2) 16 OR shl_byte (b ! 3) 8 OR ucast (b ! 4)"
    using v4 V [of 4 5] by (simp del: push_bit_of_nat add: shifts)
  have v6: "6 \<le> length b \<Longrightarrow> of_nat (bytes_nat (take 6 b)) =
      shl_byte (b ! 0) 40 OR shl_byte (b ! 1) 32 OR shl_byte (b ! 2) 24 OR shl_byte (b ! 3) 16 OR shl_byte (b ! 4) 8 OR ucast (b ! 5)"
    using v5 V [of 5 6] by (simp del: push_bit_of_nat add: shifts)
  have v7: "7 \<le> length b \<Longrightarrow> of_nat (bytes_nat (take 7 b)) =
      shl_byte (b ! 0) 48 OR shl_byte (b ! 1) 40 OR shl_byte (b ! 2) 32 OR shl_byte (b ! 3) 24 OR shl_byte (b ! 4) 16 OR shl_byte (b ! 5) 8 OR ucast (b ! 6)"
    using v6 V [of 6 7] by (simp del: push_bit_of_nat add: shifts)
  have v8: "8 \<le> length b \<Longrightarrow> of_nat (bytes_nat (take 8 b)) =
      shl_byte (b ! 0) 56 OR shl_byte (b ! 1) 48 OR shl_byte (b ! 2) 40 OR shl_byte (b ! 3) 32 OR shl_byte (b ! 4) 24 OR shl_byte (b ! 5) 16 OR shl_byte (b ! 6) 8 OR ucast (b ! 7)"
    using v7 V [of 7 8] by (simp del: push_bit_of_nat add: shifts)
  have "n \<in> {1, 2, 3, 4, 5, 6, 7, 8}" using assms(1,2) by auto
  then show ?thesis
    using assms(3)
    by (elim insertE emptyE) (simp_all only: readSize_value_def v1 v2 v3 v4 v5 v6 v7 v8, simp_all)
qed

lemma readSize_putint:
  assumes "\<not> sz < 56"
  shows "readSize (putint sz @ rest) (of_nat (length (putint sz))) = Inr sz"
proof -
  have nz: "sz \<noteq> 0" using assms by auto
  have n: "0 < length (putint sz)" "length (putint sz) \<le> 8"
    by (rule length_putint_pos, rule length_putint_le)
  have u: "unat (of_nat (length (putint sz)) :: u8) = length (putint sz)"
    using n(2) by (simp only: unat_of_nat_u8) simp
  have v: "readSize_value (putint sz @ rest) (of_nat (length (putint sz))) = sz"
    using readSize_value_eq [OF n, of "putint sz @ rest"] nz by (simp add: putint_eq)
  have "putint sz ! 0 \<noteq> 0"
    using hd_big_Bytes [of "unat sz"] nz n(1)
    by (simp add: putint_eq unat_gt_0 hd_conv_nth)
  then have "(putint sz @ rest) ! 0 \<noteq> 0" using n(1) by (simp add: nth_append)
  then show ?thesis using assms u v unfolding readSize_def Let_def by simp
qed

text \<open>Conversely an accepted size is written by its shortest bytes.\<close>

lemma readSize_canonical:
  assumes r: "readSize b (of_nat n) = Inr sz" and n: "0 < n" "n \<le> 8"
  shows "n \<le> length b" "\<not> sz < 56" "take n b = putint sz" "length (putint sz) = n"
proof -
  have u: "unat (of_nat n :: u8) = n" using n(2) by (simp only: unat_of_nat_u8) simp
  show le: "n \<le> length b" using r u by (simp add: readSize_def split: if_splits)
  show ge: "\<not> sz < 56" using r by (auto simp: readSize_def Let_def split: if_splits)
  have sz: "sz = of_nat (bytes_nat (take n b))"
    using r readSize_value_eq [OF n le] by (simp add: readSize_def Let_def split: if_splits)
  have b0: "b ! 0 \<noteq> 0" using r by (auto simp: readSize_def Let_def split: if_splits)
  have "bytes_nat (take n b) < 256 ^ n" using bytes_nat_less [of "take n b"] le by simp
  also have "(256::nat) ^ n \<le> 256 ^ 8" using n(2) by (rule power_increasing) simp
  finally have "unat sz = bytes_nat (take n b)"
    unfolding sz by (simp add: unat_of_nat)
  moreover have "List.hd (take n b) \<noteq> 0" using b0 n(1) le by (cases b) (auto simp: take_Cons')
  ultimately have "big_Bytes (unat sz) = take n b" by (simp add: big_Bytes_bytes_nat)
  moreover have "sz \<noteq> 0" using ge by auto
  ultimately show t: "take n b = putint sz" by (simp add: putint_eq)
  show "length (putint sz) = n" using le by (simp flip: t)
qed

end
