(* ===== verification/Rlp_Encode.thy ===== *)
theory Rlp_Encode
  imports Rlp_Bytes
begin

text \<open>
  The RLP encoder of \<open>rlp/encode.go\<close> and the type information of \<open>rlp/typecache.go\<close>.

  Reflection is made explicit: a \<open>go_type\<close> is what \<open>reflect.Type\<close> shows the package of a type, a
  \<open>go_val\<close> a value of such a type, and \<open>writer\<close> the writer \<open>makeWriter\<close> builds for the type, applied to
  the value. A named type that implements \<open>Encoder\<close> or \<open>Decoder\<close> is outside the model, and so
  are recursive types.

  The encoder does not know the size of a list before it has written its elements. It therefore
  collects all string data in \<open>eb_str\<close> and remembers the list headers with their offsets in
  \<open>eb_lheads\<close>; \<open>toBytes\<close>, \<open>toWriter\<close> and \<open>encReader\<close> put the headers between the data at the end.
  \<open>rlp_ref\<close> is the recursive definition of the encoding, and the theorems show that the three
  ways out of the buffer give its bytes.
\<close>

section \<open>Types and values\<close>

record tags =
  nilOK :: bool
  tail :: bool
  ignored :: bool

definition no_tags :: tags where
  "no_tags = \<lparr>nilOK = False, tail = False, ignored = False\<rparr>"

text \<open>\<open>TUint n\<close> is an unsigned integer type of \<open>n\<close> bits, \<open>TBig\<close> is \<open>big.Int\<close>, \<open>TRaw\<close> is \<open>RawValue\<close>,
  \<open>TIface m\<close> an interface type with \<open>m\<close> methods. A field of a struct has the flag that it is exported
  and the words of its \<open>rlp\<close> tag. \<open>TOther\<close> stands for the kinds without a writer: signed integers,
  floats, maps, channels, functions.\<close>

datatype go_type =
    TUint nat
  | TBool
  | TString
  | TBig
  | TRaw
  | TSlice go_type
  | TArray nat go_type
  | TStruct "(bool \<times> string list \<times> go_type) list"
  | TPtr go_type
  | TIface nat
  | TOther

text \<open>\<open>GBytes\<close> is the content of a string, of a \<open>RawValue\<close> and of a slice or array of bytes, \<open>GSeq\<close> the
  elements of another slice or array, \<open>GStruct\<close> the values of all fields. \<open>GNil\<close> is the nil of pointers and
  interfaces; a nil slice is \<open>GSeq []\<close> or \<open>GBytes []\<close>. \<open>GIface t v\<close> is an interface holding a value of
  type \<open>t\<close>.\<close>

datatype go_val =
    GUint u64
  | GBool bool
  | GBig int
  | GBytes bytes
  | GSeq "go_val list"
  | GStruct "go_val list"
  | GPtr go_val
  | GNil
  | GIface go_type go_val

definition isByte :: "go_type \<Rightarrow> bool" where
  "isByte t \<longleftrightarrow> t = TUint 8"

definition is_slice :: "go_type \<Rightarrow> bool" where
  "is_slice t \<longleftrightarrow> (case t of TSlice _ \<Rightarrow> True | TRaw \<Rightarrow> True | _ \<Rightarrow> False)"

text \<open>\<open>parseStructTag\<close> on the words of a tag, trimmed; \<open>fi\<close> is the index of the field and \<open>n\<close> the number of
  fields.\<close>

fun parse_tag_words :: "nat \<Rightarrow> nat \<Rightarrow> go_type \<Rightarrow> tags \<Rightarrow> string list \<Rightarrow> rlp_err + tags" where
  "parse_tag_words fi n t ts [] = Inr ts"
| "parse_tag_words fi n t ts (w # ws) =
    (if w = '''' then parse_tag_words fi n t ts ws
     else if w = ''-'' then parse_tag_words fi n t (ts\<lparr>ignored := True\<rparr>) ws
     else if w = ''nil'' then parse_tag_words fi n t (ts\<lparr>nilOK := True\<rparr>) ws
     else if w = ''tail'' then
       (if fi \<noteq> n - 1 then Inl BadStructTag
        else if \<not> is_slice t then Inl BadStructTag
        else parse_tag_words fi n t (ts\<lparr>tail := True\<rparr>) ws)
     else Inl BadStructTag)"

definition parseStructTag :: "nat \<Rightarrow> nat \<Rightarrow> go_type \<Rightarrow> string list \<Rightarrow> rlp_err + tags" where
  "parseStructTag fi n t ws = parse_tag_words fi n t no_tags ws"

text \<open>\<open>genTypeInfo\<close>: whether the package finds a decoder and a writer for a type. \<open>structFields\<close> goes
  through the exported fields; an ignored field is not looked at.\<close>

fun genTypeInfo :: "go_type \<Rightarrow> rlp_err option"
  and structFields_err :: "nat \<Rightarrow> nat \<Rightarrow> (bool \<times> string list \<times> go_type) list \<Rightarrow> rlp_err option" where
  "genTypeInfo TOther = Some NotSerializable"
| "genTypeInfo (TSlice t) = (if isByte t then None else genTypeInfo t)"
| "genTypeInfo (TArray n t) = (if isByte t then None else genTypeInfo t)"
| "genTypeInfo (TStruct fs) = structFields_err 0 (length fs) fs"
| "genTypeInfo (TPtr t) = (if t = TBig then None else genTypeInfo t)"
| "genTypeInfo t = None"
| "structFields_err i n [] = None"
| "structFields_err i n ((exported, ws, t) # fs) =
    (if \<not> exported then structFields_err (Suc i) n fs
     else
       case parseStructTag i n t ws of
         Inl e \<Rightarrow> Some e
       | Inr ts \<Rightarrow>
           if ignored ts then structFields_err (Suc i) n fs
           else
             case genTypeInfo t of
               Some e \<Rightarrow> Some e
             | None \<Rightarrow> structFields_err (Suc i) n fs)"

text \<open>\<open>structFields\<close>: for each field of the struct, the tags and type under which it is written, \<^const>\<open>None\<close>
  for one that is left out.\<close>

fun structFields :: "nat \<Rightarrow> nat \<Rightarrow> (bool \<times> string list \<times> go_type) list \<Rightarrow> (tags \<times> go_type) option list" where
  "structFields i n [] = []"
| "structFields i n ((exported, ws, t) # fs) =
    (if \<not> exported then None
     else
       case parseStructTag i n t ws of
         Inl e \<Rightarrow> None
       | Inr ts \<Rightarrow> if ignored ts then None else Some (ts, t)) # structFields (Suc i) n fs"

text \<open>\<open>reflect.Zero\<close> for the types whose nil pointers are written as their zero value.\<close>

fun zero_val :: "go_type \<Rightarrow> go_val" where
  "zero_val (TUint n) = GUint 0"
| "zero_val TBool = GBool False"
| "zero_val TString = GBytes []"
| "zero_val TBig = GBig 0"
| "zero_val TRaw = GBytes []"
| "zero_val (TSlice t) = (if isByte t then GBytes [] else GSeq [])"
| "zero_val (TArray n t) = (if isByte t then GBytes (replicate n 0) else GSeq (replicate n (zero_val t)))"
| "zero_val (TStruct fs) = GStruct (map (\<lambda>(e, ws, t). zero_val t) fs)"
| "zero_val (TPtr t) = GNil"
| "zero_val (TIface m) = GNil"
| "zero_val TOther = GNil"

section \<open>The encoding buffer\<close>

record encbuf =
  eb_str :: bytes
  eb_lheads :: "(nat \<times> nat) list"
  eb_lhsize :: nat

definition empty_encbuf :: encbuf where
  "empty_encbuf = \<lparr>eb_str = [], eb_lheads = [], eb_lhsize = 0\<rparr>"

text \<open>\<open>listhead.encode\<close>, on the size of the head.\<close>

definition lh_encode :: "nat \<Rightarrow> bytes" where
  "lh_encode sz = puthead 0xC0 0xF7 (of_nat sz)"

definition eb_write :: "bytes \<Rightarrow> encbuf \<Rightarrow> encbuf" where
  "eb_write b w = w\<lparr>eb_str := eb_str w @ b\<rparr>"

definition eb_size :: "encbuf \<Rightarrow> nat" where
  "eb_size w = length (eb_str w) + eb_lhsize w"

text \<open>\<open>encodeStringHeader\<close> and \<open>encodeString\<close>: the bytes appended to the string data.\<close>

definition encodeStringHeader :: "nat \<Rightarrow> bytes" where
  "encodeStringHeader sz =
    (if sz < 56 then [0x80 + of_nat sz]
     else (0xB7 + of_nat (length (putint (of_nat sz)))) # putint (of_nat sz))"

definition encodeString :: "bytes \<Rightarrow> bytes" where
  "encodeString b =
    (if length b = 1 \<and> b ! 0 \<le> 0x7F then [b ! 0] else encodeStringHeader (length b) @ b)"

text \<open>\<open>list\<close> returns the index of the new head, \<open>listEnd\<close> fills in its size.\<close>

definition eb_list :: "encbuf \<Rightarrow> nat \<times> encbuf" where
  "eb_list w =
    (length (eb_lheads w), w\<lparr>eb_lheads := eb_lheads w @ [(length (eb_str w), eb_lhsize w)]\<rparr>)"

definition eb_listEnd :: "nat \<Rightarrow> encbuf \<Rightarrow> encbuf" where
  "eb_listEnd lh w =
    (let (offset, sz) = eb_lheads w ! lh;
         sz' = eb_size w - offset - sz in
     w\<lparr>eb_lheads := (eb_lheads w)[lh := (offset, sz')],
       eb_lhsize := eb_lhsize w + (if sz' < 56 then 1 else 1 + intsize (of_nat sz'))\<rparr>)"

section \<open>Writers\<close>

definition writeUint :: "u64 \<Rightarrow> bytes" where
  "writeUint i =
    (if i = 0 then [0x80]
     else if i < 128 then [ucast i]
     else (0x80 + of_nat (length (putint i))) # putint i)"

definition writeBool :: "bool \<Rightarrow> bytes" where
  "writeBool b = (if b then [0x01] else [0x80])"

definition writeBigInt :: "int \<Rightarrow> rlp_err + bytes" where
  "writeBigInt i =
    (if i < 0 then Inl NegativeBigInt
     else if i = 0 then Inr [0x80]
     else Inr (encodeString (big_Bytes (nat i))))"

text \<open>\<open>writeString\<close> repeats the code of \<open>encodeString\<close> on a Go string.\<close>

definition writeString :: "bytes \<Rightarrow> bytes" where
  "writeString s =
    (if length s = 1 \<and> s ! 0 \<le> 0x7f then [s ! 0] else encodeStringHeader (length s) @ s)"

fun val_size :: "go_val \<Rightarrow> nat" where
  "val_size (GSeq vs) = Suc (sum_list (map val_size vs))"
| "val_size (GStruct vs) = Suc (sum_list (map val_size vs))"
| "val_size (GPtr v) = Suc (val_size v)"
| "val_size (GIface t v) = Suc (2 * size t + val_size v)"
| "val_size _ = 1"

text \<open>\<open>struct_or_array\<close>: the pointers whose nil is written as an empty list.\<close>

fun struct_or_array :: "go_type \<Rightarrow> bool" where
  "struct_or_array (TStruct fs) = True"
| "struct_or_array (TArray n t) = True"
| "struct_or_array TBig = True"
| "struct_or_array _ = False"

lemma val_size_zero: "\<not> struct_or_array t \<Longrightarrow> val_size (zero_val t) \<le> 1"
  by (cases t) auto

lemma val_size_pos: "0 < val_size v"
  by (cases v) auto

definition fields_size :: "(tags \<times> go_type) option list \<Rightarrow> nat" where
  "fields_size fs = sum_list (map (\<lambda>f. case f of None \<Rightarrow> 1 | Some (ts, t) \<Rightarrow> Suc (2 * size t)) fs)"

lemma fields_size_simps [simp]:
  "fields_size [] = 0"
  "fields_size (None # fs) = Suc (fields_size fs)"
  "fields_size (Some (ts, t) # fs) = Suc (2 * size t + fields_size fs)"
  by (simp_all add: fields_size_def)

lemma structFields_size:
  "fields_size (structFields i n fs) \<le>
   2 * size_list (size_prod (\<lambda>_. 0) (size_prod (\<lambda>_. 0) size)) fs"
  by (induction i n fs rule: structFields.induct)
     (auto split: sum.splits if_splits)

text \<open>The writers \<open>makeWriter\<close> chooses, in the order of its cases. \<open>writer_elems\<close> is the loop of
  \<open>makeSliceWriter\<close>, \<open>writer_fields\<close> that of \<open>makeStructWriter\<close>. The buffer of a failed encoding is
  discarded, so an error is returned without it.\<close>

definition write_bigint :: "int \<Rightarrow> encbuf \<Rightarrow> rlp_err + encbuf" where
  "write_bigint i w = (case writeBigInt i of Inl e \<Rightarrow> Inl e | Inr b \<Rightarrow> Inr (eb_write b w))"

definition write_bytes :: "(bytes \<Rightarrow> bytes) \<Rightarrow> go_val \<Rightarrow> encbuf \<Rightarrow> rlp_err + encbuf" where
  "write_bytes f v w = (case v of GBytes b \<Rightarrow> Inr (eb_write (f b) w) | _ \<Rightarrow> Inl TypeMismatch)"

text \<open>\<open>w.list()\<close> before and \<open>w.listEnd\<close> after the elements.\<close>

definition in_list :: "encbuf \<Rightarrow> (encbuf \<Rightarrow> rlp_err + encbuf) \<Rightarrow> rlp_err + encbuf" where
  "in_list w f =
    (let (lh, w1) = eb_list w in
     case f w1 of Inl e \<Rightarrow> Inl e | Inr w2 \<Rightarrow> Inr (eb_listEnd lh w2))"

lemma in_list_cong [fundef_cong]:
  "w = w' \<Longrightarrow> (\<And>x. f x = g x) \<Longrightarrow> in_list w f = in_list w' g"
  by (simp add: in_list_def)

fun nil_is_string :: "go_type \<Rightarrow> bool" where
  "nil_is_string (TArray n t) = isByte t"
| "nil_is_string _ = False"

function writer :: "go_type \<Rightarrow> tags \<Rightarrow> go_val \<Rightarrow> encbuf \<Rightarrow> rlp_err + encbuf"
  and writer_elems :: "go_type \<Rightarrow> go_val list \<Rightarrow> encbuf \<Rightarrow> rlp_err + encbuf"
  and writer_fields :: "(tags \<times> go_type) option list \<Rightarrow> go_val list \<Rightarrow> encbuf \<Rightarrow> rlp_err + encbuf"
where
  "writer TRaw ts v w = write_bytes (\<lambda>b. b) v w"
| "writer (TIface m) ts v w =
    (case v of
       GNil \<Rightarrow> Inr (eb_write [0xC0] w)
     | GIface t v' \<Rightarrow> (case genTypeInfo t of Some e \<Rightarrow> Inl e | None \<Rightarrow> writer t no_tags v' w)
     | _ \<Rightarrow> Inl TypeMismatch)"
| "writer TBig ts v w = (case v of GBig i \<Rightarrow> write_bigint i w | _ \<Rightarrow> Inl TypeMismatch)"
| "writer (TUint n) ts v w =
    (case v of GUint i \<Rightarrow> Inr (eb_write (writeUint i) w) | _ \<Rightarrow> Inl TypeMismatch)"
| "writer TBool ts v w =
    (case v of GBool b \<Rightarrow> Inr (eb_write (writeBool b) w) | _ \<Rightarrow> Inl TypeMismatch)"
| "writer TString ts v w = write_bytes writeString v w"
| "writer (TSlice t) ts v w =
    (if isByte t then write_bytes encodeString v w
     else case v of
       GSeq vs \<Rightarrow> if tail ts then writer_elems t vs w else in_list w (\<lambda>w'. writer_elems t vs w')
     | _ \<Rightarrow> Inl TypeMismatch)"
| "writer (TArray n t) ts v w =
    (if isByte t then write_bytes encodeString v w
     else case v of
       GSeq vs \<Rightarrow> in_list w (\<lambda>w'. writer_elems t vs w')
     | _ \<Rightarrow> Inl TypeMismatch)"
| "writer (TStruct fs) ts v w =
    (case v of
       GStruct vs \<Rightarrow> in_list w (\<lambda>w'. writer_fields (structFields 0 (length fs) fs) vs w')
     | _ \<Rightarrow> Inl TypeMismatch)"
| "writer (TPtr t) ts v w =
    (if t = TBig then
       (case v of
          GNil \<Rightarrow> Inr (eb_write [0x80] w)
        | GPtr v' \<Rightarrow> (case v' of GBig i \<Rightarrow> write_bigint i w | _ \<Rightarrow> Inl TypeMismatch)
        | _ \<Rightarrow> Inl TypeMismatch)
     else case v of
       GNil \<Rightarrow>
         if nil_is_string t then Inr (eb_write [0x80] w)
         else if struct_or_array t then in_list w Inr
         else writer t no_tags (zero_val t) w
     | GPtr v' \<Rightarrow> writer t no_tags v' w
     | _ \<Rightarrow> Inl TypeMismatch)"
| "writer TOther ts v w = Inl NotSerializable"
| "writer_elems t [] w = Inr w"
| "writer_elems t (v # vs) w =
    (case writer t no_tags v w of Inl e \<Rightarrow> Inl e | Inr w' \<Rightarrow> writer_elems t vs w')"
| "writer_fields [] vs w = (if vs = [] then Inr w else Inl TypeMismatch)"
| "writer_fields (f # fs) vs w =
    (case vs of
       [] \<Rightarrow> Inl TypeMismatch
     | v # vs' \<Rightarrow>
         (case f of
            None \<Rightarrow> writer_fields fs vs' w
          | Some (ts, t) \<Rightarrow>
              (case writer t ts v w of Inl e \<Rightarrow> Inl e | Inr w' \<Rightarrow> writer_fields fs vs' w')))"
  by pat_completeness auto
termination
proof (relation "measure (\<lambda>x. case x of
    Inl (t, ts, v, w) \<Rightarrow> 2 * size t + val_size v
  | Inr (Inl (t, vs, w)) \<Rightarrow> 2 * size t + sum_list (map val_size vs) + 1
  | Inr (Inr (fs, vs, w)) \<Rightarrow> fields_size fs + sum_list (map val_size vs) + 1)", simp_all add: val_size_pos)
  fix t :: go_type
  assume "\<not> struct_or_array t"
  then show "val_size (zero_val t) < 3" using val_size_zero [of t] by linarith
qed (auto simp: less_Suc_eq_le le_SucI structFields_size)

declare writer.simps [simp del]

section \<open>Out of the buffer\<close>

text \<open>\<open>copy\<close> into the slice of \<open>out\<close> from \<open>pos\<close> on: as many bytes as both have room for.\<close>

definition copy_at :: "bytes \<Rightarrow> nat \<Rightarrow> bytes \<Rightarrow> bytes" where
  "copy_at out pos src =
    take pos out @ take (length out - pos) src @ drop (pos + length src) out"

definition subslice :: "bytes \<Rightarrow> nat \<Rightarrow> nat \<Rightarrow> bytes" where
  "subslice b i j = drop i (take j b)"

text \<open>\<open>toBytes\<close>; \<^const>\<open>None\<close> is the panic of \<open>puthead\<close> on a buffer that is too short.\<close>

fun toBytes_loop :: "bytes \<Rightarrow> (nat \<times> nat) list \<Rightarrow> nat \<Rightarrow> nat \<Rightarrow> bytes \<Rightarrow> bytes option" where
  "toBytes_loop str [] strpos pos out = Some (copy_at out pos (drop strpos str))"
| "toBytes_loop str ((offset, sz) # hs) strpos pos out =
    (let src = subslice str strpos offset;
         out1 = copy_at out pos src;
         n = min (length out - pos) (length src);
         enc = lh_encode sz in
     if pos + n + length enc > length out then None
     else toBytes_loop str hs (strpos + n) (pos + n + length enc) (copy_at out1 (pos + n) enc))"

definition toBytes :: "encbuf \<Rightarrow> bytes option" where
  "toBytes w = toBytes_loop (eb_str w) (eb_lheads w) 0 0 (replicate (eb_size w) 0)"

text \<open>\<open>toWriter\<close>: the bytes a writer receives that takes whatever it is given.\<close>

fun toWriter_loop :: "bytes \<Rightarrow> (nat \<times> nat) list \<Rightarrow> nat \<Rightarrow> bytes" where
  "toWriter_loop str [] strpos = (if strpos < length str then drop strpos str else [])"
| "toWriter_loop str ((offset, sz) # hs) strpos =
    (if offset - strpos > 0 then subslice str strpos offset else []) @ lh_encode sz @
    toWriter_loop str hs
      (if offset - strpos > 0 then strpos + length (subslice str strpos offset) else strpos)"

definition toWriter :: "encbuf \<Rightarrow> bytes" where
  "toWriter w = toWriter_loop (eb_str w) (eb_lheads w) 0"

text \<open>\<open>encbuf.encode\<close> on a fresh buffer, \<open>EncodeToBytes\<close> and \<open>Encode\<close>.\<close>

definition eb_encode :: "go_type \<Rightarrow> go_val \<Rightarrow> encbuf \<Rightarrow> rlp_err + encbuf" where
  "eb_encode t v w = (case genTypeInfo t of Some e \<Rightarrow> Inl e | None \<Rightarrow> writer t no_tags v w)"

definition EncodeToBytes :: "go_type \<Rightarrow> go_val \<Rightarrow> (rlp_err + bytes) option" where
  "EncodeToBytes t v =
    (case eb_encode t v empty_encbuf of
       Inl e \<Rightarrow> Some (Inl e)
     | Inr w \<Rightarrow> map_option Inr (toBytes w))"

definition Encode :: "go_type \<Rightarrow> go_val \<Rightarrow> rlp_err + bytes" where
  "Encode t v =
    (case eb_encode t v empty_encbuf of Inl e \<Rightarrow> Inl e | Inr w \<Rightarrow> Inr (toWriter w))"

text \<open>\<open>encReader\<close>: \<open>er_buf\<close> is \<^const>\<open>None\<close> once the end was reached, \<open>er_piece\<close> what is left of the
  last piece. \<open>enc_next\<close> is \<open>next\<close>, \<open>enc_read\<close> the loop of \<open>Read\<close> for a slice with room for \<open>room\<close> more
  bytes; it returns the bytes read and whether it returns \<open>io.EOF\<close>.\<close>

record encReader =
  er_buf :: "encbuf option"
  er_lhpos :: nat
  er_strpos :: nat
  er_piece :: "bytes option"

definition enc_next :: "encReader \<Rightarrow> bytes option \<times> encReader" where
  "enc_next r =
    (case er_buf r of
       None \<Rightarrow> (None, r)
     | Some w \<Rightarrow>
         (case er_piece r of
            Some p \<Rightarrow> (Some p, r)
          | None \<Rightarrow>
              if er_lhpos r < length (eb_lheads w) then
                let (offset, sz) = eb_lheads w ! er_lhpos r;
                    sizebefore = offset - er_strpos r in
                if sizebefore > 0 then
                  (Some (subslice (eb_str w) (er_strpos r) offset),
                   r\<lparr>er_strpos := er_strpos r + sizebefore\<rparr>)
                else (Some (lh_encode sz), r\<lparr>er_lhpos := Suc (er_lhpos r)\<rparr>)
              else if er_strpos r < length (eb_str w) then
                (Some (drop (er_strpos r) (eb_str w)), r\<lparr>er_strpos := length (eb_str w)\<rparr>)
              else (None, r)))"


definition er_pieces :: "encReader \<Rightarrow> nat" where
  "er_pieces r =
    (case er_buf r of
       None \<Rightarrow> 0
     | Some w \<Rightarrow>
         2 * (length (eb_lheads w) - er_lhpos r) +
         (if er_lhpos r < length (eb_lheads w) \<and> er_strpos r < fst (eb_lheads w ! er_lhpos r) then 1 else 0) +
         (if er_strpos r < length (eb_str w) then 1 else 0) +
         (if er_piece r = None then 0 else 1))"

lemma enc_next_pieces:
  "enc_next r = (Some p, r') \<Longrightarrow> er_pieces (r'\<lparr>er_piece := None\<rparr>) < er_pieces r"
  by (auto simp: enc_next_def er_pieces_def Let_def split: option.splits if_splits prod.splits)

function enc_read :: "nat \<Rightarrow> encReader \<Rightarrow> bytes \<times> bool \<times> encReader" where
  "enc_read room r =
    (case enc_next r of
       (None, r') \<Rightarrow> ([], True, r'\<lparr>er_piece := None, er_buf := None\<rparr>)
     | (Some p, r') \<Rightarrow>
         let nn = min room (length p) in
         if nn < length p then (take nn p, False, r'\<lparr>er_piece := Some (drop nn p)\<rparr>)
         else
           let (bs, eof, r'') = enc_read (room - nn) (r'\<lparr>er_piece := None\<rparr>) in
           (p @ bs, eof, r''))"
  by auto
termination
  by (relation "measure (er_pieces \<circ> snd)") (auto dest: enc_next_pieces [OF sym])

declare enc_read.simps [simp del]

definition EncodeToReader :: "go_type \<Rightarrow> go_val \<Rightarrow> rlp_err + (nat \<times> encReader)" where
  "EncodeToReader t v =
    (case eb_encode t v empty_encbuf of
       Inl e \<Rightarrow> Inl e
     | Inr w \<Rightarrow> Inr (eb_size w, \<lparr>er_buf = Some w, er_lhpos = 0, er_strpos = 0, er_piece = None\<rparr>))"

text \<open>A client that calls \<open>Read\<close> with slices of these lengths, and the bytes it collects.\<close>

fun enc_reads :: "nat list \<Rightarrow> encReader \<Rightarrow> bytes \<times> encReader" where
  "enc_reads [] r = ([], r)"
| "enc_reads (n # ns) r =
    (let (bs, eof, r') = enc_read n r; (cs, r'') = enc_reads ns r' in (bs @ cs, r''))"

section \<open>The recursive definition of the encoding\<close>

text \<open>What RLP encodes are trees of byte strings. \<open>enc\<close> is the encoding: a byte below 0x80 is its own
  encoding, another string follows a tag with its length, a list is the encodings of its elements
  after a tag with their total length. \<open>Raw\<close> is data that is encoded already, a \<open>RawValue\<close>.\<close>

datatype rlp_item = Str bytes | Lst "rlp_item list" | Raw bytes

fun enc :: "rlp_item \<Rightarrow> bytes" where
  "enc (Str b) = encodeString b"
| "enc (Lst is) = lh_encode (length (concat (map enc is))) @ concat (map enc is)"
| "enc (Raw b) = b"

abbreviation encs :: "rlp_item list \<Rightarrow> bytes" where
  "encs is \<equiv> concat (map enc is)"

text \<open>\<open>items t ts v is\<close>: a value stands for these items, one unless it is the tail of a struct.
  Integers are their shortest big-endian bytes.\<close>

inductive items :: "go_type \<Rightarrow> tags \<Rightarrow> go_val \<Rightarrow> rlp_item list \<Rightarrow> bool"
  and elem_items :: "go_type \<Rightarrow> go_val list \<Rightarrow> rlp_item list \<Rightarrow> bool"
  and field_items :: "(tags \<times> go_type) option list \<Rightarrow> go_val list \<Rightarrow> rlp_item list \<Rightarrow> bool"
where
  uint: "items (TUint n) ts (GUint i) [Str (big_Bytes (unat i))]"
| bool: "items TBool ts (GBool b) [Str (if b then [1] else [])]"
| big: "0 \<le> i \<Longrightarrow> items TBig ts (GBig i) [Str (big_Bytes (nat i))]"
| string: "items TString ts (GBytes b) [Str b]"
| raw: "items TRaw ts (GBytes b) [Raw b]"
| byte_slice: "isByte t \<Longrightarrow> items (TSlice t) ts (GBytes b) [Str b]"
| byte_array: "isByte t \<Longrightarrow> items (TArray n t) ts (GBytes b) [Str b]"
| slice_tail: "\<not> isByte t \<Longrightarrow> tail ts \<Longrightarrow> elem_items t vs is \<Longrightarrow> items (TSlice t) ts (GSeq vs) is"
| slice: "\<not> isByte t \<Longrightarrow> \<not> tail ts \<Longrightarrow> elem_items t vs is \<Longrightarrow> items (TSlice t) ts (GSeq vs) [Lst is]"
| array: "\<not> isByte t \<Longrightarrow> elem_items t vs is \<Longrightarrow> items (TArray n t) ts (GSeq vs) [Lst is]"
| struct: "field_items (structFields 0 (length fs) fs) vs is \<Longrightarrow>
    items (TStruct fs) ts (GStruct vs) [Lst is]"
| nil_big: "items (TPtr TBig) ts GNil [Str []]"
| nil_string: "nil_is_string t \<Longrightarrow> items (TPtr t) ts GNil [Str []]"
| nil_list: "t \<noteq> TBig \<Longrightarrow> \<not> nil_is_string t \<Longrightarrow> struct_or_array t \<Longrightarrow> items (TPtr t) ts GNil [Lst []]"
| nil_zero: "\<not> struct_or_array t \<Longrightarrow> items t no_tags (zero_val t) is \<Longrightarrow> items (TPtr t) ts GNil is"
| ptr: "items t no_tags v is \<Longrightarrow> items (TPtr t) ts (GPtr v) is"
| nil_iface: "items (TIface m) ts GNil [Lst []]"
| iface: "genTypeInfo t = None \<Longrightarrow> items t no_tags v is \<Longrightarrow> items (TIface m) ts (GIface t v) is"
| elems_Nil: "elem_items t [] []"
| elems_Cons: "items t no_tags v is \<Longrightarrow> elem_items t vs js \<Longrightarrow> elem_items t (v # vs) (is @ js)"
| fields_Nil: "field_items [] [] []"
| fields_left_out: "field_items fs vs is \<Longrightarrow> field_items (None # fs) (v # vs) is"
| fields_Cons: "items t ts v is \<Longrightarrow> field_items fs vs js \<Longrightarrow> field_items (Some (ts, t) # fs) (v # vs) (is @ js)"

section \<open>What a writer adds to the buffer\<close>

text \<open>A forest of data and lists: the string data, the heads with their offsets and the size of the
  heads it adds to a buffer.\<close>

datatype piece = Leaf bytes | Node "piece list"

fun flat :: "piece \<Rightarrow> bytes" where
  "flat (Leaf b) = b"
| "flat (Node ps) = lh_encode (length (concat (map flat ps))) @ concat (map flat ps)"

fun p_str :: "piece \<Rightarrow> bytes" where
  "p_str (Leaf b) = b"
| "p_str (Node ps) = concat (map p_str ps)"

definition lh_size :: "nat \<Rightarrow> nat" where
  "lh_size sz = (if sz < 56 then 1 else 1 + intsize (of_nat sz))"

fun p_len :: "piece \<Rightarrow> nat" where
  "p_len (Leaf b) = length b"
| "p_len (Node ps) = lh_size (sum_list (map p_len ps)) + sum_list (map p_len ps)"

fun p_heads :: "nat \<Rightarrow> piece \<Rightarrow> (nat \<times> nat) list"
  and ps_heads :: "nat \<Rightarrow> piece list \<Rightarrow> (nat \<times> nat) list" where
  "p_heads off (Leaf b) = []"
| "p_heads off (Node ps) = (off, sum_list (map p_len ps)) # ps_heads off ps"
| "ps_heads off [] = []"
| "ps_heads off (p # ps) = p_heads off p @ ps_heads (off + length (p_str p)) ps"

abbreviation "ps_str ps \<equiv> concat (map p_str ps)"
abbreviation "ps_len ps \<equiv> sum_list (map p_len ps)"
abbreviation "flats ps \<equiv> concat (map flat ps)"

definition emit_ps :: "piece list \<Rightarrow> encbuf \<Rightarrow> encbuf" where
  "emit_ps ps w =
    \<lparr>eb_str = eb_str w @ ps_str ps,
     eb_lheads = eb_lheads w @ ps_heads (length (eb_str w)) ps,
     eb_lhsize = eb_lhsize w + (ps_len ps - length (ps_str ps))\<rparr>"

lemma length_ps_str: "length (p_str p) \<le> p_len p"
  by (induction p) (auto simp: length_concat comp_def intro!: trans_le_add2 sum_list_mono)

lemma length_ps_str_le: "length (ps_str ps) \<le> ps_len ps"
  by (induction ps) (auto intro: add_mono length_ps_str)

lemma ps_heads_append:
  "ps_heads off (ps @ qs) = ps_heads off ps @ ps_heads (off + length (ps_str ps)) qs"
  by (induction ps arbitrary: off) (simp_all add: add.assoc)

lemma emit_ps_Nil [simp]: "emit_ps [] w = w"
  by (cases w) (simp add: emit_ps_def)

lemma emit_ps_append: "emit_ps qs (emit_ps ps w) = emit_ps (ps @ qs) w"
  using length_ps_str_le [of ps] length_ps_str_le [of qs]
  by (simp add: emit_ps_def ps_heads_append)

lemma emit_ps_Leaf: "eb_write b w = emit_ps [Leaf b] w"
  by (cases w) (simp add: eb_write_def emit_ps_def)

lemma in_list_emit:
  assumes "f (snd (eb_list w)) = Inr (emit_ps ps (snd (eb_list w)))"
  shows "in_list w f = Inr (emit_ps [Node ps] w)"
proof -
  have "ps_len ps = length (ps_str ps) + (ps_len ps - length (ps_str ps))"
    using length_ps_str_le [of ps] by simp
  then show ?thesis
    using assms
    by (cases w) (simp add: in_list_def eb_list_def eb_listEnd_def emit_ps_def eb_size_def lh_size_def
      nth_append list_update_append Let_def ac_simps)
qed

lemma encodeString_Nil [simp]: "encodeString [] = [0x80]"
  by (simp add: encodeString_def encodeStringHeader_def)

lemma writeString_eq: "writeString = encodeString"
  by (rule ext) (simp add: writeString_def encodeString_def)

lemma writeUint_eq: "writeUint i = encodeString (big_Bytes (unat i))"
proof (cases "i = 0")
  case False
  show ?thesis
  proof (cases "i < 128")
    case True
    then have lt: "unat i < 128" by (simp add: word_less_nat_alt)
    have pos: "0 < unat i" using False by (simp add: unat_gt_0)
    have "big_Bytes (unat i) = [ucast i]"
      using big_Bytes_byte [of "unat i"] lt pos by simp
    moreover have "unat (ucast i :: u8) = unat i"
      using lt by (simp add: unat_ucast_u8)
    then have "(ucast i :: u8) \<le> 0x7F" using lt by (simp add: word_le_nat_alt)
    ultimately show ?thesis using True False by (simp add: writeUint_def encodeString_def)
  next
    case ge: False
    have *: "\<not> (length (putint i) = 1 \<and> putint i ! 0 \<le> 0x7F)"
    proof
      assume "length (putint i) = 1 \<and> putint i ! 0 \<le> 0x7F"
      then obtain b where b: "putint i = [b]" "unat b \<le> 127"
        by (cases "putint i") (auto simp: word_le_nat_alt)
      then have "unat i = unat b" using putint_eq [OF False] bytes_nat_big_Bytes [of "unat i"] by simp
      then show False using ge b by (simp add: word_less_nat_alt)
    qed
    then show ?thesis
      using False ge length_putint_le [of i]
      unfolding putint_eq [OF False, symmetric]
      by (auto simp: writeUint_def encodeString_def encodeStringHeader_def)
  qed
qed (simp add: writeUint_def)

lemma writeBool_eq: "writeBool b = encodeString (if b then [1] else [])"
  by (simp add: writeBool_def encodeString_def encodeStringHeader_def)

lemma writeBigInt_eq: "0 \<le> i \<Longrightarrow> writeBigInt i = Inr (encodeString (big_Bytes (nat i)))"
  by (simp add: writeBigInt_def)

text \<open>A value that stands for items is written as pieces with their encoding.\<close>

lemma writer_emits:
  "items t ts v is \<Longrightarrow> \<exists>ps. flats ps = encs is \<and> (\<forall>w. writer t ts v w = Inr (emit_ps ps w))"
  "elem_items t vs is \<Longrightarrow> \<exists>ps. flats ps = encs is \<and> (\<forall>w. writer_elems t vs w = Inr (emit_ps ps w))"
  "field_items fs vs is \<Longrightarrow> \<exists>ps. flats ps = encs is \<and> (\<forall>w. writer_fields fs vs w = Inr (emit_ps ps w))"
proof (induction rule: items_elem_items_field_items.inducts)
  case (uint n ts i)
  show ?case by (rule exI [of _ "[Leaf (writeUint i)]"]) (simp add: writer.simps emit_ps_Leaf writeUint_eq)
next
  case (bool ts b)
  show ?case
    by (rule exI [of _ "[Leaf (writeBool b)]"]) (simp add: writer.simps emit_ps_Leaf writeBool_eq)
next
  case (big i ts)
  then show ?case
    by (intro exI [of _ "[Leaf (encodeString (big_Bytes (nat i)))]"])
       (simp add: writer.simps write_bigint_def emit_ps_Leaf writeBigInt_eq)
next
  case (raw ts b)
  then show ?case
    by (intro exI [of _ "[Leaf b]"]) (simp add: writer.simps write_bytes_def emit_ps_Leaf)
next
  case (slice t ts vs "is")
  then obtain ps where "flats ps = encs is" "\<forall>w. writer_elems t vs w = Inr (emit_ps ps w)" by blast
  then show ?case
    using slice by (intro exI [of _ "[Node ps]"]) (simp add: writer.simps in_list_emit)
next
  case (array t vs "is" n ts)
  then obtain ps where "flats ps = encs is" "\<forall>w. writer_elems t vs w = Inr (emit_ps ps w)" by blast
  then show ?case
    using array by (intro exI [of _ "[Node ps]"]) (simp add: writer.simps in_list_emit)
next
  case (struct fs vs "is" ts)
  then obtain ps where "flats ps = encs is"
    "\<forall>w. writer_fields (structFields 0 (length fs) fs) vs w = Inr (emit_ps ps w)" by blast
  then show ?case
    by (intro exI [of _ "[Node ps]"]) (simp add: writer.simps in_list_emit)
next
  case (nil_list t ts)
  then show ?case
    by (intro exI [of _ "[Node []]"]) (simp add: writer.simps in_list_emit)
next
  case (elems_Cons t v "is" vs js)
  then obtain ps qs where "flats ps = encs is" "\<forall>w. writer t no_tags v w = Inr (emit_ps ps w)"
    "flats qs = encs js" "\<forall>w. writer_elems t vs w = Inr (emit_ps qs w)" by blast
  then show ?case by (intro exI [of _ "ps @ qs"]) (simp add: emit_ps_append)
next
  case (fields_Cons t ts v "is" fs vs js)
  then obtain ps qs where "flats ps = encs is" "\<forall>w. writer t ts v w = Inr (emit_ps ps w)"
    "flats qs = encs js" "\<forall>w. writer_fields fs vs w = Inr (emit_ps qs w)" by blast
  then show ?case by (intro exI [of _ "ps @ qs"]) (simp add: emit_ps_append)
next
  case (elems_Nil t)
  show ?case by (intro exI [of _ "[]"]) simp
next
  case fields_Nil
  show ?case by (intro exI [of _ "[]"]) simp
next
  case (nil_iface m ts)
  show ?case
    by (intro exI [of _ "[Leaf [0xC0]]"])
       (simp add: writer.simps emit_ps_Leaf lh_encode_def puthead_def)
next
  case (nil_zero t "is" ts)
  have "t \<noteq> TBig" "\<not> nil_is_string t" using nil_zero(1) by (auto elim: nil_is_string.elims)
  then show ?case using nil_zero by (simp add: writer.simps)
next
  case (ptr t v "is" ts)
  then obtain ps where ps: "flats ps = encs is" "\<forall>w. writer t no_tags v w = Inr (emit_ps ps w)" by blast
  show ?case
  proof (cases "t = TBig")
    case True
    then show ?thesis using ps ptr(1)
      by (intro exI [of _ ps]) (auto simp: writer.simps elim: items.cases)
  next
    case False
    then show ?thesis using ps by (intro exI [of _ ps]) (simp add: writer.simps)
  qed
qed (auto simp: writer.simps write_bytes_def emit_ps_Leaf writeString_eq intro!: exI [of _ "[Leaf _]"])

section \<open>Putting the heads between the data\<close>

text \<open>The data with a head at each offset, from position \<open>s\<close> of the data on.\<close>

fun asm :: "bytes \<Rightarrow> (nat \<times> nat) list \<Rightarrow> nat \<Rightarrow> bytes" where
  "asm S [] s = drop s S"
| "asm S ((off, z) # hs) s = subslice S s off @ lh_encode z @ asm S hs off"

fun heads_ok :: "bytes \<Rightarrow> (nat \<times> nat) list \<Rightarrow> nat \<Rightarrow> bool" where
  "heads_ok S [] s \<longleftrightarrow> s \<le> length S"
| "heads_ok S ((off, z) # hs) s \<longleftrightarrow> s \<le> off \<and> heads_ok S hs off"

lemma heads_ok_le: "heads_ok S hs s \<Longrightarrow> s \<le> length S"
  by (induction S hs s rule: heads_ok.induct) auto

lemma heads_ok_start: "heads_ok S hs s' \<Longrightarrow> s \<le> s' \<Longrightarrow> heads_ok S hs s"
  by (cases hs) auto

lemma length_subslice [simp]: "off \<le> length S \<Longrightarrow> length (subslice S s off) = off - s"
  by (simp add: subslice_def)

lemma subslice_append:
  assumes "i \<le> j" "j \<le> k"
  shows "subslice S i j @ subslice S j k = subslice S i k"
proof -
  have k: "k - i = (j - i) + (k - j)" using assms by simp
  have "take (k - i) (drop i S) = take (j - i) (drop i S) @ take (k - j) (drop j S)"
    unfolding k take_add using assms by simp
  then show ?thesis by (simp add: subslice_def drop_take)
qed

lemma subslice_end: "length S \<le> k \<Longrightarrow> subslice S i k = drop i S"
  by (simp add: subslice_def)

lemma asm_skip:
  assumes "heads_ok S hs k" "s \<le> k"
  shows "asm S hs s = subslice S s k @ asm S hs k"
proof (cases hs)
  case Nil
  have "subslice S s k @ subslice S k (length S) = subslice S s (length S)"
    using assms heads_ok_le [OF assms(1)] by (intro subslice_append)
  then show ?thesis by (simp add: Nil subslice_end)
next
  case (Cons h hs')
  obtain off z where h: "h = (off, z)" by (cases h)
  then have "subslice S s k @ subslice S k off = subslice S s off"
    using assms Cons by (intro subslice_append) auto
  then show ?thesis by (simp add: Cons h flip: append_assoc)
qed

lemma toWriter_loop_asm: "heads_ok S hs s \<Longrightarrow> toWriter_loop S hs s = asm S hs s"
proof (induction S hs s rule: heads_ok.induct)
  case (2 S off z hs s)
  then have "off \<le> length S" using heads_ok_le by auto
  then have "subslice S s off = []" if "\<not> s < off" using 2(2) that by (simp add: subslice_def)
  moreover have "off = s" if "\<not> s < off" using 2(2) that by simp
  ultimately show ?case using 2 \<open>off \<le> length S\<close> by auto
qed auto

lemma copy_at_fits:
  "pos + length src \<le> length out \<Longrightarrow> copy_at out pos src = take pos out @ src @ drop (pos + length src) out"
  by (simp add: copy_at_def)

lemma length_copy_at: "pos + length src \<le> length out \<Longrightarrow> length (copy_at out pos src) = length out"
  by (simp add: copy_at_fits)

lemma toBytes_loop_asm:
  "heads_ok S hs s \<Longrightarrow> length out = pos + length (asm S hs s) \<Longrightarrow>
   toBytes_loop S hs s pos out = Some (take pos out @ asm S hs s)"
proof (induction S hs s arbitrary: pos out rule: heads_ok.induct)
  case (1 S s)
  then show ?case by (simp add: copy_at_fits)
next
  case (2 S off z hs s)
  have le: "s \<le> off" "off \<le> length S" using 2(2) heads_ok_le by auto
  let ?src = "subslice S s off" and ?enc = "lh_encode z"
  have len: "length out = pos + (off - s) + length ?enc + length (asm S hs off)"
    using 2(3) le by simp
  have src: "length ?src = off - s" using le by simp
  define out1 where "out1 = copy_at out pos ?src"
  define out2 where "out2 = copy_at out1 (pos + (off - s)) ?enc"
  have o1: "out1 = take pos out @ ?src @ drop (pos + (off - s)) out" "length out1 = length out"
    using copy_at_fits [of pos ?src out] length_copy_at [of pos ?src out] len src
    by (simp_all add: out1_def)
  have o2: "out2 = take (pos + (off - s)) out1 @ ?enc @ drop (pos + (off - s) + length ?enc) out1"
    "length out2 = length out"
    using copy_at_fits [of "pos + (off - s)" ?enc out1] length_copy_at [of "pos + (off - s)" ?enc out1]
      len o1(2) by (simp_all add: out2_def)
  have "take (pos + (off - s)) out1 = take pos out @ ?src"
    using len src by (simp add: o1(1) min_absorb2)
  then have t2: "take (pos + (off - s) + length ?enc) out2 = take pos out @ ?src @ ?enc"
    using len src by (simp add: o2(1) min_absorb2)
  have m: "min (length out - pos) (length ?src) = off - s" using len src by simp
  have nlt: "\<not> length out < pos + (off - s) + length ?enc" and off: "s + (off - s) = off"
    using len le by simp_all
  have "toBytes_loop S ((off, z) # hs) s pos out =
      toBytes_loop S hs off (pos + (off - s) + length ?enc) out2"
    unfolding toBytes_loop.simps Let_def m off using nlt by (simp only: if_False out1_def out2_def)
  also have "\<dots> = Some (take (pos + (off - s) + length ?enc) out2 @ asm S hs off)"
    using 2 len o2(2) by simp
  finally show ?case by (simp add: t2)
qed

lemma heads_ok_emit:
  "heads_ok (A @ p_str p @ B) hs (length A + length (p_str p)) \<Longrightarrow>
   heads_ok (A @ p_str p @ B) (p_heads (length A) p @ hs) (length A)"
  "heads_ok (A @ ps_str ps @ B) hs (length A + length (ps_str ps)) \<Longrightarrow>
   heads_ok (A @ ps_str ps @ B) (ps_heads (length A) ps @ hs) (length A)"
proof (induction "length A" p and "length A" ps arbitrary: A B hs and A B hs rule: p_heads_ps_heads.induct)
  case (1 b)
  then show ?case by (auto intro: heads_ok_start)
next
  case (4 p ps)
  have "heads_ok (A @ p_str p @ ps_str ps @ B) (ps_heads (length (A @ p_str p)) ps @ hs) (length (A @ p_str p))"
    using 4(2) [of "A @ p_str p" B hs] 4(3) by (simp add: add.assoc)
  then show ?case using 4(1) [of A "ps_str ps @ B" "ps_heads (length (A @ p_str p)) ps @ hs"] by simp
qed auto

lemma of_nat_u64_less: "n < 2 ^ 64 \<Longrightarrow> k < 2 ^ 64 \<Longrightarrow> (of_nat n :: u64) < of_nat k \<longleftrightarrow> n < k"
  by (simp add: word_less_nat_alt unat_of_nat)

lemma small_size: "n < 2 ^ 64 \<Longrightarrow> (of_nat n :: u64) < 56 \<longleftrightarrow> n < 56"
  using of_nat_u64_less [of n 56] by simp

lemma length_lh_encode: "n < 2 ^ 64 \<Longrightarrow> length (lh_encode n) = lh_size n"
  by (simp add: lh_encode_def puthead_def lh_size_def small_size intsize_eq)

lemma p_len_flat: "length (flat p) < 2 ^ 64 \<Longrightarrow> p_len p = length (flat p)"
proof (induction p)
  case (Node ps)
  have "length (flat q) \<le> length (flats ps)" if "q \<in> set ps" for q
    using that by (auto simp: length_concat intro: member_le_sum_list)
  then have "map p_len ps = map (\<lambda>q. length (flat q)) ps"
    using Node by (intro map_cong [OF refl]) (simp, meson le_less_trans trans_le_add2)
  then have "ps_len ps = length (flats ps)" by (simp only: length_concat map_map comp_def)
  then show ?case using Node.prems by (simp add: length_lh_encode)
qed simp

lemma ps_len_flats: "length (flats ps) < 2 ^ 64 \<Longrightarrow> ps_len ps = length (flats ps)"
  by (induction ps) (auto simp: p_len_flat)

lemma asm_emit:
  "heads_ok (A @ p_str p @ B) hs (length A + length (p_str p)) \<Longrightarrow> length (flat p) < 2 ^ 64 \<Longrightarrow>
   asm (A @ p_str p @ B) (p_heads (length A) p @ hs) (length A) =
     flat p @ asm (A @ p_str p @ B) hs (length A + length (p_str p))"
  "heads_ok (A @ ps_str ps @ B) hs (length A + length (ps_str ps)) \<Longrightarrow> length (flats ps) < 2 ^ 64 \<Longrightarrow>
   asm (A @ ps_str ps @ B) (ps_heads (length A) ps @ hs) (length A) =
     flats ps @ asm (A @ ps_str ps @ B) hs (length A + length (ps_str ps))"
proof (induction "length A" p and "length A" ps arbitrary: A B hs and A B hs rule: p_heads_ps_heads.induct)
  case (1 b)
  then show ?case
    using asm_skip [of "A @ b @ B" hs "length A + length b" "length A"] by (simp add: subslice_def)
next
  case (2 ps)
  then show ?case by (simp add: subslice_def ps_len_flats)
next
  case (4 p ps)
  let ?S = "A @ p_str p @ ps_str ps @ B" and ?h = "ps_heads (length (A @ p_str p)) ps @ hs"
  have ok: "heads_ok ?S ?h (length (A @ p_str p))"
    using heads_ok_emit(2) [of "A @ p_str p" ps B hs] 4(3) by (simp add: add.assoc)
  have "asm ?S (p_heads (length A) p @ ?h) (length A) = flat p @ asm ?S ?h (length (A @ p_str p))"
    using 4(1) [of A "ps_str ps @ B" ?h] ok 4(4) by simp
  moreover have "asm ?S ?h (length (A @ p_str p)) =
      flats ps @ asm ?S hs (length (A @ p_str p) + length (ps_str ps))"
    using 4(2) [of "A @ p_str p" B hs] 4(3,4) by (simp add: add.assoc)
  ultimately show ?case by (simp add: add.assoc)
qed simp

lemma emit_ps_empty:
  "emit_ps ps empty_encbuf =
    \<lparr>eb_str = ps_str ps, eb_lheads = ps_heads 0 ps, eb_lhsize = ps_len ps - length (ps_str ps)\<rparr>"
  by (simp add: emit_ps_def empty_encbuf_def)

lemma heads_ok_ps: "heads_ok (ps_str ps) (ps_heads 0 ps) 0"
  using heads_ok_emit(2) [of "[]" ps "[]" "[]"] by simp

lemma asm_ps: "length (flats ps) < 2 ^ 64 \<Longrightarrow> asm (ps_str ps) (ps_heads 0 ps) 0 = flats ps"
  using asm_emit(2) [of "[]" ps "[]" "[]"] by simp

lemma eb_size_ps: "length (flats ps) < 2 ^ 64 \<Longrightarrow> eb_size (emit_ps ps empty_encbuf) = length (flats ps)"
  using length_ps_str_le [of ps] by (simp add: eb_size_def emit_ps_empty ps_len_flats)

lemma toBytes_ps: "length (flats ps) < 2 ^ 64 \<Longrightarrow> toBytes (emit_ps ps empty_encbuf) = Some (flats ps)"
  using toBytes_loop_asm [OF heads_ok_ps, of "replicate (length (flats ps)) 0" 0 ps] eb_size_ps [of ps]
  by (simp add: toBytes_def asm_ps) (simp add: emit_ps_empty)

lemma toWriter_ps: "length (flats ps) < 2 ^ 64 \<Longrightarrow> toWriter (emit_ps ps empty_encbuf) = flats ps"
  by (simp add: toWriter_def emit_ps_empty toWriter_loop_asm [OF heads_ok_ps] asm_ps)

lemma eb_encode_emits:
  assumes "genTypeInfo t = None" "items t no_tags v is"
  obtains ps where "flats ps = encs is" "eb_encode t v empty_encbuf = Inr (emit_ps ps empty_encbuf)"
  using writer_emits(1) [OF assms(2)] assms(1) by (auto simp: eb_encode_def)

section \<open>The reader\<close>

definition er_rest :: "encReader \<Rightarrow> bytes" where
  "er_rest r =
    (case er_buf r of
       None \<Rightarrow> []
     | Some w \<Rightarrow>
         (case er_piece r of None \<Rightarrow> [] | Some p \<Rightarrow> p) @
         asm (eb_str w) (drop (er_lhpos r) (eb_lheads w)) (er_strpos r))"

definition er_ok :: "encReader \<Rightarrow> bool" where
  "er_ok r \<longleftrightarrow>
    (case er_buf r of
       None \<Rightarrow> True
     | Some w \<Rightarrow>
         er_piece r \<noteq> Some [] \<and> heads_ok (eb_str w) (drop (er_lhpos r) (eb_lheads w)) (er_strpos r))"

lemma lh_encode_nonempty [simp]: "lh_encode n \<noteq> []"
  by (simp add: lh_encode_def puthead_def)

lemma enc_next_None: "er_ok r \<Longrightarrow> enc_next r = (None, r') \<Longrightarrow> er_rest r = [] \<and> r' = r"
  by (auto simp: enc_next_def er_rest_def Let_def split: option.splits if_splits prod.splits)

lemma enc_next_Some:
  assumes ok: "er_ok r" and n: "enc_next r = (Some p, r')"
  shows "p \<noteq> [] \<and> er_rest r = p @ er_rest (r'\<lparr>er_piece := None\<rparr>) \<and> er_ok (r'\<lparr>er_piece := None\<rparr>) \<and>
    er_buf r' = er_buf r"
proof -
  obtain w where w: "er_buf r = Some w" using n by (auto simp: enc_next_def split: option.splits)
  let ?S = "eb_str w" and ?hs = "drop (er_lhpos r) (eb_lheads w)" and ?s = "er_strpos r"
  have hok: "heads_ok ?S ?hs ?s" "er_piece r \<noteq> Some []" using ok w by (auto simp: er_ok_def)
  show ?thesis
  proof (cases "er_piece r")
    case (Some q)
    then show ?thesis using n w hok by (auto simp: enc_next_def er_rest_def er_ok_def)
  next
    case None
    show ?thesis
    proof (cases "er_lhpos r < length (eb_lheads w)")
      case True
      obtain off z where h: "eb_lheads w ! er_lhpos r = (off, z)" by fastforce
      have hs: "?hs = (off, z) # drop (Suc (er_lhpos r)) (eb_lheads w)"
        using True h by (metis Cons_nth_drop_Suc)
      have le: "?s \<le> off" "off \<le> length ?S"
        and ok': "heads_ok ?S (drop (Suc (er_lhpos r)) (eb_lheads w)) off"
        using hok heads_ok_le by (auto simp: hs)
      show ?thesis
      proof (cases "?s < off")
        case lt: True
        then have r': "p = subslice ?S ?s off" "r' = r\<lparr>er_strpos := off\<rparr>"
          using n w None True h by (auto simp: enc_next_def)
        have "p \<noteq> []" using lt le r' by (metis length_subslice list.size(3) zero_less_diff less_irrefl)
        moreover have "heads_ok ?S ?hs off" using ok' by (simp add: hs)
        ultimately show ?thesis
          using w None r' by (simp add: er_rest_def er_ok_def hs subslice_def)
      next
        case False
        then have "p = lh_encode z" "r' = r\<lparr>er_lhpos := Suc (er_lhpos r)\<rparr>" "?s = off"
          using n w None True h le by (auto simp: enc_next_def)
        then show ?thesis
          using w None ok' by (simp add: er_rest_def er_ok_def hs subslice_def)
      qed
    next
      case False
      then have "p = drop ?s ?S" "r' = r\<lparr>er_strpos := length ?S\<rparr>" "?s < length ?S"
        using n w None by (auto simp: enc_next_def split: if_splits)
      then show ?thesis using w None False by (simp add: er_rest_def er_ok_def)
    qed
  qed
qed

lemma enc_read_rest:
  "er_ok r \<Longrightarrow> enc_read room r = (bs, eof, r') \<Longrightarrow>
   bs = take room (er_rest r) \<and> eof = (length (er_rest r) \<le> room) \<and>
   er_rest r' = drop room (er_rest r) \<and> er_ok r'"
proof (induction room r arbitrary: bs eof r' rule: enc_read.induct)
  case (1 room r)
  obtain po r1 where nx: "enc_next r = (po, r1)" by fastforce
  show ?case
  proof (cases po)
    case None
    then show ?thesis
      using 1(3) nx enc_next_None [OF 1(2)]
      by (subst (asm) enc_read.simps) (auto simp: er_rest_def er_ok_def)
  next
    case (Some p)
    have N: "p \<noteq> []" "er_rest r = p @ er_rest (r1\<lparr>er_piece := None\<rparr>)"
      "er_ok (r1\<lparr>er_piece := None\<rparr>)" "er_buf r1 = er_buf r"
      using enc_next_Some [OF 1(2), of p r1] nx Some by simp_all
    have eq: "enc_read room r =
      (if room < length p then (take room p, False, r1\<lparr>er_piece := Some (drop room p)\<rparr>)
       else let (bs, eof, r'') = enc_read (room - length p) (r1\<lparr>er_piece := None\<rparr>) in (p @ bs, eof, r''))"
      by (subst enc_read.simps) (simp add: nx Some Let_def min_def)
    show ?thesis
    proof (cases "room < length p")
      case True
      then have "bs = take room p" "eof = False" "r' = r1\<lparr>er_piece := Some (drop room p)\<rparr>"
        using 1(3) eq by simp_all
      then show ?thesis
        using N True by (auto simp: er_rest_def er_ok_def split: option.splits)
    next
      case False
      obtain cs e r2 where rec: "enc_read (room - length p) (r1\<lparr>er_piece := None\<rparr>) = (cs, e, r2)"
        by (metis prod_cases3)
      then have "bs = p @ cs" "eof = e" "r' = r2"
        using 1(3) eq False rec by simp_all
      then show ?thesis
        using 1(1) [OF nx [symmetric] Some, of "length p" cs e r2] rec N False
        by (auto simp: min_absorb2)
    qed
  qed
qed

lemma enc_reads_rest:
  "er_ok r \<Longrightarrow> enc_reads ns r = (bs, r') \<Longrightarrow> bs = take (sum_list ns) (er_rest r) \<and> er_ok r'"
proof (induction ns arbitrary: r bs r')
  case (Cons n ns)
  obtain as e r1 where 1: "enc_read n r = (as, e, r1)" by (metis prod_cases3)
  obtain cs r2 where 2: "enc_reads ns r1 = (cs, r2)" by fastforce
  show ?case
    using enc_read_rest [OF Cons.prems(1) 1] Cons.IH [OF _ 2] Cons.prems(2) 1 2 by (simp add: take_add)
qed simp

section \<open>The encoder\<close>

text \<open>What a writer accepts stands for items.\<close>

lemma in_list_Inr: "in_list w f = Inr w' \<Longrightarrow> \<exists>x y. f x = Inr y"
  by (auto simp: in_list_def split: prod.splits sum.splits)

lemmas item_intros = items_elem_items_field_items.intros

lemma write_bytes_Inr: "write_bytes f v w = Inr w' \<Longrightarrow> \<exists>b. v = GBytes b"
  by (auto simp: write_bytes_def split: go_val.splits)

lemma write_bigint_Inr: "write_bigint i w = Inr w' \<Longrightarrow> 0 \<le> i"
  by (auto simp: write_bigint_def writeBigInt_def split: if_splits)

lemma writer_items:
  "writer t ts v w = Inr w' \<Longrightarrow> \<exists>is. items t ts v is"
  "writer_elems t vs w = Inr w' \<Longrightarrow> \<exists>is. elem_items t vs is"
  "writer_fields fs vs w = Inr w' \<Longrightarrow> \<exists>is. field_items fs vs is"
proof (induction t ts v w and t vs w and fs vs w arbitrary: w' and w' and w' rule: writer_writer_elems_writer_fields.induct)
  case (1 ts v w)
  then show ?case by (auto simp: writer.simps dest!: write_bytes_Inr intro: item_intros)
next
  case (2 m ts v w)
  then show ?case by (fastforce simp: writer.simps split: go_val.splits option.splits intro: item_intros)
next
  case (3 ts v w)
  then show ?case by (auto simp: writer.simps split: go_val.splits dest!: write_bigint_Inr intro: item_intros)
next
  case (6 ts v w)
  then show ?case by (auto simp: writer.simps dest!: write_bytes_Inr intro: item_intros)
next
  case (7 t ts v w)
  show ?case
  proof (cases "isByte t")
    case True
    then show ?thesis using 7(3) by (auto simp: writer.simps dest!: write_bytes_Inr intro: item_intros)
  next
    case False
    then obtain vs where vs: "v = GSeq vs" using 7(3) by (auto simp: writer.simps split: go_val.splits)
    have "\<exists>is. elem_items t vs is"
    proof (cases "tail ts")
      case True
      then show ?thesis using 7(1) [OF False vs True] 7(3) False vs by (simp add: writer.simps)
    next
      case nt: False
      have "in_list w (\<lambda>w'. writer_elems t vs w') = Inr w'" using 7(3) False vs nt by (simp add: writer.simps)
      then obtain x y where "writer_elems t vs x = Inr y" using in_list_Inr by blast
      then show ?thesis by (rule 7(2) [OF False vs nt])
    qed
    then show ?thesis using False vs by (cases "tail ts") (blast intro: item_intros)+
  qed
next
  case (8 n t ts v w)
  show ?case
  proof (cases "isByte t")
    case True
    then show ?thesis using 8(2) by (auto simp: writer.simps dest!: write_bytes_Inr intro: item_intros)
  next
    case False
    then obtain vs where vs: "v = GSeq vs" using 8(2) by (auto simp: writer.simps split: go_val.splits)
    then have "\<exists>x y. writer_elems t vs x = Inr y" using 8(2) False in_list_Inr by (fastforce simp: writer.simps)
    then show ?thesis using 8(1) [OF False vs] False vs by (blast intro: item_intros)
  qed
next
  case (9 fs ts v w)
  then obtain vs where vs: "v = GStruct vs" by (auto simp: writer.simps split: go_val.splits)
  then have "\<exists>x y. writer_fields (structFields 0 (length fs) fs) vs x = Inr y"
    using 9(2) in_list_Inr by (fastforce simp: writer.simps)
  then show ?case using 9(1) [OF vs] vs by (blast intro: item_intros)
next
  case (10 t ts v w)
  show ?case
  proof (cases "t = TBig")
    case True
    then show ?thesis using 10(3) by (auto simp: writer.simps split: go_val.splits dest!: write_bigint_Inr intro: item_intros)
  next
    case False
    show ?thesis
    proof (cases "\<exists>u. v = GPtr u")
      case True
      then obtain u where u: "v = GPtr u" by blast
      then have "writer t no_tags u w = Inr w'" using 10(3) False by (simp add: writer.simps)
      then show ?thesis using 10(1) [OF False u] u by (blast intro: item_intros)
    next
      case np: False
      then show ?thesis using 10 False by (auto simp: writer.simps split: go_val.splits if_splits intro: item_intros)
    qed
  qed
next
  case (13 t v vs w)
  then show ?case by (fastforce split: sum.splits intro: item_intros)
next
  case (15 f fs vs w)
  then show ?case by (fastforce split: list.splits option.splits sum.splits intro: item_intros)
qed (auto simp: writer.simps split: go_val.splits if_splits intro: item_intros)

lemma Encode_accepts:
  assumes "genTypeInfo t = None"
  shows "(\<exists>bs. Encode t v = Inr bs) \<longleftrightarrow> (\<exists>is. items t no_tags v is)"
proof
  assume "\<exists>bs. Encode t v = Inr bs"
  then show "\<exists>is. items t no_tags v is"
    using writer_items(1) assms by (auto simp: Encode_def eb_encode_def split: sum.splits)
next
  assume "\<exists>is. items t no_tags v is"
  then show "\<exists>bs. Encode t v = Inr bs" using eb_encode_emits [OF assms] by (fastforce simp: Encode_def)
qed

lemma Encode_bytes:
  assumes "genTypeInfo t = None" "items t no_tags v is" "length (encs is) < 2 ^ 64"
  shows "EncodeToBytes t v = Some (Inr (encs is)) \<and> Encode t v = Inr (encs is)"
proof -
  obtain ps where ps: "flats ps = encs is" "eb_encode t v empty_encbuf = Inr (emit_ps ps empty_encbuf)"
    using eb_encode_emits [OF assms(1,2)] by blast
  have "length (flats ps) < 2 ^ 64" using assms(3) ps(1) by simp
  then show ?thesis using ps toBytes_ps toWriter_ps by (auto simp: EncodeToBytes_def Encode_def)
qed

lemma EncodeToReader_bytes:
  assumes "genTypeInfo t = None" "items t no_tags v is" "length (encs is) < 2 ^ 64"
  shows "\<exists>r. EncodeToReader t v = Inr (length (encs is), r) \<and>
    (\<forall>ns. fst (enc_reads ns r) = take (sum_list ns) (encs is))"
proof -
  obtain ps where ps: "flats ps = encs is" "eb_encode t v empty_encbuf = Inr (emit_ps ps empty_encbuf)"
    using eb_encode_emits [OF assms(1,2)] by blast
  have len: "length (flats ps) < 2 ^ 64" using assms(3) ps(1) by simp
  define r where "r = \<lparr>er_buf = Some (emit_ps ps empty_encbuf), er_lhpos = 0, er_strpos = 0, er_piece = None\<rparr>"
  have r: "er_ok r" "er_rest r = encs is"
    using heads_ok_ps [of ps] asm_ps [OF len] ps(1) by (simp_all add: r_def er_ok_def er_rest_def emit_ps_empty)
  have "fst (enc_reads ns r) = take (sum_list ns) (encs is)" for ns
    using enc_reads_rest [OF r(1), of ns "fst (enc_reads ns r)" "snd (enc_reads ns r)"] r(2) by simp
  moreover have "EncodeToReader t v = Inr (length (encs is), r)"
    using ps eb_size_ps [OF len] by (simp add: EncodeToReader_def r_def)
  ultimately show ?thesis by blast
qed


section \<open>The messages of the re-election\<close>

text \<open>The types of the messages whose hashes the re-election signs, \<open>mc/msgdef.go\<close>, with a time stamp of type
  \<open>int64\<close>. The encoder has no writer for them: it writes nothing for any of their values, so the hash \<open>RlpHash\<close>
  takes of what was written is the same for all. \<open>pos\<close> is the type of the proposed block in a result.\<close>

definition Address_type :: go_type where "Address_type = TArray 20 (TUint 8)"
definition Signature_type :: go_type where "Signature_type = TArray 65 (TUint 8)"

definition InquiryReq_type :: go_type where
  "InquiryReq_type = TStruct [(True, [], TUint 64), (True, [], TUint 32), (True, [], TUint 32), (True, [], TOther),
    (True, [], Address_type), (True, [], Address_type)]"

definition LeaderReq_type :: go_type where
  "LeaderReq_type = TStruct [(True, [], TPtr InquiryReq_type), (True, [], TSlice Signature_type), (True, [], TOther)]"

definition LeaderConsensus_type :: go_type where
  "LeaderConsensus_type = TStruct [(True, [], TPtr LeaderReq_type), (True, [], TSlice Signature_type), (True, [], TOther)]"

definition ResultBroadcast_type :: "go_type \<Rightarrow> go_type" where
  "ResultBroadcast_type pos = TStruct [(True, [], TUint 64), (True, [], TUint 8), (True, [], TPtr pos),
    (True, [], TPtr LeaderConsensus_type), (True, [], TOther), (True, [], Address_type)]"

lemma reelect_types_refused:
  "Encode (TPtr InquiryReq_type) v = Inl NotSerializable"
  "Encode (TPtr LeaderReq_type) v = Inl NotSerializable"
  "\<exists>e. Encode (TPtr (ResultBroadcast_type pos)) v = Inl e"
  by (simp_all add: Encode_def eb_encode_def InquiryReq_type_def LeaderReq_type_def LeaderConsensus_type_def
      ResultBroadcast_type_def Address_type_def Signature_type_def parseStructTag_def no_tags_def isByte_def
      split: option.splits)

text \<open>A struct with an integer, an ignored field and a list of strings.\<close>

definition demo_type :: go_type where
  "demo_type = TStruct [(True, [], TUint 64), (True, [''-''], TOther), (True, [], TSlice TString)]"

definition demo_value :: go_val where
  "demo_value = GStruct [GUint 1024, GNil, GSeq [GBytes [100, 111, 103], GBytes [7]]]"

definition demo_items :: "rlp_item list" where
  "demo_items = [Lst [Str [4, 0], Lst [Str [100, 111, 103], Str [7]]]]"

lemma demo_big: "big_Bytes 1024 = [4, 0]"
  by (simp add: big_Bytes_pos)

lemma demo_has_items: "items demo_type no_tags demo_value demo_items"
proof -
  have u: "items (TUint 64) no_tags (GUint 1024) [Str [4, 0]]"
    using items_elem_items_field_items.uint [of 64 no_tags 1024] by (simp add: demo_big)
  have "elem_items TString [GBytes [100, 111, 103], GBytes [7]] ([Str [100, 111, 103]] @ [Str [7]] @ [])"
    by (intro items_elem_items_field_items.elems_Cons items_elem_items_field_items.elems_Nil
      items_elem_items_field_items.string)
  then have "items (TSlice TString) no_tags (GSeq [GBytes [100, 111, 103], GBytes [7]])
      [Lst [Str [100, 111, 103], Str [7]]]"
    by (intro items_elem_items_field_items.slice) (simp_all add: isByte_def no_tags_def)
  then have "field_items [Some (no_tags, TUint 64), None, Some (no_tags, TSlice TString)]
      [GUint 1024, GNil, GSeq [GBytes [100, 111, 103], GBytes [7]]]
      ([Str [4, 0]] @ [Lst [Str [100, 111, 103], Str [7]]] @ [])"
    by (intro items_elem_items_field_items.fields_Cons items_elem_items_field_items.fields_left_out
      items_elem_items_field_items.fields_Nil u)
  then show ?thesis
    unfolding demo_type_def demo_value_def demo_items_def
    by (intro items_elem_items_field_items.struct) (simp add: parseStructTag_def no_tags_def)
qed

lemma demo_encs: "encs demo_items = [0xC9, 0x82, 4, 0, 0xC5, 0x83, 100, 111, 103, 7]"
  by (simp add: demo_items_def encodeString_def encodeStringHeader_def lh_encode_def puthead_def)


end
