(* ===== verification/Topology.thy ===== *)
theory Topology
  imports Block_Types
begin

text \<open>
  The topology graph of the network, \<open>mc/funcdef.go\<close>: the graph of the genesis block, the transfer
  of a graph by the topology data of the next block, and its store \<open>core/topology_store.go\<close>.

  The graph is a record with the node list in the order of the Go slice. The LRU cache of the store
  is a third-party package; its operations \<open>Contains\<close>, \<open>Get\<close> and \<open>Add\<close> are a record of parameters.
  The database is the map of its entries, keyed like \<open>rawdb\<close> does by block hash and number.
\<close>

section \<open>mc/funcdef.go\<close>

datatype topology_error =
    ErrGenesisNumber
  | ErrGenesisTopoType
  | ErrNumberMismatch u64 u64
  | ErrTopoType u8
  | ErrHeaderNotExist
  | ErrGraphNotExistInDb
  | ErrParentGraph topology_error
  | ErrElectInfo topology_error
  | ErrElectHeader u64
  | TopologyPanic

fun getNodeStock :: "address \<Rightarrow> Elect list \<Rightarrow> u16" where
  "getNodeStock addr [] = 1"
| "getNodeStock addr (electInfo # electList) =
    (if el_Account electInfo = addr then el_Stock electInfo else getNodeStock addr electList)"

text \<open>\<open>increaseNodeNumber\<close> stores and returns the new counter.\<close>

definition increaseNodeNumber :: "u8 \<Rightarrow> u8" where
  "increaseNodeNumber cur = (if 99 \<le> cur then 0 else cur + 1)"

fun full_nodes ::
  "Elect list \<Rightarrow> u8 \<Rightarrow> NetTopologyData list \<Rightarrow> TopologyNodeInfo list \<times> u8" where
  "full_nodes electList cur [] = ([], cur)"
| "full_nodes electList cur (topNode # rest) =
    (let cur' = increaseNodeNumber cur;
         (nodes, cur'') = full_nodes electList cur' rest
     in (\<lparr>tn_Account = nd_Account topNode, tn_Position = nd_Position topNode,
          tn_Type = GetRoleTypeFromPosition (nd_Position topNode),
          tn_Stock = getNodeStock (nd_Account topNode) electList,
          tn_NodeNumber = cur'\<rparr> # nodes, cur''))"

definition NewGenesisTopologyGraph :: "Header \<Rightarrow> topology_error + TopologyGraph" where
  "NewGenesisTopologyGraph genesisHeader =
    (if header_number genesisHeader \<noteq> 0 then Inl ErrGenesisNumber
     else if nt_Type (h_NetTopology genesisHeader) \<noteq> NetTopoTypeAll then Inl ErrGenesisTopoType
     else let (nodes, cur) =
                full_nodes (h_Elect genesisHeader) 99 (nt_Data (h_NetTopology genesisHeader))
          in Inr \<lparr>tg_Number = 0, tg_NodeList = nodes, tg_CurNodeNumber = cur\<rparr>)"

fun change_node ::
  "Elect list \<Rightarrow> NetTopologyData \<Rightarrow> u8 \<Rightarrow> TopologyNodeInfo list \<Rightarrow> TopologyNodeInfo list \<times> u8" where
  "change_node electList chgInfo cur [] = ([], cur)"
| "change_node electList chgInfo cur (topNode # nodes) =
    (if nd_Position chgInfo = tn_Position topNode then
       (topNode\<lparr>tn_Account := nd_Account chgInfo,
                tn_Stock := getNodeStock (nd_Account chgInfo) electList,
                tn_NodeNumber := increaseNodeNumber cur\<rparr> # nodes, increaseNodeNumber cur)
     else if nd_Position chgInfo = PosOffline \<and> nd_Account chgInfo = tn_Account topNode then
       (nodes, cur)
     else let (nodes', cur') = change_node electList chgInfo cur nodes in (topNode # nodes', cur'))"

fun change_nodes ::
  "Elect list \<Rightarrow> NetTopologyData list \<Rightarrow> TopologyNodeInfo list \<times> u8 \<Rightarrow>
   TopologyNodeInfo list \<times> u8" where
  "change_nodes electList [] nc = nc"
| "change_nodes electList (chgInfo # data) nc =
    change_nodes electList data (change_node electList chgInfo (snd nc) (fst nc))"

definition Transfer2NextGraph ::
  "TopologyGraph \<Rightarrow> u64 \<Rightarrow> NetTopology \<Rightarrow> Elect list \<Rightarrow> topology_error + TopologyGraph" where
  "Transfer2NextGraph self number blockTopology electList =
    (if tg_Number self + 1 \<noteq> number then Inl (ErrNumberMismatch (tg_Number self) number)
     else if nt_Type blockTopology = NetTopoTypeAll then
       (let (nodes, cur) = full_nodes electList (tg_CurNodeNumber self) (nt_Data blockTopology)
        in Inr \<lparr>tg_Number = number, tg_NodeList = nodes, tg_CurNodeNumber = cur\<rparr>)
     else if nt_Type blockTopology = NetTopoTypeChange then
       (let (nodes, cur) =
              change_nodes electList (nt_Data blockTopology) (tg_NodeList self, tg_CurNodeNumber self)
        in Inr \<lparr>tg_Number = number, tg_NodeList = nodes, tg_CurNodeNumber = cur\<rparr>)
     else Inl (ErrTopoType (nt_Type blockTopology)))"

section \<open>core/topology_store.go\<close>

record ('c, 'k, 'v) lru =
  lru_Contains :: "'c \<Rightarrow> 'k \<Rightarrow> bool"
  lru_Get :: "'c \<Rightarrow> 'k \<Rightarrow> 'v option \<times> 'c"
  lru_Add :: "'c \<Rightarrow> 'k \<Rightarrow> 'v \<Rightarrow> 'c"

record chainReader =
  cr_GetHeaderByNumber :: "u64 \<Rightarrow> Header option"
  cr_CurrentHeader :: Header

record 'c TopologyStore =
  chainDb :: "(hash \<times> u64, TopologyGraph) gomap"
  graphCache :: 'c

definition MinerNetChangeUpTime :: u64 where "MinerNetChangeUpTime = 4"
definition VerifyNetChangeUpTime :: u64 where "VerifyNetChangeUpTime = 6"

definition HasTopologyGraph ::
  "('c, hash, TopologyGraph) lru \<Rightarrow> 'c TopologyStore \<Rightarrow> hash \<Rightarrow> u64 \<Rightarrow> bool" where
  "HasTopologyGraph L ts blockHash number \<longleftrightarrow>
    lru_Contains L (graphCache ts) blockHash \<or> map_has (chainDb ts) (blockHash, number)"

definition GetTopologyGraphByNumber ::
  "(rlp_val \<Rightarrow> hash) \<Rightarrow> ('c, hash, TopologyGraph) lru \<Rightarrow> chainReader \<Rightarrow> 'c TopologyStore \<Rightarrow> u64 \<Rightarrow>
   'c TopologyStore \<times> (topology_error + TopologyGraph)" where
  "GetTopologyGraphByNumber rlpHash L rd ts number =
    (case cr_GetHeaderByNumber rd number of
       None \<Rightarrow> (ts, Inl ErrHeaderNotExist)
     | Some header \<Rightarrow>
         (let h = Header_Hash rlpHash header
          in case lru_Get L (graphCache ts) h of
               (Some graph, c) \<Rightarrow> (ts\<lparr>graphCache := c\<rparr>, Inr graph)
             | (None, c) \<Rightarrow>
                 (case map_of (chainDb ts) (h, header_number header) of
                    None \<Rightarrow> (ts\<lparr>graphCache := c\<rparr>, Inl ErrGraphNotExistInDb)
                  | Some graph \<Rightarrow> (ts\<lparr>graphCache := lru_Add L c h graph\<rparr>, Inr graph))))"

text \<open>At number 0 the header is used without a nil check.\<close>

definition GetOriginalElect :: "chainReader \<Rightarrow> u64 \<Rightarrow> topology_error + Elect list" where
  "GetOriginalElect rd number =
    (let lastElectNumber = GetLastReElectionNumber (number + 1)
     in if lastElectNumber = 0 then
          (case cr_GetHeaderByNumber rd 0 of
             None \<Rightarrow> Inl TopologyPanic
           | Some header \<Rightarrow> Inr (h_Elect header))
        else
          (let minerElectNumber = lastElectNumber - MinerNetChangeUpTime;
               validatorElectNumber = lastElectNumber - VerifyNetChangeUpTime
           in if minerElectNumber \<noteq> validatorElectNumber then
                (case cr_GetHeaderByNumber rd validatorElectNumber of
                   None \<Rightarrow> Inl (ErrElectHeader validatorElectNumber)
                 | Some vHeader \<Rightarrow>
                     (case cr_GetHeaderByNumber rd minerElectNumber of
                        None \<Rightarrow> Inl (ErrElectHeader minerElectNumber)
                      | Some mHeader \<Rightarrow> Inr (h_Elect vHeader @ h_Elect mHeader)))
              else
                (case cr_GetHeaderByNumber rd minerElectNumber of
                   None \<Rightarrow> Inl (ErrElectHeader minerElectNumber)
                 | Some header \<Rightarrow> Inr (h_Elect header))))"

definition GetNextElect :: "chainReader \<Rightarrow> u64 \<Rightarrow> topology_error + Elect list" where
  "GetNextElect rd number =
    (let nextElectNumber = GetLastReElectionNumber (number + 1) + GetReElectionInterval;
         minerElectNumber = nextElectNumber - MinerNetChangeUpTime;
         validatorElectNumber = nextElectNumber - VerifyNetChangeUpTime;
         curNumber = header_number (cr_CurrentHeader rd);
         validators =
           (if validatorElectNumber \<le> curNumber then
              (case cr_GetHeaderByNumber rd validatorElectNumber of
                 None \<Rightarrow> Inl (ErrElectHeader validatorElectNumber)
               | Some vHeader \<Rightarrow> Inr (h_Elect vHeader))
            else Inr [])
     in case validators of
          Inl e \<Rightarrow> Inl e
        | Inr vs \<Rightarrow>
            if minerElectNumber \<le> curNumber then
              (case cr_GetHeaderByNumber rd minerElectNumber of
                 None \<Rightarrow> Inl (ErrElectHeader minerElectNumber)
               | Some mHeader \<Rightarrow> Inr (vs @ h_Elect mHeader))
            else Inr vs)"

definition NewTopologyGraph ::
  "(rlp_val \<Rightarrow> hash) \<Rightarrow> ('c, hash, TopologyGraph) lru \<Rightarrow> chainReader \<Rightarrow> 'c TopologyStore \<Rightarrow> Header \<Rightarrow>
   'c TopologyStore \<times> (topology_error + TopologyGraph)" where
  "NewTopologyGraph rlpHash L rd ts header =
    (let number = header_number header
     in if number = 0 then (ts, NewGenesisTopologyGraph header)
        else
          (case GetTopologyGraphByNumber rlpHash L rd ts (number - 1) of
             (ts', Inl err) \<Rightarrow> (ts', Inl (ErrParentGraph err))
           | (ts', Inr preGraph) \<Rightarrow>
               (case GetOriginalElect rd number of
                  Inl err \<Rightarrow> (ts', Inl (if err = TopologyPanic then err else ErrElectInfo err))
                | Inr electList \<Rightarrow>
                    (ts', Transfer2NextGraph preGraph number (h_NetTopology header) electList))))"

definition WriteTopologyGraph ::
  "(rlp_val \<Rightarrow> hash) \<Rightarrow> ('c, hash, TopologyGraph) lru \<Rightarrow> chainReader \<Rightarrow> 'c TopologyStore \<Rightarrow> Header \<Rightarrow>
   'c TopologyStore \<times> topology_error option" where
  "WriteTopologyGraph rlpHash L rd ts header =
    (let number = header_number header; h = Header_Hash rlpHash header
     in if HasTopologyGraph L ts h number then (ts, None)
        else
          (case NewTopologyGraph rlpHash L rd ts header of
             (ts', Inl err) \<Rightarrow> (ts', Some err)
           | (ts', Inr newGraph) \<Rightarrow>
               (ts'\<lparr>chainDb := map_put (h, number) newGraph (chainDb ts'),
                    graphCache := lru_Add L (graphCache ts') h newGraph\<rparr>, None)))"

section \<open>The invariant of a graph\<close>

text \<open>A node's role is the one its position encodes, and node numbers stay in the range 0 to 99.\<close>

definition node_ok :: "TopologyNodeInfo \<Rightarrow> bool" where
  "node_ok n \<longleftrightarrow> tn_Type n = GetRoleTypeFromPosition (tn_Position n) \<and> tn_NodeNumber n \<le> 99"

definition graph_ok :: "TopologyGraph \<Rightarrow> bool" where
  "graph_ok g \<longleftrightarrow> tg_CurNodeNumber g \<le> 99 \<and> list_all node_ok (tg_NodeList g)"

lemma increaseNodeNumber_le: "increaseNodeNumber cur \<le> 99"
proof (cases "99 \<le> cur")
  case False
  then have "unat cur < 99" by (simp add: word_le_nat_alt)
  then have "unat (cur + 1) \<le> 99" by (simp add: unat_word_ariths)
  then show ?thesis using False by (simp add: increaseNodeNumber_def word_le_nat_alt)
qed (simp add: increaseNodeNumber_def)

lemma full_nodes_ok:
  "list_all node_ok (fst (full_nodes es cur ds)) \<and>
   (cur \<le> 99 \<longrightarrow> snd (full_nodes es cur ds) \<le> 99)"
  by (induction ds arbitrary: cur)
     (simp_all add: node_ok_def increaseNodeNumber_le Let_def case_prod_beta)

lemma full_nodes_positions: "map tn_Position (fst (full_nodes es cur ds)) = map nd_Position ds"
  by (induction ds arbitrary: cur) (auto simp: Let_def case_prod_beta)

lemma full_nodes_accounts: "map tn_Account (fst (full_nodes es cur ds)) = map nd_Account ds"
  by (induction ds arbitrary: cur) (auto simp: Let_def case_prod_beta)

lemma node_ok_change:
  "node_ok n \<Longrightarrow>
   node_ok (n\<lparr>tn_Account := a, tn_Stock := st, tn_NodeNumber := increaseNodeNumber cur\<rparr>)"
  by (simp add: node_ok_def increaseNodeNumber_le)

lemma change_node_ok:
  "list_all node_ok ns \<Longrightarrow> cur \<le> 99 \<Longrightarrow>
   list_all node_ok (fst (change_node es c cur ns)) \<and> snd (change_node es c cur ns) \<le> 99"
  by (induction ns) (simp_all add: node_ok_change increaseNodeNumber_le case_prod_beta)

lemma change_nodes_ok:
  "list_all node_ok (fst nc) \<Longrightarrow> snd nc \<le> 99 \<Longrightarrow>
   list_all node_ok (fst (change_nodes es cs nc)) \<and> snd (change_nodes es cs nc) \<le> 99"
proof (induction es cs nc rule: change_nodes.induct)
  case (2 es c cs nc)
  then show ?case using change_node_ok [of "fst nc" "snd nc" es c] by simp
qed simp

text \<open>A change only ever removes positions.\<close>

lemma change_node_subset:
  "tn_Position ` set (fst (change_node es c cur ns)) \<subseteq> tn_Position ` set ns"
  by (induction ns) (auto simp: case_prod_beta)

lemma change_node_distinct:
  "distinct (map tn_Position ns) \<Longrightarrow> distinct (map tn_Position (fst (change_node es c cur ns)))"
proof (induction ns)
  case (Cons n ns)
  then show ?case using change_node_subset [of es c cur ns] by (auto simp: case_prod_beta)
qed simp

lemma change_nodes_distinct:
  "distinct (map tn_Position (fst nc)) \<Longrightarrow>
   distinct (map tn_Position (fst (change_nodes es cs nc))) \<and>
   tn_Position ` set (fst (change_nodes es cs nc)) \<subseteq> tn_Position ` set (fst nc)"
proof (induction es cs nc rule: change_nodes.induct)
  case (2 es c cs nc)
  let ?step = "change_node es c (snd nc) (fst nc)"
  have D: "distinct (map tn_Position (fst (change_nodes es cs ?step)))"
    and S: "tn_Position ` set (fst (change_nodes es cs ?step)) \<subseteq> tn_Position ` set (fst ?step)"
    using 2 by (simp_all add: change_node_distinct)
  show ?case using D subset_trans [OF S change_node_subset] by simp
qed simp

lemma Transfer_shape:
  assumes "Transfer2NextGraph g number t es = Inr g'"
  shows "number = tg_Number g + 1 \<and> tg_Number g' = number \<and>
    (nt_Type t = NetTopoTypeAll \<and>
       (tg_NodeList g', tg_CurNodeNumber g') = full_nodes es (tg_CurNodeNumber g) (nt_Data t) \<or>
     nt_Type t = NetTopoTypeChange \<and>
       (tg_NodeList g', tg_CurNodeNumber g') =
         change_nodes es (nt_Data t) (tg_NodeList g, tg_CurNodeNumber g))"
  using assms unfolding Transfer2NextGraph_def Let_def case_prod_beta
  by (simp split: if_split_asm) (auto simp flip: sum.inject)

lemma Transfer_number:
  "Transfer2NextGraph g number t es = Inr g' \<Longrightarrow> tg_Number g' = number \<and> number = tg_Number g + 1"
  by (blast dest: Transfer_shape)

lemma Transfer_ok:
  assumes "Transfer2NextGraph g number t es = Inr g'" "graph_ok g"
  shows "graph_ok g'"
proof -
  have cur: "tg_CurNodeNumber g \<le> 99" and ns: "list_all node_ok (tg_NodeList g)"
    using assms(2) by (simp_all add: graph_ok_def)
  consider (full) "(tg_NodeList g', tg_CurNodeNumber g') = full_nodes es (tg_CurNodeNumber g) (nt_Data t)"
    | (change) "(tg_NodeList g', tg_CurNodeNumber g') =
         change_nodes es (nt_Data t) (tg_NodeList g, tg_CurNodeNumber g)"
    using Transfer_shape [OF assms(1)] by blast
  then show ?thesis
  proof cases
    case full
    then show ?thesis
      using full_nodes_ok [of es "tg_CurNodeNumber g" "nt_Data t"] cur
      by (simp add: graph_ok_def flip: full)
  next
    case change
    then show ?thesis
      using change_nodes_ok [of "(tg_NodeList g, tg_CurNodeNumber g)" es "nt_Data t"] cur ns
      by (simp add: graph_ok_def flip: change)
  qed
qed

section \<open>The graph as a map from positions to accounts\<close>

definition graph_map :: "TopologyNodeInfo list \<Rightarrow> u16 \<rightharpoonup> address" where
  "graph_map ns = map_of (map (\<lambda>n. (tn_Position n, tn_Account n)) ns)"

lemma graph_map_Nil [simp]: "graph_map [] = Map.empty"
  by (simp add: graph_map_def)

lemma graph_map_Cons [simp]: "graph_map (n # ns) = (graph_map ns)(tn_Position n \<mapsto> tn_Account n)"
  by (simp add: graph_map_def)

lemma dom_graph_map: "dom (graph_map ns) = tn_Position ` set ns"
  by (simp add: graph_map_def dom_map_of_conv_image_fst image_image)

text \<open>What one change entry means: a new account for an occupied position, and the removal of an
  account that went offline. An entry for a position that is not occupied changes nothing.\<close>

definition spec_change :: "NetTopologyData \<Rightarrow> (u16 \<rightharpoonup> address) \<Rightarrow> (u16 \<rightharpoonup> address)" where
  "spec_change c m =
    (if nd_Position c \<in> dom m then m(nd_Position c \<mapsto> nd_Account c)
     else if nd_Position c = PosOffline then m |` {p. m p \<noteq> Some (nd_Account c)}
     else m)"

lemma change_node_set:
  "nd_Position c \<in> tn_Position ` set ns \<Longrightarrow> nd_Position c \<noteq> PosOffline \<Longrightarrow>
   distinct (map tn_Position ns) \<Longrightarrow>
   graph_map (fst (change_node es c cur ns)) = (graph_map ns)(nd_Position c \<mapsto> nd_Account c)"
  by (induction ns) (auto simp: case_prod_beta fun_upd_twist)

lemma change_node_none:
  "nd_Position c \<notin> tn_Position ` set ns \<Longrightarrow>
   nd_Position c \<noteq> PosOffline \<or> nd_Account c \<notin> tn_Account ` set ns \<Longrightarrow>
   change_node es c cur ns = (ns, cur)"
  by (induction ns) auto

lemma change_node_offline:
  "PosOffline \<notin> tn_Position ` set ns \<Longrightarrow> nd_Position c = PosOffline \<Longrightarrow>
   distinct (map tn_Position ns) \<Longrightarrow> distinct (map tn_Account ns) \<Longrightarrow>
   graph_map (fst (change_node es c cur ns)) = graph_map ns |` {p. graph_map ns p \<noteq> Some (nd_Account c)}"
proof (induction ns)
  case (Cons n ns)
  have np: "graph_map ns (tn_Position n) = None"
    using Cons.prems(3) dom_graph_map [of ns] by auto
  show ?case
  proof (cases "nd_Account c = tn_Account n")
    case True
    then have "\<And>p. graph_map ns p \<noteq> Some (nd_Account c)"
      using Cons.prems(4) by (auto simp: graph_map_def dest!: map_of_SomeD)
    then show ?thesis
      using True Cons.prems np by (auto simp: restrict_map_def fun_eq_iff)
  next
    case False
    then show ?thesis
      using Cons np by (auto simp: restrict_map_def fun_eq_iff case_prod_beta)
  qed
qed simp

section \<open>Whole transfers\<close>

text \<open>The accounts a change list brings in are new and different from each other.\<close>

definition fresh_accounts :: "TopologyNodeInfo list \<Rightarrow> NetTopologyData list \<Rightarrow> bool" where
  "fresh_accounts ns cs \<longleftrightarrow>
    distinct (map tn_Account ns @ map nd_Account (filter (\<lambda>c. nd_Position c \<noteq> PosOffline) cs))"

definition positions_ok :: "TopologyNodeInfo list \<Rightarrow> bool" where
  "positions_ok ns \<longleftrightarrow> distinct (map tn_Position ns) \<and> PosOffline \<notin> tn_Position ` set ns"

lemma positions_ok_change: "positions_ok ns \<Longrightarrow> positions_ok (fst (change_node es c cur ns))"
  unfolding positions_ok_def using change_node_distinct change_node_subset by fast

lemma change_node_accounts:
  "PosOffline \<notin> tn_Position ` set ns \<Longrightarrow>
   tn_Account ` set (fst (change_node es c cur ns)) \<subseteq>
   tn_Account ` set ns \<union> (if nd_Position c = PosOffline then {} else {nd_Account c})"
  by (induction ns) (auto simp: case_prod_beta)

lemma change_node_distinct_accounts:
  "PosOffline \<notin> tn_Position ` set ns \<Longrightarrow> distinct (map tn_Account ns) \<Longrightarrow>
   nd_Position c = PosOffline \<or> nd_Account c \<notin> tn_Account ` set ns \<Longrightarrow>
   distinct (map tn_Account (fst (change_node es c cur ns)))"
proof (induction ns)
  case (Cons n ns)
  then show ?case using change_node_accounts [of ns es c cur]
    by (auto simp: case_prod_beta split: if_splits)
qed simp

lemma disjoint_mono: "A \<subseteq> B \<Longrightarrow> B \<inter> C = {} \<Longrightarrow> A \<inter> C = {}"
  by blast

lemma fresh_accounts_change:
  assumes "positions_ok ns" "fresh_accounts ns (c # cs)"
  shows "fresh_accounts (fst (change_node es c cur ns)) cs"
proof -
  let ?new = "nd_Account ` set (filter (\<lambda>c. nd_Position c \<noteq> PosOffline) cs)"
  have off: "PosOffline \<notin> tn_Position ` set ns" using assms(1) by (simp add: positions_ok_def)
  have d: "distinct (map tn_Account (fst (change_node es c cur ns)))"
    using assms(2) by (intro change_node_distinct_accounts [OF off]) (auto simp: fresh_accounts_def)
  have "(tn_Account ` set ns \<union> (if nd_Position c = PosOffline then {} else {nd_Account c})) \<inter> ?new = {}"
    using assms(2) by (simp add: fresh_accounts_def Int_Un_distrib2 split: if_splits)
  then have "tn_Account ` set (fst (change_node es c cur ns)) \<inter> ?new = {}"
    by (rule disjoint_mono [OF change_node_accounts [OF off]])
  with d assms(2) show ?thesis by (simp add: fresh_accounts_def split: if_splits)
qed

lemma change_node_refines:
  assumes "positions_ok ns" "distinct (map tn_Account ns)"
  shows "graph_map (fst (change_node es c cur ns)) = spec_change c (graph_map ns)"
proof (cases "nd_Position c = PosOffline")
  case True
  then show ?thesis
    using assms change_node_offline [of ns c es cur]
    by (simp add: spec_change_def dom_graph_map positions_ok_def)
next
  case False
  then show ?thesis
    using assms change_node_set [of c ns es cur] change_node_none [of c ns es cur]
    by (simp add: spec_change_def dom_graph_map positions_ok_def)
qed

lemma change_nodes_refine:
  "positions_ok (fst nc) \<Longrightarrow> fresh_accounts (fst nc) cs \<Longrightarrow>
   graph_map (fst (change_nodes es cs nc)) = fold spec_change cs (graph_map (fst nc))"
proof (induction es cs nc rule: change_nodes.induct)
  case (2 es c cs nc)
  have "distinct (map tn_Account (fst nc))" using "2.prems"(2) by (simp add: fresh_accounts_def)
  then show ?case
    using 2 by (simp add: positions_ok_change fresh_accounts_change change_node_refines)
qed simp

text \<open>C30: A change of the topology implements its meaning on the map from positions to accounts:
  \<open>Transfer2NextGraph\<close> with change data yields the graph whose map is the old one with every entry
  applied in order, an account put at an occupied position or an offline account removed. The
  accounts brought in have to be new and the positions of the old graph distinct.\<close>

theorem Transfer2NextGraph_refines:
  assumes "tg_Number g + 1 = number" "nt_Type t = NetTopoTypeChange"
    and "positions_ok (tg_NodeList g)" "fresh_accounts (tg_NodeList g) (nt_Data t)"
  shows "\<exists>g'. Transfer2NextGraph g number t es = Inr g' \<and> tg_Number g' = number \<and>
    positions_ok (tg_NodeList g') \<and>
    graph_map (tg_NodeList g') = fold spec_change (nt_Data t) (graph_map (tg_NodeList g))"
proof -
  let ?nc = "change_nodes es (nt_Data t) (tg_NodeList g, tg_CurNodeNumber g)"
  have "Transfer2NextGraph g number t es =
    Inr \<lparr>tg_Number = number, tg_NodeList = fst ?nc, tg_CurNodeNumber = snd ?nc\<rparr>"
    using assms(1,2) by (simp add: Transfer2NextGraph_def topo_const_defs case_prod_beta)
  moreover have "positions_ok (fst ?nc)"
    using change_nodes_distinct [of "(tg_NodeList g, tg_CurNodeNumber g)" es "nt_Data t"] assms(3)
    by (auto simp: positions_ok_def)
  ultimately show ?thesis
    using change_nodes_refine [of "(tg_NodeList g, tg_CurNodeNumber g)"] assms(3,4) by simp
qed

definition two_validators :: TopologyGraph where
  "two_validators = \<lparr>tg_Number = 6, tg_NodeList = [\<lparr>tn_Account = 1, tn_Position = 0x2000, tn_Type = RoleValidator,
         tn_Stock = 1, tn_NodeNumber = 0\<rparr>, \<lparr>tn_Account = 2, tn_Position = 0x2001,
         tn_Type = RoleValidator, tn_Stock = 1, tn_NodeNumber = 1\<rparr>], tg_CurNodeNumber = 1\<rparr>"

definition replace_and_drop :: NetTopology where
  "replace_and_drop = \<lparr>nt_Type = 1, nt_Data = [\<lparr>nd_Account = 2, nd_Position = 0xF000\<rparr>,
         \<lparr>nd_Account = 5, nd_Position = 0x2000\<rparr>]\<rparr>"

theorem Transfer2NextGraph_refines_witness:
  "\<exists>g'. Transfer2NextGraph two_validators 7 replace_and_drop [] = Inr g' \<and>
    graph_map (tg_NodeList g') = [0x2000 \<mapsto> 5]"
  using Transfer2NextGraph_refines [of two_validators 7 replace_and_drop "[]"]
  by (auto simp: two_validators_def replace_and_drop_def topo_const_defs positions_ok_def
      fresh_accounts_def spec_change_def restrict_map_def fun_eq_iff split: if_splits)


section \<open>The store\<close>

text \<open>The laws of the LRU cache: a lookup changes no stored value, an insertion stores its value and
  may evict others, and \<open>Contains\<close> tells whether a lookup would succeed.\<close>

definition lru_laws :: "('c, 'k, 'v) lru \<Rightarrow> bool" where
  "lru_laws L \<longleftrightarrow>
    (\<forall>c k k'. fst (lru_Get L (snd (lru_Get L c k)) k') = fst (lru_Get L c k')) \<and>
    (\<forall>c k v k' w. fst (lru_Get L (lru_Add L c k v) k') = Some w \<longrightarrow>
       k' = k \<and> w = v \<or> fst (lru_Get L c k') = Some w) \<and>
    (\<forall>c k. lru_Contains L c k \<longleftrightarrow> fst (lru_Get L c k) \<noteq> None)"

definition reader_ok :: "chainReader \<Rightarrow> bool" where
  "reader_ok rd \<longleftrightarrow> (\<forall>n h. cr_GetHeaderByNumber rd n = Some h \<longrightarrow> header_number h = n)"

text \<open>Two headers with the same hash have the same number.\<close>

definition hash_fixes_number :: "(rlp_val \<Rightarrow> hash) \<Rightarrow> bool" where
  "hash_fixes_number rlpHash \<longleftrightarrow>
    (\<forall>h h'. Header_Hash rlpHash h = Header_Hash rlpHash h' \<longrightarrow> header_number h = header_number h')"

text \<open>Entries of the database are well-formed graphs of the number they are filed under, and the
  cache holds only graphs of the database.\<close>

definition store_ok ::
  "(rlp_val \<Rightarrow> hash) \<Rightarrow> ('c, hash, TopologyGraph) lru \<Rightarrow> 'c TopologyStore \<Rightarrow> bool" where
  "store_ok rlpHash L ts \<longleftrightarrow>
    (\<forall>h n g. map_of (chainDb ts) (h, n) = Some g \<longrightarrow>
       tg_Number g = n \<and> graph_ok g \<and> (\<exists>hdr. Header_Hash rlpHash hdr = h \<and> header_number hdr = n)) \<and>
    (\<forall>h g. fst (lru_Get L (graphCache ts) h) = Some g \<longrightarrow>
       (\<exists>n. map_of (chainDb ts) (h, n) = Some g))"

lemma store_ok_db:
  "store_ok r L ts \<Longrightarrow> map_of (chainDb ts) (h, n) = Some g \<Longrightarrow>
   tg_Number g = n \<and> graph_ok g \<and> (\<exists>hdr. Header_Hash r hdr = h \<and> header_number hdr = n)"
  by (simp add: store_ok_def)

lemma store_ok_cache:
  "store_ok r L ts \<Longrightarrow> fst (lru_Get L (graphCache ts) h) = Some g \<Longrightarrow>
   \<exists>n. map_of (chainDb ts) (h, n) = Some g"
  by (simp add: store_ok_def)

lemma store_ok_get:
  assumes "lru_laws L" "store_ok r L ts"
  shows "store_ok r L (ts\<lparr>graphCache := snd (lru_Get L (graphCache ts) h)\<rparr>)"
  using assms by (simp add: store_ok_def lru_laws_def)

lemma store_ok_add:
  assumes "lru_laws L" "store_ok r L ts" "map_of (chainDb ts) (h, n) = Some g"
  shows "store_ok r L (ts\<lparr>graphCache := lru_Add L (graphCache ts) h g\<rparr>)"
proof -
  have "\<exists>n. map_of (chainDb ts) (k, n) = Some w"
    if "fst (lru_Get L (lru_Add L (graphCache ts) h g) k) = Some w" for k w
  proof -
    have "k = h \<and> w = g \<or> fst (lru_Get L (graphCache ts) k) = Some w"
      using that assms(1) by (simp add: lru_laws_def)
    then show ?thesis using assms(3) store_ok_cache [OF assms(2)] by blast
  qed
  then show ?thesis using assms(2) by (simp add: store_ok_def)
qed

lemma store_ok_put:
  assumes "lru_laws L" "store_ok r L ts" "hash_fixes_number r"
    and "tg_Number g = header_number hdr" "graph_ok g"
    and "\<And>g'. map_of (chainDb ts) (Header_Hash r hdr, header_number hdr) \<noteq> Some g'"
  shows "store_ok r L
    (ts\<lparr>chainDb := map_put (Header_Hash r hdr, header_number hdr) g (chainDb ts)\<rparr>)"
proof -
  have "(h, n) \<noteq> (Header_Hash r hdr, header_number hdr)"
    if "map_of (chainDb ts) (h, n) = Some g'" for h n g'
    using that assms(6) by auto
  then show ?thesis
    using assms(2,4,5) by (auto simp: store_ok_def) metis
qed
lemma GetTopologyGraphByNumber_ok:
  assumes "lru_laws L" "reader_ok rd" "hash_fixes_number r" "store_ok r L ts"
    and "GetTopologyGraphByNumber r L rd ts n = (ts', res)"
  shows "store_ok r L ts' \<and> chainDb ts' = chainDb ts \<and> (\<forall>g. res = Inr g \<longrightarrow> tg_Number g = n \<and> graph_ok g)"
proof (cases "cr_GetHeaderByNumber rd n")
  case None
  then show ?thesis using assms(4,5) by (auto simp: GetTopologyGraphByNumber_def)
next
  case (Some hdr)
  then have n: "header_number hdr = n" using assms(2) by (simp add: reader_ok_def)
  let ?h = "Header_Hash r hdr"
  obtain o' c where get: "lru_Get L (graphCache ts) ?h = (o', c)" by (cases "lru_Get L (graphCache ts) ?h")
  have ok': "store_ok r L (ts\<lparr>graphCache := c\<rparr>)"
    using store_ok_get [OF assms(1,4), of ?h] get by simp
  show ?thesis
  proof (cases o')
    case (Some g)
    then obtain m where m: "map_of (chainDb ts) (?h, m) = Some g"
      using store_ok_cache [OF assms(4), of ?h g] get by auto
    then have "m = n"
      using store_ok_db [OF assms(4) m] assms(3) n unfolding hash_fixes_number_def by metis
    then show ?thesis
      using store_ok_db [OF assms(4) m] assms(5) \<open>cr_GetHeaderByNumber rd n = Some hdr\<close> get Some ok'
      by (auto simp: GetTopologyGraphByNumber_def)
  next
    case None
    show ?thesis
    proof (cases "map_of (chainDb ts) (?h, n)")
      case None
      then show ?thesis
        using assms(5) \<open>cr_GetHeaderByNumber rd n = Some hdr\<close> get \<open>o' = None\<close> ok' n
        by (auto simp: GetTopologyGraphByNumber_def)
    next
      case (Some g)
      then show ?thesis
        using assms(5) \<open>cr_GetHeaderByNumber rd n = Some hdr\<close> get \<open>o' = None\<close> n
          store_ok_db [OF assms(4) Some] store_ok_add [OF assms(1) ok', of ?h n g]
        by (auto simp: GetTopologyGraphByNumber_def)
    qed
  qed
qed

lemma NewTopologyGraph_ok:
  assumes "lru_laws L" "reader_ok rd" "hash_fixes_number r" "store_ok r L ts"
    and "NewTopologyGraph r L rd ts hdr = (ts', res)"
  shows "store_ok r L ts' \<and> chainDb ts' = chainDb ts \<and>
    (\<forall>g. res = Inr g \<longrightarrow> tg_Number g = header_number hdr \<and> graph_ok g)"
proof (cases "header_number hdr = 0")
  case True
  then show ?thesis
    using assms(4,5) full_nodes_ok [of "h_Elect hdr" 99 "nt_Data (h_NetTopology hdr)"]
    by (auto simp: NewTopologyGraph_def NewGenesisTopologyGraph_def graph_ok_def case_prod_beta
        split: if_splits)
next
  case False
  obtain ts1 r1 where get: "GetTopologyGraphByNumber r L rd ts (header_number hdr - 1) = (ts1, r1)"
    by fastforce
  note ok = GetTopologyGraphByNumber_ok [OF assms(1-4) get]
  show ?thesis
  proof (cases r1)
    case (Inl e)
    then show ?thesis using False get ok assms(5) by (auto simp: NewTopologyGraph_def Let_def)
  next
    case (Inr pre)
    then show ?thesis
      using False get ok assms(5) Transfer_ok [of pre "header_number hdr"]
        Transfer_number [of pre "header_number hdr"]
      by (auto simp: NewTopologyGraph_def Let_def split: sum.splits)
  qed
qed

text \<open>C29: The topology store files every graph under its own number. From a consistent store,
  \<open>WriteTopologyGraph\<close> leads to a consistent store, which has the graph of the header whenever no
  error is returned, and \<open>GetTopologyGraphByNumber\<close> returns only well-formed graphs of the number
  asked for, from the cache or from the database. The hypotheses are the laws of the cache, that
  the chain answers a number with a header of that number, and that equal block hashes mean equal
  block numbers.\<close>

theorem topology_store_consistent:
  assumes "lru_laws L" "reader_ok rd" "hash_fixes_number rlpHash" "store_ok rlpHash L ts"
  shows "(case WriteTopologyGraph rlpHash L rd ts hdr of (ts', err) \<Rightarrow>
      store_ok rlpHash L ts' \<and>
      (err = None \<longrightarrow> HasTopologyGraph L ts' (Header_Hash rlpHash hdr) (header_number hdr))) \<and>
    (case GetTopologyGraphByNumber rlpHash L rd ts n of (ts', res) \<Rightarrow>
      store_ok rlpHash L ts' \<and> (\<forall>g. res = Inr g \<longrightarrow> tg_Number g = n \<and> graph_ok g))"
proof
  show "case GetTopologyGraphByNumber rlpHash L rd ts n of (ts', res) \<Rightarrow>
      store_ok rlpHash L ts' \<and> (\<forall>g. res = Inr g \<longrightarrow> tg_Number g = n \<and> graph_ok g)"
    using GetTopologyGraphByNumber_ok [OF assms] by (auto split: prod.splits)
  let ?h = "Header_Hash rlpHash hdr" and ?n = "header_number hdr"
  obtain ts1 r1 where new: "NewTopologyGraph rlpHash L rd ts hdr = (ts1, r1)" by fastforce
  note ok = NewTopologyGraph_ok [OF assms new]
  show "case WriteTopologyGraph rlpHash L rd ts hdr of (ts', err) \<Rightarrow>
      store_ok rlpHash L ts' \<and> (err = None \<longrightarrow> HasTopologyGraph L ts' ?h ?n)"
  proof (cases "HasTopologyGraph L ts ?h ?n")
    case True
    then show ?thesis using assms(4) by (simp add: WriteTopologyGraph_def)
  next
    case False
    then have absent: "map_of (chainDb ts1) (?h, ?n) = None"
      using ok by (auto simp: HasTopologyGraph_def map_has_def)
    show ?thesis
    proof (cases r1)
      case (Inl e)
      then show ?thesis using False new ok by (simp add: WriteTopologyGraph_def)
    next
      case (Inr g)
      let ?ts2 = "ts1\<lparr>chainDb := map_put (?h, ?n) g (chainDb ts1)\<rparr>"
      have "store_ok rlpHash L ?ts2"
        using store_ok_put [OF assms(1) _ assms(3), of ts1 g hdr] ok Inr absent by simp
      from store_ok_add [OF assms(1) this, of ?h ?n g]
      have "store_ok rlpHash L (?ts2\<lparr>graphCache := lru_Add L (graphCache ts1) ?h g\<rparr>)" by simp
      then show ?thesis
        using False new Inr by (simp add: WriteTopologyGraph_def HasTopologyGraph_def map_has_def Let_def)
    qed
  qed
qed

text \<open>A cache with no eviction and a hash that reads the number, to run the store on.\<close>

definition map_lru :: "(('k, 'v) gomap, 'k, 'v) lru" where
  "map_lru = \<lparr>lru_Contains = map_has, lru_Get = \<lambda>c k. (map_of c k, c),
    lru_Add = \<lambda>c k v. map_put k v c\<rparr>"

definition number_hash :: "rlp_val \<Rightarrow> hash" where
  "number_hash v =
    (case v of VList xs \<Rightarrow> (case xs ! 9 of VUint n \<Rightarrow> of_nat (n mod 2 ^ 64) | _ \<Rightarrow> 0) | _ \<Rightarrow> 0)"

lemma map_lru_laws: "lru_laws map_lru"
  by (auto simp: lru_laws_def map_lru_def map_has_def split: if_splits)

lemma number_hash_fixes: "hash_fixes_number number_hash"
proof -
  have h: "Header_Hash number_hash h = of_nat (unat (header_number h))" for h
    by (simp add: Header_Hash_def rlp_Header_def number_hash_def header_number_def unat_of_nat)
  have "unat (x :: u64) < 2 ^ 256" for x using unat_u64_lt [of x] by simp
  then have "unat (of_nat (unat x) :: hash) = unat x" for x :: u64
    by (simp only: unat_of_nat) simp
  then show ?thesis unfolding hash_fixes_number_def h by (metis unat_inj_iff)
qed

definition genesis_reader :: chainReader where
  "genesis_reader = \<lparr>cr_GetHeaderByNumber = (\<lambda>n. if n = 0 then Some zero_header else None),
    cr_CurrentHeader = zero_header\<rparr>"

theorem topology_store_consistent_witness:
  "case WriteTopologyGraph number_hash map_lru genesis_reader \<lparr>chainDb = [], graphCache = []\<rparr>
     zero_header of (ts', err) \<Rightarrow>
   err = None \<and> store_ok number_hash map_lru ts' \<and> map_of (chainDb ts') (0, 0) \<noteq> None"
proof -
  have r: "reader_ok genesis_reader"
    by (simp add: reader_ok_def header_number_def zero_header_def genesis_reader_def)
  have s: "store_ok number_hash map_lru \<lparr>chainDb = [], graphCache = []\<rparr>"
    by (simp add: store_ok_def map_lru_def)
  have "snd (WriteTopologyGraph number_hash map_lru genesis_reader \<lparr>chainDb = [], graphCache = []\<rparr>
      zero_header) = None \<and>
    map_of (chainDb (fst (WriteTopologyGraph number_hash map_lru genesis_reader
      \<lparr>chainDb = [], graphCache = []\<rparr> zero_header))) (0, 0) \<noteq> None"
    by (simp add: WriteTopologyGraph_def NewTopologyGraph_def NewGenesisTopologyGraph_def
        HasTopologyGraph_def header_number_def map_lru_def zero_header_def topo_const_defs
        Header_Hash_def rlp_Header_def number_hash_def Let_def)
  then show ?thesis
    using topology_store_consistent [OF map_lru_laws r number_hash_fixes s, of zero_header 0]
    by (simp add: case_prod_beta)
qed

end
