(* ===== verification/Dpos.thy ===== *)
theory Dpos
  imports Topology
begin

text \<open>
  The DPOS consensus engine, \<open>consensus/mtxdpos/mtxdpos.go\<close>: which sets of validator signatures make
  a block (or any hash) accepted.

  The engine holds no state. The chain is the record \<open>ValidatorReader\<close> of the two calls the engine
  makes; the list of broadcast nodes \<open>man.BroadCastNodes\<close> is an argument. The share
  \<open>DPOSTargetSignCountRatio\<close> is a float64 constant: the product \<open>float64(n) * 0.66667\<close> and its
  ceiling are computed exactly as IEEE double arithmetic does, on natural numbers scaled by
  \<open>2 ^ 53\<close>. A panic of the signature check is the error \<open>DposPanic\<close>, which no caller handles.

  The locale \<open>quorum_rule\<close> is the contract of a threshold of votes; it is interpreted on the target
  the engine computes.
\<close>

section \<open>Constants, errors and types\<close>

definition DPOSMinStockCount :: nat where "DPOSMinStockCount = 3"
definition DPOSFullSignThreshold :: nat where "DPOSFullSignThreshold = 7"

text \<open>The double nearest to \<open>0.66667\<close> is \<open>DPOSTargetSignCountRatio / 2 ^ 53\<close>.\<close>

definition DPOSTargetSignCountRatio :: nat where
  "DPOSTargetSignCountRatio = 6004829527158177"

datatype dpos_error =
    ErrInputHeaderErr
  | ErrStockCountErr
  | ErrSignCountErr
  | ErrSignStockErr
  | ErrDisagreeCountErr
  | ErrDisagreeStockErr
  | ErrBroadcastSignCount
  | ErrBroadcastVerifySign
  | ErrBroadcastVerifySignFalse
  | ErrCrypto verify_error
  | ErrReader topology_error
  | ErrVerifyBroadcastBlock hash u64 dpos_error
  | ErrDposVerify hash u64 dpos_error
  | ErrNextTopology hash u64 topology_error
  | DposPanic

record dposTarget =
  totalCount :: int
  totalStock :: u64
  targetCount :: int
  targetStock :: u64
  maxDisagreeCount :: int
  maxDisagreeStock :: u64

record ValidatorReader =
  GetCurrentNumber :: u64
  GetValidatorByNumber :: "u64 \<Rightarrow> topology_error + TopologyGraph"

type_synonym stocks = "(address, u16) gomap"
type_synonym verified_signs = "(address, VerifiedSign) gomap"

section \<open>Double precision\<close>

fun bitlen :: "nat \<Rightarrow> nat" where
  "bitlen n = (if n = 0 then 0 else Suc (bitlen (n div 2)))"

declare bitlen.simps [simp del]

text \<open>Rounding of a natural number to 53 significant bits, to nearest, ties to even.\<close>

definition round53 :: "nat \<Rightarrow> nat" where
  "round53 x =
    (if x < 2 ^ 53 then x
     else let s = bitlen x - 53; q = x div 2 ^ s; r = x mod 2 ^ s
          in if 2 * r > 2 ^ s \<or> 2 * r = 2 ^ s \<and> odd q then (q + 1) * 2 ^ s else q * 2 ^ s)"

text \<open>\<open>math.Ceil(float64(n) * DPOSTargetSignCountRatio)\<close>\<close>

definition ceil_ratio :: "nat \<Rightarrow> nat" where
  "ceil_ratio n = (round53 (round53 n * DPOSTargetSignCountRatio) + (2 ^ 53 - 1)) div 2 ^ 53"

section \<open>Targets and signatures\<close>

definition calculateDPOSTarget ::
  "((address \<times> u16) list \<Rightarrow> (address \<times> u16) list) \<Rightarrow> stocks \<Rightarrow> dpos_error + dposTarget" where
  "calculateDPOSTarget rng stocks =
    (let n = length stocks
     in if n < DPOSMinStockCount then Inl ErrStockCountErr
        else
          (let total = foldl (\<lambda>acc kv. acc + ucast (snd kv)) 0 (rng stocks);
               tc = (if n \<le> DPOSFullSignThreshold then n else ceil_ratio n);
               ts = (if n \<le> DPOSFullSignThreshold then total else 0)
           in Inr \<lparr>totalCount = int n, totalStock = total, targetCount = int tc, targetStock = ts,
                   maxDisagreeCount = int n - int tc, maxDisagreeStock = total - ts\<rparr>))"

text \<open>The body shared by the loops of \<open>parseVerifiedSigns\<close> and \<open>verifySigns\<close>.\<close>

definition merge_sign ::
  "stocks \<Rightarrow> signature \<times> address \<times> bool \<Rightarrow> verified_signs \<Rightarrow> verified_signs" where
  "merge_sign stocks v verifiedSign =
    (case v of (sign, account, validate) \<Rightarrow>
      (case map_of stocks account of
         None \<Rightarrow> verifiedSign
       | Some stock \<Rightarrow>
           (case map_of verifiedSign account of
              Some existData \<Rightarrow>
                if \<not> vs_Validate existData \<and> validate then
                  map_put account (existData\<lparr>vs_Sign := sign, vs_Account := account,
                    vs_Validate := validate, vs_Stock := stock\<rparr>) verifiedSign
                else verifiedSign
            | None \<Rightarrow>
                map_put account \<lparr>vs_Sign = sign, vs_Account = account, vs_Validate = validate,
                  vs_Stock = stock\<rparr> verifiedSign)))"

fun parse_loop :: "stocks \<Rightarrow> verified_signs \<Rightarrow> VerifiedSign list \<Rightarrow> verified_signs" where
  "parse_loop stocks acc [] = acc"
| "parse_loop stocks acc (sign # signs) =
    parse_loop stocks
      (merge_sign stocks (vs_Sign sign, vs_Account sign, vs_Validate sign) acc) signs"

definition parseVerifiedSigns :: "VerifiedSign list \<Rightarrow> stocks \<Rightarrow> verified_signs" where
  "parseVerifiedSigns signs stocks = parse_loop stocks [] signs"

fun verify_loop ::
  "crypto_env \<Rightarrow> hash \<Rightarrow> stocks \<Rightarrow> verified_signs \<Rightarrow> signature list \<Rightarrow> verified_signs option" where
  "verify_loop ec h stocks acc [] = Some acc"
| "verify_loop ec h stocks acc (sign # signs) =
    (case VerifySignWithValidate ec h sign of
       SignPanic \<Rightarrow> None
     | SignErr e v \<Rightarrow> verify_loop ec h stocks acc signs
     | SignOk account validate \<Rightarrow>
         verify_loop ec h stocks (merge_sign stocks (sign, account, validate) acc) signs)"

definition verifySigns ::
  "crypto_env \<Rightarrow> hash \<Rightarrow> signature list \<Rightarrow> stocks \<Rightarrow> verified_signs option" where
  "verifySigns ec h signs stocks = verify_loop ec h stocks [] signs"

fun dpos_loop ::
  "dposTarget \<Rightarrow> int \<Rightarrow> int \<Rightarrow> u64 \<Rightarrow> u64 \<Rightarrow> signature list \<Rightarrow> (address \<times> VerifiedSign) list \<Rightarrow>
   dpos_error + signature list" where
  "dpos_loop target agreeCount disagreeCount agreeStock disagreeStock rightSigns [] =
    (if agreeCount < targetCount target then Inl ErrSignCountErr
     else if agreeStock < targetStock target then Inl ErrSignStockErr
     else Inr rightSigns)"
| "dpos_loop target agreeCount disagreeCount agreeStock disagreeStock rightSigns (kv # rest) =
    (let signInfo = snd kv
     in if vs_Validate signInfo then
          dpos_loop target (agreeCount + 1) disagreeCount (agreeStock + ucast (vs_Stock signInfo))
            disagreeStock (rightSigns @ [vs_Sign signInfo]) rest
        else if disagreeCount + 1 > maxDisagreeCount target then Inl ErrDisagreeCountErr
        else if disagreeStock + ucast (vs_Stock signInfo) > maxDisagreeStock target then
          Inl ErrDisagreeStockErr
        else
          dpos_loop target agreeCount (disagreeCount + 1) agreeStock
            (disagreeStock + ucast (vs_Stock signInfo)) rightSigns rest)"

text \<open>The order in which the maps are visited is chosen by \<open>rng\<close> for the stocks and \<open>rng'\<close> for the
  verified signs.\<close>

definition verifyDPOS ::
  "((address \<times> VerifiedSign) list \<Rightarrow> (address \<times> VerifiedSign) list) \<Rightarrow> verified_signs \<Rightarrow>
   dposTarget \<Rightarrow> dpos_error + signature list" where
  "verifyDPOS rng' verifiedSigns target = dpos_loop target 0 0 0 0 [] (rng' verifiedSigns)"

record dpos_order =
  ord_stocks :: "(address \<times> u16) list \<Rightarrow> (address \<times> u16) list"
  ord_signs :: "(address \<times> VerifiedSign) list \<Rightarrow> (address \<times> VerifiedSign) list"

definition VerifyHashWithStocks ::
  "dpos_order \<Rightarrow> crypto_env \<Rightarrow> hash \<Rightarrow> signature list \<Rightarrow> stocks \<Rightarrow> dpos_error + signature list" where
  "VerifyHashWithStocks od ec signHash signs stocks =
    (case calculateDPOSTarget (ord_stocks od) stocks of
       Inl err \<Rightarrow> Inl err
     | Inr target \<Rightarrow>
         if int (length signs) < targetCount target then Inl ErrSignCountErr
         else
           (case verifySigns ec signHash signs stocks of
              None \<Rightarrow> Inl DposPanic
            | Some verifiedSigns \<Rightarrow>
                if int (length verifiedSigns) < targetCount target then Inl ErrSignCountErr
                else verifyDPOS (ord_signs od) verifiedSigns target))"

section \<open>Validators of a block\<close>

fun stocks_loop :: "stocks \<Rightarrow> TopologyNodeInfo list \<Rightarrow> stocks" where
  "stocks_loop stocks [] = stocks"
| "stocks_loop stocks (node # nodes) =
    (if tn_Type node \<noteq> RoleValidator then stocks_loop stocks nodes
     else if map_has stocks (tn_Account node) then stocks_loop stocks nodes
     else stocks_loop (map_put (tn_Account node) (tn_Stock node) stocks) nodes)"

definition graph2ValidatorStocks :: "TopologyGraph \<Rightarrow> stocks" where
  "graph2ValidatorStocks graph = stocks_loop [] (tg_NodeList graph)"

definition getValidatorGraph :: "ValidatorReader \<Rightarrow> u64 \<Rightarrow> dpos_error + TopologyGraph" where
  "getValidatorGraph reader number =
    (let parentNumber = (if number \<noteq> 0 then number - 1 else number)
     in case GetValidatorByNumber reader parentNumber of
          Inl err \<Rightarrow> Inl (ErrReader err)
        | Inr graphInfo \<Rightarrow> Inr graphInfo)"

definition getValidatorStocks :: "ValidatorReader \<Rightarrow> u64 \<Rightarrow> dpos_error + stocks" where
  "getValidatorStocks reader number =
    (case getValidatorGraph reader number of
       Inl err \<Rightarrow> Inl err
     | Inr graphInfo \<Rightarrow> Inr (graph2ValidatorStocks graphInfo))"

definition isBroadcastRole :: "address list \<Rightarrow> address \<Rightarrow> bool" where
  "isBroadcastRole broadCastNodes a = list_ex (\<lambda>b. b = a) broadCastNodes"

definition verifyBroadcastBlock ::
  "crypto_env \<Rightarrow> (rlp_val \<Rightarrow> hash) \<Rightarrow> address list \<Rightarrow> Header \<Rightarrow> dpos_error option" where
  "verifyBroadcastBlock ec rlpHash broadCastNodes header =
    (case h_Signatures header of
       [sign] \<Rightarrow>
         (case VerifySignWithValidate ec (HashNoSignsAndNonce rlpHash header) sign of
            SignPanic \<Rightarrow> Some DposPanic
          | SignErr e v \<Rightarrow> Some (ErrCrypto e)
          | SignOk from result \<Rightarrow>
              if \<not> isBroadcastRole broadCastNodes from then Some ErrBroadcastVerifySign
              else if \<not> result then Some ErrBroadcastVerifySignFalse
              else None)
     | _ \<Rightarrow> Some ErrBroadcastSignCount)"

section \<open>The engine's interface\<close>

definition VerifyHashWithNumber ::
  "dpos_order \<Rightarrow> crypto_env \<Rightarrow> ValidatorReader \<Rightarrow> hash \<Rightarrow> signature list \<Rightarrow> u64 \<Rightarrow>
   dpos_error + signature list" where
  "VerifyHashWithNumber od ec reader signHash signs number =
    (case getValidatorStocks reader number of
       Inl err \<Rightarrow> Inl err
     | Inr stocks \<Rightarrow> VerifyHashWithStocks od ec signHash signs stocks)"

definition VerifyHash ::
  "dpos_order \<Rightarrow> crypto_env \<Rightarrow> ValidatorReader \<Rightarrow> hash \<Rightarrow> signature list \<Rightarrow>
   dpos_error + signature list" where
  "VerifyHash od ec reader signHash signs =
    VerifyHashWithNumber od ec reader signHash signs (GetCurrentNumber reader + 1)"

definition VerifyHashWithVerifiedSignsAndNumber ::
  "dpos_order \<Rightarrow> ValidatorReader \<Rightarrow> VerifiedSign list \<Rightarrow> u64 \<Rightarrow> dpos_error + signature list" where
  "VerifyHashWithVerifiedSignsAndNumber od reader signs number =
    (case getValidatorStocks reader number of
       Inl err \<Rightarrow> Inl err
     | Inr stocks \<Rightarrow>
         (case calculateDPOSTarget (ord_stocks od) stocks of
            Inl err \<Rightarrow> Inl err
          | Inr target \<Rightarrow>
              if int (length signs) < targetCount target then Inl ErrSignCountErr
              else
                (let verifiedSigns = parseVerifiedSigns signs stocks
                 in if int (length verifiedSigns) < targetCount target then Inl ErrSignCountErr
                    else verifyDPOS (ord_signs od) verifiedSigns target)))"

definition VerifyHashWithVerifiedSigns ::
  "dpos_order \<Rightarrow> ValidatorReader \<Rightarrow> VerifiedSign list \<Rightarrow> dpos_error + signature list" where
  "VerifyHashWithVerifiedSigns od reader signs =
    VerifyHashWithVerifiedSignsAndNumber od reader signs (GetCurrentNumber reader + 1)"

definition VerifyBlock ::
  "dpos_order \<Rightarrow> crypto_env \<Rightarrow> (rlp_val \<Rightarrow> hash) \<Rightarrow> address list \<Rightarrow> ValidatorReader \<Rightarrow> Header \<Rightarrow>
   dpos_error option" where
  "VerifyBlock od ec rlpHash broadCastNodes reader header =
    (if IsBroadcastNumber (header_number header) then
       verifyBroadcastBlock ec rlpHash broadCastNodes header
     else
       (case getValidatorStocks reader (header_number header) of
          Inl err \<Rightarrow> Some err
        | Inr stocks \<Rightarrow>
            (case VerifyHashWithStocks od ec (HashNoSignsAndNonce rlpHash header)
                    (h_Signatures header) stocks of
               Inl err \<Rightarrow> Some err
             | Inr _ \<Rightarrow> None)))"

text \<open>A panic is not wrapped into another error.\<close>

definition wrap_error :: "(dpos_error \<Rightarrow> dpos_error) \<Rightarrow> dpos_error \<Rightarrow> dpos_error" where
  "wrap_error f e = (if e = DposPanic then DposPanic else f e)"

definition verify_header_against ::
  "dpos_order \<Rightarrow> crypto_env \<Rightarrow> (rlp_val \<Rightarrow> hash) \<Rightarrow> address list \<Rightarrow> TopologyGraph \<Rightarrow> Header \<Rightarrow>
   dpos_error option" where
  "verify_header_against od ec rlpHash broadCastNodes preGraph header =
    (let h = HashNoSignsAndNonce rlpHash header; number = header_number header
     in if IsBroadcastNumber number then
          map_option (wrap_error (ErrVerifyBroadcastBlock h number))
            (verifyBroadcastBlock ec rlpHash broadCastNodes header)
        else
          (case VerifyHashWithStocks od ec h (h_Signatures header) (graph2ValidatorStocks preGraph) of
             Inl err \<Rightarrow> Some (wrap_error (ErrDposVerify h number) err)
           | Inr _ \<Rightarrow> None))"

fun verify_blocks_loop ::
  "dpos_order \<Rightarrow> crypto_env \<Rightarrow> (rlp_val \<Rightarrow> hash) \<Rightarrow> address list \<Rightarrow> TopologyGraph \<Rightarrow> Header list \<Rightarrow>
   dpos_error option" where
  "verify_blocks_loop od ec rlpHash bn preGraph [] = None"
| "verify_blocks_loop od ec rlpHash bn preGraph (header # headers) =
    (case verify_header_against od ec rlpHash bn preGraph header of
       Some err \<Rightarrow> Some err
     | None \<Rightarrow>
         (case Transfer2NextGraph preGraph (header_number header) (h_NetTopology header) [] of
            Inl err \<Rightarrow>
              Some (ErrNextTopology (HashNoSignsAndNonce rlpHash header) (header_number header) err)
          | Inr nextGraph \<Rightarrow> verify_blocks_loop od ec rlpHash bn nextGraph headers))"

definition VerifyBlocks ::
  "dpos_order \<Rightarrow> crypto_env \<Rightarrow> (rlp_val \<Rightarrow> hash) \<Rightarrow> address list \<Rightarrow> ValidatorReader \<Rightarrow> Header list \<Rightarrow>
   dpos_error option" where
  "VerifyBlocks od ec rlpHash broadCastNodes reader headers =
    (case headers of
       [] \<Rightarrow> Some ErrInputHeaderErr
     | header # _ \<Rightarrow>
         (case getValidatorGraph reader (header_number header) of
            Inl err \<Rightarrow> Some err
          | Inr preGraph \<Rightarrow> verify_blocks_loop od ec rlpHash broadCastNodes preGraph headers))"

section \<open>The target as a number\<close>

lemma bitlen_bounds: "0 < n \<Longrightarrow> 2 ^ (bitlen n - 1) \<le> n \<and> n < 2 ^ bitlen n"
proof (induction n rule: bitlen.induct)
  case (1 n)
  show ?case
  proof (cases "n = 1")
    case True
    then show ?thesis by (simp add: bitlen.simps [of "Suc 0"] bitlen.simps [of 0])
  next
    case False
    then have pos: "0 < n div 2" using "1.prems" by simp
    have IH: "2 ^ (bitlen (n div 2) - 1) \<le> n div 2" "n div 2 < 2 ^ bitlen (n div 2)"
      using "1.IH" pos "1.prems" by simp_all
    obtain k where k: "bitlen (n div 2) = Suc k"
      using pos by (simp add: bitlen.simps [of "n div 2"])
    have "bitlen n = Suc (Suc k)" using k "1.prems" by (simp add: bitlen.simps [of n])
    then show ?thesis using IH k by simp linarith
  qed
qed

lemma round53_err:
  "(2 ^ 53 - 1) * x \<le> 2 ^ 53 * round53 x \<and> 2 ^ 53 * round53 x \<le> (2 ^ 53 + 1) * x"
proof (cases "x < 2 ^ 53")
  case False
  define s where "s = bitlen x - 53"
  define q where "q = x div 2 ^ s"
  define r where "r = x mod 2 ^ s"
  have x: "x = q * 2 ^ s + r" by (simp only: q_def r_def div_mult_mod_eq)
  have lo: "2 ^ (bitlen x - 1) \<le> x" and hi: "x < 2 ^ bitlen x"
    using bitlen_bounds [of x] False by simp_all
  have "\<not> bitlen x \<le> 53"
  proof
    assume "bitlen x \<le> 53"
    then have "(2 :: nat) ^ bitlen x \<le> 2 ^ 53" by (intro power_increasing) simp_all
    then show False using hi False by linarith
  qed
  then have "bitlen x - 1 = 52 + s" by (simp add: s_def)
  then have "2 ^ 52 * 2 ^ s \<le> x" using lo by (simp add: power_add)
  then have q52: "2 ^ 52 \<le> q"
    unfolding q_def by (metis div_le_mono nonzero_mult_div_cancel_right power_not_zero zero_neq_numeral)
  define b y where "b = (2 :: nat) ^ s" and "y = q * b"
  have yb: "2 ^ 52 * b \<le> y" using q52 unfolding y_def by (rule mult_le_mono1)
  have xy: "x = y + r" using x by (simp add: y_def b_def)
  have rnd: "round53 x = (if 2 * r > b \<or> 2 * r = b \<and> odd q then y + b else y)"
    using False by (simp add: round53_def Let_def y_def b_def q_def r_def s_def algebra_simps)
  show ?thesis
  proof (cases "2 * r > b \<or> 2 * r = b \<and> odd q")
    case True
    then have "b \<le> 2 * r" by linarith
    moreover have "r \<le> b" by (simp add: r_def b_def less_imp_le)
    ultimately show ?thesis using rnd True yb unfolding xy by simp
  next
    case False
    then have "2 * r \<le> b" by linarith
    then show ?thesis using rnd False yb unfolding xy by simp
  qed
qed (simp add: round53_def)

lemma ceil_ratio_bounds:
  fixes n :: nat
  assumes "n < 2 ^ 53"
  defines "R \<equiv> round53 (n * DPOSTargetSignCountRatio)"
  shows "R \<le> 2 ^ 53 * ceil_ratio n" "\<And>t. R \<le> 2 ^ 53 * t \<Longrightarrow> ceil_ratio n \<le> t"
proof -
  have c: "ceil_ratio n = (R + (2 ^ 53 - 1)) div 2 ^ 53"
    using assms by (simp add: ceil_ratio_def round53_def [of n])
  show "R \<le> 2 ^ 53 * ceil_ratio n" unfolding c by simp
  show "ceil_ratio n \<le> t" if "R \<le> 2 ^ 53 * t" for t
    using that unfolding c by simp
qed

lemma ceil_ratio_majority: "0 < n \<Longrightarrow> n < 2 ^ 53 \<Longrightarrow> 2 * n < 3 * ceil_ratio n"
  using ceil_ratio_bounds(1) [of n] round53_err [of "n * DPOSTargetSignCountRatio"]
  by (simp add: DPOSTargetSignCountRatio_def)

lemma ceil_ratio_le: "n < 2 ^ 53 \<Longrightarrow> ceil_ratio n \<le> n"
  using ceil_ratio_bounds(2) [of n n] round53_err [of "n * DPOSTargetSignCountRatio"]
  by (simp add: DPOSTargetSignCountRatio_def)

lemma ceil_ratio_exact:
  assumes "0 < n" "n < 100000"
  shows "ceil_ratio n = 2 * n div 3 + 1"
proof -
  have "2 * n \<le> 3 * (2 * n div 3) + 2" by presburger
  then have "ceil_ratio n \<le> 2 * n div 3 + 1"
    using ceil_ratio_bounds(2) [of n "2 * n div 3 + 1"] round53_err [of "n * DPOSTargetSignCountRatio"]
      assms by (simp add: DPOSTargetSignCountRatio_def)
  moreover have "2 * n div 3 < ceil_ratio n"
    using ceil_ratio_majority [of n] assms by (simp add: div_less_iff_less_mult)
  ultimately show ?thesis by simp
qed

text \<open>The number of agreeing validators the engine asks for among \<open>n\<close>.\<close>

definition dpos_quorum :: "nat \<Rightarrow> nat" where
  "dpos_quorum n = (if n \<le> DPOSFullSignThreshold then n else ceil_ratio n)"

locale quorum_rule =
  fixes quorum :: "nat \<Rightarrow> nat" and limit :: nat
  assumes two_thirds: "0 < n \<Longrightarrow> n < limit \<Longrightarrow> 2 * n < 3 * quorum n"
    and attainable: "n < limit \<Longrightarrow> quorum n \<le> n"
begin

lemma overlap:
  assumes "finite V" "A \<subseteq> V" "B \<subseteq> V" "0 < card V" "card V < limit"
    and "quorum (card V) \<le> card A" "quorum (card V) \<le> card B"
  shows "card V < 3 * card (A \<inter> B)"
proof -
  have "card A + card B = card (A \<union> B) + card (A \<inter> B)"
    using assms(1-3) by (intro card_Un_Int) (auto intro: finite_subset)
  moreover have "card (A \<union> B) \<le> card V"
    using assms(1-3) by (intro card_mono) auto
  ultimately show ?thesis using two_thirds [OF assms(4,5)] assms(6,7) by linarith
qed

text \<open>With at most a third of the voters faulty, two quorums share a voter that is not.\<close>

lemma honest_overlap:
  assumes "finite V" "A \<subseteq> V" "B \<subseteq> V" "0 < card V" "card V < limit"
    and "quorum (card V) \<le> card A" "quorum (card V) \<le> card B"
    and "3 * card (F \<inter> V) \<le> card V"
  shows "\<exists>v \<in> A \<inter> B. v \<notin> F"
proof (rule ccontr)
  assume "\<not> ?thesis"
  then have "A \<inter> B \<subseteq> F \<inter> V" using assms(2) by auto
  then have "card (A \<inter> B) \<le> card (F \<inter> V)"
    using assms(1) by (intro card_mono) auto
  then show False using overlap [OF assms(1-7)] assms(8) by linarith
qed

end

interpretation dpos: quorum_rule dpos_quorum "2 ^ 53"
proof
  show "2 * n < 3 * dpos_quorum n" if "0 < n" "n < 2 ^ 53" for n
    using that ceil_ratio_majority by (simp add: dpos_quorum_def)
  show "dpos_quorum n \<le> n" if "n < 2 ^ 53" for n
    using that ceil_ratio_le by (simp add: dpos_quorum_def)
qed

section \<open>The votes behind a verified map\<close>

text \<open>The signatures that verify, with signer and vote, in order.\<close>

fun votes :: "crypto_env \<Rightarrow> hash \<Rightarrow> signature list \<Rightarrow> (signature \<times> address \<times> bool) list" where
  "votes ec h [] = []"
| "votes ec h (s # ss) =
    (case VerifySignWithValidate ec h s of SignOk a v \<Rightarrow> (s, a, v) # votes ec h ss | _ \<Rightarrow> votes ec h ss)"

lemma votes_iff:
  "(s, a, v) \<in> set (votes ec h ss) \<longleftrightarrow> s \<in> set ss \<and> VerifySignWithValidate ec h s = SignOk a v"
  by (induction ss) (auto split: sign_outcome.splits)

lemma verify_loop_fold:
  assumes "verify_loop ec h stocks acc ss = Some m"
  shows "m = fold (merge_sign stocks) (votes ec h ss) acc"
  using assms
  by (induction ec h stocks acc ss rule: verify_loop.induct) (auto split: sign_outcome.splits)

lemma verify_loop_None:
  "verify_loop ec h stocks acc ss = None \<longleftrightarrow> (\<exists>s \<in> set ss. VerifySignWithValidate ec h s = SignPanic)"
  by (induction ec h stocks acc ss rule: verify_loop.induct) (auto split: sign_outcome.splits)

lemma parse_loop_fold:
  "parse_loop stocks acc ss =
    fold (merge_sign stocks) (map (\<lambda>v. (vs_Sign v, vs_Account v, vs_Validate v)) ss) acc"
  by (induction stocks acc ss rule: parse_loop.induct) simp_all

text \<open>A map of verified signs reflects a list of votes: it has an entry for exactly the validators
  that voted, and the entry agrees if one of their votes does.\<close>

definition votes_of :: "address \<Rightarrow> (signature \<times> address \<times> bool) list \<Rightarrow> (signature \<times> bool) set" where
  "votes_of a vs = {(s, v). (s, a, v) \<in> set vs}"

fun entry_ok ::
  "u16 option \<Rightarrow> (signature \<times> bool) set \<Rightarrow> address \<Rightarrow> VerifiedSign option \<Rightarrow> bool" where
  "entry_ok st P a None \<longleftrightarrow> st = None \<or> P = {}"
| "entry_ok st P a (Some x) \<longleftrightarrow> vs_Account x = a \<and> st = Some (vs_Stock x) \<and>
    (vs_Sign x, vs_Validate x) \<in> P \<and> (vs_Validate x \<longleftrightarrow> (\<exists>s. (s, True) \<in> P))"

definition reflects :: "stocks \<Rightarrow> (signature \<times> address \<times> bool) list \<Rightarrow> verified_signs \<Rightarrow> bool" where
  "reflects stocks vs m \<longleftrightarrow>
    gomap_ok m \<and> (\<forall>a. entry_ok (map_of stocks a) (votes_of a vs) a (map_of m a))"

definition merge_entry ::
  "u16 option \<Rightarrow> signature \<Rightarrow> address \<Rightarrow> bool \<Rightarrow> VerifiedSign option \<Rightarrow> VerifiedSign option" where
  "merge_entry st s a v e =
    (case st of None \<Rightarrow> e
     | Some k \<Rightarrow> (case e of
         None \<Rightarrow> Some \<lparr>vs_Sign = s, vs_Account = a, vs_Validate = v, vs_Stock = k\<rparr>
       | Some x \<Rightarrow> if \<not> vs_Validate x \<and> v
           then Some (x\<lparr>vs_Sign := s, vs_Account := a, vs_Validate := v, vs_Stock := k\<rparr>) else Some x))"

lemma map_of_merge:
  "map_of (merge_sign stocks (s, a, v) m) =
    (map_of m)(a := merge_entry (map_of stocks a) s a v (map_of m a))"
  by (auto simp: merge_sign_def merge_entry_def fun_eq_iff split: option.splits)

lemma gomap_ok_merge: "gomap_ok m \<Longrightarrow> gomap_ok (merge_sign stocks v m)"
  by (cases v) (auto simp: merge_sign_def split: option.splits)

lemma votes_of_snoc:
  "votes_of a' (vs @ [(s, a, v)]) = (if a' = a then insert (s, v) (votes_of a vs) else votes_of a' vs)"
  by (auto simp: votes_of_def)

lemma entry_ok_merge:
  "entry_ok st P a e \<Longrightarrow> entry_ok st (insert (s, v) P) a (merge_entry st s a v e)"
proof (cases e)
  case (Some x)
  assume "entry_ok st P a e"
  then show ?thesis using Some by (cases "vs_Validate x"; cases v) (auto simp: merge_entry_def)
qed (auto simp: merge_entry_def split: option.splits)

lemma reflects_snoc:
  assumes "reflects stocks vs m"
  shows "reflects stocks (vs @ [v]) (merge_sign stocks v m)"
  using assms entry_ok_merge
  by (cases v) (auto simp: reflects_def gomap_ok_merge map_of_merge votes_of_snoc)

lemma reflects_Nil: "reflects stocks [] []"
  by (simp add: reflects_def votes_of_def)

lemma reflects_fold: "reflects stocks vs (fold (merge_sign stocks) vs [])"
  by (induction vs rule: rev_induct) (simp_all add: reflects_Nil reflects_snoc)

lemma verifySigns_reflects:
  "verifySigns ec h ss stocks = Some m \<Longrightarrow> reflects stocks (votes ec h ss) m"
  unfolding verifySigns_def by (drule verify_loop_fold) (simp add: reflects_fold)

section \<open>Counting the votes\<close>

definition agreers :: "crypto_env \<Rightarrow> hash \<Rightarrow> signature list \<Rightarrow> stocks \<Rightarrow> address set" where
  "agreers ec h signs stocks =
    {a. map_has stocks a \<and> (\<exists>s \<in> set signs. VerifySignWithValidate ec h s = SignOk a True)}"

abbreviation agrees :: "address \<times> VerifiedSign \<Rightarrow> bool" where
  "agrees kv \<equiv> vs_Validate (snd kv)"

lemma agreers_keys: "agreers ec h signs stocks \<subseteq> fst ` set stocks"
  by (auto simp: agreers_def map_has_iff)

lemma finite_agreers [simp]: "finite (agreers ec h signs stocks)"
  by (rule finite_subset [OF agreers_keys]) simp

lemma agreers_le_signs: "card (agreers ec h signs stocks) \<le> length signs"
proof -
  let ?acc = "\<lambda>s. case VerifySignWithValidate ec h s of SignOk a v \<Rightarrow> a | _ \<Rightarrow> 0"
  have "agreers ec h signs stocks \<subseteq> ?acc ` set signs"
    by (force simp: agreers_def)
  then have "card (agreers ec h signs stocks) \<le> card (?acc ` set signs)"
    by (intro card_mono) simp_all
  also have "\<dots> \<le> length signs"
    using card_image_le [of "set signs" ?acc] card_length [of signs] by simp
  finally show ?thesis .
qed

lemma reflects_entry: "reflects stocks vs m \<Longrightarrow> entry_ok (map_of stocks a) (votes_of a vs) a (map_of m a)"
  by (simp add: reflects_def)

lemma reflects_agree_keys:
  assumes "reflects stocks (votes ec h signs) m"
  shows "fst ` set (filter agrees m) = agreers ec h signs stocks"
proof -
  have ok: "gomap_ok m" using assms by (simp add: reflects_def)
  have "(\<exists>x. map_of m a = Some x \<and> vs_Validate x) \<longleftrightarrow> a \<in> agreers ec h signs stocks" for a
    using reflects_entry [OF assms, of a]
    by (cases "map_of m a") (auto simp: agreers_def map_has_def votes_of_def votes_iff)
  moreover have "a \<in> fst ` set (filter agrees m) \<longleftrightarrow> (\<exists>x. map_of m a = Some x \<and> vs_Validate x)" for a
    using gomap_ok_map_of [OF ok, of a] by (auto simp: image_iff)
  ultimately show ?thesis by blast
qed

lemma reflects_agree_count:
  assumes "reflects stocks (votes ec h signs) m"
  shows "length (filter agrees m) = card (agreers ec h signs stocks)"
proof -
  have "gomap_ok (filter agrees m)" using assms by (simp add: reflects_def)
  then show ?thesis using gomap_length reflects_agree_keys [OF assms] by metis
qed

lemma reflects_keys: "reflects stocks vs m \<Longrightarrow> fst ` set m \<subseteq> fst ` set stocks"
proof
  fix a assume r: "reflects stocks vs m" and "a \<in> fst ` set m"
  then obtain x where "map_of m a = Some x" using map_has_iff [of m a] by (auto simp: map_has_def)
  then show "a \<in> fst ` set stocks"
    using reflects_entry [OF r, of a] map_has_iff [of stocks a] by (simp add: map_has_def)
qed

lemma dpos_loop_Inr:
  "dpos_loop t ac dc as ds rs l = Inr r \<Longrightarrow>
   r = rs @ map (vs_Sign \<circ> snd) (filter agrees l) \<and>
   targetCount t \<le> ac + int (length (filter agrees l))"
  by (induction t ac dc as ds rs l rule: dpos_loop.induct)
     (auto simp: Let_def algebra_simps split: if_split_asm)

definition stock_sum :: "(address \<times> VerifiedSign) list \<Rightarrow> nat" where
  "stock_sum l = sum_list (map (unat \<circ> vs_Stock \<circ> snd) l)"

lemma stock_sum_simps [simp]:
  "stock_sum [] = 0" "stock_sum (kv # l) = unat (vs_Stock (snd kv)) + stock_sum l"
  by (simp_all add: stock_sum_def)

lemma unat_stock [simp]: "unat (ucast (x :: u16) :: u64) = unat x"
  using unsigned_less [of x, where 'a = nat] by (simp add: unsigned_ucast_eq take_bit_eq_mod)

lemma unat_add_bounded:
  fixes x y m :: u64
  assumes "unat x + unat y \<le> unat m"
  shows "unat (x + y) = unat x + unat y"
proof -
  have "unat x + unat y < 2 ^ 64" using assms unat_u64_lt [of m] by linarith
  then show ?thesis by (simp add: unat_word_ariths)
qed

lemma dpos_loop_accepts:
  assumes "dc + int (length (filter (\<lambda>kv. \<not> agrees kv) l)) \<le> maxDisagreeCount t"
    and "unat ds + stock_sum (filter (\<lambda>kv. \<not> agrees kv) l) \<le> unat (maxDisagreeStock t)"
    and "targetCount t \<le> ac + int (length (filter agrees l))"
    and "targetStock t \<le> as + sum_list (map (ucast \<circ> vs_Stock \<circ> snd) (filter agrees l))"
  shows "\<exists>r. dpos_loop t ac dc as ds rs l = Inr r"
  using assms
proof (induction t ac dc as ds rs l rule: dpos_loop.induct)
  case (2 t ac dc as ds rs kv l)
  show ?case
  proof (cases "agrees kv")
    case True
    then show ?thesis using 2 by (simp add: Let_def algebra_simps)
  next
    case False
    let ?s = "ucast (vs_Stock (snd kv)) :: u64"
    have sum: "unat (ds + ?s) = unat ds + unat ?s"
      using "2.prems"(2) False by (intro unat_add_bounded [of _ _ "maxDisagreeStock t"]) simp
    then have "\<not> ds + ?s > maxDisagreeStock t"
      using "2.prems"(2) False by (simp add: word_less_nat_alt)
    moreover have "\<not> dc + 1 > maxDisagreeCount t" using "2.prems"(1) False by simp
    ultimately show ?thesis
      using False 2 sum by (simp add: Let_def algebra_simps)
  qed
qed simp

lemma foldl_stock_sum:
  "foldl (\<lambda>acc kv. acc + (ucast (snd kv) :: u64)) a xs = a + sum_list (map (ucast \<circ> snd) xs)"
  by (induction xs arbitrary: a) (simp_all add: algebra_simps)

lemma gomap_sum_list:
  assumes "gomap_ok m" "\<And>k v. map_of m k = Some v \<Longrightarrow> g (k, v) = f k"
  shows "sum_list (map g m) = (\<Sum>k \<in> fst ` set m. (f k :: 'b :: comm_monoid_add))"
proof -
  have "map g m = map (f \<circ> fst) m"
    using assms by (auto simp: gomap_ok_map_of [symmetric])
  then have "sum_list (map g m) = sum_list (map f (map fst m))" by (simp only: map_map)
  also have "\<dots> = (\<Sum>k \<in> set (map fst m). f k)"
    using assms(1) unfolding gomap_ok_def by (rule sum_list_distinct_conv_sum_set)
  finally show ?thesis by simp
qed

text \<open>The stock of a validator, and the sum of a set of them, as a number.\<close>

definition stock_of :: "stocks \<Rightarrow> address \<Rightarrow> nat" where
  "stock_of stocks a = (case map_of stocks a of None \<Rightarrow> 0 | Some s \<Rightarrow> unat s)"

lemma total_stock_word:
  assumes "gomap_ok stocks"
  shows "sum_list (map (ucast \<circ> snd) stocks) = (of_nat (\<Sum>a \<in> fst ` set stocks. stock_of stocks a) :: u64)"
proof -
  have "sum_list (map (ucast \<circ> snd) stocks) =
      (\<Sum>a \<in> fst ` set stocks. (of_nat (stock_of stocks a) :: u64))"
    by (rule gomap_sum_list [OF assms]) (simp add: stock_of_def)
  then show ?thesis by simp
qed

lemma verified_stock_word:
  assumes "reflects stocks vs m" "\<And>kv. kv \<in> set m' \<Longrightarrow> kv \<in> set m" "gomap_ok m'"
  shows "sum_list (map (ucast \<circ> vs_Stock \<circ> snd) m') =
      (of_nat (\<Sum>a \<in> fst ` set m'. stock_of stocks a) :: u64)"
    and "stock_sum m' = (\<Sum>a \<in> fst ` set m'. stock_of stocks a)"
proof -
  have m: "gomap_ok m" using assms(1) by (simp add: reflects_def)
  have st: "stock_of stocks k = unat (vs_Stock v)" if "map_of m' k = Some v" for k v
  proof -
    have "map_of m k = Some v"
      using that assms(2,3) m by (simp add: gomap_ok_map_of [symmetric])
    then show ?thesis using reflects_entry [OF assms(1), of k] by (simp add: stock_of_def)
  qed
  have "sum_list (map (ucast \<circ> vs_Stock \<circ> snd) m') =
      (\<Sum>a \<in> fst ` set m'. (of_nat (stock_of stocks a) :: u64))"
    by (rule gomap_sum_list [OF assms(3)]) (simp add: st)
  then show "sum_list (map (ucast \<circ> vs_Stock \<circ> snd) m') =
      (of_nat (\<Sum>a \<in> fst ` set m'. stock_of stocks a) :: u64)" by simp
  show "stock_sum m' = (\<Sum>a \<in> fst ` set m'. stock_of stocks a)"
    unfolding stock_sum_def by (rule gomap_sum_list [OF assms(3)]) (simp add: st)
qed

lemma stock_of_lt: "stock_of stocks a < 2 ^ 16"
  using unsigned_less [where 'a = nat and 'b = 16]
  by (auto simp: stock_of_def split: option.splits)

lemma total_stock_nat:
  assumes "gomap_ok stocks" "length stocks < 2 ^ 48"
  shows "(\<Sum>a \<in> fst ` set stocks. stock_of stocks a) < 2 ^ 64"
proof -
  have "(\<Sum>a \<in> fst ` set stocks. stock_of stocks a) \<le> (\<Sum>a \<in> fst ` set stocks. 2 ^ 16)"
    by (intro sum_mono less_imp_le stock_of_lt)
  also have "\<dots> = length stocks * 2 ^ 16" by (simp add: gomap_length [OF assms(1)])
  also have "\<dots> < 2 ^ 64" using assms(2) by simp
  finally show ?thesis .
qed

definition order_ok :: "dpos_order \<Rightarrow> bool" where
  "order_ok od \<longleftrightarrow> range_order (ord_stocks od) \<and> range_order (ord_signs od)"

lemma calculateDPOSTarget_eq:
  assumes "range_order rng" "3 \<le> length stocks"
  shows "\<exists>t. calculateDPOSTarget rng stocks = Inr t \<and>
    targetCount t = int (dpos_quorum (length stocks)) \<and>
    maxDisagreeCount t = int (length stocks) - int (dpos_quorum (length stocks)) \<and>
    targetStock t = (if length stocks \<le> 7 then sum_list (map (ucast \<circ> snd) stocks) else 0) \<and>
    maxDisagreeStock t = (if length stocks \<le> 7 then 0 else sum_list (map (ucast \<circ> snd) stocks))"
  using assms
  by (simp add: calculateDPOSTarget_def dpos_quorum_def foldl_stock_sum range_order_sum_list
      DPOSMinStockCount_def DPOSFullSignThreshold_def Let_def)

lemma full_quorum: "n \<le> 7 \<Longrightarrow> dpos_quorum n = n"
  by (simp add: dpos_quorum_def DPOSFullSignThreshold_def)

lemma disagree_stock_bound:
  assumes "reflects stocks vs m" "gomap_ok stocks" "length stocks < 2 ^ 48"
    and "set l \<subseteq> set m" "gomap_ok l"
  shows "stock_sum l \<le> unat (sum_list (map (ucast \<circ> snd) stocks) :: u64)"
proof -
  have "fst ` set l \<subseteq> fst ` set stocks"
    using reflects_keys [OF assms(1)] assms(4) by auto
  then have "(\<Sum>a \<in> fst ` set l. stock_of stocks a) \<le> (\<Sum>a \<in> fst ` set stocks. stock_of stocks a)"
    by (intro sum_mono2) auto
  moreover have "stock_sum l = (\<Sum>a \<in> fst ` set l. stock_of stocks a)"
    using assms(4,5) by (intro verified_stock_word(2) [OF assms(1)]) auto
  ultimately show ?thesis
    using total_stock_nat [OF assms(2,3)]
    by (simp add: total_stock_word [OF assms(2)] unat_of_nat del: of_nat_sum)
qed

lemma full_agree_stock:
  assumes "reflects stocks vs m" "gomap_ok stocks"
    and "set l \<subseteq> set m" "gomap_ok l" "length stocks \<le> length l"
  shows "sum_list (map (ucast \<circ> vs_Stock \<circ> snd) l) = (sum_list (map (ucast \<circ> snd) stocks) :: u64)"
proof -
  have "fst ` set l \<subseteq> fst ` set stocks"
    using reflects_keys [OF assms(1)] assms(3) by auto
  moreover have "card (fst ` set stocks) \<le> card (fst ` set l)"
    using assms(5) by (simp add: gomap_length assms(2,4))
  ultimately have "fst ` set l = fst ` set stocks" by (intro card_seteq) auto
  moreover have "sum_list (map (ucast \<circ> vs_Stock \<circ> snd) l) =
      (of_nat (\<Sum>a \<in> fst ` set l. stock_of stocks a) :: u64)"
    using assms(3,4) by (intro verified_stock_word(1) [OF assms(1)]) auto
  ultimately show ?thesis by (simp only: total_stock_word [OF assms(2)])
qed

lemma verifyDPOS_accepts:
  assumes m: "reflects stocks (votes ec h signs) m" and st: "gomap_ok stocks"
    and od: "order_ok od" and n: "3 \<le> length stocks" "length stocks < 2 ^ 48"
    and t: "calculateDPOSTarget (ord_stocks od) stocks = Inr t"
    and q: "dpos_quorum (length stocks) \<le> card (agreers ec h signs stocks)"
  shows "\<exists>r. verifyDPOS (ord_signs od) m t = Inr r"
proof -
  let ?l = "ord_signs od m" and ?no = "\<lambda>kv. \<not> agrees kv"
  have rs: "range_order (ord_stocks od)" and rm: "range_order (ord_signs od)"
    using od by (simp_all add: order_ok_def)
  have t': "targetCount t = int (dpos_quorum (length stocks))"
    "maxDisagreeCount t = int (length stocks) - int (dpos_quorum (length stocks))"
    "targetStock t = (if length stocks \<le> 7 then sum_list (map (ucast \<circ> snd) stocks) else 0)"
    "maxDisagreeStock t = (if length stocks \<le> 7 then 0 else sum_list (map (ucast \<circ> snd) stocks))"
    using calculateDPOSTarget_eq [OF rs n(1)] t by auto
  have lok: "gomap_ok ?l" "set ?l = set m" using m rm by (simp_all add: reflects_def range_order_ok)
  have agree: "length (filter agrees ?l) = card (agreers ec h signs stocks)"
    by (simp add: range_order_filter_length [OF rm] reflects_agree_count [OF m])
  have "length m \<le> length stocks"
    using reflects_keys [OF m] m st by (simp add: reflects_def gomap_length card_mono)
  then have no: "length (filter ?no ?l) \<le> length stocks - dpos_quorum (length stocks)"
    using sum_length_filter_compl [of agrees ?l] rm q agree by simp
  show ?thesis unfolding verifyDPOS_def
  proof (rule dpos_loop_accepts)
    show "0 + int (length (filter ?no ?l)) \<le> maxDisagreeCount t"
      using no dpos.attainable [of "length stocks"] n by (simp add: t'(2))
    show "targetCount t \<le> 0 + int (length (filter agrees ?l))"
      using q agree by (simp add: t'(1))
    show "unat (0 :: u64) + stock_sum (filter ?no ?l) \<le> unat (maxDisagreeStock t)"
      using no disagree_stock_bound [OF m st n(2), of "filter ?no ?l"] lok
      by (auto simp: t'(4) full_quorum)
    show "targetStock t \<le> 0 + sum_list (map (ucast \<circ> vs_Stock \<circ> snd) (filter agrees ?l))"
      using q agree full_agree_stock [OF m st, of "filter agrees ?l"] lok
      by (auto simp: t'(3) full_quorum)
  qed
qed

section \<open>What acceptance means\<close>

lemma accept_shape:
  assumes "VerifyHashWithStocks od ec h signs stocks = Inr r"
  obtains t m where "calculateDPOSTarget (ord_stocks od) stocks = Inr t"
    "verifySigns ec h signs stocks = Some m" "verifyDPOS (ord_signs od) m t = Inr r"
  using assms unfolding VerifyHashWithStocks_def
  by (auto split: sum.splits option.splits if_splits)

lemma accept_min_count:
  assumes "VerifyHashWithStocks od ec h signs stocks = Inr r"
  shows "3 \<le> length stocks"
  using assms unfolding VerifyHashWithStocks_def calculateDPOSTarget_def
  by (auto simp: DPOSMinStockCount_def Let_def split: if_splits)

lemma accept_quorum:
  assumes "VerifyHashWithStocks od ec h signs stocks = Inr r" "order_ok od"
  shows "dpos_quorum (length stocks) \<le> card (agreers ec h signs stocks)"
    and "length r = card (agreers ec h signs stocks)"
proof -
  obtain t m where t: "calculateDPOSTarget (ord_stocks od) stocks = Inr t"
    and m: "verifySigns ec h signs stocks = Some m" and r: "verifyDPOS (ord_signs od) m t = Inr r"
    using assms(1) by (rule accept_shape)
  have rs: "range_order (ord_stocks od)" and rm: "range_order (ord_signs od)"
    using assms(2) by (simp_all add: order_ok_def)
  note refl = verifySigns_reflects [OF m]
  note loop = dpos_loop_Inr [OF r [unfolded verifyDPOS_def]]
  have "targetCount t = int (dpos_quorum (length stocks))"
    using calculateDPOSTarget_eq [OF rs accept_min_count [OF assms(1)]] t by auto
  then show "dpos_quorum (length stocks) \<le> card (agreers ec h signs stocks)"
    and "length r = card (agreers ec h signs stocks)"
    using loop by (simp_all add: range_order_filter_length [OF rm] reflects_agree_count [OF refl])
qed

lemma accept_signs:
  assumes "VerifyHashWithStocks od ec h signs stocks = Inr r" "order_ok od"
  shows "distinct r \<and> (\<forall>s \<in> set r. s \<in> set signs \<and>
    (\<exists>a. map_has stocks a \<and> VerifySignWithValidate ec h s = SignOk a True))"
proof -
  obtain t m where m: "verifySigns ec h signs stocks = Some m"
    and r: "verifyDPOS (ord_signs od) m t = Inr r"
    using assms(1) by (rule accept_shape)
  have rm: "range_order (ord_signs od)" using assms(2) by (simp add: order_ok_def)
  note refl = verifySigns_reflects [OF m]
  let ?l = "filter agrees (ord_signs od m)"
  have r': "r = map (vs_Sign \<circ> snd) ?l"
    using dpos_loop_Inr [OF r [unfolded verifyDPOS_def]] by simp
  have lok: "gomap_ok ?l" using refl rm by (simp add: reflects_def range_order_ok)
  have e: "vs_Sign x \<in> set signs \<and> map_has stocks a \<and>
      VerifySignWithValidate ec h (vs_Sign x) = SignOk a True" if "(a, x) \<in> set ?l" for a x
  proof -
    have "map_of m a = Some x" "vs_Validate x"
      using that refl rm by (simp_all add: reflects_def gomap_ok_map_of [symmetric])
    then show ?thesis using reflects_entry [OF refl, of a]
      by (simp add: votes_of_def votes_iff map_has_def)
  qed
  have "inj_on (vs_Sign \<circ> snd) (set ?l)"
  proof (rule inj_onI)
    fix p q assume pq: "p \<in> set ?l" "q \<in> set ?l" "(vs_Sign \<circ> snd) p = (vs_Sign \<circ> snd) q"
    have "fst p = fst q" using e [of "fst p" "snd p"] e [of "fst q" "snd q"] pq by simp
    then show "p = q" using pq lok unfolding gomap_ok_def by (metis distinct_map inj_onD)
  qed
  then have "distinct r" unfolding r' using gomap_ok_distinct [OF lok] by (simp add: distinct_map)
  then show ?thesis using e unfolding r' by force
qed

lemma quorum_accepts:
  assumes "order_ok od" "gomap_ok stocks" "3 \<le> length stocks" "length stocks < 2 ^ 48"
    and "\<forall>s \<in> set signs. VerifySignWithValidate ec h s \<noteq> SignPanic"
    and q: "dpos_quorum (length stocks) \<le> card (agreers ec h signs stocks)"
  shows "\<exists>r. VerifyHashWithStocks od ec h signs stocks = Inr r"
proof -
  have rs: "range_order (ord_stocks od)" using assms(1) by (simp add: order_ok_def)
  obtain t where t: "calculateDPOSTarget (ord_stocks od) stocks = Inr t"
    and tc: "targetCount t = int (dpos_quorum (length stocks))"
    using calculateDPOSTarget_eq [OF rs assms(3)] by blast
  obtain m where m: "verifySigns ec h signs stocks = Some m"
    using verify_loop_None [of ec h stocks "[]" signs] assms(5) unfolding verifySigns_def by blast
  note refl = verifySigns_reflects [OF m]
  obtain r where "verifyDPOS (ord_signs od) m t = Inr r"
    using verifyDPOS_accepts [OF refl assms(2,1,3,4) t q] by blast
  moreover have "int (dpos_quorum (length stocks)) \<le> int (length signs)"
    using q agreers_le_signs [of ec h signs stocks] by simp
  moreover have "int (dpos_quorum (length stocks)) \<le> int (length m)"
    using q reflects_agree_count [OF refl] length_filter_le [of agrees m] by simp
  ultimately have "VerifyHashWithStocks od ec h signs stocks = Inr r"
    using t m tc by (simp add: VerifyHashWithStocks_def)
  then show ?thesis by blast
qed

lemma accept_cover:
  assumes "VerifyHashWithStocks od ec h signs stocks = Inr r" "order_ok od"
  shows "agreers ec h r stocks = agreers ec h signs stocks"
proof -
  obtain t m where m: "verifySigns ec h signs stocks = Some m"
    and r: "verifyDPOS (ord_signs od) m t = Inr r"
    using assms(1) by (rule accept_shape)
  have rm: "range_order (ord_signs od)" using assms(2) by (simp add: order_ok_def)
  note refl = verifySigns_reflects [OF m]
  have r': "set r = (vs_Sign \<circ> snd) ` set (filter agrees m)"
    using dpos_loop_Inr [OF r [unfolded verifyDPOS_def]] rm by auto
  have "a \<in> agreers ec h r stocks" if a: "a \<in> agreers ec h signs stocks" for a
  proof -
    obtain x where x: "(a, x) \<in> set m" "vs_Validate x"
      using a unfolding reflects_agree_keys [OF refl, symmetric] by auto
    then have "map_of m a = Some x" using refl by (simp add: reflects_def gomap_ok_map_of)
    then have "VerifySignWithValidate ec h (vs_Sign x) = SignOk a True"
      using reflects_entry [OF refl, of a] x(2) by (simp add: votes_of_def votes_iff)
    moreover have "vs_Sign x \<in> set r" unfolding r' using x by force
    ultimately show ?thesis using a by (auto simp: agreers_def)
  qed
  moreover have "agreers ec h r stocks \<subseteq> agreers ec h signs stocks"
    using accept_signs [OF assms] by (auto simp: agreers_def)
  ultimately show ?thesis by blast
qed

text \<open>The returned signatures are themselves accepted, by any engine for the same validators.\<close>

lemma dpos_loop_no_panic: "dpos_loop t ac dc as ds rs l \<noteq> Inl DposPanic"
  by (induction t ac dc as ds rs l rule: dpos_loop.induct) (auto simp: Let_def)

lemma calculateDPOSTarget_no_panic: "calculateDPOSTarget rng stocks \<noteq> Inl DposPanic"
  by (simp add: calculateDPOSTarget_def Let_def)

lemma getValidatorStocks_no_panic: "getValidatorStocks reader n \<noteq> Inl DposPanic"
  by (auto simp: getValidatorStocks_def getValidatorGraph_def Let_def split: sum.splits)

lemma VerifyHashWithNumber_panic:
  assumes "VerifyHashWithNumber od ec reader h signs n = Inl DposPanic"
  shows "\<exists>s \<in> set signs. VerifySignWithValidate ec h s = SignPanic"
proof -
  obtain stocks where "VerifyHashWithStocks od ec h signs stocks = Inl DposPanic"
    using assms getValidatorStocks_no_panic [of reader n]
    by (auto simp: VerifyHashWithNumber_def split: sum.splits)
  then have "verifySigns ec h signs stocks = None"
    using calculateDPOSTarget_no_panic [of "ord_stocks od" stocks] dpos_loop_no_panic
    by (auto simp: VerifyHashWithStocks_def verifyDPOS_def split: sum.splits option.splits if_splits)
  then show ?thesis by (simp add: verifySigns_def verify_loop_None)
qed

lemma VerifyBlock_panic:
  assumes "VerifyBlock od ec rlpHash bn reader h = Some DposPanic"
  shows "\<exists>s. VerifySignWithValidate ec (HashNoSignsAndNonce rlpHash h) s = SignPanic"
proof (cases "IsBroadcastNumber (header_number h)")
  case True
  then show ?thesis using assms
    by (auto simp: VerifyBlock_def verifyBroadcastBlock_def split: list.splits sign_outcome.splits if_splits)
next
  case False
  have "VerifyHashWithNumber od ec reader (HashNoSignsAndNonce rlpHash h) (h_Signatures h) (header_number h) = Inl DposPanic"
    using assms False by (auto simp: VerifyBlock_def VerifyHashWithNumber_def split: sum.splits)
  then show ?thesis using VerifyHashWithNumber_panic by blast
qed

lemma stocks_loop_ok: "gomap_ok stocks \<Longrightarrow> gomap_ok (stocks_loop stocks nodes)"
  by (induction stocks nodes rule: stocks_loop.induct) simp_all

lemma getValidatorStocks_ok: "getValidatorStocks reader n = Inr stocks \<Longrightarrow> gomap_ok stocks"
  by (auto simp: getValidatorStocks_def graph2ValidatorStocks_def stocks_loop_ok split: sum.splits)

lemma returned_signs_accepted:
  assumes "VerifyHashWithStocks od ec h signs stocks = Inr r" "order_ok od" "order_ok od'"
    and "gomap_ok stocks" "length stocks < 2 ^ 48"
  shows "\<exists>r'. VerifyHashWithStocks od' ec h r stocks = Inr r'"
proof (rule quorum_accepts [OF assms(3,4) accept_min_count [OF assms(1)] assms(5)])
  show "\<forall>s \<in> set r. VerifySignWithValidate ec h s \<noteq> SignPanic"
    using accept_signs [OF assms(1,2)] by force
  show "dpos_quorum (length stocks) \<le> card (agreers ec h r stocks)"
    unfolding accept_cover [OF assms(1,2)] by (rule accept_quorum(1) [OF assms(1,2)])
qed

text \<open>C2: The engine accepts a hash exactly when a quorum of the validators agrees. For a set of at
  least three validators and signatures whose check does not panic, \<open>VerifyHashWithStocks\<close> succeeds if
  and only if at least \<open>dpos_quorum n\<close> different validators have a signature in the list that
  verifies as an agreeing vote, whatever other signatures (of strangers, duplicates, disagreeing
  votes) the list has and in whatever order the maps are visited.\<close>

theorem dpos_accepts_iff:
  assumes "order_ok od" "gomap_ok stocks" "3 \<le> length stocks" "length stocks < 2 ^ 48"
    and "\<forall>s \<in> set signs. VerifySignWithValidate ec h s \<noteq> SignPanic"
  shows "(\<exists>r. VerifyHashWithStocks od ec h signs stocks = Inr r) \<longleftrightarrow>
    dpos_quorum (length stocks) \<le> card (agreers ec h signs stocks)"
  using accept_quorum(1) [OF _ assms(1)] quorum_accepts [OF assms] by blast

text \<open>A signature scheme to run the engine on: the bytes above the recovery byte name the signer,
  and only the hash 5 has valid signatures.\<close>

definition demo_crypto :: crypto_env where
  "demo_crypto = \<lparr>Ecrecover = \<lambda>h s. if h = 5 then Some [4, ucast (drop_bit 8 s)] else None,
    Keccak256 = \<lambda>b. ucast (hd b)\<rparr>"

definition demo_order :: dpos_order where
  "demo_order = \<lparr>ord_stocks = rev, ord_signs = rev\<rparr>"

lemma demo_order_ok: "order_ok demo_order"
  by (simp add: order_ok_def demo_order_def)

lemma demo_verify:
  "VerifySignWithValidate demo_crypto 5 s =
    (if sig64 s < 2 then SignOk (ucast (ucast (ucast (drop_bit 8 s) :: u8) :: hash)) True else SignPanic)"
  by (simp add: demo_crypto_def VerifySignWithValidate_def vote_hash_def big_bytes32_def
      pubkey_address_def Let_def)

definition demo_stocks :: stocks where
  "demo_stocks = [(1, 10), (2, 20), (3, 5)]"

lemma demo_stocks_ok: "gomap_ok demo_stocks" "length demo_stocks = 3"
  by (simp_all add: demo_stocks_def gomap_ok_def)

lemma demo_agreers: "agreers demo_crypto 5 [0x100, 0x300, 0x201] demo_stocks = {1, 2, 3}"
  by (auto simp: agreers_def demo_stocks_def demo_verify sig64_def)

theorem dpos_accepts_iff_witness:
  "\<exists>r. VerifyHashWithStocks demo_order demo_crypto 5 [0x100, 0x300, 0x201] demo_stocks = Inr r"
  using dpos_accepts_iff [OF demo_order_ok demo_stocks_ok(1),
      of "[0x100, 0x300, 0x201]" demo_crypto 5] demo_stocks_ok(2)
  by (simp add: demo_agreers full_quorum demo_verify sig64_def)

text \<open>Two accepted hashes have a signer in common that is not one of at most a third of faulty validators.\<close>

lemma accepted_overlap:
  assumes "order_ok od" "order_ok od'" "gomap_ok stocks" "length stocks < 2 ^ 53"
    and "VerifyHashWithStocks od ec h signs stocks = Inr r"
    and "VerifyHashWithStocks od' ec h' signs' stocks = Inr r'"
    and "3 * card (F \<inter> fst ` set stocks) \<le> length stocks"
  shows "\<exists>a s s'. a \<notin> F \<and> VerifySignWithValidate ec h s = SignOk a True \<and> VerifySignWithValidate ec h' s' = SignOk a True"
proof -
  let ?V = "fst ` set stocks"
  have n: "card ?V = length stocks" using gomap_length [OF assms(3)] by simp
  have "stocks \<noteq> []" using accept_min_count [OF assms(5)] by auto
  then have "\<exists>v \<in> agreers ec h signs stocks \<inter> agreers ec h' signs' stocks. v \<notin> F"
    using accept_quorum(1) [OF assms(5,1)] accept_quorum(1) [OF assms(6,2)]
      assms(4,7)
    by (intro dpos.honest_overlap [of ?V]) (simp_all add: n agreers_keys)
  then show ?thesis by (auto simp: agreers_def)
qed

text \<open>C1: Safety of the engine. If two hashes are both accepted for the same validators, at most a
  third of the validators being faulty and every other one agreeing to at most one of the two
  hashes, then the hashes are equal.\<close>

theorem dpos_safety:
  assumes "order_ok od" "order_ok od'" "gomap_ok stocks" "length stocks < 2 ^ 53"
    and "VerifyHashWithStocks od ec h signs stocks = Inr r"
    and "VerifyHashWithStocks od' ec h' signs' stocks = Inr r'"
    and "3 * card (F \<inter> fst ` set stocks) \<le> length stocks"
    and "\<And>a s s'. a \<notin> F \<Longrightarrow> VerifySignWithValidate ec h s = SignOk a True \<Longrightarrow>
           VerifySignWithValidate ec h' s' = SignOk a True \<Longrightarrow> h = h'"
  shows "h = h'"
  using accepted_overlap [OF assms(1-7)] assms(8) by blast

lemma demo_accepts:
  "VerifyHashWithStocks demo_order demo_crypto 5 [0x100, 0x300, 0x201] demo_stocks =
    Inr [0x201, 0x300, 0x100]"
  by (simp add: VerifyHashWithStocks_def calculateDPOSTarget_def verifySigns_def verifyDPOS_def
      demo_verify sig64_def merge_sign_def demo_stocks_def demo_order_def
      DPOSMinStockCount_def DPOSFullSignThreshold_def)

theorem dpos_safety_witness:
  "\<exists>h h'. VerifyHashWithStocks demo_order demo_crypto h [0x100, 0x300, 0x201] demo_stocks =
      Inr [0x201, 0x300, 0x100] \<and>
    VerifyHashWithStocks demo_order demo_crypto h' [0x100, 0x300, 0x201] demo_stocks =
      Inr [0x201, 0x300, 0x100] \<and> h = h'"
proof -
  have "(5 :: hash) = 5"
    by (rule dpos_safety [OF demo_order_ok demo_order_ok demo_stocks_ok(1) _ demo_accepts demo_accepts,
        where F = "{7}"]) (simp_all add: demo_stocks_def)
  then show ?thesis using demo_accepts by blast
qed

text \<open>The signatures \<open>VerifyHashWithStocks\<close> returns are proof of the quorum: they are different
  signatures of the input, each an agreeing vote of a validator, one for each agreeing validator,
  and at least \<open>dpos_quorum n\<close> of them.\<close>

theorem dpos_returned_signs:
  assumes "order_ok od" "VerifyHashWithStocks od ec h signs stocks = Inr r"
  shows "distinct r \<and> dpos_quorum (length stocks) \<le> length r \<and>
    length r = card (agreers ec h signs stocks) \<and>
    (\<forall>s \<in> set r. s \<in> set signs \<and>
       (\<exists>a. map_has stocks a \<and> VerifySignWithValidate ec h s = SignOk a True))"
  using accept_signs [OF assms(2,1)] accept_quorum [OF assms(2,1)] by auto

theorem dpos_returned_signs_witness:
  "distinct [0x201, 0x300, 0x100 :: signature] \<and> dpos_quorum (length demo_stocks) \<le> 3 \<and>
   card (agreers demo_crypto 5 [0x100, 0x300, 0x201] demo_stocks) = 3"
  using dpos_returned_signs [OF demo_order_ok demo_accepts] by simp

text \<open>The number of signatures the engine asks for: fewer than three validators are refused, up
  to seven validators have to agree all, and for 8 to 99999 validators the double precision
  computation gives exactly the integer just above two thirds.\<close>

theorem dpos_target_count:
  assumes "range_order rng"
  shows "case calculateDPOSTarget rng stocks of
      Inl e \<Rightarrow> e = ErrStockCountErr \<and> length stocks < 3
    | Inr t \<Rightarrow> 3 \<le> length stocks \<and> totalCount t = int (length stocks) \<and>
        (length stocks \<le> 7 \<longrightarrow> targetCount t = int (length stocks)) \<and>
        (7 < length stocks \<and> length stocks < 100000 \<longrightarrow>
           targetCount t = int (2 * length stocks div 3 + 1))"
proof (cases "length stocks < 3")
  case True
  then show ?thesis by (simp add: calculateDPOSTarget_def DPOSMinStockCount_def)
next
  case False
  then have n: "3 \<le> length stocks" "stocks \<noteq> []" by auto
  from n(1) obtain t where "calculateDPOSTarget rng stocks = Inr t"
    and "targetCount t = int (dpos_quorum (length stocks))"
    using calculateDPOSTarget_eq [OF assms] by blast
  moreover from this(1) have "totalCount t = int (length stocks)"
    using False by (auto simp: calculateDPOSTarget_def DPOSMinStockCount_def Let_def)
  ultimately show ?thesis
    using n ceil_ratio_exact [of "length stocks"]
    by (auto simp: dpos_quorum_def DPOSFullSignThreshold_def)
qed

theorem dpos_target_count_witness:
  "\<exists>t. calculateDPOSTarget rev (map (\<lambda>i. (of_nat i, 1)) [0..<19]) = Inr t \<and> targetCount t = 13"
proof -
  let ?st = "map (\<lambda>i. (of_nat i :: address, 1 :: u16)) [0..<19]"
  obtain t where t: "calculateDPOSTarget rev ?st = Inr t"
    using calculateDPOSTarget_eq [of rev ?st] by auto
  then show ?thesis using dpos_target_count [of rev ?st] by simp
qed

section \<open>Signatures verified before and chains of headers\<close>

lemma verified_signs_same:
  assumes "list_all2 (\<lambda>s v. VerifySignWithValidate ec h s = SignOk (vs_Account v) (vs_Validate v) \<and>
      vs_Sign v = s) signs vsigns"
  shows "VerifyHashWithVerifiedSignsAndNumber od reader vsigns number =
    VerifyHashWithNumber od ec reader h signs number"
proof -
  have "verify_loop ec h stocks acc signs = Some (parse_loop stocks acc vsigns)" for stocks acc
    using assms by (induction signs vsigns arbitrary: acc rule: list_all2_induct) simp_all
  then have "verifySigns ec h signs stocks = Some (parseVerifiedSigns vsigns stocks)" for stocks
    by (simp add: verifySigns_def parseVerifiedSigns_def)
  moreover have "length vsigns = length signs" using list_all2_lengthD [OF assms] by simp
  ultimately show ?thesis
    by (simp add: VerifyHashWithVerifiedSignsAndNumber_def VerifyHashWithNumber_def
        VerifyHashWithStocks_def Let_def split: sum.splits)
qed

text \<open>Verifying signatures first and handing the results to \<open>VerifyHashWithVerifiedSignsAndNumber\<close>
  is the same as handing the raw signatures to \<open>VerifyHashWithNumber\<close>: for signatures that all
  verify over the hash, the two give the same result.\<close>

theorem verified_signs_equiv:
  assumes "list_all2 (\<lambda>s v. VerifySignWithValidate ec h s = SignOk (vs_Account v) (vs_Validate v) \<and>
      vs_Sign v = s) signs vsigns"
  shows "VerifyHashWithVerifiedSignsAndNumber od reader vsigns number =
    VerifyHashWithNumber od ec reader h signs number"
  using assms by (rule verified_signs_same)

definition demo_graph :: TopologyGraph where
  "demo_graph = \<lparr>tg_Number = 40, tg_NodeList =
    [\<lparr>tn_Account = 1, tn_Position = 0x2000, tn_Type = RoleValidator, tn_Stock = 1, tn_NodeNumber = 0\<rparr>,
     \<lparr>tn_Account = 2, tn_Position = 0x2001, tn_Type = RoleValidator, tn_Stock = 1, tn_NodeNumber = 1\<rparr>,
     \<lparr>tn_Account = 3, tn_Position = 0x2002, tn_Type = RoleValidator, tn_Stock = 1, tn_NodeNumber = 2\<rparr>],
    tg_CurNodeNumber = 2\<rparr>"

definition demo_reader :: ValidatorReader where
  "demo_reader = \<lparr>GetCurrentNumber = 40, GetValidatorByNumber =
    \<lambda>n. if n = 40 then Inr demo_graph else Inl ErrHeaderNotExist\<rparr>"

theorem verified_signs_equiv_witness:
  "VerifyHashWithVerifiedSignsAndNumber demo_order demo_reader
     [\<lparr>vs_Sign = 0x100, vs_Account = 1, vs_Validate = True, vs_Stock = 0\<rparr>,
      \<lparr>vs_Sign = 0x200, vs_Account = 2, vs_Validate = True, vs_Stock = 0\<rparr>,
      \<lparr>vs_Sign = 0x300, vs_Account = 3, vs_Validate = True, vs_Stock = 0\<rparr>] 41 =
   VerifyHashWithNumber demo_order demo_crypto demo_reader 5 [0x100, 0x200, 0x300] 41"
  by (rule verified_signs_equiv) (simp add: demo_verify sig64_def)

text \<open>A signature scheme in which the bytes above the recovery byte name the signer, for every hash.\<close>

definition open_crypto :: crypto_env where
  "open_crypto = \<lparr>Ecrecover = \<lambda>h s. Some [4, ucast (drop_bit 8 s)], Keccak256 = \<lambda>b. ucast (hd b)\<rparr>"

lemma open_verify:
  "sig64 s < 2 \<Longrightarrow> VerifySignWithValidate open_crypto h s =
    SignOk (ucast (ucast (ucast (drop_bit 8 s) :: u8) :: hash)) True"
  by (simp add: open_crypto_def VerifySignWithValidate_def vote_hash_def pubkey_address_def Let_def)

lemma demo_reader_stocks: "getValidatorStocks demo_reader 41 = Inr [(1, 1), (2, 1), (3, 1)]"
  by (simp add: getValidatorStocks_def getValidatorGraph_def demo_reader_def demo_graph_def
      graph2ValidatorStocks_def)

text \<open>The topologies a list of headers goes through, starting with the one before its first.\<close>

fun graphs_of :: "TopologyGraph \<Rightarrow> Header list \<Rightarrow> TopologyGraph list" where
  "graphs_of g [] = []"
| "graphs_of g (header # headers) =
    g # (case Transfer2NextGraph g (header_number header) (h_NetTopology header) [] of
           Inl _ \<Rightarrow> [] | Inr g' \<Rightarrow> graphs_of g' headers)"

lemma verify_blocks_loop_chain:
  assumes "verify_blocks_loop od ec rlpHash bn g headers = None"
  shows "length (graphs_of g headers) = length headers \<and>
    (\<forall>i < length headers.
       header_number (headers ! i) = tg_Number g + 1 + of_nat i \<and>
       verify_header_against od ec rlpHash bn (graphs_of g headers ! i) (headers ! i) = None)"
  using assms
proof (induction od ec rlpHash bn g headers rule: verify_blocks_loop.induct)
  case (2 od ec rlpHash bn g header headers)
  obtain g' where ok: "verify_header_against od ec rlpHash bn g header = None"
    and g': "Transfer2NextGraph g (header_number header) (h_NetTopology header) [] = Inr g'"
    and rest: "verify_blocks_loop od ec rlpHash bn g' headers = None"
    using "2.prems"(1) by (auto split: option.splits sum.splits)
  note IH = "2.IH" [OF ok g' rest]
  have n: "header_number header = tg_Number g + 1" "tg_Number g' = header_number header"
    using Transfer_number [OF g'] by simp_all
  have "header_number ((header # headers) ! i) = tg_Number g + 1 + of_nat i \<and>
      verify_header_against od ec rlpHash bn (graphs_of g (header # headers) ! i)
        ((header # headers) ! i) = None" if "i < length (header # headers)" for i
    using that IH ok g' n by (cases i) (simp_all add: algebra_simps)
  then show ?case using IH g' by simp
qed simp

lemma verify_header_against_quorum:
  assumes "verify_header_against od ec rlpHash bn g header = None" "order_ok od"
  shows "if IsBroadcastNumber (header_number header)
    then verifyBroadcastBlock ec rlpHash bn header = None
    else dpos_quorum (length (graph2ValidatorStocks g)) \<le>
      card (agreers ec (HashNoSignsAndNonce rlpHash header) (h_Signatures header)
        (graph2ValidatorStocks g))"
  using assms(1) accept_quorum(1) [OF _ assms(2)]
  by (auto simp: verify_header_against_def Let_def split: if_splits sum.splits)

text \<open>C3: A list of headers that passes \<open>VerifyBlocks\<close> is a chain: the numbers of its headers follow
  each other without a gap, and every header was checked against the topology that the headers
  before it lead to, by its single broadcast signature on a broadcast number and by a quorum of the
  validators of that topology on any other.\<close>

theorem VerifyBlocks_chain:
  assumes "VerifyBlocks od ec rlpHash bn reader headers = None" "order_ok od"
  shows "\<exists>g. getValidatorGraph reader (header_number (headers ! 0)) = Inr g \<and>
    headers \<noteq> [] \<and> length (graphs_of g headers) = length headers \<and>
    (\<forall>i < length headers.
       header_number (headers ! i) = header_number (headers ! 0) + of_nat i \<and>
       (if IsBroadcastNumber (header_number (headers ! i))
        then verifyBroadcastBlock ec rlpHash bn (headers ! i) = None
        else dpos_quorum (length (graph2ValidatorStocks (graphs_of g headers ! i))) \<le>
          card (agreers ec (HashNoSignsAndNonce rlpHash (headers ! i)) (h_Signatures (headers ! i))
            (graph2ValidatorStocks (graphs_of g headers ! i)))))"
proof -
  obtain g where hs: "headers \<noteq> []"
    and g: "getValidatorGraph reader (header_number (headers ! 0)) = Inr g"
    and loop: "verify_blocks_loop od ec rlpHash bn g headers = None"
    using assms(1) by (auto simp: VerifyBlocks_def split: list.splits sum.splits)
  note chain = verify_blocks_loop_chain [OF loop]
  have first: "header_number (headers ! 0) = tg_Number g + 1" using chain hs by auto
  show ?thesis
  proof (intro exI [of _ g] conjI allI impI)
    fix i assume i: "i < length headers"
    show "header_number (headers ! i) = header_number (headers ! 0) + of_nat i"
      using chain i first by simp
    show "if IsBroadcastNumber (header_number (headers ! i))
        then verifyBroadcastBlock ec rlpHash bn (headers ! i) = None
        else dpos_quorum (length (graph2ValidatorStocks (graphs_of g headers ! i))) \<le>
          card (agreers ec (HashNoSignsAndNonce rlpHash (headers ! i)) (h_Signatures (headers ! i))
            (graph2ValidatorStocks (graphs_of g headers ! i)))"
      using chain i by (intro verify_header_against_quorum [OF _ assms(2)]) simp
  qed (use g hs chain in simp_all)
qed

text \<open>A block with a broadcast number is accepted exactly when it has a single signature, which
  verifies over the signed hash as an agreeing vote of a broadcast node.\<close>

theorem broadcast_block_accepted_iff:
  "verifyBroadcastBlock ec rlpHash bn header = None \<longleftrightarrow>
    (\<exists>sign from. h_Signatures header = [sign] \<and> from \<in> set bn \<and>
       VerifySignWithValidate ec (HashNoSignsAndNonce rlpHash header) sign = SignOk from True)"
  by (auto simp: verifyBroadcastBlock_def isBroadcastRole_def list_ex_iff
      split: list.splits sign_outcome.splits)

definition demo_headers :: "Header list" where
  "demo_headers = [zero_header\<lparr>h_Number := 41, h_Signatures := [0x100, 0x300, 0x200],
     h_NetTopology := \<lparr>nt_Type = 1, nt_Data = []\<rparr>\<rparr>]"

theorem VerifyBlocks_chain_witness:
  "VerifyBlocks demo_order demo_crypto (\<lambda>v. 5) [] demo_reader demo_headers = None \<and>
   (\<exists>g. getValidatorGraph demo_reader 41 = Inr g \<and> length (graphs_of g demo_headers) = 1)"
proof -
  have "VerifyBlocks demo_order demo_crypto (\<lambda>v. 5) [] demo_reader demo_headers = None"
    by (simp add: VerifyBlocks_def demo_headers_def demo_reader_def demo_graph_def demo_order_def
        getValidatorGraph_def header_number_def verify_header_against_def schedule_defs
        graph2ValidatorStocks_def VerifyHashWithStocks_def calculateDPOSTarget_def
        DPOSMinStockCount_def DPOSFullSignThreshold_def verifySigns_def verifyDPOS_def
        demo_verify sig64_def merge_sign_def HashNoSignsAndNonce_def Transfer2NextGraph_def
        topo_const_defs Let_def)
  with VerifyBlocks_chain [OF this demo_order_ok] show ?thesis
    by (auto simp: demo_headers_def header_number_def)
qed

end
