(* ===== verification/Vote_Pool.thy ===== *)
theory Vote_Pool
  imports Dpos
begin

text \<open>
  The pool of votes, \<open>blkconsensus/votepool/vote_pool.go\<close>. Votes are kept per account and message
  hash; a list of all votes in their order of arrival drives the removal of old ones, and a limit
  bounds the votes of one account.

  The pool is used under its mutex, one call at a time, so a call is a function on the state. The
  clock is the argument \<open>now\<close>, in milliseconds; the panic of the signature check is an error. The order
  of ranging over the maps is an argument where a result depends on it.
\<close>

section \<open>State and operations\<close>

record voteInfo =
  vi_time :: int
  vi_sign :: VerifiedSign
  vi_fromAccount :: address
  vi_signHash :: hash

record VotePool =
  voteMap :: "(address, (hash, voteInfo) gomap) gomap"
  timeIndex :: "voteInfo list"
  timeoutInterval :: int
  AccountVoteCountLimit :: nat
  legalRole :: role_type

datatype vote_error =
    VoteCryptoErr verify_error
  | VoteFromMismatch address address
  | VoteAlreadyExist
  | VotePanic

definition VotePoolTimeout :: int where "VotePoolTimeout = 55 * 1000"
definition VotePoolCountLimit :: nat where "VotePoolCountLimit = 5"

definition NewVotePool :: "role_type \<Rightarrow> VotePool" where
  "NewVotePool role = \<lparr>voteMap = [], timeIndex = [], timeoutInterval = VotePoolTimeout,
    AccountVoteCountLimit = VotePoolCountLimit, legalRole = role\<rparr>"

definition addVoteToMap :: "VotePool \<Rightarrow> voteInfo \<Rightarrow> VotePool \<times> vote_error option" where
  "addVoteToMap vp vote =
    (let accountVoteMap = (case map_of (voteMap vp) (vi_fromAccount vote) of None \<Rightarrow> [] | Some m \<Rightarrow> m)
     in if map_has accountVoteMap (vi_signHash vote) then (vp, Some VoteAlreadyExist)
        else (vp\<lparr>voteMap := map_put (vi_fromAccount vote)
                   (map_put (vi_signHash vote) vote accountVoteMap) (voteMap vp),
                 timeIndex := timeIndex vp @ [vote]\<rparr>, None))"

text \<open>The removal of one vote from the map of its account, and of the account with its last vote.\<close>

definition drop_vote :: "address \<Rightarrow> hash \<Rightarrow> (address, (hash, voteInfo) gomap) gomap \<Rightarrow>
    (address, (hash, voteInfo) gomap) gomap" where
  "drop_vote a h vm =
    (case map_of vm a of
       None \<Rightarrow> vm
     | Some m \<Rightarrow>
         if length (map_del h m) = length m then vm
         else if map_del h m = [] then map_del a vm
         else map_put a (map_del h m) vm)"

fun timeout_loop :: "int \<Rightarrow> voteInfo list \<Rightarrow> (address, (hash, voteInfo) gomap) gomap \<Rightarrow>
    voteInfo list \<times> (address, (hash, voteInfo) gomap) gomap" where
  "timeout_loop deadLine [] vm = ([], vm)"
| "timeout_loop deadLine (vote # rest) vm =
    (if deadLine \<le> vi_time vote then (vote # rest, vm)
     else timeout_loop deadLine rest (drop_vote (vi_fromAccount vote) (vi_signHash vote) vm))"

definition fixPoolByTimeout :: "VotePool \<Rightarrow> int \<Rightarrow> VotePool" where
  "fixPoolByTimeout vp curTime =
    (let (idx, vm) = timeout_loop (i64 (curTime - timeoutInterval vp)) (timeIndex vp) (voteMap vp)
     in vp\<lparr>timeIndex := idx, voteMap := vm\<rparr>)"

text \<open>The earliest vote in the order of a range loop, the first of several with the same time.\<close>

fun earliest_vote :: "voteInfo option \<Rightarrow> (hash \<times> voteInfo) list \<Rightarrow> voteInfo option" where
  "earliest_vote e [] = e"
| "earliest_vote None ((k, v) # rest) = earliest_vote (Some v) rest"
| "earliest_vote (Some e) ((k, v) # rest) =
    earliest_vote (Some (if vi_time e > vi_time v then v else e)) rest"

text \<open>The loop runs until the map is within the limit; \<open>fuel\<close> bounds its rounds. Every round
  removes a vote, so the length of the map is enough.\<close>

fun count_loop ::
  "((hash \<times> voteInfo) list \<Rightarrow> (hash \<times> voteInfo) list) \<Rightarrow> nat \<Rightarrow> nat \<Rightarrow> (hash, voteInfo) gomap \<Rightarrow>
   (hash, voteInfo) gomap option" where
  "count_loop rng limit fuel m =
    (if length m \<le> limit then Some m
     else case fuel of
       0 \<Rightarrow> None
     | Suc f \<Rightarrow>
         (case earliest_vote None (rng m) of
            None \<Rightarrow> None
          | Some e \<Rightarrow> count_loop rng limit f (map_del (vi_signHash e) m)))"

declare count_loop.simps [simp del]

definition fixPoolByCountLimit ::
  "((hash \<times> voteInfo) list \<Rightarrow> (hash \<times> voteInfo) list) \<Rightarrow> VotePool \<Rightarrow> address \<Rightarrow> VotePool option" where
  "fixPoolByCountLimit rng vp fromAccount =
    (case map_of (voteMap vp) fromAccount of
       None \<Rightarrow> Some vp
     | Some m \<Rightarrow>
         map_option (\<lambda>m'. vp\<lparr>voteMap := map_put fromAccount m' (voteMap vp)\<rparr>)
           (count_loop rng (AccountVoteCountLimit vp) (length m) m))"

text \<open>\<open>AddVote\<close>. The outer option is \<^const>\<open>None\<close> only if the limit loop does not end.\<close>

definition AddVote ::
  "crypto_env \<Rightarrow> ((hash \<times> voteInfo) list \<Rightarrow> (hash \<times> voteInfo) list) \<Rightarrow> int \<Rightarrow> VotePool \<Rightarrow>
   hash \<Rightarrow> signature \<Rightarrow> address \<Rightarrow> bool \<Rightarrow> (VotePool \<times> vote_error option) option" where
  "AddVote ec rng now vp signHash sign fromAccount verifyFrom =
    (case VerifySignWithValidate ec signHash sign of
       SignPanic \<Rightarrow> Some (vp, Some VotePanic)
     | SignErr e v \<Rightarrow> Some (vp, Some (VoteCryptoErr e))
     | SignOk signAccount validate \<Rightarrow>
         if verifyFrom \<and> signAccount \<noteq> fromAccount
         then Some (vp, Some (VoteFromMismatch signAccount fromAccount))
         else
           (let vote = \<lparr>vi_time = now,
                  vi_sign = \<lparr>vs_Sign = sign, vs_Account = signAccount, vs_Validate = validate, vs_Stock = 0\<rparr>,
                  vi_fromAccount = signAccount, vi_signHash = signHash\<rparr>
            in case addVoteToMap vp vote of
                 (vp', Some err) \<Rightarrow> Some (vp', Some err)
               | (vp', None) \<Rightarrow>
                   map_option (\<lambda>vp''. (vp'', None))
                     (fixPoolByCountLimit rng (fixPoolByTimeout vp' (vi_time vote)) (vi_fromAccount vote))))"

definition GetVotes ::
  "((address \<times> (hash, voteInfo) gomap) list \<Rightarrow> (address \<times> (hash, voteInfo) gomap) list) \<Rightarrow>
   VotePool \<Rightarrow> hash \<Rightarrow> VerifiedSign list" where
  "GetVotes rng vp signHash =
    concat (map (\<lambda>(a, m). map (vi_sign \<circ> snd) (filter (\<lambda>(k, v). k = signHash) m)) (rng (voteMap vp)))"

definition DelVotes :: "VotePool \<Rightarrow> hash \<Rightarrow> VotePool" where
  "DelVotes vp signHash =
    (if signHash = 0 then vp
     else vp\<lparr>voteMap := concat (map (\<lambda>(a, m).
            if map_has m signHash then
              (if length m = 1 then [] else [(a, map_del signHash m)])
            else [(a, m)]) (voteMap vp))\<rparr>)"

definition Clear :: "VotePool \<Rightarrow> VotePool" where
  "Clear vp = vp\<lparr>timeIndex := [], voteMap := []\<rparr>"

section \<open>The votes of a pool\<close>

text \<open>What the pool holds for an account and a hash.\<close>

definition lookup_vote :: "(address, (hash, voteInfo) gomap) gomap \<Rightarrow> address \<Rightarrow> hash \<Rightarrow> voteInfo option" where
  "lookup_vote vm a h = (case map_of vm a of None \<Rightarrow> None | Some m \<Rightarrow> map_of m h)"

definition maps_ok :: "(address, (hash, voteInfo) gomap) gomap \<Rightarrow> bool" where
  "maps_ok vm \<longleftrightarrow> gomap_ok vm \<and> (\<forall>a m. map_of vm a = Some m \<longrightarrow> gomap_ok m \<and> m \<noteq> [])"

definition vote_ok :: "crypto_env \<Rightarrow> address \<Rightarrow> hash \<Rightarrow> voteInfo \<Rightarrow> bool" where
  "vote_ok ec a h v \<longleftrightarrow> vi_fromAccount v = a \<and> vi_signHash v = h \<and> vs_Account (vi_sign v) = a \<and>
    VerifySignWithValidate ec h (vs_Sign (vi_sign v)) = SignOk a (vs_Validate (vi_sign v))"

definition pool_ok :: "crypto_env \<Rightarrow> VotePool \<Rightarrow> bool" where
  "pool_ok ec vp \<longleftrightarrow> maps_ok (voteMap vp) \<and>
    (\<forall>a h v. lookup_vote (voteMap vp) a h = Some v \<longrightarrow> vote_ok ec a h v) \<and>
    (\<forall>a m. map_of (voteMap vp) a = Some m \<longrightarrow> length m \<le> AccountVoteCountLimit vp)"

lemma lookup_drop_vote:
  assumes "maps_ok vm"
  shows "lookup_vote (drop_vote a h vm) a' h' =
    (if a' = a \<and> h' = h then None else lookup_vote vm a' h')"
proof (cases "map_of vm a")
  case None
  then show ?thesis by (simp add: drop_vote_def lookup_vote_def)
next
  case (Some m)
  have m: "gomap_ok m" using assms Some by (simp add: maps_ok_def)
  show ?thesis
  proof (cases "map_has m h")
    case False
    then show ?thesis using Some
      by (simp add: drop_vote_def lookup_vote_def map_del_absent map_has_def)
  next
    case True
    then have l: "length (map_del h m) \<noteq> length m" using length_map_del_present [OF m] by fastforce
    show ?thesis
    proof (cases "map_del h m = []")
      case empty: True
      then have "map_of m h' = None" if "h' \<noteq> h" for h'
        using map_of_del [of h m] that by (metis fun_upd_apply map_of.simps(1))
      then show ?thesis
        using Some l empty by (simp add: drop_vote_def lookup_vote_def)
    next
      case False
      then show ?thesis using Some l by (simp add: drop_vote_def lookup_vote_def)
    qed
  qed
qed

lemma drop_vote_maps_ok: "maps_ok vm \<Longrightarrow> maps_ok (drop_vote a h vm)"
  by (auto simp: maps_ok_def drop_vote_def split: option.splits if_splits)

lemma drop_vote_lengths:
  assumes "map_of (drop_vote a h vm) a' = Some m"
  shows "\<exists>m'. map_of vm a' = Some m' \<and> length m \<le> length m'"
  using assms length_map_del [of h]
  by (auto simp: drop_vote_def split: option.splits if_splits)

lemma timeout_loop_maps_ok: "maps_ok vm \<Longrightarrow> maps_ok (snd (timeout_loop d idx vm))"
  by (induction d idx vm rule: timeout_loop.induct) (simp_all add: drop_vote_maps_ok)

lemma timeout_loop_sub:
  "maps_ok vm \<Longrightarrow> lookup_vote (snd (timeout_loop d idx vm)) a h = Some v \<Longrightarrow> lookup_vote vm a h = Some v"
  by (induction d idx vm rule: timeout_loop.induct)
     (auto simp: drop_vote_maps_ok lookup_drop_vote split: if_splits)

lemma timeout_loop_lengths:
  "map_of (snd (timeout_loop d idx vm)) a = Some m \<Longrightarrow>
   \<exists>m'. map_of vm a = Some m' \<and> length m \<le> length m'"
proof (induction d idx vm rule: timeout_loop.induct)
  case (2 d vote rest vm)
  then show ?case
    using drop_vote_lengths [of "vi_fromAccount vote" "vi_signHash vote" vm a]
    by (fastforce split: if_splits)
qed simp

lemma earliest_vote_in:
  "earliest_vote e xs = Some v \<Longrightarrow> e = Some v \<or> v \<in> snd ` set xs"
  by (induction e xs rule: earliest_vote.induct) (auto split: if_splits)

lemma earliest_vote_Some: "e \<noteq> None \<or> xs \<noteq> [] \<Longrightarrow> \<exists>v. earliest_vote e xs = Some v"
  by (induction e xs rule: earliest_vote.induct) auto

lemma earliest_vote_least:
  "earliest_vote e xs = Some v \<Longrightarrow> (\<forall>u. e = Some u \<longrightarrow> vi_time v \<le> vi_time u) \<and>
   (\<forall>(k, u) \<in> set xs. vi_time v \<le> vi_time u)"
  by (induction e xs rule: earliest_vote.induct) (fastforce split: if_splits)+

text \<open>Every round of the limit loop removes one vote, so the loop ends.\<close>

lemma count_loop_ends:
  assumes "gomap_ok m" "range_order rng" "length m \<le> fuel"
    and "\<forall>k v. map_of m k = Some v \<longrightarrow> vi_signHash v = k"
  shows "\<exists>m'. count_loop rng limit fuel m = Some m' \<and> length m' = min limit (length m) \<and>
    gomap_ok m' \<and> (\<forall>k v. map_of m' k = Some v \<longrightarrow> map_of m k = Some v)"
  using assms
proof (induction fuel arbitrary: m)
  case 0
  then show ?case by (simp add: count_loop.simps)
next
  case (Suc f)
  show ?case
  proof (cases "length m \<le> limit")
    case True
    then show ?thesis using Suc.prems by (simp add: count_loop.simps)
  next
    case False
    then have "rng m \<noteq> []" using Suc.prems(2) by (metis le0 list.size(3) range_order_length)
    then obtain e where e: "earliest_vote None (rng m) = Some e"
      using earliest_vote_Some [of None "rng m"] by blast
    then obtain k where "(k, e) \<in> set m"
      using earliest_vote_in [OF e] Suc.prems(2) by auto
    then have k: "map_of m k = Some e" using Suc.prems(1) by (simp add: gomap_ok_map_of)
    let ?m = "map_del (vi_signHash e) m"
    have l: "Suc (length ?m) = length m"
      using k Suc.prems(1,4) by (intro length_map_del_present) (simp_all add: map_has_def)
    have pre: "gomap_ok ?m" "length ?m \<le> f" "\<forall>k v. map_of ?m k = Some v \<longrightarrow> vi_signHash v = k"
      using Suc.prems l by simp_all
    from Suc.IH [OF pre(1) Suc.prems(2) pre(2,3)] obtain m' where
      m': "count_loop rng limit f ?m = Some m'" "length m' = min limit (length ?m)" "gomap_ok m'"
      and sub: "\<forall>k v. map_of m' k = Some v \<longrightarrow> map_of ?m k = Some v"
      by blast
    have "\<forall>k v. map_of m' k = Some v \<longrightarrow> map_of m k = Some v"
      using sub unfolding map_of_del by (metis fun_upd_apply option.distinct(1))
    moreover have "length m' = min limit (length m)" using m'(2) l False by simp
    moreover have "count_loop rng limit (Suc f) m = Some m'"
      using False e m'(1) by (simp add: count_loop.simps [of _ _ "Suc f"])
    ultimately show ?thesis using m'(3) by blast
  qed
qed

section \<open>Every operation keeps the pool consistent\<close>

lemma addVoteToMap_ok:
  assumes "maps_ok (voteMap vp)" "addVoteToMap vp v = (vp', None)"
  shows "maps_ok (voteMap vp') \<and> lookup_vote (voteMap vp) (vi_fromAccount v) (vi_signHash v) = None \<and>
    timeIndex vp' = timeIndex vp @ [v] \<and> timeoutInterval vp' = timeoutInterval vp \<and>
    AccountVoteCountLimit vp' = AccountVoteCountLimit vp \<and>
    (\<forall>a h. lookup_vote (voteMap vp') a h =
       (if a = vi_fromAccount v \<and> h = vi_signHash v then Some v else lookup_vote (voteMap vp) a h)) \<and>
    (\<forall>a m. a \<noteq> vi_fromAccount v \<longrightarrow> map_of (voteMap vp') a = Some m \<longrightarrow> map_of (voteMap vp) a = Some m)"
proof -
  define m where "m = (case map_of (voteMap vp) (vi_fromAccount v) of None \<Rightarrow> [] | Some m \<Rightarrow> m)"
  have m: "gomap_ok m" "map_put k w m \<noteq> []" for k w
    using assms(1) map_has_iff [of "map_put k w m" k]
    by (auto simp: m_def maps_ok_def split: option.splits)
  have vp': "\<not> map_has m (vi_signHash v)" "vp' = vp\<lparr>voteMap := map_put (vi_fromAccount v)
      (map_put (vi_signHash v) v m) (voteMap vp), timeIndex := timeIndex vp @ [v]\<rparr>"
    using assms(2) by (auto simp: addVoteToMap_def m_def [symmetric] Let_def split: if_splits)
  have look: "lookup_vote (voteMap vp) (vi_fromAccount v) h = map_of m h" for h
    by (simp add: lookup_vote_def m_def split: option.splits)
  have "maps_ok (voteMap vp')"
    using assms(1) m vp'(2) by (auto simp: maps_ok_def split: if_splits)
  then show ?thesis
    using vp' look by (auto simp: lookup_vote_def map_has_def split: if_splits)
qed

lemma addVoteToMap_err: "addVoteToMap vp v = (vp', Some e) \<Longrightarrow> vp' = vp \<and> e = VoteAlreadyExist"
  by (auto simp: addVoteToMap_def Let_def split: if_splits)

lemma fixPoolByTimeout_fields [simp]:
  "voteMap (fixPoolByTimeout vp t) =
    snd (timeout_loop (i64 (t - timeoutInterval vp)) (timeIndex vp) (voteMap vp))"
  "timeIndex (fixPoolByTimeout vp t) =
    fst (timeout_loop (i64 (t - timeoutInterval vp)) (timeIndex vp) (voteMap vp))"
  "AccountVoteCountLimit (fixPoolByTimeout vp t) = AccountVoteCountLimit vp"
  "timeoutInterval (fixPoolByTimeout vp t) = timeoutInterval vp"
  by (simp_all add: fixPoolByTimeout_def case_prod_beta)

lemma fixPoolByCountLimit_ok:
  assumes "maps_ok (voteMap vp)" "range_order rng" "0 < AccountVoteCountLimit vp"
    and "\<forall>a h v. lookup_vote (voteMap vp) a h = Some v \<longrightarrow> vi_signHash v = h"
  shows "\<exists>vp'. fixPoolByCountLimit rng vp a = Some vp' \<and> maps_ok (voteMap vp') \<and>
    AccountVoteCountLimit vp' = AccountVoteCountLimit vp \<and> timeIndex vp' = timeIndex vp \<and>
    timeoutInterval vp' = timeoutInterval vp \<and>
    (\<forall>b h v. lookup_vote (voteMap vp') b h = Some v \<longrightarrow> lookup_vote (voteMap vp) b h = Some v) \<and>
    (\<forall>m. map_of (voteMap vp') a = Some m \<longrightarrow> length m \<le> AccountVoteCountLimit vp) \<and>
    (\<forall>b. b \<noteq> a \<longrightarrow> map_of (voteMap vp') b = map_of (voteMap vp) b)"
proof (cases "map_of (voteMap vp) a")
  case None
  then show ?thesis using assms(1) by (simp add: fixPoolByCountLimit_def)
next
  case (Some m)
  have m: "gomap_ok m" "m \<noteq> []" using assms(1) Some by (simp_all add: maps_ok_def)
  have look: "lookup_vote (voteMap vp) a k = map_of m k" for k
    using Some by (simp add: lookup_vote_def)
  have "\<forall>k v. map_of m k = Some v \<longrightarrow> vi_signHash v = k"
    using assms(4) by (simp flip: look)
  from count_loop_ends [OF m(1) assms(2) _ this, of "length m" "AccountVoteCountLimit vp"]
  obtain m' where m': "count_loop rng (AccountVoteCountLimit vp) (length m) m = Some m'"
    "length m' = min (AccountVoteCountLimit vp) (length m)" "gomap_ok m'"
    "\<forall>k v. map_of m' k = Some v \<longrightarrow> map_of m k = Some v" by auto
  have "0 < length m'" using m'(2) m(2) assms(3) by simp
  then have "m' \<noteq> []" by simp
  then show ?thesis
    using Some m' assms(1)
    by (auto simp: fixPoolByCountLimit_def maps_ok_def lookup_vote_def split: if_splits option.splits)
qed

lemma AddVote_success:
  assumes "VerifySignWithValidate ec h sign = SignOk a b" "verifyFrom \<longrightarrow> a = from"
    and "addVoteToMap vp \<lparr>vi_time = now, vi_sign = \<lparr>vs_Sign = sign, vs_Account = a, vs_Validate = b,
      vs_Stock = 0\<rparr>, vi_fromAccount = a, vi_signHash = h\<rparr> = (vp1, None)"
  shows "AddVote ec rng now vp h sign from verifyFrom =
    map_option (\<lambda>vp''. (vp'', None)) (fixPoolByCountLimit rng (fixPoolByTimeout vp1 now) a)"
  using assms by (auto simp: AddVote_def Let_def)

text \<open>Either a call of \<open>AddVote\<close> leaves the pool as it is and reports an error, or the vote went in.\<close>

lemma AddVote_cases:
  obtains (refused) e where "AddVote ec rng now vp h sign from verifyFrom = Some (vp, Some e)"
  | (added) a b vp1 where "VerifySignWithValidate ec h sign = SignOk a b"
    "addVoteToMap vp \<lparr>vi_time = now, vi_sign = \<lparr>vs_Sign = sign, vs_Account = a, vs_Validate = b,
      vs_Stock = 0\<rparr>, vi_fromAccount = a, vi_signHash = h\<rparr> = (vp1, None)"
    "AddVote ec rng now vp h sign from verifyFrom =
      map_option (\<lambda>vp''. (vp'', None)) (fixPoolByCountLimit rng (fixPoolByTimeout vp1 now) a)"
proof (cases "VerifySignWithValidate ec h sign")
  case (SignOk a b)
  define v where "v = \<lparr>vi_time = now, vi_sign = \<lparr>vs_Sign = sign, vs_Account = a, vs_Validate = b,
      vs_Stock = 0\<rparr>, vi_fromAccount = a, vi_signHash = h\<rparr>"
  show ?thesis
  proof (cases "verifyFrom \<longrightarrow> a = from")
    case False
    then show ?thesis using SignOk by (intro refused) (auto simp: AddVote_def)
  next
    case True
    obtain vp1 r where r: "addVoteToMap vp v = (vp1, r)" by fastforce
    show ?thesis
    proof (cases r)
      case None
      then show ?thesis using added SignOk True r AddVote_success unfolding v_def by blast
    next
      case (Some e)
      have "AddVote ec rng now vp h sign from verifyFrom = Some (vp1, Some e)"
        using SignOk True r Some by (auto simp: AddVote_def v_def Let_def)
      then show ?thesis using refused addVoteToMap_err r Some by blast
    qed
  qed
qed (intro refused; simp add: AddVote_def)+

lemma AddVote_keeps:
  assumes "pool_ok ec vp" "range_order rng" "0 < AccountVoteCountLimit vp"
  shows "\<exists>vp' e. AddVote ec rng now vp h sign from verifyFrom = Some (vp', e) \<and> pool_ok ec vp' \<and>
      AccountVoteCountLimit vp' = AccountVoteCountLimit vp"
proof (cases rule: AddVote_cases [of ec rng now vp h sign "from" verifyFrom])
  case (refused e)
  then show ?thesis using assms(1) by blast
next
  case (added a b vp1)
  define v where "v = \<lparr>vi_time = now, vi_sign = \<lparr>vs_Sign = sign, vs_Account = a, vs_Validate = b,
      vs_Stock = 0\<rparr>, vi_fromAccount = a, vi_signHash = h\<rparr>"
  have vm: "maps_ok (voteMap vp)" using assms(1) by (simp add: pool_ok_def)
  have "vote_ok ec a h v" using added(1) by (simp add: vote_ok_def v_def)
  moreover have "vi_fromAccount v = a" "vi_signHash v = h" by (simp_all add: v_def)
  moreover note put = addVoteToMap_ok [OF vm added(2) [folded v_def]]
  ultimately have ok1: "maps_ok (voteMap vp1)"
    and votes1: "\<And>a' h' w. lookup_vote (voteMap vp1) a' h' = Some w \<Longrightarrow> vote_ok ec a' h' w"
    and len1: "\<And>a' m. a' \<noteq> a \<Longrightarrow> map_of (voteMap vp1) a' = Some m \<Longrightarrow>
      length m \<le> AccountVoteCountLimit vp"
    and lim1: "AccountVoteCountLimit vp1 = AccountVoteCountLimit vp"
    using assms(1) by (auto simp: pool_ok_def split: if_splits)
  let ?vp2 = "fixPoolByTimeout vp1 now"
  have ok2: "maps_ok (voteMap ?vp2)" using ok1 by (simp add: timeout_loop_maps_ok)
  have votes2: "vote_ok ec a' h' w" if "lookup_vote (voteMap ?vp2) a' h' = Some w" for a' h' w
    using that votes1 timeout_loop_sub [OF ok1] by simp
  have len2: "length m \<le> AccountVoteCountLimit vp" if "a' \<noteq> a" "map_of (voteMap ?vp2) a' = Some m" for a' m
    using that(2) len1 [OF that(1)] timeout_loop_lengths by fastforce
  have "\<forall>a h v. lookup_vote (voteMap ?vp2) a h = Some v \<longrightarrow> vi_signHash v = h"
    using votes2 by (auto simp: vote_ok_def)
  from fixPoolByCountLimit_ok [OF ok2 assms(2) _ this, of a] obtain vp3 where
    vp3: "fixPoolByCountLimit rng ?vp2 a = Some vp3" "maps_ok (voteMap vp3)"
    "AccountVoteCountLimit vp3 = AccountVoteCountLimit vp"
    "\<And>b h v. lookup_vote (voteMap vp3) b h = Some v \<Longrightarrow> lookup_vote (voteMap ?vp2) b h = Some v"
    "\<And>m. map_of (voteMap vp3) a = Some m \<Longrightarrow> length m \<le> AccountVoteCountLimit vp"
    "\<And>b. b \<noteq> a \<Longrightarrow> map_of (voteMap vp3) b = map_of (voteMap ?vp2) b"
    using assms(3) lim1 by auto
  have "length m \<le> AccountVoteCountLimit vp3" if "map_of (voteMap vp3) a' = Some m" for a' m
    using that vp3(3,5,6) len2 by (cases "a' = a") auto
  then have "pool_ok ec vp3" using vp3 votes2 by (simp add: pool_ok_def)
  then show ?thesis using added(3) vp3(1,3) by auto
qed

section \<open>A vote that is taken is stored\<close>

text \<open>The time-out removes a vote only through an expired entry of the index for its account and hash.\<close>

lemma timeout_loop_stores:
  "maps_ok vm \<Longrightarrow> lookup_vote vm a h = Some v \<Longrightarrow>
   \<forall>w \<in> set idx. vi_fromAccount w = a \<and> vi_signHash w = h \<longrightarrow> d \<le> vi_time w \<Longrightarrow>
   lookup_vote (snd (timeout_loop d idx vm)) a h = Some v"
proof (induction d idx vm rule: timeout_loop.induct)
  case (2 d vote rest vm)
  show ?case
  proof (cases "d \<le> vi_time vote")
    case False
    then have "lookup_vote (drop_vote (vi_fromAccount vote) (vi_signHash vote) vm) a h = Some v"
      using "2.prems" by (auto simp: lookup_drop_vote)
    then show ?thesis using 2 False by (simp add: drop_vote_maps_ok)
  qed (use "2.prems" in simp)
qed simp

text \<open>The limit never removes the youngest vote of an account.\<close>

lemma count_loop_stores:
  assumes "gomap_ok m" "range_order rng" "0 < limit" "\<forall>k v. map_of m k = Some v \<longrightarrow> vi_signHash v = k"
    and "map_of m h = Some v" "\<forall>k u. k \<noteq> h \<longrightarrow> map_of m k = Some u \<longrightarrow> vi_time u < vi_time v"
    and "count_loop rng limit fuel m = Some m'"
  shows "map_of m' h = Some v"
  using assms
proof (induction fuel arbitrary: m)
  case 0
  then show ?case by (simp add: count_loop.simps split: if_splits)
next
  case (Suc f)
  show ?case
  proof (cases "length m \<le> limit")
    case True
    then show ?thesis using Suc.prems by (simp add: count_loop.simps)
  next
    case False
    then obtain e where e: "earliest_vote None (rng m) = Some e" "count_loop rng limit f (map_del (vi_signHash e) m) = Some m'"
      using Suc.prems(7) by (auto simp: count_loop.simps [of _ _ "Suc f"] split: option.splits)
    obtain k where "(k, e) \<in> set m" using earliest_vote_in [OF e(1)] Suc.prems(2) by auto
    then have k: "map_of m k = Some e" using Suc.prems(1) by (simp add: gomap_ok_map_of)
    have "map_del h m \<noteq> []"
      using length_map_del_present [OF Suc.prems(1), of h] Suc.prems(3,5) False by (auto simp: map_has_def)
    then obtain k' u where "(k', u) \<in> set (map_del h m)" by (cases "map_del h m") auto
    then have u: "map_of (map_del h m) k' = Some u" using Suc.prems(1) by (simp add: gomap_ok_map_of)
    then have u': "k' \<noteq> h" "map_of m k' = Some u" by (auto split: if_splits)
    have "(k', u) \<in> set (rng m)" using u'(2) Suc.prems(2) map_of_SomeD by fastforce
    then have "vi_time e \<le> vi_time u" using earliest_vote_least [OF e(1)] by fastforce
    then have "vi_time e < vi_time v" using u' Suc.prems(6) by fastforce
    then have "vi_signHash e \<noteq> h" using k Suc.prems(4,5) by fastforce
    then show ?thesis using Suc.prems e(2) by (intro Suc.IH [of "map_del (vi_signHash e) m"]) (auto split: if_splits)
  qed
qed

lemma fixPoolByCountLimit_stores:
  assumes "maps_ok (voteMap vp)" "range_order rng" "0 < AccountVoteCountLimit vp"
    and "\<forall>k v. lookup_vote (voteMap vp) a k = Some v \<longrightarrow> vi_signHash v = k"
    and "lookup_vote (voteMap vp) a h = Some v"
    and "\<forall>k u. k \<noteq> h \<longrightarrow> lookup_vote (voteMap vp) a k = Some u \<longrightarrow> vi_time u < vi_time v"
    and "fixPoolByCountLimit rng vp a = Some vp'"
  shows "lookup_vote (voteMap vp') a h = Some v"
proof -
  obtain m where m: "map_of (voteMap vp) a = Some m"
    using assms(5) by (auto simp: lookup_vote_def split: option.splits)
  then obtain m' where m': "count_loop rng (AccountVoteCountLimit vp) (length m) m = Some m'"
    "vp' = vp\<lparr>voteMap := map_put a m' (voteMap vp)\<rparr>"
    using assms(7) by (auto simp: fixPoolByCountLimit_def)
  have "gomap_ok m" using assms(1) m by (simp add: maps_ok_def)
  then have "map_of m' h = Some v"
    by (rule count_loop_stores [OF _ assms(2,3) _ _ _ m'(1)]) (use assms(4-6) m in \<open>simp_all add: lookup_vote_def\<close>)
  then show ?thesis by (simp add: m'(2) lookup_vote_def)
qed

lemma AddVote_stores:
  assumes "pool_ok ec vp" "range_order rng" "0 < AccountVoteCountLimit vp"
    and "AddVote ec rng now vp h sign from verifyFrom = Some (vp', None)"
    and "VerifySignWithValidate ec h sign = SignOk a b"
    and "i64 (now - timeoutInterval vp) \<le> now"
    and "\<forall>w \<in> set (timeIndex vp). vi_fromAccount w = a \<and> vi_signHash w = h \<longrightarrow>
      i64 (now - timeoutInterval vp) \<le> vi_time w"
    and "\<forall>k u. lookup_vote (voteMap vp) a k = Some u \<longrightarrow> vi_time u < now"
  shows "lookup_vote (voteMap vp') a h = Some \<lparr>vi_time = now,
    vi_sign = \<lparr>vs_Sign = sign, vs_Account = a, vs_Validate = b, vs_Stock = 0\<rparr>, vi_fromAccount = a, vi_signHash = h\<rparr>"
proof (cases rule: AddVote_cases [of ec rng now vp h sign "from" verifyFrom])
  case (refused e)
  then show ?thesis using assms(4) by simp
next
  case (added a' b' vp1)
  define v where "v = \<lparr>vi_time = now, vi_sign = \<lparr>vs_Sign = sign, vs_Account = a, vs_Validate = b,
      vs_Stock = 0\<rparr>, vi_fromAccount = a, vi_signHash = h\<rparr>"
  have v: "vi_fromAccount v = a" "vi_signHash v = h" "vi_time v = now" by (simp_all add: v_def)
  have ab: "a' = a" "b' = b" using added(1) assms(5) by simp_all
  have vm: "maps_ok (voteMap vp)" using assms(1) by (simp add: pool_ok_def)
  note put = addVoteToMap_ok [OF vm added(2) [unfolded ab, folded v_def]]
  let ?vp2 = "fixPoolByTimeout vp1 now"
  have sub: "k = h \<and> u = v \<or> k \<noteq> h \<and> lookup_vote (voteMap vp) a k = Some u"
    if "lookup_vote (voteMap ?vp2) a k = Some u" for k u
  proof -
    have "lookup_vote (voteMap vp1) a k = Some u"
      using timeout_loop_sub [OF conjunct1 [OF put]] that unfolding fixPoolByTimeout_fields(1) by blast
    moreover have "lookup_vote (voteMap vp1) a k = (if k = h then Some v else lookup_vote (voteMap vp) a k)"
      using put v by simp
    ultimately show ?thesis by (simp split: if_splits)
  qed
  have hash: "\<forall>k u. lookup_vote (voteMap ?vp2) a k = Some u \<longrightarrow> vi_signHash u = k"
    using sub v(2) assms(1) unfolding pool_ok_def vote_ok_def by metis
  have old: "\<forall>k u. k \<noteq> h \<longrightarrow> lookup_vote (voteMap ?vp2) a k = Some u \<longrightarrow> vi_time u < vi_time v"
    using sub assms(8) v(3) by metis
  have "lookup_vote (voteMap ?vp2) a h = Some v"
    using put v assms(6,7) by (auto intro!: timeout_loop_stores)
  moreover have "fixPoolByCountLimit rng ?vp2 a = Some vp'" 
    using added(3) assms(4) ab(1) by (cases "fixPoolByCountLimit rng ?vp2 a") simp_all
  moreover have "maps_ok (voteMap ?vp2)" "0 < AccountVoteCountLimit ?vp2"
    using put assms(3) by (simp_all add: timeout_loop_maps_ok)
  ultimately show ?thesis using fixPoolByCountLimit_stores [OF _ assms(2) _ hash _ old] unfolding v_def [symmetric] by blast
qed

text \<open>An expired entry for the account and hash removes the vote, also one that was added after it.\<close>

lemma timeout_loop_drops:
  "maps_ok vm \<Longrightarrow> sorted (map vi_time idx) \<Longrightarrow> w \<in> set idx \<Longrightarrow> vi_time w < d \<Longrightarrow>
   lookup_vote (snd (timeout_loop d idx vm)) (vi_fromAccount w) (vi_signHash w) = None"
proof (induction d idx vm rule: timeout_loop.induct)
  case (2 d vote rest vm)
  have exp: "\<not> d \<le> vi_time vote" using "2.prems"(2-4) by auto
  let ?vm = "drop_vote (vi_fromAccount vote) (vi_signHash vote) vm"
  show ?case
  proof (cases "w = vote")
    case True
    have "lookup_vote ?vm (vi_fromAccount w) (vi_signHash w) = None"
      using True "2.prems"(1) by (simp add: lookup_drop_vote)
    then show ?thesis
      using timeout_loop_sub [OF drop_vote_maps_ok [OF "2.prems"(1)], of d rest "vi_fromAccount vote" "vi_signHash vote"] exp True
      by (cases "lookup_vote (snd (timeout_loop d rest ?vm)) (vi_fromAccount w) (vi_signHash w)") auto
  next
    case False
    then show ?thesis using 2 exp by (simp add: drop_vote_maps_ok)
  qed
qed simp

lemma AddVote_stale:
  assumes "pool_ok ec vp" "range_order rng" "0 < AccountVoteCountLimit vp"
    and "AddVote ec rng now vp h sign from verifyFrom = Some (vp', None)"
    and "VerifySignWithValidate ec h sign = SignOk a b"
    and "sorted (map vi_time (timeIndex vp))" "\<forall>w \<in> set (timeIndex vp). vi_time w \<le> now"
    and "w \<in> set (timeIndex vp)" "vi_fromAccount w = a" "vi_signHash w = h" "vi_time w < i64 (now - timeoutInterval vp)"
  shows "lookup_vote (voteMap vp') a h = None"
proof (cases rule: AddVote_cases [of ec rng now vp h sign "from" verifyFrom])
  case (refused e)
  then show ?thesis using assms(4) by simp
next
  case (added a' b' vp1)
  define v where "v = \<lparr>vi_time = now, vi_sign = \<lparr>vs_Sign = sign, vs_Account = a', vs_Validate = b',
      vs_Stock = 0\<rparr>, vi_fromAccount = a', vi_signHash = h\<rparr>"
  have v: "vi_fromAccount v = a'" "vi_signHash v = h" "vi_time v = now" by (simp_all add: v_def)
  have vm: "maps_ok (voteMap vp)" using assms(1) by (simp add: pool_ok_def)
  note put = addVoteToMap_ok [OF vm added(2) [folded v_def]]
  let ?vp2 = "fixPoolByTimeout vp1 now"
  have ok2: "maps_ok (voteMap ?vp2)" "0 < AccountVoteCountLimit ?vp2" using put assms(3) by (simp_all add: timeout_loop_maps_ok)
  have "sorted (map vi_time (timeIndex vp1))" "w \<in> set (timeIndex vp1)"
    using put assms(6-8) v(3) by (auto simp: sorted_append)
  then have none: "lookup_vote (voteMap ?vp2) a h = None"
    using timeout_loop_drops [of "voteMap vp1" "timeIndex vp1" w "i64 (now - timeoutInterval vp1)"] put assms(9-11) by simp
  have hash: "\<forall>c k u. lookup_vote (voteMap ?vp2) c k = Some u \<longrightarrow> vi_signHash u = k"
  proof (intro allI impI)
    fix c k u assume "lookup_vote (voteMap ?vp2) c k = Some u"
    then have "lookup_vote (voteMap vp1) c k = Some u"
      using timeout_loop_sub [OF conjunct1 [OF put]] unfolding fixPoolByTimeout_fields(1) by blast
    moreover have "lookup_vote (voteMap vp1) c k = (if c = a' \<and> k = h then Some v else lookup_vote (voteMap vp) c k)"
      using put v by simp
    ultimately show "vi_signHash u = k" using v(2) assms(1) by (auto simp: pool_ok_def vote_ok_def split: if_splits)
  qed
  obtain vp3 where vp3: "fixPoolByCountLimit rng ?vp2 a' = Some vp3"
    "\<And>b h v. lookup_vote (voteMap vp3) b h = Some v \<Longrightarrow> lookup_vote (voteMap ?vp2) b h = Some v"
    using fixPoolByCountLimit_ok [OF ok2(1) assms(2) ok2(2) hash, of a'] by blast
  have "vp' = vp3" using added(3) vp3(1) assms(4) by simp
  then show ?thesis using vp3(2) none by (cases "lookup_vote (voteMap vp') a h") auto
qed

lemma AddVote_accepts_iff:
  assumes "pool_ok ec vp" "AddVote ec rng now vp h sign from verifyFrom = Some (vp', e)"
  shows "e = None \<longleftrightarrow> (\<exists>a b. VerifySignWithValidate ec h sign = SignOk a b \<and> (verifyFrom \<longrightarrow> a = from) \<and>
      lookup_vote (voteMap vp) a h = None)"
    and "e \<noteq> None \<Longrightarrow> vp' = vp"
  using assms
  by (auto simp: AddVote_def addVoteToMap_def Let_def lookup_vote_def map_has_def
      split: sign_outcome.splits if_splits option.splits)

section \<open>Deleting the votes of a hash\<close>

definition del_entry :: "hash \<Rightarrow> address \<times> (hash, voteInfo) gomap \<Rightarrow> (address \<times> (hash, voteInfo) gomap) list" where
  "del_entry h am = (case am of (a, m) \<Rightarrow>
    if map_has m h then (if length m = 1 then [] else [(a, map_del h m)]) else [(a, m)])"

lemma DelVotes_map: "h \<noteq> 0 \<Longrightarrow> voteMap (DelVotes vp h) = concat (map (del_entry h) (voteMap vp))"
  unfolding DelVotes_def del_entry_def by simp

lemma del_entry_fst: "p \<in> set (del_entry h x) \<Longrightarrow> fst p = fst x"
  by (cases x) (auto simp: del_entry_def split: if_splits)

lemma del_entry_keys: "fst ` set (concat (map (del_entry h) xs)) \<subseteq> fst ` set xs"
proof
  fix a assume "a \<in> fst ` set (concat (map (del_entry h) xs))"
  then obtain p x where "x \<in> set xs" "p \<in> set (del_entry h x)" "a = fst p"
    unfolding set_concat set_map by blast
  then show "a \<in> fst ` set xs" using del_entry_fst [of p h x] by simp
qed

lemma del_entry_shape: "del_entry h x = [] \<or> (\<exists>m. del_entry h x = [(fst x, m)])"
  by (cases x) (simp add: del_entry_def)

lemma gomap_ok_del_entries: "gomap_ok xs \<Longrightarrow> gomap_ok (concat (map (del_entry h) xs))"
proof (induction xs)
  case (Cons x xs)
  define R where "R = concat (map (del_entry h) xs)"
  have "fst x \<notin> fst ` set R"
    using del_entry_keys [of h xs] Cons.prems by (auto simp: R_def gomap_ok_def)
  moreover have "gomap_ok R"
    using Cons by (simp add: R_def gomap_ok_def)
  ultimately have "gomap_ok (del_entry h x @ R)"
    using del_entry_shape [of h x] by (auto simp: gomap_ok_def image_iff)
  then show ?case by (simp add: R_def)
qed simp

lemma map_of_del_entries:
  assumes "gomap_ok xs"
  shows "map_of (concat (map (del_entry h) xs)) a =
    (case map_of xs a of None \<Rightarrow> None | Some m \<Rightarrow> map_of (del_entry h (a, m)) a)"
  using assms
proof (induction xs)
  case (Cons x xs)
  obtain b m where x: "x = (b, m)" by (cases x)
  have "gomap_ok xs" "b \<notin> fst ` set xs" using Cons.prems by (simp_all add: x gomap_ok_def)
  moreover then have "map_of (concat (map (del_entry h) xs)) b = None"
    using del_entry_keys [of h xs] unfolding map_of_eq_None_iff by blast
  moreover have "a \<noteq> b \<Longrightarrow> map_of (del_entry h (b, m)) a = None"
    using del_entry_shape [of h "(b, m)"] by auto
  ultimately show ?case
    using Cons.IH by (simp add: x map_add_def split: option.split)
qed simp

lemma DelVotes_lookup:
  assumes "maps_ok (voteMap vp)" "h \<noteq> 0"
  shows "lookup_vote (voteMap (DelVotes vp h)) a h' = (if h' = h then None else lookup_vote (voteMap vp) a h')"
proof (cases "map_of (voteMap vp) a")
  case (Some m)
  then have m: "gomap_ok m" using assms(1) by (simp add: maps_ok_def)
  have one: "map_of m h' = None" if "length m = 1" "map_has m h" "h' \<noteq> h"
    using that by (cases m) (auto simp: map_has_def split: if_splits)
  show ?thesis
    using Some assms one map_of_del_entries [of "voteMap vp" h a]
    by (auto simp: DelVotes_map lookup_vote_def maps_ok_def del_entry_def map_has_def)
qed (use assms map_of_del_entries [of "voteMap vp" h a] in
      \<open>simp add: DelVotes_map lookup_vote_def maps_ok_def\<close>)

lemma DelVotes_maps:
  assumes "maps_ok (voteMap vp)" "h \<noteq> 0" "map_of (voteMap (DelVotes vp h)) a = Some m"
  shows "\<exists>m'. map_of (voteMap vp) a = Some m' \<and> gomap_ok m \<and> m \<noteq> [] \<and> length m \<le> length m'"
proof -
  obtain m' where m': "map_of (voteMap vp) a = Some m'" "map_of (del_entry h (a, m')) a = Some m"
    using assms map_of_del_entries [of "voteMap vp" h a]
    by (auto simp: DelVotes_map maps_ok_def split: option.splits)
  have "gomap_ok m'" "m' \<noteq> []" using assms(1) m'(1) by (simp_all add: maps_ok_def)
  then show ?thesis
    using m' length_map_del [of h m'] length_map_del_present [of m' h]
    by (auto simp: del_entry_def split: if_splits)
qed

lemma DelVotes_keeps:
  assumes "pool_ok ec vp"
  shows "pool_ok ec (DelVotes vp h)"
proof (cases "h = 0")
  case False
  have vm: "maps_ok (voteMap vp)" using assms by (simp add: pool_ok_def)
  have "gomap_ok (voteMap (DelVotes vp h))"
    using vm False by (simp add: DelVotes_map gomap_ok_del_entries maps_ok_def)
  then have "maps_ok (voteMap (DelVotes vp h))"
    using DelVotes_maps [OF vm False] by (auto simp: maps_ok_def)
  moreover have "length m \<le> AccountVoteCountLimit (DelVotes vp h)"
    if del: "map_of (voteMap (DelVotes vp h)) a = Some m" for a m
  proof -
    obtain m' where "map_of (voteMap vp) a = Some m'" "length m \<le> length m'"
      using DelVotes_maps [OF vm False del] by blast
    moreover have "AccountVoteCountLimit (DelVotes vp h) = AccountVoteCountLimit vp"
      by (simp add: DelVotes_def)
    ultimately show ?thesis using assms by (fastforce simp: pool_ok_def)
  qed
  ultimately show ?thesis
    using assms DelVotes_lookup [OF vm False] by (simp add: pool_ok_def)
qed (use assms in \<open>simp add: DelVotes_def\<close>)

text \<open>C25: The vote pool stays consistent and takes the votes it should. Every vote it holds is filed under
  its signer and its hash and carries a signature that verifies as that signer's vote, and no account has more
  votes than the limit: \<open>AddVote\<close> always returns and keeps this, and so do \<open>DelVotes\<close> and \<open>Clear\<close>. \<open>AddVote\<close>
  returns no error exactly if the signature verifies, is that of the sender where this is asked for, and the
  signer has no vote for the hash yet; with an error the pool is unchanged. The vote of the recovered account
  is then in the pool, provided the clock has moved since the account's other votes and the index has no
  expired entry left of an earlier, deleted vote of that account for the same hash. With such an entry, in an
  index in the order of arrival, \<open>AddVote\<close> returns no error and the vote is not in the pool.\<close>

theorem votepool_consistent:
  assumes "pool_ok ec vp" "range_order rng" "0 < AccountVoteCountLimit vp"
  shows "(\<exists>vp' e. AddVote ec rng now vp h sign from verifyFrom = Some (vp', e) \<and> pool_ok ec vp' \<and>
      AccountVoteCountLimit vp' = AccountVoteCountLimit vp \<and>
      (e = None \<longleftrightarrow> (\<exists>a b. VerifySignWithValidate ec h sign = SignOk a b \<and> (verifyFrom \<longrightarrow> a = from) \<and>
        lookup_vote (voteMap vp) a h = None)) \<and>
      (e \<noteq> None \<longrightarrow> vp' = vp) \<and>
      (\<forall>a b. e = None \<longrightarrow> VerifySignWithValidate ec h sign = SignOk a b \<longrightarrow>
        i64 (now - timeoutInterval vp) \<le> now \<longrightarrow>
        (\<forall>w \<in> set (timeIndex vp). vi_fromAccount w = a \<and> vi_signHash w = h \<longrightarrow>
          i64 (now - timeoutInterval vp) \<le> vi_time w) \<longrightarrow>
        (\<forall>k u. lookup_vote (voteMap vp) a k = Some u \<longrightarrow> vi_time u < now) \<longrightarrow>
        lookup_vote (voteMap vp') a h = Some \<lparr>vi_time = now,
          vi_sign = \<lparr>vs_Sign = sign, vs_Account = a, vs_Validate = b, vs_Stock = 0\<rparr>,
          vi_fromAccount = a, vi_signHash = h\<rparr>) \<and>
      (\<forall>a b. e = None \<longrightarrow> VerifySignWithValidate ec h sign = SignOk a b \<longrightarrow>
        sorted (map vi_time (timeIndex vp)) \<longrightarrow> (\<forall>w \<in> set (timeIndex vp). vi_time w \<le> now) \<longrightarrow>
        (\<exists>w \<in> set (timeIndex vp). vi_fromAccount w = a \<and> vi_signHash w = h \<and>
          vi_time w < i64 (now - timeoutInterval vp)) \<longrightarrow>
        lookup_vote (voteMap vp') a h = None)) \<and>
    pool_ok ec (DelVotes vp h) \<and> pool_ok ec (Clear vp)"
proof -
  obtain vp' e where r: "AddVote ec rng now vp h sign from verifyFrom = Some (vp', e)" "pool_ok ec vp'"
    "AccountVoteCountLimit vp' = AccountVoteCountLimit vp" using AddVote_keeps [OF assms] by blast
  note iff = AddVote_accepts_iff [OF assms(1) r(1)]
  have "pool_ok ec (Clear vp)" by (simp add: Clear_def pool_ok_def maps_ok_def lookup_vote_def)
  moreover have "pool_ok ec (DelVotes vp h)" by (rule DelVotes_keeps [OF assms(1)])
  moreover have "lookup_vote (voteMap vp') a h = Some \<lparr>vi_time = now,
      vi_sign = \<lparr>vs_Sign = sign, vs_Account = a, vs_Validate = b, vs_Stock = 0\<rparr>, vi_fromAccount = a, vi_signHash = h\<rparr>"
    if "e = None" "VerifySignWithValidate ec h sign = SignOk a b" "i64 (now - timeoutInterval vp) \<le> now"
      "\<forall>w \<in> set (timeIndex vp). vi_fromAccount w = a \<and> vi_signHash w = h \<longrightarrow> i64 (now - timeoutInterval vp) \<le> vi_time w"
      "\<forall>k u. lookup_vote (voteMap vp) a k = Some u \<longrightarrow> vi_time u < now" for a b
    using AddVote_stores [OF assms _ that(2-5)] r(1) that(1) by blast
  moreover have "lookup_vote (voteMap vp') a h = None"
    if st: "e = None" "VerifySignWithValidate ec h sign = SignOk a b" "sorted (map vi_time (timeIndex vp))"
      "\<forall>w \<in> set (timeIndex vp). vi_time w \<le> now"
      "\<exists>w \<in> set (timeIndex vp). vi_fromAccount w = a \<and> vi_signHash w = h \<and> vi_time w < i64 (now - timeoutInterval vp)" for a b
  proof -
    obtain w where w: "w \<in> set (timeIndex vp)" "vi_fromAccount w = a" "vi_signHash w = h" "vi_time w < i64 (now - timeoutInterval vp)"
      using st(5) by auto
    have "AddVote ec rng now vp h sign from verifyFrom = Some (vp', None)" using r(1) st(1) by simp
    from AddVote_stale [OF assms this st(2-4) w] show ?thesis .
  qed
  ultimately show ?thesis
    using r iff by (intro conjI exI [of _ vp'] exI [of _ e] allI impI) assumption+
qed

section \<open>Reading the votes of a hash\<close>

lemma filter_key:
  "gomap_ok m \<Longrightarrow> filter (\<lambda>(k, v). k = h) m = (case map_of m h of None \<Rightarrow> [] | Some v \<Rightarrow> [(h, v)])"
proof (induction m)
  case (Cons p m)
  obtain k v where p: "p = (k, v)" by (cases p)
  have "gomap_ok m" "\<not> map_has m k" using Cons.prems by (auto simp: p gomap_ok_def map_has_iff)
  then show ?case using Cons.IH by (auto simp: p map_has_def)
qed simp

definition votes_for :: "hash \<Rightarrow> (address \<times> (hash, voteInfo) gomap) list \<Rightarrow> (address \<times> voteInfo) list" where
  "votes_for h xs = concat (map (\<lambda>(a, m). case map_of m h of None \<Rightarrow> [] | Some v \<Rightarrow> [(a, v)]) xs)"

lemma concat_votes_for:
  "list_all (gomap_ok \<circ> snd) xs \<Longrightarrow>
   concat (map (\<lambda>(a, m). map (vi_sign \<circ> snd) (filter (\<lambda>(k, v). k = h) m)) xs) =
   map (vi_sign \<circ> snd) (votes_for h xs)"
  by (induction xs) (auto simp: votes_for_def filter_key split: option.split)

lemma GetVotes_votes_for:
  assumes "maps_ok (voteMap vp)" "range_order rng"
  shows "GetVotes rng vp h = map (vi_sign \<circ> snd) (votes_for h (rng (voteMap vp)))"
  unfolding GetVotes_def
  by (rule concat_votes_for) (use assms in \<open>auto simp: list_all_iff maps_ok_def gomap_ok_map_of\<close>)

lemma votes_for_set: "(a, v) \<in> set (votes_for h xs) \<longleftrightarrow> (\<exists>m. (a, m) \<in> set xs \<and> map_of m h = Some v)"
  by (induction xs) (auto simp: votes_for_def split: option.splits)

lemma votes_for_distinct: "distinct (map fst xs) \<Longrightarrow> distinct (map fst (votes_for h xs))"
proof (induction xs)
  case (Cons x xs)
  obtain a m where x: "x = (a, m)" by (cases x)
  have "a \<notin> fst ` set (votes_for h xs)"
    using Cons.prems by (force simp: x votes_for_set)
  then show ?case using Cons by (auto simp: x votes_for_def split: option.splits)
qed (simp add: votes_for_def)

lemma votes_for_lookup:
  assumes "maps_ok vm" "range_order rng"
  shows "(a, v) \<in> set (votes_for h (rng vm)) \<longleftrightarrow> lookup_vote vm a h = Some v"
  using assms by (auto simp: votes_for_set lookup_vote_def maps_ok_def gomap_ok_map_of split: option.splits)

lemma GetVotes_facts:
  assumes "pool_ok ec vp" "range_order rng"
  shows "distinct (map vs_Account (GetVotes rng vp h)) \<and>
    set (GetVotes rng vp h) = {vi_sign v | a v. lookup_vote (voteMap vp) a h = Some v} \<and>
    (\<forall>s \<in> set (GetVotes rng vp h).
       VerifySignWithValidate ec h (vs_Sign s) = SignOk (vs_Account s) (vs_Validate s))"
proof -
  have vm: "maps_ok (voteMap vp)" using assms(1) by (simp add: pool_ok_def)
  let ?vs = "votes_for h (rng (voteMap vp))"
  note gv = GetVotes_votes_for [OF vm assms(2), of h] and look = votes_for_lookup [OF vm assms(2)]
  have ok: "vote_ok ec a h v" if "(a, v) \<in> set ?vs" for a v
    using that look assms(1) by (simp add: pool_ok_def)
  have "gomap_ok (rng (voteMap vp))" using vm assms(2) by (simp add: maps_ok_def range_order_ok)
  then have "distinct (map fst ?vs)" unfolding gomap_ok_def by (rule votes_for_distinct)
  moreover have "map vs_Account (GetVotes rng vp h) = map fst ?vs"
    using ok by (auto simp: gv vote_ok_def)
  ultimately have d: "distinct (map vs_Account (GetVotes rng vp h))" by simp
  have s: "set (GetVotes rng vp h) = {vi_sign v | a v. (a, v) \<in> set ?vs}"
    by (force simp: gv image_def)
  then show ?thesis using d ok by (auto simp: look vote_ok_def)
qed

text \<open>C35: \<open>GetVotes\<close> returns exactly the signatures the pool holds for the hash, one per account, in
  some order: their accounts are different, and each verifies over the hash as a vote of its
  account. So the list is fit for \<open>VerifyHashWithVerifiedSigns\<close>.\<close>

theorem GetVotes_exact:
  assumes "pool_ok ec vp" "range_order rng"
  shows "distinct (map vs_Account (GetVotes rng vp h)) \<and>
    set (GetVotes rng vp h) = {vi_sign v | a v. lookup_vote (voteMap vp) a h = Some v} \<and>
    (\<forall>s \<in> set (GetVotes rng vp h).
       VerifySignWithValidate ec h (vs_Sign s) = SignOk (vs_Account s) (vs_Validate s))"
  by (rule GetVotes_facts [OF assms])

text \<open>\<open>DelVotes\<close> removes the votes of its hash and no other: afterwards the pool holds no vote for
  that hash, and for every other hash exactly the votes it held before. The zero hash is ignored.\<close>

theorem DelVotes_exact:
  assumes "pool_ok ec vp" "h \<noteq> 0"
  shows "lookup_vote (voteMap (DelVotes vp h)) a h' =
      (if h' = h then None else lookup_vote (voteMap vp) a h') \<and>
    DelVotes vp 0 = vp"
  using DelVotes_lookup assms by (simp add: pool_ok_def DelVotes_def)

section \<open>The index of arrival\<close>

definition index_ok :: "VotePool \<Rightarrow> bool" where
  "index_ok vp \<longleftrightarrow> sorted (map vi_time (timeIndex vp)) \<and>
    (\<forall>a h v. lookup_vote (voteMap vp) a h = Some v \<longrightarrow> v \<in> set (timeIndex vp))"

lemma timeout_loop_sorted:
  "sorted (map vi_time idx) \<Longrightarrow> sorted (map vi_time (fst (timeout_loop d idx vm))) \<and>
   (\<forall>v \<in> set (fst (timeout_loop d idx vm)). d \<le> vi_time v)"
  by (induction d idx vm rule: timeout_loop.induct) (auto intro: order_trans)

lemma timeout_loop_covers:
  assumes "maps_ok vm"
    and "\<And>a h v. lookup_vote vm a h = Some v \<Longrightarrow> vi_fromAccount v = a \<and> vi_signHash v = h \<and> v \<in> set idx"
    and "lookup_vote (snd (timeout_loop d idx vm)) a h = Some v"
  shows "v \<in> set (fst (timeout_loop d idx vm))"
  using assms
proof (induction d idx vm rule: timeout_loop.induct)
  case (2 d vote rest vm)
  show ?case
  proof (cases "d \<le> vi_time vote")
    case True
    then show ?thesis using "2.prems" by simp
  next
    case False
    let ?vm = "drop_vote (vi_fromAccount vote) (vi_signHash vote) vm"
    have sub: "vi_fromAccount w = b \<and> vi_signHash w = k \<and> w \<in> set rest"
      if "lookup_vote ?vm b k = Some w" for b k w
      using that "2.prems"(2) [of b k w] lookup_drop_vote [OF "2.prems"(1)] by (auto split: if_splits)
    have "lookup_vote (snd (timeout_loop d rest ?vm)) a h = Some v"
      using "2.prems"(3) False by simp
    from "2.IH" [OF False drop_vote_maps_ok [OF "2.prems"(1)] sub this] False
    show ?thesis by simp
  qed
qed (simp add: lookup_vote_def)

text \<open>C36: Old votes go. With a clock that does not run backwards, after \<open>AddVote\<close> has taken a vote at
  time \<open>now\<close> every vote left in the pool, for whatever account and hash, arrived at most
  \<open>timeoutInterval\<close> before, and the index of arrival still covers the pool in order.\<close>

theorem votepool_timeout:
  assumes "pool_ok ec vp" "range_order rng" "0 < AccountVoteCountLimit vp" "index_ok vp"
    and "\<forall>v \<in> set (timeIndex vp). vi_time v \<le> now"
    and "0 \<le> timeoutInterval vp" "timeoutInterval vp < 2 ^ 62" "0 \<le> now" "now < 2 ^ 62"
    and "AddVote ec rng now vp h sign from verifyFrom = Some (vp', None)"
  shows "index_ok vp' \<and>
    (\<forall>a k v. lookup_vote (voteMap vp') a k = Some v \<longrightarrow> now - timeoutInterval vp \<le> vi_time v)"
proof (cases rule: AddVote_cases [of ec rng now vp h sign "from" verifyFrom])
  case (refused e)
  then show ?thesis using assms(10) by simp
next
  case (added a b vp1)
  define v where "v = \<lparr>vi_time = now, vi_sign = \<lparr>vs_Sign = sign, vs_Account = a, vs_Validate = b,
      vs_Stock = 0\<rparr>, vi_fromAccount = a, vi_signHash = h\<rparr>"
  have v: "vi_fromAccount v = a" "vi_signHash v = h" "vi_time v = now" by (simp_all add: v_def)
  have vm: "maps_ok (voteMap vp)" using assms(1) by (simp add: pool_ok_def)
  note put = addVoteToMap_ok [OF vm added(2) [folded v_def]]
  have cov1: "vi_fromAccount w = b' \<and> vi_signHash w = k \<and> w \<in> set (timeIndex vp1)"
    if "lookup_vote (voteMap vp1) b' k = Some w" for b' k w
    using that put assms(1,4) v by (auto simp: pool_ok_def index_ok_def vote_ok_def split: if_splits)
  have sorted1: "sorted (map vi_time (timeIndex vp1))"
    using put assms(4,5) v(3) by (auto simp: index_ok_def sorted_append)
  let ?vp2 = "fixPoolByTimeout vp1 now"
  have ok1: "maps_ok (voteMap vp1)" and ti1: "timeoutInterval vp1 = timeoutInterval vp"
    and lim1: "0 < AccountVoteCountLimit ?vp2"
    using put assms(3) by simp_all
  then have ok2: "maps_ok (voteMap ?vp2)" by (simp add: timeout_loop_maps_ok)
  have cov2: "w \<in> set (timeIndex ?vp2)" if "lookup_vote (voteMap ?vp2) b' k = Some w" for b' k w
    using timeout_loop_covers [OF ok1 cov1] that by simp
  have "i64 (now - timeoutInterval vp1) = now - timeoutInterval vp"
    unfolding ti1 using assms(6-9) by (intro i64_id) simp_all
  then have young: "sorted (map vi_time (timeIndex ?vp2))"
    "\<forall>w \<in> set (timeIndex ?vp2). now - timeoutInterval vp \<le> vi_time w"
    using timeout_loop_sorted [OF sorted1] by simp_all
  have "\<forall>b' k w. lookup_vote (voteMap ?vp2) b' k = Some w \<longrightarrow> vi_signHash w = k"
    using cov1 timeout_loop_sub [OF ok1] unfolding fixPoolByTimeout_fields(1) by blast
  from fixPoolByCountLimit_ok [OF ok2 assms(2) lim1 this, of a] obtain vp3 where
    vp3: "fixPoolByCountLimit rng ?vp2 a = Some vp3" "timeIndex vp3 = timeIndex ?vp2"
    "\<And>b h v. lookup_vote (voteMap vp3) b h = Some v \<Longrightarrow> lookup_vote (voteMap ?vp2) b h = Some v"
    by blast
  have vp': "vp' = vp3" using added(3) vp3(1) assms(10) by simp
  have "w \<in> set (timeIndex ?vp2)" if "lookup_vote (voteMap vp3) b' k = Some w" for b' k w
    using cov2 vp3(3) that by blast
  then show ?thesis unfolding vp' index_ok_def vp3(2) using young by blast
qed

section \<open>Concrete pools\<close>

definition vote_at :: "int \<Rightarrow> VotePool \<Rightarrow> signature \<Rightarrow> VotePool" where
  "vote_at now vp s = (case AddVote demo_crypto rev now vp 5 s 0 False of
     Some (vp', e) \<Rightarrow> vp' | None \<Rightarrow> vp)"

abbreviation demo_vote :: "int \<Rightarrow> address \<Rightarrow> signature \<Rightarrow> voteInfo" where
  "demo_vote t a s \<equiv> \<lparr>vi_time = t, vi_sign = \<lparr>vs_Sign = s, vs_Account = a, vs_Validate = True,
     vs_Stock = 0\<rparr>, vi_fromAccount = a, vi_signHash = 5\<rparr>"

lemmas pool_run = vote_at_def AddVote_def addVoteToMap_def fixPoolByTimeout_def
  fixPoolByCountLimit_def NewVotePool_def VotePoolTimeout_def VotePoolCountLimit_def
  demo_verify sig64_def count_loop.simps drop_vote_def i64_def Let_def

lemma new_pool_ok: "pool_ok ec (NewVotePool r)" "index_ok (NewVotePool r)"
  by (simp_all add: pool_ok_def maps_ok_def lookup_vote_def NewVotePool_def index_ok_def)

theorem votepool_consistent_witness:
  "\<exists>vp. AddVote demo_crypto rev 60000 (NewVotePool RoleValidator) 5 0x100 1 True = Some (vp, None) \<and>
     pool_ok demo_crypto vp \<and> lookup_vote (voteMap vp) 1 5 = Some (demo_vote 60000 1 0x100)"
proof -
  let ?vp = "NewVotePool RoleValidator"
  have n: "0 < AccountVoteCountLimit ?vp" "i64 (60000 - timeoutInterval ?vp) \<le> 60000" "timeIndex ?vp = []"
    "lookup_vote (voteMap ?vp) a k = None" "VerifySignWithValidate demo_crypto 5 0x100 = SignOk 1 True" for a k
    by (simp_all add: NewVotePool_def VotePoolCountLimit_def VotePoolTimeout_def i64_def lookup_vote_def demo_verify sig64_def)
  from votepool_consistent [OF new_pool_ok(1) range_order_id(3) n(1), of demo_crypto 60000 5 "0x100" 1 True]
  show ?thesis unfolding n(3,5) using n(2,4) by auto
qed

lemma two_votes:
  "vote_at 20 (vote_at 7 (NewVotePool RoleValidator) 0x100) 0x200 =
    (NewVotePool RoleValidator)\<lparr>
      voteMap := [(1, [(5, \<lparr>vi_time = 7, vi_sign = \<lparr>vs_Sign = 0x100, vs_Account = 1,
         vs_Validate = True, vs_Stock = 0\<rparr>, vi_fromAccount = 1, vi_signHash = 5\<rparr>)]),
        (2, [(5, \<lparr>vi_time = 20, vi_sign = \<lparr>vs_Sign = 0x200, vs_Account = 2,
         vs_Validate = True, vs_Stock = 0\<rparr>, vi_fromAccount = 2, vi_signHash = 5\<rparr>)])],
      timeIndex := [\<lparr>vi_time = 7, vi_sign = \<lparr>vs_Sign = 0x100, vs_Account = 1,
         vs_Validate = True, vs_Stock = 0\<rparr>, vi_fromAccount = 1, vi_signHash = 5\<rparr>,
        \<lparr>vi_time = 20, vi_sign = \<lparr>vs_Sign = 0x200, vs_Account = 2,
         vs_Validate = True, vs_Stock = 0\<rparr>, vi_fromAccount = 2, vi_signHash = 5\<rparr>]\<rparr>"
  by (simp add: pool_run)

lemma two_votes_ok: "pool_ok demo_crypto (vote_at 20 (vote_at 7 (NewVotePool RoleValidator) 0x100) 0x200)"
  unfolding two_votes
  by (auto simp: pool_ok_def maps_ok_def gomap_ok_def lookup_vote_def vote_ok_def demo_verify
      sig64_def NewVotePool_def VotePoolCountLimit_def split: if_splits)

theorem GetVotes_exact_witness:
  "distinct (map vs_Account
     (GetVotes id (vote_at 20 (vote_at 7 (NewVotePool RoleValidator) 0x100) 0x200) 5)) \<and>
   length (GetVotes id (vote_at 20 (vote_at 7 (NewVotePool RoleValidator) 0x100) 0x200) 5) = 2"
  using GetVotes_exact [OF two_votes_ok range_order_id(1), of 5]
  by (simp add: two_votes GetVotes_def)

theorem DelVotes_exact_witness:
  "lookup_vote (voteMap (DelVotes
     (vote_at 20 (vote_at 7 (NewVotePool RoleValidator) 0x100) 0x200) 5)) 2 5 = None"
  using DelVotes_exact [OF two_votes_ok, of 5 2 5] by simp

theorem votepool_timeout_witness:
  "index_ok (vote_at 60000 (NewVotePool RoleValidator) 0x100)"
proof -
  let ?vp = "NewVotePool RoleValidator"
  obtain vp' where vp': "AddVote demo_crypto rev 60000 ?vp 5 0x100 0 False = Some (vp', None)"
    by (simp add: pool_run)
  have "0 < AccountVoteCountLimit ?vp" "\<forall>v \<in> set (timeIndex ?vp). vi_time v \<le> 60000"
    "0 \<le> timeoutInterval ?vp" "timeoutInterval ?vp < 2 ^ 62"
    by (simp_all add: NewVotePool_def VotePoolCountLimit_def VotePoolTimeout_def)
  from votepool_timeout [OF new_pool_ok(1) range_order_id(3) this(1) new_pool_ok(2) this(2-4) _ _ vp']
  have "index_ok vp'" by simp
  then show ?thesis using vp' by (simp add: vote_at_def)
qed

lemma stale_index_run:
  "vote_at 0 (NewVotePool RoleValidator) 0x100 = (NewVotePool RoleValidator)\<lparr>
     voteMap := [(1, [(5, demo_vote 0 1 0x100)])], timeIndex := [demo_vote 0 1 0x100]\<rparr>"
  "DelVotes ((NewVotePool RoleValidator)\<lparr>voteMap := [(1, [(5, demo_vote 0 1 0x100)])],
     timeIndex := [demo_vote 0 1 0x100]\<rparr>) 5 =
   (NewVotePool RoleValidator)\<lparr>timeIndex := [demo_vote 0 1 0x100]\<rparr>"
  "vote_at 50000 ((NewVotePool RoleValidator)\<lparr>timeIndex := [demo_vote 0 1 0x100]\<rparr>) 0x100 =
   (NewVotePool RoleValidator)\<lparr>voteMap := [(1, [(5, demo_vote 50000 1 0x100)])],
     timeIndex := [demo_vote 0 1 0x100, demo_vote 50000 1 0x100]\<rparr>"
  "vote_at 60000 ((NewVotePool RoleValidator)\<lparr>voteMap := [(1, [(5, demo_vote 50000 1 0x100)])],
     timeIndex := [demo_vote 0 1 0x100, demo_vote 50000 1 0x100]\<rparr>) 0x200 =
   (NewVotePool RoleValidator)\<lparr>voteMap := [(2, [(5, demo_vote 60000 2 0x200)])],
     timeIndex := [demo_vote 50000 1 0x100, demo_vote 60000 2 0x200]\<rparr>"
  by (simp_all add: pool_run DelVotes_def)

text \<open>\<open>DelVotes\<close> leaves the arrival index as it is, and the stale entry later removes a vote that is
  not old: a vote that arrived at 0 and was deleted, and arrived again at 50 seconds, is dropped when
  another vote comes at 60 seconds, 10 seconds after its arrival, although the timeout is 55 seconds.\<close>

theorem stale_index_drops_fresh_vote:
  "let vp1 = DelVotes (vote_at 0 (NewVotePool RoleValidator) 0x100) 5;
       vp2 = vote_at 50000 vp1 0x100;
       vp3 = vote_at 60000 vp2 0x200
   in lookup_vote (voteMap vp2) 1 5 \<noteq> None \<and> lookup_vote (voteMap vp3) 1 5 = None \<and>
      60000 - 50000 < timeoutInterval vp3"
  unfolding stale_index_run Let_def
  by (simp add: lookup_vote_def NewVotePool_def VotePoolTimeout_def)

end
