(* ===== verification/Turn_Times.thy ===== *)
theory Turn_Times
  imports Matrix_Prelude
begin

text \<open>
  The time line of a block height in the leader re-election, \<open>verifier/trunTimes.go\<close>: each consensus
  turn begins at a recorded time, has a period for the block consensus, and then re-election turns of
  equal length. Times are \<open>int64\<close> seconds, turns \<open>uint32\<close>.
\<close>

section \<open>State and operations\<close>

datatype lr_state = stIdle | stPos | stReelect | stMining

definition LRSParentMiningTime :: int where "LRSParentMiningTime = 20"
definition LRSPOSOutTime :: int where "LRSPOSOutTime = 20"
definition LRSReelectOutTime :: int where "LRSReelectOutTime = 40"
definition LRSReelectInterval :: int where "LRSReelectInterval = 5"

record turnTimes =
  beginTimes :: "(u32, int) gomap"

definition newTurnTimes :: turnTimes where
  "newTurnTimes = \<lparr>beginTimes = []\<rparr>"

definition SetBeginTime :: "turnTimes \<Rightarrow> u32 \<Rightarrow> int \<Rightarrow> turnTimes \<times> bool" where
  "SetBeginTime tt consensusTurn time =
    (case map_of (beginTimes tt) consensusTurn of
       Some oldTime \<Rightarrow>
         if time \<le> oldTime then (tt, False)
         else (tt\<lparr>beginTimes := map_put consensusTurn time (beginTimes tt)\<rparr>, True)
     | None \<Rightarrow> (tt\<lparr>beginTimes := map_put consensusTurn time (beginTimes tt)\<rparr>, True))"

definition GetBeginTime :: "turnTimes \<Rightarrow> u32 \<Rightarrow> int" where
  "GetBeginTime tt consensusTurn =
    (case map_of (beginTimes tt) consensusTurn of Some beginTime \<Rightarrow> beginTime | None \<Rightarrow> 0)"

text \<open>The length of the consensus period, computed in the same way by three functions.\<close>

definition pos_time :: "u32 \<Rightarrow> int" where
  "pos_time consensusTurn =
    (if consensusTurn = 0 then LRSPOSOutTime + LRSParentMiningTime else LRSPOSOutTime)"

definition GetPosEndTime :: "turnTimes \<Rightarrow> u32 \<Rightarrow> int" where
  "GetPosEndTime tt consensusTurn = i64 (GetBeginTime tt consensusTurn + pos_time consensusTurn)"

definition CalState :: "turnTimes \<Rightarrow> u32 \<Rightarrow> int \<Rightarrow> lr_state \<times> int \<times> u32" where
  "CalState tt consensusTurn time =
    (let posTime = pos_time consensusTurn;
         passTime = i64 (time - GetBeginTime tt consensusTurn)
     in if passTime < posTime then (stPos, i64 (posTime - passTime), 0)
        else
          (let reelectTurn = of_int ((passTime - posTime) div LRSReelectOutTime) + 1;
               remainTime = (passTime - posTime) mod LRSReelectOutTime
           in (stReelect, if remainTime = 0 then LRSReelectOutTime else remainTime, reelectTurn)))"

definition CalRemainTime :: "turnTimes \<Rightarrow> u32 \<Rightarrow> u32 \<Rightarrow> int \<Rightarrow> int" where
  "CalRemainTime tt consensusTurn reelectTurn time =
    (let deadLine = i64 (GetBeginTime tt consensusTurn + pos_time consensusTurn +
           i64 (int (unat reelectTurn) * LRSReelectOutTime))
     in i64 (deadLine - time))"

lemmas lrs_defs = LRSParentMiningTime_def LRSPOSOutTime_def LRSReelectOutTime_def LRSReelectInterval_def

section \<open>The time line\<close>

lemma pos_time_range: "20 \<le> pos_time t" "pos_time t \<le> 40"
  by (simp_all add: pos_time_def lrs_defs)

lemma reelect_turn_unat:
  assumes "0 \<le> d" "d < 40 * (2 ^ 32 - 1)"
  shows "unat (of_int (d div 40) + 1 :: u32) = nat (d div 40) + 1"
proof -
  have "0 \<le> d div 40" "d div 40 < 2 ^ 32 - 1" using assms by simp_all
  moreover from this(1) have "(of_int (d div 40) :: u32) = of_nat (nat (d div 40))" by simp
  ultimately show ?thesis
    by (simp only: unat_word_ariths unat_of_nat) simp
qed

text \<open>Moments and begin times below \<open>2 ^ 37\<close> seconds keep the turn within 32 bits.\<close>

definition times_fit :: "turnTimes \<Rightarrow> u32 \<Rightarrow> int \<Rightarrow> bool" where
  "times_fit tt c time \<longleftrightarrow>
    0 \<le> GetBeginTime tt c \<and> GetBeginTime tt c < 2 ^ 37 \<and> 0 \<le> time \<and> time < 2 ^ 37"

lemma GetPosEndTime_exact:
  "times_fit tt c time \<Longrightarrow> GetPosEndTime tt c = GetBeginTime tt c + pos_time c"
  using pos_time_range [of c] unfolding GetPosEndTime_def times_fit_def by (intro i64_id) simp_all

lemma CalState_pos:
  assumes "times_fit tt c time" "time < GetPosEndTime tt c"
  shows "CalState tt c time = (stPos, GetPosEndTime tt c - time, 0)"
proof -
  have "i64 (time - GetBeginTime tt c) = time - GetBeginTime tt c"
    using assms by (intro i64_id) (simp_all add: times_fit_def)
  moreover have "i64 (pos_time c - (time - GetBeginTime tt c)) = pos_time c - (time - GetBeginTime tt c)"
    using assms pos_time_range [of c] by (intro i64_id) (simp_all add: times_fit_def)
  ultimately show ?thesis
    using assms GetPosEndTime_exact [OF assms(1)] by (simp add: CalState_def Let_def)
qed

lemma CalState_reelect:
  assumes "times_fit tt c time" "GetPosEndTime tt c \<le> time"
  defines "d \<equiv> time - GetPosEndTime tt c"
  obtains turn where
    "CalState tt c time = (stReelect, if d mod 40 = 0 then 40 else d mod 40, turn)"
    "int (unat turn) = d div 40 + 1"
proof -
  have i: "i64 (time - GetBeginTime tt c) = time - GetBeginTime tt c"
    using assms by (intro i64_id) (simp_all add: times_fit_def)
  have d: "d = time - GetBeginTime tt c - pos_time c" "0 \<le> d"
    using assms(2) GetPosEndTime_exact [OF assms(1)] by (simp_all add: d_def)
  have "d < 40 * (2 ^ 32 - 1)"
    using assms(1) pos_time_range [of c] by (simp add: d(1) times_fit_def)
  then have "int (unat (of_int (d div 40) + 1 :: u32)) = d div 40 + 1"
    using reelect_turn_unat [OF d(2)] d(2) by simp
  moreover have "CalState tt c time =
      (stReelect, if d mod 40 = 0 then 40 else d mod 40, of_int (d div 40) + 1)"
    using d by (simp add: CalState_def i lrs_defs Let_def)
  ultimately show ?thesis by (rule that [rotated])
qed

lemma CalRemainTime_exact:
  assumes "times_fit tt c time"
  shows "CalRemainTime tt c turn time = GetPosEndTime tt c + int (unat turn) * 40 - time"
proof -
  define n where "n = int (unat turn)"
  have n: "0 \<le> n" "n < 2 ^ 32"
    using unsigned_less [of turn, where 'a = int] by (simp_all add: n_def)
  have "i64 (n * 40) = n * 40"
    "i64 (GetBeginTime tt c + pos_time c + n * 40) = GetBeginTime tt c + pos_time c + n * 40"
    "i64 (GetBeginTime tt c + pos_time c + n * 40 - time) = GetBeginTime tt c + pos_time c + n * 40 - time"
    using n assms pos_time_range [of c] by (auto intro!: i64_id simp: times_fit_def)
  then show ?thesis
    using GetPosEndTime_exact [OF assms]
    by (simp only: CalRemainTime_def lrs_defs Let_def n_def [symmetric])
qed

text \<open>\<open>CalState\<close> puts a moment into the right period. Within the consensus period it answers with
  that state and the time left in it; after that with the re-election state and a turn of at
  least one whose period of 40 seconds holds the moment, so that \<open>CalRemainTime\<close> of that turn is
  between 1 and 40 seconds.\<close>

theorem CalState_period:
  assumes "times_fit tt c time"
  shows "case CalState tt c time of (st, remain, turn) \<Rightarrow>
    (if time < GetPosEndTime tt c
     then st = stPos \<and> turn = 0 \<and> remain = GetPosEndTime tt c - time
     else st = stReelect \<and> 1 \<le> unat turn \<and>
       GetPosEndTime tt c + (int (unat turn) - 1) * 40 \<le> time \<and>
       time < GetPosEndTime tt c + int (unat turn) * 40 \<and>
       0 < CalRemainTime tt c turn time \<and> CalRemainTime tt c turn time \<le> 40)"
proof (cases "time < GetPosEndTime tt c")
  case True
  then show ?thesis using CalState_pos [OF assms True] by simp
next
  case False
  then obtain turn where
    "CalState tt c time = (stReelect, if (time - GetPosEndTime tt c) mod 40 = 0 then 40
       else (time - GetPosEndTime tt c) mod 40, turn)"
    "int (unat turn) = (time - GetPosEndTime tt c) div 40 + 1"
    using CalState_reelect [OF assms] by (metis linorder_not_less)
  note cal = this
  define q where "q = (time - GetPosEndTime tt c) div 40"
  have q: "0 \<le> q" "40 * q \<le> time - GetPosEndTime tt c" "time - GetPosEndTime tt c < 40 * q + 40"
    using False by (simp_all add: q_def)
  define n where "n = int (unat turn)"
  have n: "n = q + 1" using cal(2) by (simp only: q_def n_def)
  have "1 \<le> n" "GetPosEndTime tt c + (n - 1) * 40 \<le> time" "time < GetPosEndTime tt c + n * 40"
    using q unfolding n by simp_all
  moreover have "CalRemainTime tt c turn time = GetPosEndTime tt c + n * 40 - time"
    unfolding n_def by (rule CalRemainTime_exact [OF assms])
  moreover have "1 \<le> unat turn" using q(1) n unfolding n_def by linarith
  ultimately show ?thesis using cal(1) False by (simp add: n_def)
qed

theorem CalState_period_witness:
  "case CalState \<lparr>beginTimes = [(1, 1000)]\<rparr> 1 1065 of (st, remain, turn) \<Rightarrow> st = stReelect \<and> turn = 2"
proof -
  have "times_fit \<lparr>beginTimes = [(1, 1000)]\<rparr> 1 1065"
    by (simp add: times_fit_def GetBeginTime_def)
  from CalState_period [OF this] show ?thesis
    by (simp add: CalState_def GetBeginTime_def GetPosEndTime_def pos_time_def lrs_defs i64_def)
qed

text \<open>In the re-election state the remaining time \<open>CalState\<close> reports is the time already spent in the
  turn, not the time left: it adds up with \<open>CalRemainTime\<close> to the length of the turn (and is that
  length at the start of a turn). So the two agree only at the start and in the middle of a turn.\<close>

theorem CalState_remain_is_elapsed:
  assumes "times_fit tt c time" "CalState tt c time = (stReelect, remain, turn)"
  shows "(remain = 40 \<and> CalRemainTime tt c turn time = 40 \<or>
      remain < 40 \<and> remain + CalRemainTime tt c turn time = 40) \<and>
    (remain = CalRemainTime tt c turn time \<longleftrightarrow> remain = 40 \<or> remain = 20)"
proof -
  have ge: "GetPosEndTime tt c \<le> time"
  proof (rule ccontr)
    assume "\<not> GetPosEndTime tt c \<le> time"
    then show False using assms(2) CalState_pos [OF assms(1)] by simp
  qed
  define d where "d = time - GetPosEndTime tt c"
  obtain turn' where c: "CalState tt c time = (stReelect, if d mod 40 = 0 then 40 else d mod 40, turn')"
    "int (unat turn') = d div 40 + 1"
    using CalState_reelect [OF assms(1) ge] unfolding d_def by blast
  have r: "remain = (if d mod 40 = 0 then 40 else d mod 40)" and t: "int (unat turn) = d div 40 + 1"
    using c assms(2) by simp_all
  have "CalRemainTime tt c turn time = (d div 40 + 1) * 40 - d"
    unfolding CalRemainTime_exact [OF assms(1)] t by (simp add: d_def)
  then have m: "CalRemainTime tt c turn time = 40 - d mod 40"
    by (simp add: minus_div_mult_eq_mod [symmetric] algebra_simps)
  define m where "m = d mod 40"
  have "0 \<le> m" "m < 40" by (simp_all add: m_def)
  then show ?thesis
    unfolding r m m_def [symmetric] by (cases "m = 0"; simp; presburger)
qed

theorem CalState_remain_is_elapsed_witness:
  "CalState \<lparr>beginTimes = [(1, 1000)]\<rparr> 1 1065 = (stReelect, 5, 2) \<and>
   CalRemainTime \<lparr>beginTimes = [(1, 1000)]\<rparr> 1 2 1065 = 35"
proof -
  have "times_fit \<lparr>beginTimes = [(1, 1000)]\<rparr> 1 1065"
    by (simp add: times_fit_def GetBeginTime_def)
  moreover have "CalState \<lparr>beginTimes = [(1, 1000)]\<rparr> 1 1065 = (stReelect, 5, 2)"
    by (simp add: CalState_def GetBeginTime_def pos_time_def lrs_defs i64_def)
  ultimately show ?thesis using CalState_remain_is_elapsed by fastforce
qed

lemma SetBeginTime_result:
  "SetBeginTime tt c t = (tt', ok) \<Longrightarrow>
   (ok \<longrightarrow> GetBeginTime tt' c = t) \<and> (\<not> ok \<longrightarrow> tt' = tt) \<and> (\<forall>c'. c' \<noteq> c \<longrightarrow> GetBeginTime tt' c' = GetBeginTime tt c')"
  by (auto simp: SetBeginTime_def GetBeginTime_def split: option.splits if_splits)

lemma SetBeginTime_mono:
  assumes "SetBeginTime tt c t = (tt', ok)" "map_has (beginTimes tt) c'"
  shows "GetBeginTime tt c' \<le> GetBeginTime tt' c' \<and> map_has (beginTimes tt') c'"
  using assms by (auto simp: SetBeginTime_def GetBeginTime_def map_has_def split: option.splits if_splits)

end
