(* ===== verification/Leader_Cdc.thy ===== *)
theory Leader_Cdc
  imports Dpos Turn_Times
begin

text \<open>
  Who leads a turn: the leader calculator \<open>verifier/leaderCal.go\<close> and the common data of a
  controller \<open>verifier/cdc.go\<close>, with the errors and types of \<open>verifier/commdef.go\<close>.

  The calculator points back to the cdc for its number only, so its functions take the number. The
  chain is a record of the two calls made on it; \<open>man.BroadCastNodes[0].Address\<close> is the argument
  \<open>bn\<close>. A slice of validators may be nil, which is \<^const>\<open>None\<close>.
\<close>

section \<open>verifier/commdef.go\<close>

datatype lr_error =
    ErrMsgAccountIsNull
  | ErrValidatorsIsNil
  | ErrValidatorNotFound
  | ErrMsgExistInCache
  | ErrNoMsgInCache
  | ErrMsgIsNil
  | ErrSelfReqIsNil
  | ErrBroadcastIsNil
  | ErrPOSResultIsNil
  | ErrLeaderResultIsNil
  | ErrPreHeader u64
  | ErrSetTurn lr_error
  | ErrMsgExpired int
  | ErrHashMismatch hash hash
  | ErrSignExist address
  | ErrSignParse verify_error
  | ErrSignAccount address address
  | ErrSignDisagree
  | ErrInquiryResultExist
  | ErrInquiryResultType
  | ErrNotAgreeState
  | ErrNoResultMsg
  | ErrTimeSpan
  | ErrCheck string
  | ErrDpos dpos_error
  | LrPanic

record leaderData =
  ld_leader :: address
  ld_nextLeader :: address

definition copyData :: "leaderData \<Rightarrow> leaderData" where
  "copyData self = \<lparr>ld_leader = ld_leader self, ld_nextLeader = ld_nextLeader self\<rparr>"

section \<open>verifier/leaderCal.go\<close>

record chain_env =
  ch_GetHeaderByNumber :: "u64 \<Rightarrow> Header option"
  ch_GetValidatorByNumber :: "u64 \<Rightarrow> topology_error + TopologyGraph"

record leaderCalculator =
  lc_preLeader :: address
  lc_leaderList :: "(u32, address) gomap"
  lc_validators :: "TopologyNodeInfo list"

definition newLeaderCalculator :: leaderCalculator where
  "newLeaderCalculator = \<lparr>lc_preLeader = 0, lc_leaderList = [], lc_validators = []\<rparr>"

fun findLeaderIndex :: "address \<Rightarrow> TopologyNodeInfo list \<Rightarrow> nat \<Rightarrow> lr_error + nat" where
  "findLeaderIndex preLeader [] index = Inl ErrValidatorNotFound"
| "findLeaderIndex preLeader (v # validators) index =
    (if tn_Account v = preLeader then Inr index else findLeaderIndex preLeader validators (index + 1))"

fun leader_list_loop :: "TopologyNodeInfo list \<Rightarrow> nat \<Rightarrow> nat \<Rightarrow> nat \<Rightarrow> (u32, address) gomap \<Rightarrow> (u32, address) gomap" where
  "leader_list_loop validators startPos i 0 leaderList = leaderList"
| "leader_list_loop validators startPos i (Suc k) leaderList =
    leader_list_loop validators startPos (i + 1) k
      (map_put (of_nat i) (tn_Account (validators ! ((startPos + i) mod length validators))) leaderList)"

definition calLeaderList ::
  "address \<Rightarrow> TopologyNodeInfo list \<Rightarrow> u64 \<Rightarrow> lr_error + (u32, address) gomap" where
  "calLeaderList preLeader validators number =
    (case (if IsReElectionNumber number then Inr 0
           else case findLeaderIndex preLeader validators 0 of
                  Inl err \<Rightarrow> Inl err | Inr preIndex \<Rightarrow> Inr (preIndex + 1)) of
       Inl err \<Rightarrow> Inl err
     | Inr startPos \<Rightarrow> Inr (leader_list_loop validators startPos 0 (length validators) []))"

definition lc_SetValidators ::
  "chain_env \<Rightarrow> u64 \<Rightarrow> leaderCalculator \<Rightarrow> address \<Rightarrow> TopologyNodeInfo list option \<Rightarrow>
   leaderCalculator \<times> lr_error option" where
  "lc_SetValidators chain number self preLeader validators =
    (case validators of
       None \<Rightarrow> (self, Some ErrValidatorsIsNil)
     | Some vs \<Rightarrow>
         (let preNumber = number - 1;
              pre = (if IsBroadcastNumber preNumber \<and> preNumber \<noteq> 0
                     then (case ch_GetHeaderByNumber chain (preNumber - 1) of
                             None \<Rightarrow> Inl (ErrPreHeader (preNumber - 1))
                           | Some header \<Rightarrow> Inr (h_Leader header))
                     else Inr preLeader)
          in case pre of
               Inl err \<Rightarrow> (self, Some err)
             | Inr preLeader' \<Rightarrow>
                 (case calLeaderList preLeader' vs number of
                    Inl err \<Rightarrow> (self, Some err)
                  | Inr leaderList \<Rightarrow>
                      (\<lparr>lc_preLeader = preLeader', lc_leaderList = leaderList, lc_validators = vs\<rparr>, None))))"

definition lc_GetValidators :: "leaderCalculator \<Rightarrow> lr_error + TopologyGraph" where
  "lc_GetValidators self =
    (if lc_validators self = [] then Inl ErrValidatorsIsNil
     else Inr \<lparr>tg_Number = 0, tg_NodeList = lc_validators self, tg_CurNodeNumber = 0\<rparr>)"

text \<open>A lookup in a Go map gives the zero value for a missing key.\<close>

definition leader_at :: "leaderCalculator \<Rightarrow> u32 \<Rightarrow> address" where
  "leader_at self i = (case map_of (lc_leaderList self) i of None \<Rightarrow> 0 | Some a \<Rightarrow> a)"

definition lc_GetLeader :: "address \<Rightarrow> u64 \<Rightarrow> leaderCalculator \<Rightarrow> u32 \<Rightarrow> lr_error + leaderData" where
  "lc_GetLeader bn number self turn =
    (let leaderCount = (of_nat (length (lc_leaderList self)) :: u32)
     in if leaderCount = 0 then Inl ErrValidatorsIsNil
        else if IsReElectionNumber number then
          Inr \<lparr>ld_leader = bn, ld_nextLeader = leader_at self (turn mod leaderCount)\<rparr>
        else if IsBroadcastNumber number then
          Inr \<lparr>ld_leader = bn, ld_nextLeader = leader_at self (turn mod leaderCount)\<rparr>
        else
          Inr \<lparr>ld_leader = leader_at self (turn mod leaderCount),
               ld_nextLeader = (if IsBroadcastNumber (number + 1) then bn
                                else leader_at self ((turn + 1) mod leaderCount))\<rparr>)"

section \<open>verifier/cdc.go\<close>

record cdc =
  dc_state :: lr_state
  dc_number :: u64
  dc_curConsensusTurn :: u32
  dc_consensusLeader :: address
  dc_curReelectTurn :: u32
  dc_reelectMaster :: address
  dc_leaderCal :: leaderCalculator
  dc_turnTime :: turnTimes

definition newCDC :: "u64 \<Rightarrow> cdc" where
  "newCDC number = \<lparr>dc_state = stIdle, dc_number = number, dc_curConsensusTurn = 0,
    dc_consensusLeader = 0, dc_curReelectTurn = 0, dc_reelectMaster = 0,
    dc_leaderCal = newLeaderCalculator, dc_turnTime = newTurnTimes\<rparr>"

definition dc_GetLeader :: "address \<Rightarrow> cdc \<Rightarrow> u32 \<Rightarrow> lr_error + address" where
  "dc_GetLeader bn dc turn =
    (case lc_GetLeader bn (dc_number dc) (dc_leaderCal dc) turn of
       Inl err \<Rightarrow> Inl err
     | Inr leaders \<Rightarrow> Inr (ld_leader leaders))"

definition dc_SetValidators ::
  "address \<Rightarrow> chain_env \<Rightarrow> cdc \<Rightarrow> address \<Rightarrow> TopologyNodeInfo list option \<Rightarrow> cdc \<times> lr_error option" where
  "dc_SetValidators bn chain dc preLeader validators =
    (case lc_SetValidators chain (dc_number dc) (dc_leaderCal dc) preLeader validators of
       (lc, Some err) \<Rightarrow> (dc\<lparr>dc_leaderCal := lc\<rparr>, Some err)
     | (lc, None) \<Rightarrow>
         (let dc = dc\<lparr>dc_leaderCal := lc\<rparr>
          in case dc_GetLeader bn dc (dc_curConsensusTurn dc) of
               Inl err \<Rightarrow> (dc, Some err)
             | Inr consensusLeader \<Rightarrow>
                 if dc_curReelectTurn dc \<noteq> 0 then
                   (case dc_GetLeader bn dc (dc_curConsensusTurn dc + dc_curReelectTurn dc) of
                      Inl err \<Rightarrow> (dc, Some err)
                    | Inr reelectLeader \<Rightarrow>
                        (dc\<lparr>dc_reelectMaster := reelectLeader, dc_consensusLeader := consensusLeader\<rparr>, None))
                 else (dc\<lparr>dc_reelectMaster := 0, dc_consensusLeader := consensusLeader\<rparr>, None)))"

definition SetConsensusTurn :: "address \<Rightarrow> cdc \<Rightarrow> u32 \<Rightarrow> cdc \<times> lr_error option" where
  "SetConsensusTurn bn dc consensusTurn =
    (case dc_GetLeader bn dc consensusTurn of
       Inl err \<Rightarrow> (dc, Some (ErrSetTurn err))
     | Inr consensusLeader \<Rightarrow>
         (dc\<lparr>dc_consensusLeader := consensusLeader, dc_curConsensusTurn := consensusTurn,
             dc_reelectMaster := 0, dc_curReelectTurn := 0\<rparr>, None))"

definition SetReelectTurn :: "address \<Rightarrow> cdc \<Rightarrow> u32 \<Rightarrow> cdc \<times> lr_error option" where
  "SetReelectTurn bn dc reelectTurn =
    (if dc_curReelectTurn dc = reelectTurn then (dc, None)
     else if reelectTurn = 0 then (dc\<lparr>dc_reelectMaster := 0, dc_curReelectTurn := 0\<rparr>, None)
     else
       (case dc_GetLeader bn dc (dc_curConsensusTurn dc + reelectTurn) of
          Inl err \<Rightarrow> (dc, Some (ErrSetTurn err))
        | Inr master \<Rightarrow> (dc\<lparr>dc_reelectMaster := master, dc_curReelectTurn := reelectTurn\<rparr>, None)))"

definition GetConsensusLeader :: "cdc \<Rightarrow> address" where
  "GetConsensusLeader dc = dc_consensusLeader dc"

definition GetReelectMaster :: "cdc \<Rightarrow> address" where
  "GetReelectMaster dc = dc_reelectMaster dc"

record LeaderChangeNotify =
  lcn_ConsensusState :: bool
  lcn_Leader :: address
  lcn_NextLeader :: address
  lcn_Number :: u64
  lcn_ConsensusTurn :: u32
  lcn_ReelectTurn :: u32
  lcn_TurnBeginTime :: int
  lcn_TurnEndTime :: int

definition PrepareLeaderMsg :: "address \<Rightarrow> cdc \<Rightarrow> lr_error + LeaderChangeNotify" where
  "PrepareLeaderMsg bn dc =
    (case lc_GetLeader bn (dc_number dc) (dc_leaderCal dc) (dc_curConsensusTurn dc + dc_curReelectTurn dc) of
       Inl err \<Rightarrow> Inl err
     | Inr leaders \<Rightarrow>
         Inr \<lparr>lcn_ConsensusState = (dc_state dc \<noteq> stReelect), lcn_Leader = ld_leader leaders,
              lcn_NextLeader = ld_nextLeader leaders, lcn_Number = dc_number dc,
              lcn_ConsensusTurn = dc_curConsensusTurn dc, lcn_ReelectTurn = dc_curReelectTurn dc,
              lcn_TurnBeginTime = GetBeginTime (dc_turnTime dc) (dc_curConsensusTurn dc),
              lcn_TurnEndTime = GetPosEndTime (dc_turnTime dc) (dc_curConsensusTurn dc)\<rparr>)"

definition dc_GetCurrentNumber :: "cdc \<Rightarrow> u64" where
  "dc_GetCurrentNumber dc = dc_number dc - 1"

definition dc_GetValidatorByNumber :: "chain_env \<Rightarrow> cdc \<Rightarrow> u64 \<Rightarrow> topology_error + TopologyGraph" where
  "dc_GetValidatorByNumber chain dc number =
    (if dc_number dc \<le> number then Inl (ErrNumberMismatch (dc_number dc) number)
     else
       (case ch_GetValidatorByNumber chain number of
          Inr validators \<Rightarrow> Inr validators
        | Inl err \<Rightarrow>
            if number = dc_number dc - 1
            then (case lc_GetValidators (dc_leaderCal dc) of
                    Inl _ \<Rightarrow> Inl ErrGraphNotExistInDb | Inr graph \<Rightarrow> Inr graph)
            else Inl err))"

text \<open>The cdc is the \<open>ValidatorReader\<close> it hands to the consensus engine.\<close>

definition cdc_reader :: "chain_env \<Rightarrow> cdc \<Rightarrow> ValidatorReader" where
  "cdc_reader chain dc =
    \<lparr>GetCurrentNumber = dc_GetCurrentNumber dc, GetValidatorByNumber = dc_GetValidatorByNumber chain dc\<rparr>"

section \<open>The list of leaders\<close>

lemma of_nat_u32_inj: "i < 2 ^ 32 \<Longrightarrow> j < 2 ^ 32 \<Longrightarrow> (of_nat i :: u32) = of_nat j \<longleftrightarrow> i = j"
  by (simp add: word_of_nat_eq_iff take_bit_nat_eq_self)

lemma leader_list_loop_map:
  assumes "i + k \<le> 2 ^ 32" "j < 2 ^ 32"
  shows "map_of (leader_list_loop vs s i k acc) (of_nat j) =
    (if i \<le> j \<and> j < i + k then Some (tn_Account (vs ! ((s + j) mod length vs)))
     else map_of acc (of_nat j))"
  using assms
proof (induction vs s i k acc rule: leader_list_loop.induct)
  case (2 vs s i k acc)
  have "(of_nat j :: u32) = of_nat i \<longleftrightarrow> j = i" using 2 by (intro of_nat_u32_inj) simp_all
  then show ?case using 2 by auto
qed auto

lemma leader_list_loop_length:
  assumes "i + k \<le> 2 ^ 32" "\<And>j. i \<le> j \<Longrightarrow> j < i + k \<Longrightarrow> \<not> map_has acc (of_nat j)"
  shows "length (leader_list_loop vs s i k acc) = length acc + k"
  using assms
proof (induction vs s i k acc rule: leader_list_loop.induct)
  case (2 vs s i k acc)
  let ?acc = "map_put (of_nat i) (tn_Account (vs ! ((s + i) mod length vs))) acc"
  have "\<not> map_has ?acc (of_nat j)" if "i + 1 \<le> j" "j < i + 1 + k" for j
    using that "2.prems" of_nat_u32_inj [of j i] by (simp add: map_has_def)
  moreover have "length ?acc = Suc (length acc)"
    using "2.prems"(2) [of i] by (simp add: length_map_put)
  ultimately show ?case using 2 by simp
qed simp

definition rotation :: "TopologyNodeInfo list \<Rightarrow> nat \<Rightarrow> leaderCalculator \<Rightarrow> bool" where
  "rotation vs s lc \<longleftrightarrow> length (lc_leaderList lc) = length vs \<and>
    (\<forall>i < length vs. map_of (lc_leaderList lc) (of_nat i) = Some (tn_Account (vs ! ((s + i) mod length vs))))"

lemma findLeaderIndex_ok:
  "findLeaderIndex a vs i = Inr j \<Longrightarrow> i \<le> j \<and> j < i + length vs \<and> tn_Account (vs ! (j - i)) = a"
proof (induction a vs i rule: findLeaderIndex.induct)
  case (2 a v vs i)
  show ?case
  proof (cases "tn_Account v = a")
    case False
    then have IH: "i + 1 \<le> j \<and> j < i + 1 + length vs \<and> tn_Account (vs ! (j - (i + 1))) = a"
      using 2 by simp
    then have "j - i = Suc (j - (i + 1))" by linarith
    then show ?thesis using IH by simp
  qed (use 2 in simp)
qed simp

lemma calLeaderList_rotation:
  assumes "calLeaderList a vs n = Inr L" "length vs \<le> 2 ^ 32"
  obtains s where "rotation vs s \<lparr>lc_preLeader = p, lc_leaderList = L, lc_validators = q\<rparr>"
    "if IsReElectionNumber n then s = 0 else 0 < s \<and> s \<le> length vs \<and> tn_Account (vs ! (s - 1)) = a"
proof -
  have "\<exists>s. L = leader_list_loop vs s 0 (length vs) [] \<and>
    (if IsReElectionNumber n then s = 0 else 0 < s \<and> s \<le> length vs \<and> tn_Account (vs ! (s - 1)) = a)"
  proof (cases "IsReElectionNumber n")
    case True
    then show ?thesis using assms(1) by (intro exI [of _ 0]) (simp add: calLeaderList_def)
  next
    case False
    then obtain i where i: "findLeaderIndex a vs 0 = Inr i"
      using assms(1) by (auto simp: calLeaderList_def split: sum.splits)
    have "L = leader_list_loop vs (i + 1) 0 (length vs) []"
      using assms(1) False i by (simp add: calLeaderList_def)
    then show ?thesis using False findLeaderIndex_ok [OF i] by (intro exI [of _ "i + 1"]) simp
  qed
  then obtain s where L: "L = leader_list_loop vs s 0 (length vs) []"
    and s: "if IsReElectionNumber n then s = 0 else 0 < s \<and> s \<le> length vs \<and> tn_Account (vs ! (s - 1)) = a"
    by blast
  have "length L = length vs"
    using leader_list_loop_length [of 0 "length vs" "[]" vs s] assms(2) by (simp add: L)
  moreover have "map_of L (of_nat i) = Some (tn_Account (vs ! ((s + i) mod length vs)))"
    if "i < length vs" for i
    using leader_list_loop_map [of 0 "length vs" i vs s "[]"] assms(2) that by (simp add: L)
  ultimately have "rotation vs s \<lparr>lc_preLeader = p, lc_leaderList = L, lc_validators = q\<rparr>"
    by (simp add: rotation_def)
  then show ?thesis using s by (rule that)
qed

lemma rotation_leader_at:
  assumes "rotation vs s lc" "vs \<noteq> []" "length vs < 2 ^ 32"
  shows "leader_at lc (turn mod of_nat (length (lc_leaderList lc))) =
    tn_Account (vs ! ((s + unat turn) mod length vs))"
proof -
  let ?n = "length vs"
  have n: "unat (of_nat ?n :: u32) = ?n" using assms(3) by (simp add: unat_of_nat)
  have "turn mod of_nat ?n = of_nat (unat turn mod ?n)"
    by (rule word_unat_eq_iff [THEN iffD2])
       (use n assms(2,3) in \<open>simp add: unat_mod_distrib unat_of_nat order_less_trans [OF mod_less_divisor]\<close>)
  moreover have "unat turn mod ?n < ?n" using assms(2) by simp
  ultimately show ?thesis
    using assms(1) by (simp add: rotation_def leader_at_def mod_simps)
qed

lemma rotation_count:
  "rotation vs s lc \<Longrightarrow> vs \<noteq> [] \<Longrightarrow> length vs < 2 ^ 32 \<Longrightarrow> (of_nat (length (lc_leaderList lc)) :: u32) \<noteq> 0"
  using unat_of_nat [of "length vs", where 'a = 32]
  by (auto simp: rotation_def)

lemma lc_GetLeader_rotation:
  assumes "rotation vs s lc" "vs \<noteq> []" "length vs < 2 ^ 32" "\<not> IsBroadcastNumber n"
  shows "lc_GetLeader bn n lc turn = Inr
    \<lparr>ld_leader = tn_Account (vs ! ((s + unat turn) mod length vs)),
     ld_nextLeader = (if IsBroadcastNumber (n + 1) then bn
       else tn_Account (vs ! ((s + unat (turn + 1)) mod length vs)))\<rparr>"
  using rotation_count [OF assms(1-3)] assms(4) reelection_is_broadcast [of n]
  by (auto simp: lc_GetLeader_def rotation_leader_at [OF assms(1-3)] Let_def)

lemma lc_SetValidators_rotation:
  assumes "lc_SetValidators chain n lc a (Some vs) = (lc', None)" "length vs \<le> 2 ^ 32"
    and "\<not> IsBroadcastNumber (n - 1) \<or> n = 1"
  obtains s where "rotation vs s lc'"
    "if IsReElectionNumber n then s = 0 else 0 < s \<and> s \<le> length vs \<and> tn_Account (vs ! (s - 1)) = a"
proof -
  obtain L where L: "calLeaderList a vs n = Inr L"
    and lc': "lc' = \<lparr>lc_preLeader = a, lc_leaderList = L, lc_validators = vs\<rparr>"
    using assms(1,3) by (auto simp: lc_SetValidators_def Let_def split: sum.splits if_splits)
  show ?thesis using calLeaderList_rotation [OF L assms(2), of a vs] that lc' by blast
qed

lemma mod_add_inj:
  fixes k k' n c :: nat
  assumes "k < n" "k' < n" "(c + k) mod n = (c + k') mod n"
  shows "k = k'"
proof -
  have le: "i = j" if "i \<le> j" "j < n" "(c + i) mod n = (c + j) mod n" for i j
  proof -
    have "n dvd (c + j) - (c + i)"
      using that mod_eq_dvd_iff_nat [of "c + i" "c + j" n] by simp
    then have "n dvd j - i" by simp
    then show ?thesis using that by (metis diff_is_0_eq diff_le_self le_antisym nat_dvd_not_less neq0_conv order_le_less_trans)
  qed
  show ?thesis using le [of k k'] le [of k' k] assms by (cases "k \<le> k'") auto
qed

lemma rotation_unique:
  fixes n s t j :: nat
  assumes "0 < n" "j < n"
  shows "\<exists>!k. k < n \<and> (s + (t + k)) mod n = j"
proof -
  let ?c = "(s + t) mod n"
  let ?k = "(j + (n - ?c)) mod n"
  have c: "?c < n" using assms(1) by simp
  have eq: "(s + (t + k)) mod n = (?c + k) mod n" for k by (simp add: mod_simps add.assoc)
  have k: "?k < n" "(?c + ?k) mod n = j"
  proof -
    have "(?c + ?k) mod n = (?c + (j + (n - ?c))) mod n" by (simp add: mod_simps)
    also have "?c + (j + (n - ?c)) = j + n" using c by linarith
    finally show "(?c + ?k) mod n = j" using assms(2) by simp
  qed (use assms(1) in simp)
  moreover have "k = k'" if "k < n" "k' < n" "(?c + k) mod n = (?c + k') mod n" for k k'
    using that mod_add_inj [of k n k' ?c] by simp
  ultimately show ?thesis unfolding eq by blast
qed
section \<open>Turns of leaders\<close>

lemma lc_SetValidators_some_rotation:
  assumes "lc_SetValidators chain n lc a (Some vs) = (lc', None)" "length vs \<le> 2 ^ 32"
  shows "\<exists>s. rotation vs s lc'"
proof -
  obtain p L where L: "calLeaderList p vs n = Inr L"
    and lc': "lc' = \<lparr>lc_preLeader = p, lc_leaderList = L, lc_validators = vs\<rparr>"
    using assms(1) by (auto simp: lc_SetValidators_def Let_def split: sum.splits)
  show ?thesis using calLeaderList_rotation [OF L assms(2), of p vs] lc' by blast
qed

text \<open>C6: Leadership rotates fairly. Once the validators of a height are set, in any run of as many
  consecutive turns as there are validators each validator is the leader of exactly one turn, on
  every height that is no broadcast height and as long as the turn counter does not wrap.\<close>

theorem leader_rotation_fair:
  assumes "lc_SetValidators chain n lc a (Some vs) = (lc', None)"
    and "length vs < 2 ^ 32" "\<not> IsBroadcastNumber n" "distinct (map tn_Account vs)"
    and "unat t + length vs \<le> 2 ^ 32" "v \<in> set vs"
  shows "\<exists>!k. k < length vs \<and>
    (\<exists>d. lc_GetLeader bn n lc' (t + of_nat k) = Inr d \<and> ld_leader d = tn_Account v)"
proof -
  have ne: "vs \<noteq> []" using assms(6) by auto
  obtain s where rot: "rotation vs s lc'"
    using lc_SetValidators_some_rotation [OF assms(1)] assms(2) by auto
  obtain j where j: "j < length vs" "vs ! j = v" using assms(6) by (metis in_set_conv_nth)
  have t: "unat (t + of_nat k) = unat t + k" if "k < length vs" for k
    using that assms(2,5) by (simp add: unat_word_ariths unat_of_nat)
  have "tn_Account (vs ! i) = tn_Account v \<longleftrightarrow> i = j" if "i < length vs" for i
    using that j assms(4) nth_eq_iff_index_eq [of "map tn_Account vs" i j] by auto
  then have "(\<exists>d. lc_GetLeader bn n lc' (t + of_nat k) = Inr d \<and> ld_leader d = tn_Account v) \<longleftrightarrow>
      (s + (unat t + k)) mod length vs = j" if "k < length vs" for k
    using lc_GetLeader_rotation [OF rot ne assms(2,3)] that ne t by simp
  then show ?thesis
    using rotation_unique [of "length vs" j s "unat t"] ne j(1) by (metis length_greater_0_conv)
qed

text \<open>The heights around a broadcast height are ordinary ones.\<close>

lemma broadcast_neighbours:
  assumes "IsBroadcastNumber n" "n \<noteq> 0"
  shows "\<not> IsBroadcastNumber (n - 1)" "\<not> IsBroadcastNumber (n + 1)" "n + 1 - 1 = n"
proof -
  have m: "unat n mod 20 = 0"
    using assms(1) by (simp add: schedule_defs u64_eq_iff unat_mod_numeral)
  have pos: "0 < unat n" using assms(2) by (simp add: unat_gt_0)
  have "unat (n - 1) = unat n - 1" using assms(2) by (rule unat_minus_one)
  moreover have "unat (n + 1) = unat n + 1"
  proof -
    have "unat n + 1 < 2 ^ 64"
    proof (rule ccontr)
      assume "\<not> unat n + 1 < 2 ^ 64"
      then have "unat n = 2 ^ 64 - 1" using unat_u64_lt [of n] by simp
      then show False using m by simp
    qed
    then show ?thesis by (simp add: unat_word_ariths)
  qed
  moreover have "(unat n - 1) mod 20 \<noteq> 0" "(unat n + 1) mod 20 \<noteq> 0"
    using m pos by presburger+
  ultimately show "\<not> IsBroadcastNumber (n - 1)" "\<not> IsBroadcastNumber (n + 1)"
    by (simp_all add: schedule_defs u64_eq_iff unat_mod_numeral)
qed simp

lemma lc_GetLeader_broadcast:
  assumes "rotation vs s lc" "vs \<noteq> []" "length vs < 2 ^ 32" "IsBroadcastNumber n"
  shows "lc_GetLeader bn n lc turn = Inr
    \<lparr>ld_leader = bn, ld_nextLeader = tn_Account (vs ! ((s + unat turn) mod length vs))\<rparr>"
  using rotation_count [OF assms(1-3)] assms(4)
  by (auto simp: lc_GetLeader_def rotation_leader_at [OF assms(1-3)] Let_def)

lemma lc_GetLeader_validators:
  "rotation vs s lc \<Longrightarrow> lc_GetLeader bn n lc turn = Inr d \<Longrightarrow> vs \<noteq> []"
  by (auto simp: lc_GetLeader_def rotation_def Let_def)

text \<open>After a broadcast height the calculator starts behind the leader of the block before it.\<close>

lemma lc_SetValidators_after_broadcast:
  assumes "lc_SetValidators chain n lc p (Some vs) = (lc', None)" "length vs \<le> 2 ^ 32"
    and "IsBroadcastNumber (n - 1)" "n - 1 \<noteq> 0" "ch_GetHeaderByNumber chain (n - 1 - 1) = Some pb"
    and "\<not> IsReElectionNumber n"
  obtains s where "rotation vs s lc'" "0 < s" "s \<le> length vs" "tn_Account (vs ! (s - 1)) = h_Leader pb"
proof -
  obtain L where L: "calLeaderList (h_Leader pb) vs n = Inr L"
    and lc': "lc' = \<lparr>lc_preLeader = h_Leader pb, lc_leaderList = L, lc_validators = vs\<rparr>"
    using assms(1,3,4,5) by (auto simp: lc_SetValidators_def Let_def split: sum.splits)
  show ?thesis using calLeaderList_rotation [OF L assms(2), of "h_Leader pb" vs] that lc' assms(6) by auto
qed

lemma mod_add_zero_iff: "0 < n \<Longrightarrow> (c + k) mod n = c mod n \<longleftrightarrow> k mod n = 0" for n c k :: nat
proof
  assume "0 < n" "(c + k) mod n = c mod n"
  then show "k mod n = 0" using mod_add_inj [of "k mod n" n 0 c] by (simp add: mod_simps)
next
  assume "k mod n = 0"
  then show "(c + k) mod n = c mod n" by (metis add_0_right mod_add_right_eq)
qed

lemma account_index:
  "distinct (map tn_Account vs) \<Longrightarrow> i < length vs \<Longrightarrow> j < length vs \<Longrightarrow>
   tn_Account (vs ! i) = tn_Account (vs ! j) \<longleftrightarrow> i = j"
  using nth_eq_iff_index_eq [of "map tn_Account vs" i j] by auto

lemma next_leader_ordinary:
  assumes "rotation vs s lc1" "lc_GetLeader bn n lc1 t = Inr d"
    and "lc_SetValidators chain (n + 1) lc' (ld_leader d) (Some vs) = (lc2, None)"
    and "\<not> IsBroadcastNumber n" "vs \<noteq> []" "length vs < 2 ^ 32" "distinct (map tn_Account vs)" "t + 1 \<noteq> 0"
  shows "\<exists>d2. lc_GetLeader bn (n + 1) lc2 0 = Inr d2 \<and> ld_leader d2 = ld_nextLeader d"
proof (cases "IsBroadcastNumber (n + 1)")
  case True
  obtain s2 where "rotation vs s2 lc2" using lc_SetValidators_some_rotation [OF assms(3)] assms(6) by auto
  then show ?thesis
    using lc_GetLeader_broadcast [OF _ assms(5,6) True] lc_GetLeader_rotation [OF assms(1,5,6,4), of bn t] assms(2) True
    by auto
next
  case False
  have d: "ld_leader d = tn_Account (vs ! ((s + unat t) mod length vs))"
    "ld_nextLeader d = tn_Account (vs ! ((s + unat (t + 1)) mod length vs))"
    using lc_GetLeader_rotation [OF assms(1,5,6,4), of bn t] assms(2) False by auto
  have b: "\<not> IsBroadcastNumber (n + 1 - 1) \<or> n + 1 = 1" using assms(4) by simp
  have ne: "\<not> IsReElectionNumber (n + 1)" using False reelection_is_broadcast by blast
  obtain s2 where r2: "rotation vs s2 lc2"
    and s2: "0 < s2" "s2 \<le> length vs" "tn_Account (vs ! (s2 - 1)) = ld_leader d"
    using lc_SetValidators_rotation [OF assms(3) _ b] assms(6) ne by auto
  have "s2 - 1 = (s + unat t) mod length vs"
    using s2 d(1) assms(5) account_index [OF assms(7), of "s2 - 1" "(s + unat t) mod length vs"] by simp
  then have "s2 = (s + unat t) mod length vs + 1" using s2(1) by simp
  moreover have "unat (t + 1) = unat t + 1" using assms(8) unatSuc [of t] by (simp add: add.commute)
  ultimately have "(s2 + unat (0 :: u32)) mod length vs = (s + unat (t + 1)) mod length vs"
    by (simp add: mod_simps)
  then show ?thesis
    using lc_GetLeader_rotation [OF r2 assms(5,6) False, of bn 0] d(2) by simp
qed

lemma next_leader_broadcast:
  assumes "rotation vs s lc1" "lc_GetLeader bn n lc1 t = Inr d"
    and "lc_SetValidators chain (n + 1) lc' p (Some vs) = (lc2, None)"
    and "IsBroadcastNumber n" "n \<noteq> 0" "ch_GetHeaderByNumber chain (n - 1) = Some pb"
    and "length vs < 2 ^ 32" "distinct (map tn_Account vs)"
  obtains i d2 where "i < length vs" "tn_Account (vs ! i) = h_Leader pb" "lc_GetLeader bn (n + 1) lc2 0 = Inr d2"
    "ld_leader d2 = ld_nextLeader d \<longleftrightarrow> (i + 1) mod length vs = (s + unat t) mod length vs"
proof -
  note nb = broadcast_neighbours [OF assms(4,5)]
  have vs: "vs \<noteq> []" using lc_GetLeader_validators [OF assms(1,2)] .
  have ne: "\<not> IsReElectionNumber (n + 1)" using nb(2) reelection_is_broadcast by blast
  obtain s2 where r2: "rotation vs s2 lc2"
    and s2: "0 < s2" "s2 \<le> length vs" "tn_Account (vs ! (s2 - 1)) = h_Leader pb"
    using lc_SetValidators_after_broadcast [OF assms(3) _ _ _ _ ne, of pb] assms(4-7) by auto
  have "ld_nextLeader d = tn_Account (vs ! ((s + unat t) mod length vs))"
    using lc_GetLeader_broadcast [OF assms(1) vs assms(7,4), of bn t] assms(2) by simp
  moreover obtain d2 where "lc_GetLeader bn (n + 1) lc2 0 = Inr d2" "ld_leader d2 = tn_Account (vs ! (s2 mod length vs))"
    using lc_GetLeader_rotation [OF r2 vs assms(7) nb(2), of bn 0] by simp
  ultimately show ?thesis
    using that [of "s2 - 1" d2] s2 vs
      account_index [OF assms(8), of "s2 mod length vs" "(s + unat t) mod length vs"] by simp
qed

text \<open>C7: When the leader announced for the next block is the one the next height computes. Let \<open>L\<close> be the
  leader and \<open>N\<close> the next leader of turn \<open>t\<close> of height \<open>n\<close>, whose calculator was set with the previous leader
  \<open>a\<close>, and let the calculator of height \<open>n + 1\<close> be set with the same validators and the previous leader \<open>L\<close>.
  Its leader of turn 0 is \<open>N\<close> on every ordinary height \<open>n\<close>, the height before a broadcast height included. On a
  broadcast height that is no re-election height it is \<open>N\<close> exactly if the turn is a multiple of the number of
  validators. On a re-election height it is \<open>N\<close> exactly if the turn points at the validator behind \<open>a\<close>: that
  height announces the validators from the start of the list, the next height starts behind the leader of the
  block before the broadcast block.\<close>

theorem next_leader_agrees:
  assumes "lc_SetValidators chain n lc a (Some vs) = (lc1, None)"
    and "lc_GetLeader bn n lc1 t = Inr d"
    and "lc_SetValidators chain (n + 1) lc' (ld_leader d) (Some vs) = (lc2, None)"
    and "IsBroadcastNumber n \<Longrightarrow> \<exists>pb. ch_GetHeaderByNumber chain (n - 1) = Some pb \<and> h_Leader pb = a"
    and "n \<noteq> 0" "length vs < 2 ^ 32" "distinct (map tn_Account vs)" "t + 1 \<noteq> 0"
  shows "\<exists>d2. lc_GetLeader bn (n + 1) lc2 0 = Inr d2 \<and>
    (ld_leader d2 = ld_nextLeader d \<longleftrightarrow>
      (if \<not> IsBroadcastNumber n then True
       else if \<not> IsReElectionNumber n then unat t mod length vs = 0
       else \<exists>i<length vs. tn_Account (vs ! i) = a \<and> unat t mod length vs = (i + 1) mod length vs))"
proof (cases "IsBroadcastNumber n")
  case False
  obtain s where r1: "rotation vs s lc1"
    using lc_SetValidators_some_rotation [OF assms(1)] assms(6) by auto
  have "vs \<noteq> []" using lc_GetLeader_validators [OF r1 assms(2)] .
  then show ?thesis using next_leader_ordinary [OF r1 assms(2,3) False _ assms(6-8)] False by auto
next
  case True
  obtain pb where pb: "ch_GetHeaderByNumber chain (n - 1) = Some pb" "h_Leader pb = a"
    using assms(4) [OF True] by blast
  have b: "\<not> IsBroadcastNumber (n - 1) \<or> n = 1" using broadcast_neighbours(1) [OF True assms(5)] by simp
  obtain s where r1: "rotation vs s lc1"
    and s: "if IsReElectionNumber n then s = 0 else 0 < s \<and> s \<le> length vs \<and> tn_Account (vs ! (s - 1)) = a"
    using lc_SetValidators_rotation [OF assms(1) _ b] assms(6) by auto
  obtain i d2 where i: "i < length vs" "tn_Account (vs ! i) = a"
    and d2: "lc_GetLeader bn (n + 1) lc2 0 = Inr d2"
    "ld_leader d2 = ld_nextLeader d \<longleftrightarrow> (i + 1) mod length vs = (s + unat t) mod length vs"
    using next_leader_broadcast [OF r1 assms(2,3) True assms(5) pb(1) assms(6,7)] pb(2) by metis
  have uniq: "j = i" if "j < length vs" "tn_Account (vs ! j) = a" for j
    using that i account_index [OF assms(7), of j i] by simp
  show ?thesis
  proof (cases "IsReElectionNumber n")
    case True
    then have "s = 0" using s by simp
    then have "ld_leader d2 = ld_nextLeader d \<longleftrightarrow> unat t mod length vs = (i + 1) mod length vs"
      using d2(2) by auto
    moreover have "unat t mod length vs = (i + 1) mod length vs \<longleftrightarrow>
      (\<exists>j<length vs. tn_Account (vs ! j) = a \<and> unat t mod length vs = (j + 1) mod length vs)"
      using uniq i by blast
    ultimately show ?thesis
      using d2(1) True \<open>IsBroadcastNumber n\<close> by simp
  next
    case False
    then have "s = i + 1" using s uniq [of "s - 1"] by (cases s) auto
    then have "ld_leader d2 = ld_nextLeader d \<longleftrightarrow> unat t mod length vs = 0"
      using d2(2) mod_add_zero_iff [OF order_le_less_trans [OF le0 i(1)], of "i + 1" "unat t"] by metis
    then show ?thesis using d2(1) True False by auto
  qed
qed

section \<open>The cdc knows its leaders\<close>

definition cdc_ok :: "address \<Rightarrow> cdc \<Rightarrow> bool" where
  "cdc_ok bn dc \<longleftrightarrow>
    dc_GetLeader bn dc (dc_curConsensusTurn dc) = Inr (dc_consensusLeader dc) \<and>
    (if dc_curReelectTurn dc = 0 then dc_reelectMaster dc = 0
     else dc_GetLeader bn dc (dc_curConsensusTurn dc + dc_curReelectTurn dc) = Inr (dc_reelectMaster dc))"

lemma dc_GetLeader_frame [frame_simps]:
  "dc_GetLeader bn (dc\<lparr>dc_state := st\<rparr>) t = dc_GetLeader bn dc t"
  "dc_GetLeader bn (dc\<lparr>dc_consensusLeader := a\<rparr>) t = dc_GetLeader bn dc t"
  "dc_GetLeader bn (dc\<lparr>dc_reelectMaster := a\<rparr>) t = dc_GetLeader bn dc t"
  "dc_GetLeader bn (dc\<lparr>dc_curConsensusTurn := u\<rparr>) t = dc_GetLeader bn dc t"
  "dc_GetLeader bn (dc\<lparr>dc_curReelectTurn := u\<rparr>) t = dc_GetLeader bn dc t"
  "dc_GetLeader bn (dc\<lparr>dc_turnTime := tt\<rparr>) t = dc_GetLeader bn dc t"
  by (simp_all add: dc_GetLeader_def)

text \<open>The common data of a controller never holds an outdated leader. After its validators are
  set, and after every change of the consensus turn or the re-election turn, successful or not,
  the stored leader is the calculator's leader of the current consensus turn, and the stored
  master that of the current re-election turn, or empty outside of a re-election.\<close>

theorem cdc_leaders_current:
  "(\<forall>dc'. dc_SetValidators bn chain dc pre vs = (dc', None) \<longrightarrow> cdc_ok bn dc') \<and>
   (cdc_ok bn dc \<longrightarrow> cdc_ok bn (fst (SetConsensusTurn bn dc turn)) \<and> cdc_ok bn (fst (SetReelectTurn bn dc turn)))"
proof (intro conjI allI impI)
  fix dc' assume set: "dc_SetValidators bn chain dc pre vs = (dc', None)"
  obtain lc r where lc: "lc_SetValidators chain (dc_number dc) (dc_leaderCal dc) pre vs = (lc, r)"
    by fastforce
  have r: "r = None" using set lc by (cases r) (simp_all add: dc_SetValidators_def)
  let ?dc = "dc\<lparr>dc_leaderCal := lc\<rparr>"
  obtain cl where cl: "dc_GetLeader bn ?dc (dc_curConsensusTurn dc) = Inr cl"
    using set lc r by (cases "dc_GetLeader bn ?dc (dc_curConsensusTurn dc)") (simp_all add: dc_SetValidators_def)
  show "cdc_ok bn dc'"
  proof (cases "dc_curReelectTurn dc = 0")
    case True
    then have "dc' = ?dc\<lparr>dc_reelectMaster := 0, dc_consensusLeader := cl\<rparr>"
      using set lc r cl by (simp add: dc_SetValidators_def)
    then show ?thesis using True cl by (simp add: cdc_ok_def frame_simps)
  next
    case False
    then obtain m where m: "dc_GetLeader bn ?dc (dc_curConsensusTurn dc + dc_curReelectTurn dc) = Inr m"
      using set lc r cl
      by (cases "dc_GetLeader bn ?dc (dc_curConsensusTurn dc + dc_curReelectTurn dc)")
         (simp_all add: dc_SetValidators_def)
    then have "dc' = ?dc\<lparr>dc_reelectMaster := m, dc_consensusLeader := cl\<rparr>"
      using set lc r cl False by (simp add: dc_SetValidators_def)
    then show ?thesis using False cl m by (simp add: cdc_ok_def frame_simps)
  qed
next
  assume ok: "cdc_ok bn dc"
  then show "cdc_ok bn (fst (SetConsensusTurn bn dc turn))"
    by (cases "dc_GetLeader bn dc turn") (simp_all add: SetConsensusTurn_def cdc_ok_def frame_simps)
  show "cdc_ok bn (fst (SetReelectTurn bn dc turn))"
  proof (cases "dc_curReelectTurn dc = turn")
    case True
    then show ?thesis using ok by (simp add: SetReelectTurn_def)
  next
    case False
    then show ?thesis
      using ok by (cases "dc_GetLeader bn dc (dc_curConsensusTurn dc + turn)")
        (simp_all add: SetReelectTurn_def cdc_ok_def frame_simps)
  qed
qed

section \<open>Concrete heights\<close>

definition demo_chain :: chain_env where
  "demo_chain = \<lparr>ch_GetHeaderByNumber = \<lambda>n. Some (zero_header\<lparr>h_Leader := 2\<rparr>),
    ch_GetValidatorByNumber = \<lambda>n. Inr demo_graph\<rparr>"

lemma leader_list_three:
  assumes "length vs = 3"
  shows "leader_list_loop vs s 0 3 [] = [(0, tn_Account (vs ! (s mod 3))),
    (1, tn_Account (vs ! (Suc s mod 3))), (2, tn_Account (vs ! (Suc (Suc s) mod 3)))]"
proof -
  have "leader_list_loop vs s 0 (Suc (Suc (Suc 0))) [] = [(0, tn_Account (vs ! (s mod 3))),
    (1, tn_Account (vs ! (Suc s mod 3))), (2, tn_Account (vs ! (Suc (Suc s) mod 3)))]"
    using assms by simp
  then show ?thesis by (simp only: numeral_3_eq_3)
qed

lemma demo_leaders:
  "lc_SetValidators demo_chain 43 newLeaderCalculator 2 (Some (tg_NodeList demo_graph)) =
    (\<lparr>lc_preLeader = 2, lc_leaderList = [(0, 3), (1, 1), (2, 2)], lc_validators = tg_NodeList demo_graph\<rparr>, None)"
  "lc_SetValidators demo_chain (43 + 1) newLeaderCalculator 1 (Some (tg_NodeList demo_graph)) =
    (\<lparr>lc_preLeader = 1, lc_leaderList = [(0, 2), (1, 3), (2, 1)], lc_validators = tg_NodeList demo_graph\<rparr>, None)"
  by (simp_all add: lc_SetValidators_def calLeaderList_def demo_graph_def schedule_defs
      leader_list_three flip: numeral_2_eq_2 numeral_3_eq_3)

lemma demo_validators:
  "length (tg_NodeList demo_graph) = 3" "distinct (map tn_Account (tg_NodeList demo_graph))"
  "\<not> IsBroadcastNumber 43" "\<not> IsBroadcastNumber (43 + 1)"
  by (simp_all add: demo_graph_def schedule_defs)

theorem leader_rotation_fair_witness:
  "\<exists>!k. k < 3 \<and> (\<exists>d. lc_GetLeader 9 43
     \<lparr>lc_preLeader = 2, lc_leaderList = [(0, 3), (1, 1), (2, 2)], lc_validators = tg_NodeList demo_graph\<rparr>
     (7 + of_nat k) = Inr d \<and> ld_leader d = 1)"
proof -
  have v: "tg_NodeList demo_graph ! 0 \<in> set (tg_NodeList demo_graph)"
    "tn_Account (tg_NodeList demo_graph ! 0) = 1" by (simp_all add: demo_graph_def)
  have "length (tg_NodeList demo_graph) < 2 ^ 32" "unat (7 :: u32) + length (tg_NodeList demo_graph) \<le> 2 ^ 32"
    by (simp_all add: demo_validators)
  from leader_rotation_fair [OF demo_leaders(1) this(1) demo_validators(3,2) this(2) v(1), of 9]
  show ?thesis by (simp add: demo_validators v(2))
qed

text \<open>At the re-election height 60 the announced leader is not the one of height 61.\<close>

lemma demo_reelection:
  "lc_SetValidators demo_chain 60 newLeaderCalculator 2 (Some (tg_NodeList demo_graph)) =
    (\<lparr>lc_preLeader = 2, lc_leaderList = [(0, 1), (1, 2), (2, 3)], lc_validators = tg_NodeList demo_graph\<rparr>, None)"
  "lc_SetValidators demo_chain (60 + 1) newLeaderCalculator 9 (Some (tg_NodeList demo_graph)) =
    (\<lparr>lc_preLeader = 2, lc_leaderList = [(0, 3), (1, 1), (2, 2)], lc_validators = tg_NodeList demo_graph\<rparr>, None)"
  by (simp_all add: lc_SetValidators_def calLeaderList_def demo_graph_def demo_chain_def schedule_defs
      leader_list_three flip: numeral_2_eq_2 numeral_3_eq_3)

theorem next_leader_agrees_witness:
  "\<exists>d d2. lc_GetLeader 9 60 \<lparr>lc_preLeader = 2, lc_leaderList = [(0, 1), (1, 2), (2, 3)],
       lc_validators = tg_NodeList demo_graph\<rparr> 0 = Inr d \<and> ld_leader d = 9 \<and>
    lc_GetLeader 9 (60 + 1) \<lparr>lc_preLeader = 2, lc_leaderList = [(0, 3), (1, 1), (2, 2)],
       lc_validators = tg_NodeList demo_graph\<rparr> 0 = Inr d2 \<and> ld_leader d2 \<noteq> ld_nextLeader d"
proof -
  have d: "lc_GetLeader 9 60 \<lparr>lc_preLeader = 2, lc_leaderList = [(0, 1), (1, 2), (2, 3)],
      lc_validators = tg_NodeList demo_graph\<rparr> 0 = Inr \<lparr>ld_leader = 9, ld_nextLeader = 1\<rparr>"
    by (simp add: lc_GetLeader_def leader_at_def schedule_defs)
  have h: "\<exists>pb. ch_GetHeaderByNumber demo_chain (60 - 1) = Some pb \<and> h_Leader pb = 2" "(60 :: u64) \<noteq> 0"
    "length (tg_NodeList demo_graph) < 2 ^ 32" "(0 :: u32) + 1 \<noteq> 0"
    by (simp_all add: demo_chain_def demo_validators)
  have "unat (0 :: u32) mod length (tg_NodeList demo_graph) \<noteq> (i + 1) mod length (tg_NodeList demo_graph)"
    if "i < length (tg_NodeList demo_graph)" "tn_Account (tg_NodeList demo_graph ! i) = 2" for i
  proof -
    have "i = 0 \<or> i = 1 \<or> i = 2" using that(1) demo_validators(1) by auto
    then have "i = 1" using that(2) by (auto simp: demo_graph_def)
    then show ?thesis by (simp add: demo_validators(1))
  qed
  moreover have "IsBroadcastNumber 60" "IsReElectionNumber 60" by (simp_all add: schedule_defs)
  moreover obtain d2 where "lc_GetLeader 9 (60 + 1) \<lparr>lc_preLeader = 2, lc_leaderList = [(0, 3), (1, 1), (2, 2)],
      lc_validators = tg_NodeList demo_graph\<rparr> 0 = Inr d2 \<and>
    (ld_leader d2 = ld_nextLeader \<lparr>ld_leader = 9, ld_nextLeader = 1\<rparr> \<longleftrightarrow>
      (if \<not> IsBroadcastNumber 60 then True
       else if \<not> IsReElectionNumber 60 then unat (0 :: u32) mod length (tg_NodeList demo_graph) = 0
       else \<exists>i<length (tg_NodeList demo_graph). tn_Account (tg_NodeList demo_graph ! i) = 2 \<and>
         unat (0 :: u32) mod length (tg_NodeList demo_graph) = (i + 1) mod length (tg_NodeList demo_graph)))"
    using next_leader_agrees [OF demo_reelection(1) d _ h(1-3) demo_validators(2) h(4)] demo_reelection(2) by auto
  ultimately have "ld_leader d2 \<noteq> ld_nextLeader \<lparr>ld_leader = 9, ld_nextLeader = 1\<rparr>"
    "lc_GetLeader 9 (60 + 1) \<lparr>lc_preLeader = 2, lc_leaderList = [(0, 3), (1, 1), (2, 2)],
      lc_validators = tg_NodeList demo_graph\<rparr> 0 = Inr d2" by metis+
  then show ?thesis using d by (intro exI [of _ "\<lparr>ld_leader = 9, ld_nextLeader = 1\<rparr>"] exI [of _ d2]) simp
qed

theorem cdc_leaders_current_witness:
  "\<exists>dc. dc_SetValidators 9 demo_chain (newCDC 43) 2 (Some (tg_NodeList demo_graph)) = (dc, None) \<and>
    cdc_ok 9 (fst (SetReelectTurn 9 dc 2))"
proof -
  obtain dc where dc: "dc_SetValidators 9 demo_chain (newCDC 43) 2 (Some (tg_NodeList demo_graph)) = (dc, None)"
    using demo_leaders(1)
    by (simp add: dc_SetValidators_def newCDC_def dc_GetLeader_def lc_GetLeader_def schedule_defs)
  then show ?thesis using cdc_leaders_current by blast
qed

end
