(* ===== verification/Reelect_Msgs.thy ===== *)
theory Reelect_Msgs
  imports Leader_Cdc
begin

text \<open>
  The messages of a leader re-election (\<open>mc/msgdef.go\<close>), their RLP images, and the signing of a hash
  by \<open>accounts/signhelper\<close>.

  A pointer field that the code tests against nil, or could find nil, is an option. The wallet of the
  account manager and the test key are functions from a hash to a signature; the outer option of a
  signing result is the panic of \<open>crypto.SignWithValidate\<close>.
\<close>

section \<open>accounts/signhelper\<close>

record SignHelper =
  sh_testMode :: bool
  sh_testKey :: "hash \<Rightarrow> signature option"
  sh_signWallet :: "(hash \<Rightarrow> bool \<Rightarrow> signature option option) option"

definition SignHashWithValidate :: "SignHelper \<Rightarrow> hash \<Rightarrow> bool \<Rightarrow> signature option option" where
  "SignHashWithValidate sh h validate =
    (if sh_testMode sh then SignWithValidate (\<lambda>m sk. sk m) h validate (sh_testKey sh)
     else case sh_signWallet sh of
            None \<Rightarrow> Some None
          | Some wallet \<Rightarrow> wallet h validate)"

section \<open>mc/msgdef.go\<close>

record RoleUpdatedMsg =
  ru_Role :: role_type
  ru_BlockNum :: u64
  ru_BlockHash :: hash
  ru_Leader :: address

record HD_BlkConsensusReqMsg =
  bcr_From :: address
  bcr_Header :: "Header option"
  bcr_ConsensusTurn :: u32
  bcr_TxsCode :: "u32 list"

record BlockPOSFinishedNotify =
  pfn_Number :: u64
  pfn_Header :: "Header option"
  pfn_ConsensusTurn :: u32
  pfn_TxsCode :: "u32 list"

record HD_ConsensusVote =
  cv_SignHash :: hash
  cv_Round :: u64
  cv_Sign :: signature
  cv_From :: address

record HD_ReelectInquiryReqMsg =
  iq_Number :: u64
  iq_ConsensusTurn :: u32
  iq_ReelectTurn :: u32
  iq_TimeStamp :: int
  iq_Master :: address
  iq_From :: address

datatype ReelectRSPType =
    ReelectRSPTypeNone
  | ReelectRSPTypePOS
  | ReelectRSPTypeAlreadyRL
  | ReelectRSPTypeAgree
  | ReelectRSPTypeNewBlockReady
  | ReelectRSPTypeOther u8

record HD_ReelectLeaderReqMsg =
  lq_InquiryReq :: "HD_ReelectInquiryReqMsg option"
  lq_AgreeSigns :: "signature list"
  lq_TimeStamp :: int

record HD_ReelectLeaderConsensus =
  lk_Req :: "HD_ReelectLeaderReqMsg option"
  lk_Votes :: "signature list"
  lk_TimeStamp :: int

record HD_ReelectInquiryRspMsg =
  ir_Number :: u64
  ir_ReqHash :: hash
  ir_Type :: ReelectRSPType
  ir_AgreeSign :: signature
  ir_POSResult :: "HD_BlkConsensusReqMsg option"
  ir_RLResult :: "HD_ReelectLeaderConsensus option"
  ir_NewBlock :: "Header option"
  ir_From :: address

record HD_ReelectLeaderVoteMsg =
  lv_Vote :: HD_ConsensusVote
  lv_Number :: u64

record HD_ReelectResultBroadcastMsg =
  rb_Number :: u64
  rb_Type :: ReelectRSPType
  rb_POSResult :: "HD_BlkConsensusReqMsg option"
  rb_RLResult :: "HD_ReelectLeaderConsensus option"
  rb_TimeStamp :: int
  rb_From :: address

record HD_ReelectResultRspMsg =
  rr_Number :: u64
  rr_ResultHash :: hash
  rr_Sign :: signature
  rr_From :: address

datatype RecoveryType = RecoveryTypePOS | RecoveryTypeFullHeader

record RecoveryStateMsg =
  rs_Type :: RecoveryType
  rs_Header :: Header
  rs_From :: address

section \<open>RLP images\<close>

text \<open>A nil pointer to a struct is encoded as the empty list.\<close>

definition rlp_ptr :: "('a \<Rightarrow> rlp_val) \<Rightarrow> 'a option \<Rightarrow> rlp_val" where
  "rlp_ptr f p = (case p of None \<Rightarrow> VList [] | Some x \<Rightarrow> f x)"

definition rsp_type_code :: "ReelectRSPType \<Rightarrow> nat" where
  "rsp_type_code t = (case t of ReelectRSPTypeNone \<Rightarrow> 0 | ReelectRSPTypePOS \<Rightarrow> 1
    | ReelectRSPTypeAlreadyRL \<Rightarrow> 2 | ReelectRSPTypeAgree \<Rightarrow> 3 | ReelectRSPTypeNewBlockReady \<Rightarrow> 4
    | ReelectRSPTypeOther v \<Rightarrow> unat v)"

definition rlp_InquiryReq :: "HD_ReelectInquiryReqMsg \<Rightarrow> rlp_val" where
  "rlp_InquiryReq m = VList [VUint (unat (iq_Number m)), VUint (unat (iq_ConsensusTurn m)),
     VUint (unat (iq_ReelectTurn m)), VInt (iq_TimeStamp m), VAddr (iq_Master m), VAddr (iq_From m)]"

definition rlp_LeaderReq :: "HD_ReelectLeaderReqMsg \<Rightarrow> rlp_val" where
  "rlp_LeaderReq m = VList [rlp_ptr rlp_InquiryReq (lq_InquiryReq m),
     VList (map VSig (lq_AgreeSigns m)), VInt (lq_TimeStamp m)]"

definition rlp_LeaderConsensus :: "HD_ReelectLeaderConsensus \<Rightarrow> rlp_val" where
  "rlp_LeaderConsensus m = VList [rlp_ptr rlp_LeaderReq (lk_Req m), VList (map VSig (lk_Votes m)),
     VInt (lk_TimeStamp m)]"

definition rlp_BlkConsensusReq :: "HD_BlkConsensusReqMsg \<Rightarrow> rlp_val" where
  "rlp_BlkConsensusReq m = VList [VAddr (bcr_From m), rlp_ptr rlp_Header (bcr_Header m),
     VUint (unat (bcr_ConsensusTurn m)), VList (map (\<lambda>c. VUint (unat c)) (bcr_TxsCode m))]"

definition rlp_ResultBroadcast :: "HD_ReelectResultBroadcastMsg \<Rightarrow> rlp_val" where
  "rlp_ResultBroadcast m = VList [VUint (unat (rb_Number m)), VUint (rsp_type_code (rb_Type m)),
     rlp_ptr rlp_BlkConsensusReq (rb_POSResult m), rlp_ptr rlp_LeaderConsensus (rb_RLResult m),
     VInt (rb_TimeStamp m), VAddr (rb_From m)]"

text \<open>The hashes the controllers sign for an inquiry, a re-election request and a result.\<close>

definition InquiryHash :: "(rlp_val \<Rightarrow> hash) \<Rightarrow> HD_ReelectInquiryReqMsg \<Rightarrow> hash" where
  "InquiryHash rlpHash m = RlpHash rlpHash (rlp_InquiryReq m)"

definition LeaderReqHash :: "(rlp_val \<Rightarrow> hash) \<Rightarrow> HD_ReelectLeaderReqMsg \<Rightarrow> hash" where
  "LeaderReqHash rlpHash m = RlpHash rlpHash (rlp_LeaderReq m)"

definition ResultHash :: "(rlp_val \<Rightarrow> hash) \<Rightarrow> HD_ReelectResultBroadcastMsg \<Rightarrow> hash" where
  "ResultHash rlpHash m = RlpHash rlpHash (rlp_ResultBroadcast m)"

section \<open>What the hashes bind\<close>

lemma reelect_hashes:
  "InquiryHash rlpHash m = emptyKeccak"
  "LeaderReqHash rlpHash r = emptyKeccak"
  "ResultHash rlpHash b = emptyKeccak"
  by (simp_all add: InquiryHash_def LeaderReqHash_def ResultHash_def RlpHash_def rlp_InquiryReq_def
      rlp_LeaderReq_def rlp_ResultBroadcast_def)

lemma reelect_hash_not_zero [simp]:
  "InquiryHash rlpHash m \<noteq> 0" "LeaderReqHash rlpHash r \<noteq> 0" "ResultHash rlpHash b \<noteq> 0"
  by (simp_all add: reelect_hashes emptyKeccak_def)

lemma emptyKeccak_no_panic: "VerifySignWithValidate ec emptyKeccak sign \<noteq> SignPanic"
  by (simp add: verify_panic_iff emptyKeccak_def)

end
