(* ===== verification/Msg_Pool.thy ===== *)
theory Msg_Pool
  imports Reelect_Msgs
begin

text \<open>
  The messages a controller keeps, \<open>verifier/msgPool.go\<close>. The clock is the argument \<open>now\<close>, in Unix
  seconds. Looking into a nil header, request or inquiry makes the code panic, which is \<^const>\<open>None\<close>.
\<close>

section \<open>verifier/msgPool.go\<close>

record msgPool =
  mp_parentHeader :: "Header option"
  mp_posNotifyCache :: "BlockPOSFinishedNotify list"
  mp_inquiryReqCache :: "(address, HD_ReelectInquiryReqMsg) gomap"
  mp_rlConsensusCache :: "(u32, HD_ReelectLeaderConsensus) gomap"

definition newMsgPool :: msgPool where
  "newMsgPool = \<lparr>mp_parentHeader = None, mp_posNotifyCache = [], mp_inquiryReqCache = [],
    mp_rlConsensusCache = []\<rparr>"

text \<open>The leader of a notified header; the header of a cached message is not nil.\<close>

definition pos_leader :: "BlockPOSFinishedNotify \<Rightarrow> address option" where
  "pos_leader msg = map_option h_Leader (pfn_Header msg)"

fun pos_cached :: "BlockPOSFinishedNotify \<Rightarrow> BlockPOSFinishedNotify list \<Rightarrow> bool" where
  "pos_cached msg [] = False"
| "pos_cached msg (oldMsg # rest) =
    (if pfn_ConsensusTurn oldMsg = pfn_ConsensusTurn msg \<and> pos_leader oldMsg = pos_leader msg then True
     else pos_cached msg rest)"

definition SavePOSNotifyMsg ::
  "msgPool \<Rightarrow> BlockPOSFinishedNotify option \<Rightarrow> (msgPool \<times> lr_error option) option" where
  "SavePOSNotifyMsg mp msg =
    (case msg of
       None \<Rightarrow> Some (mp, Some ErrMsgIsNil)
     | Some m \<Rightarrow>
         (case pfn_Header m of
            None \<Rightarrow> None
          | Some header \<Rightarrow>
              if h_Leader header = 0 then Some (mp, Some ErrMsgIsNil)
              else if pos_cached m (mp_posNotifyCache mp) then Some (mp, Some ErrMsgExistInCache)
              else Some (mp\<lparr>mp_posNotifyCache := mp_posNotifyCache mp @ [m]\<rparr>, None)))"

text \<open>The loop compares each message with itself, as the source does.\<close>

fun pos_lookup :: "address \<Rightarrow> u32 \<Rightarrow> BlockPOSFinishedNotify list \<Rightarrow> lr_error + BlockPOSFinishedNotify" where
  "pos_lookup leader consensusTurn [] = Inl ErrNoMsgInCache"
| "pos_lookup leader consensusTurn (msg # rest) =
    (if pfn_ConsensusTurn msg = pfn_ConsensusTurn msg \<and> pos_leader msg = pos_leader msg then Inr msg
     else pos_lookup leader consensusTurn rest)"

definition GetPOSNotifyMsg :: "msgPool \<Rightarrow> address \<Rightarrow> u32 \<Rightarrow> lr_error + BlockPOSFinishedNotify" where
  "GetPOSNotifyMsg mp leader consensusTurn = pos_lookup leader consensusTurn (mp_posNotifyCache mp)"

definition SaveInquiryReqMsg :: "msgPool \<Rightarrow> HD_ReelectInquiryReqMsg option \<Rightarrow> msgPool" where
  "SaveInquiryReqMsg mp msg =
    (case msg of
       None \<Rightarrow> mp
     | Some m \<Rightarrow>
         if iq_From m = 0 then mp
         else (case map_of (mp_inquiryReqCache mp) (iq_From m) of
                 Some old \<Rightarrow>
                   if iq_TimeStamp old > iq_TimeStamp m then mp
                   else mp\<lparr>mp_inquiryReqCache := map_put (iq_From m) m (mp_inquiryReqCache mp)\<rparr>
               | None \<Rightarrow> mp\<lparr>mp_inquiryReqCache := map_put (iq_From m) m (mp_inquiryReqCache mp)\<rparr>))"

definition GetInquiryReqMsg ::
  "int \<Rightarrow> msgPool \<Rightarrow> address \<Rightarrow> msgPool \<times> (lr_error + HD_ReelectInquiryReqMsg)" where
  "GetInquiryReqMsg now mp leader =
    (case map_of (mp_inquiryReqCache mp) leader of
       None \<Rightarrow> (mp, Inl ErrNoMsgInCache)
     | Some msg \<Rightarrow>
         (let passTime = i64 (now - iq_TimeStamp msg)
          in if passTime > LRSReelectInterval
             then (mp\<lparr>mp_inquiryReqCache := map_del leader (mp_inquiryReqCache mp)\<rparr>, Inl (ErrMsgExpired passTime))
             else (mp, Inr msg)))"

definition SaveRLConsensusMsg :: "msgPool \<Rightarrow> HD_ReelectLeaderConsensus option \<Rightarrow> msgPool option" where
  "SaveRLConsensusMsg mp msg =
    (case msg of
       None \<Rightarrow> Some mp
     | Some m \<Rightarrow>
         (case Option.bind (lk_Req m) lq_InquiryReq of
            None \<Rightarrow> None
          | Some inquiry \<Rightarrow>
              if iq_Master inquiry = 0 then Some mp
              else Some (mp\<lparr>mp_rlConsensusCache :=
                map_put (iq_ConsensusTurn inquiry + iq_ReelectTurn inquiry) m (mp_rlConsensusCache mp)\<rparr>)))"

definition GetRLConsensusMsg :: "msgPool \<Rightarrow> u32 \<Rightarrow> lr_error + HD_ReelectLeaderConsensus" where
  "GetRLConsensusMsg mp consensusTurn =
    (case map_of (mp_rlConsensusCache mp) consensusTurn of
       None \<Rightarrow> Inl ErrNoMsgInCache
     | Some msg \<Rightarrow> Inr msg)"

definition SaveParentHeader :: "msgPool \<Rightarrow> Header option \<Rightarrow> msgPool" where
  "SaveParentHeader mp header =
    (case header of None \<Rightarrow> mp | Some h \<Rightarrow> mp\<lparr>mp_parentHeader := Some h\<rparr>)"

definition GetParentHeader :: "msgPool \<Rightarrow> Header option" where
  "GetParentHeader mp = mp_parentHeader mp"

section \<open>The pool's invariant\<close>

definition pos_key :: "BlockPOSFinishedNotify \<Rightarrow> u32 \<times> address option" where
  "pos_key m = (pfn_ConsensusTurn m, pos_leader m)"

text \<open>At most one notification per turn and leader, each with a header led by somebody; an inquiry is
  cached under its sender; a re-election result under the turn it leads to.\<close>

definition msgpool_ok :: "msgPool \<Rightarrow> bool" where
  "msgpool_ok mp \<longleftrightarrow>
    distinct (map pos_key (mp_posNotifyCache mp)) \<and>
    (\<forall>m \<in> set (mp_posNotifyCache mp). \<exists>h. pfn_Header m = Some h \<and> h_Leader h \<noteq> 0) \<and>
    gomap_ok (mp_inquiryReqCache mp) \<and>
    (\<forall>(a, m) \<in> set (mp_inquiryReqCache mp). iq_From m = a \<and> a \<noteq> 0) \<and>
    gomap_ok (mp_rlConsensusCache mp) \<and>
    (\<forall>(t, m) \<in> set (mp_rlConsensusCache mp). \<exists>r i. lk_Req m = Some r \<and> lq_InquiryReq r = Some i \<and>
       t = iq_ConsensusTurn i + iq_ReelectTurn i \<and> iq_Master i \<noteq> 0)"

lemma pos_cached_iff: "pos_cached m ms \<longleftrightarrow> pos_key m \<in> pos_key ` set ms"
  by (induction ms) (auto simp: pos_key_def image_iff)

lemma pos_lookup_eq: "pos_lookup leader t ms = (case ms of [] \<Rightarrow> Inl ErrNoMsgInCache | m # _ \<Rightarrow> Inr m)"
  by (cases ms) simp_all

lemma SavePOSNotifyMsg_ok:
  assumes "msgpool_ok mp" "SavePOSNotifyMsg mp msg = Some (mp', err)"
  shows "msgpool_ok mp'"
  using assms
  by (auto simp: SavePOSNotifyMsg_def msgpool_ok_def pos_cached_iff split: option.splits if_splits)

lemma SaveInquiryReqMsg_ok: "msgpool_ok mp \<Longrightarrow> msgpool_ok (SaveInquiryReqMsg mp msg)"
  by (auto simp: SaveInquiryReqMsg_def msgpool_ok_def dest!: map_put_entries split: option.splits)

lemma GetInquiryReqMsg_ok: "msgpool_ok mp \<Longrightarrow> msgpool_ok (fst (GetInquiryReqMsg now mp a))"
  by (auto simp: GetInquiryReqMsg_def msgpool_ok_def Let_def map_del_entries split: option.splits)

lemma SaveRLConsensusMsg_ok:
  "msgpool_ok mp \<Longrightarrow> SaveRLConsensusMsg mp msg = Some mp' \<Longrightarrow> msgpool_ok mp'"
  by (fastforce simp: SaveRLConsensusMsg_def msgpool_ok_def bind_eq_Some_conv dest!: map_put_entries
      split: option.splits if_splits)

lemma SaveParentHeader_ok: "msgpool_ok mp \<Longrightarrow> msgpool_ok (SaveParentHeader mp h)"
  by (simp add: SaveParentHeader_def msgpool_ok_def split: option.splits)

lemmas msgpool_ok_ops = SavePOSNotifyMsg_ok SaveInquiryReqMsg_ok GetInquiryReqMsg_ok
  SaveRLConsensusMsg_ok SaveParentHeader_ok

lemma newMsgPool_ok: "msgpool_ok newMsgPool"
  by (simp add: newMsgPool_def msgpool_ok_def)

section \<open>Properties\<close>

definition latest_inquiries ::
  "HD_ReelectInquiryReqMsg list \<Rightarrow> (address, HD_ReelectInquiryReqMsg) gomap \<Rightarrow> bool" where
  "latest_inquiries ms cache \<longleftrightarrow>
    (\<forall>a. case map_of cache a of
       None \<Rightarrow> a = 0 \<or> (\<forall>m \<in> set ms. iq_From m \<noteq> a)
     | Some m \<Rightarrow> a \<noteq> 0 \<and> m \<in> set ms \<and> iq_From m = a \<and>
         (\<forall>m' \<in> set ms. iq_From m' = a \<longrightarrow> iq_TimeStamp m' \<le> iq_TimeStamp m))"

lemma latest_inquiries_skip:
  assumes "latest_inquiries ms cache"
    and "iq_From m = 0 \<or> (\<exists>old. map_of cache (iq_From m) = Some old \<and> iq_TimeStamp m \<le> iq_TimeStamp old)"
  shows "latest_inquiries (ms @ [m]) cache"
  unfolding latest_inquiries_def
proof
  fix a
  have "case map_of cache a of
       None \<Rightarrow> a = 0 \<or> (\<forall>m \<in> set ms. iq_From m \<noteq> a)
     | Some m \<Rightarrow> a \<noteq> 0 \<and> m \<in> set ms \<and> iq_From m = a \<and>
         (\<forall>m' \<in> set ms. iq_From m' = a \<longrightarrow> iq_TimeStamp m' \<le> iq_TimeStamp m)"
    using assms(1) by (simp add: latest_inquiries_def)
  then show "case map_of cache a of
       None \<Rightarrow> a = 0 \<or> (\<forall>m \<in> set (ms @ [m]). iq_From m \<noteq> a)
     | Some ma \<Rightarrow> a \<noteq> 0 \<and> ma \<in> set (ms @ [m]) \<and> iq_From ma = a \<and>
         (\<forall>m' \<in> set (ms @ [m]). iq_From m' = a \<longrightarrow> iq_TimeStamp m' \<le> iq_TimeStamp ma)"
    using assms(2) by (auto split: option.splits)
qed

lemma latest_inquiries_put:
  assumes "latest_inquiries ms cache" "iq_From m \<noteq> 0"
    and "\<And>old. map_of cache (iq_From m) = Some old \<Longrightarrow> iq_TimeStamp old \<le> iq_TimeStamp m"
  shows "latest_inquiries (ms @ [m]) (map_put (iq_From m) m cache)"
  unfolding latest_inquiries_def
proof
  fix a
  have "case map_of cache a of
       None \<Rightarrow> a = 0 \<or> (\<forall>m \<in> set ms. iq_From m \<noteq> a)
     | Some m \<Rightarrow> a \<noteq> 0 \<and> m \<in> set ms \<and> iq_From m = a \<and>
         (\<forall>m' \<in> set ms. iq_From m' = a \<longrightarrow> iq_TimeStamp m' \<le> iq_TimeStamp m)"
    using assms(1) by (simp add: latest_inquiries_def)
  then show "case map_of (map_put (iq_From m) m cache) a of
       None \<Rightarrow> a = 0 \<or> (\<forall>m \<in> set (ms @ [m]). iq_From m \<noteq> a)
     | Some ma \<Rightarrow> a \<noteq> 0 \<and> ma \<in> set (ms @ [m]) \<and> iq_From ma = a \<and>
         (\<forall>m' \<in> set (ms @ [m]). iq_From m' = a \<longrightarrow> iq_TimeStamp m' \<le> iq_TimeStamp ma)"
    using assms(2,3) by (cases "a = iq_From m") (fastforce split: option.splits)+
qed

text \<open>The pool keeps, for each sender, the inquiry with the latest time stamp among those saved:
  after any sequence of saves the entry of a sender is a message of that sender, no saved message of the
  sender is newer, every sender but the zero account has an entry, and the pool's invariant holds.\<close>

theorem inquiry_cache_latest:
  "latest_inquiries ms (mp_inquiryReqCache (fold (\<lambda>m p. SaveInquiryReqMsg p (Some m)) ms newMsgPool)) \<and>
   msgpool_ok (fold (\<lambda>m p. SaveInquiryReqMsg p (Some m)) ms newMsgPool)"
proof (induction ms rule: rev_induct)
  case Nil
  show ?case using newMsgPool_ok by (simp add: latest_inquiries_def newMsgPool_def)
next
  case (snoc m ms)
  let ?p = "fold (\<lambda>m p. SaveInquiryReqMsg p (Some m)) ms newMsgPool"
  have "latest_inquiries (ms @ [m]) (mp_inquiryReqCache (SaveInquiryReqMsg ?p (Some m)))"
    using snoc latest_inquiries_skip [of ms "mp_inquiryReqCache ?p" m]
      latest_inquiries_put [of ms "mp_inquiryReqCache ?p" m]
    by (auto simp: SaveInquiryReqMsg_def split: option.splits)
  then show ?case using snoc SaveInquiryReqMsg_ok by simp
qed

text \<open>\<open>GetPOSNotifyMsg\<close> compares each cached notification with itself, so it returns the first one
  that was saved, whatever leader and turn are asked for: a notification of one turn answers for every
  other turn.\<close>

theorem pos_notify_ignores_key:
  assumes "SavePOSNotifyMsg newMsgPool (Some m) = Some (mp, None)"
    and "SavePOSNotifyMsg mp msg = Some (mp', err)"
  shows "GetPOSNotifyMsg mp' leader turn = Inr m"
proof -
  have "mp_posNotifyCache mp = [m]"
    using assms(1) by (auto simp: SavePOSNotifyMsg_def newMsgPool_def split: option.splits if_splits)
  then have "\<exists>rest. mp_posNotifyCache mp' = m # rest"
    using assms(2) by (auto simp: SavePOSNotifyMsg_def split: option.splits if_splits)
  then show ?thesis by (auto simp: GetPOSNotifyMsg_def)
qed

section \<open>Witnesses\<close>

definition demo_pos :: "address \<Rightarrow> u32 \<Rightarrow> BlockPOSFinishedNotify" where
  "demo_pos leader turn = \<lparr>pfn_Number = 43, pfn_Header = Some (zero_header\<lparr>h_Leader := leader\<rparr>),
    pfn_ConsensusTurn = turn, pfn_TxsCode = []\<rparr>"

definition demo_inquiry :: "u32 \<Rightarrow> u32 \<Rightarrow> int \<Rightarrow> address \<Rightarrow> HD_ReelectInquiryReqMsg" where
  "demo_inquiry ct rt time a = \<lparr>iq_Number = 43, iq_ConsensusTurn = ct, iq_ReelectTurn = rt,
    iq_TimeStamp = time, iq_Master = a, iq_From = a\<rparr>"

theorem pos_notify_ignores_key_witness:
  "\<exists>mp. SavePOSNotifyMsg newMsgPool (Some (demo_pos 3 0)) = Some (mp, None) \<and>
    GetPOSNotifyMsg mp 1 1 = Inr (demo_pos 3 0)"
proof -
  obtain mp where mp: "SavePOSNotifyMsg newMsgPool (Some (demo_pos 3 0)) = Some (mp, None)"
    by (simp add: SavePOSNotifyMsg_def demo_pos_def newMsgPool_def)
  have "SavePOSNotifyMsg mp None = Some (mp, Some ErrMsgIsNil)" by (simp add: SavePOSNotifyMsg_def)
  from mp pos_notify_ignores_key [OF mp this] show ?thesis by blast
qed

end
