(* ===== verification/Master_Cache.thy ===== *)
theory Master_Cache
  imports Msg_Pool
begin

text \<open>
  What the master of a re-election collects, \<open>verifier/masterCache.go\<close>: the inquiry it sent, the
  agreeing signatures, the re-election request with its votes, and the result with its responses.

  A signature cache may be the nil map (\<^const>\<open>None\<close>), which can be read but not written; a write to
  it and a dereference of nil are panics, and a function that may panic returns \<^const>\<open>None\<close> then. The
  request \<open>rlReqMsg\<close> is an object shared with the result message: \<open>GetRLReqMsg\<close> sets its time stamp in
  place. The flag \<open>mc_reqShared\<close> says that the result message points to the current request. The clock
  and the own account (\<open>ca.GetAddress\<close>) are arguments.
\<close>

section \<open>verifier/masterCache.go\<close>

record masterCache =
  mc_number :: u64
  mc_inquiryResult :: ReelectRSPType
  mc_inquiryHash :: hash
  mc_inquiryMsg :: "HD_ReelectInquiryReqMsg option"
  mc_inquiryAgreeSignCache :: "verified_signs option"
  mc_rlReqMsg :: "HD_ReelectLeaderReqMsg option"
  mc_rlReqHash :: hash
  mc_rlVoteCache :: "verified_signs option"
  mc_resultBroadcastHash :: hash
  mc_resultBroadcastMsg :: "HD_ReelectResultBroadcastMsg option"
  mc_resultRspCache :: "verified_signs option"
  mc_reqShared :: bool

definition newMasterCache :: "u64 \<Rightarrow> masterCache" where
  "newMasterCache number =
    \<lparr>mc_number = number, mc_inquiryResult = ReelectRSPTypeNone, mc_inquiryHash = 0, mc_inquiryMsg = None,
     mc_inquiryAgreeSignCache = None, mc_rlReqMsg = None, mc_rlReqHash = 0, mc_rlVoteCache = None,
     mc_resultBroadcastHash = 0, mc_resultBroadcastMsg = None, mc_resultRspCache = None,
     mc_reqShared = False\<rparr>"

definition SetInquiryReq ::
  "(rlp_val \<Rightarrow> hash) \<Rightarrow> masterCache \<Rightarrow> HD_ReelectInquiryReqMsg option \<Rightarrow> masterCache \<times> hash" where
  "SetInquiryReq rlpHash self req =
    (case req of
       None \<Rightarrow> (self, 0)
     | Some m \<Rightarrow>
         (let h = InquiryHash rlpHash m
          in (self\<lparr>mc_inquiryResult := ReelectRSPTypeNone, mc_inquiryMsg := Some m, mc_inquiryHash := h,
                mc_inquiryAgreeSignCache := Some [], mc_rlReqMsg := None, mc_rlReqHash := 0,
                mc_rlVoteCache := Some [], mc_resultBroadcastHash := 0, mc_resultBroadcastMsg := None,
                mc_resultRspCache := Some [], mc_reqShared := False\<rparr>, h)))"

definition ClearSelfInquiryMsg :: "masterCache \<Rightarrow> masterCache" where
  "ClearSelfInquiryMsg self =
    self\<lparr>mc_inquiryResult := ReelectRSPTypeNone, mc_inquiryMsg := None, mc_inquiryHash := 0,
      mc_inquiryAgreeSignCache := Some [], mc_rlReqMsg := None, mc_rlReqHash := 0,
      mc_rlVoteCache := Some [], mc_resultBroadcastHash := 0, mc_resultBroadcastMsg := None,
      mc_resultRspCache := Some [], mc_reqShared := False\<rparr>"

definition CheckInquiryRspMsg :: "masterCache \<Rightarrow> HD_ReelectInquiryRspMsg option \<Rightarrow> lr_error option" where
  "CheckInquiryRspMsg self rsp =
    (case rsp of
       None \<Rightarrow> Some ErrMsgIsNil
     | Some r \<Rightarrow>
         if mc_inquiryHash self = 0 then Some ErrSelfReqIsNil
         else if ir_ReqHash r \<noteq> mc_inquiryHash self then Some (ErrHashMismatch (ir_ReqHash r) (mc_inquiryHash self))
         else None)"

text \<open>The part the three collecting functions share: no second signature of a sender, a signature that
  verifies, by the sender, and agreeing.\<close>

definition save_sign ::
  "crypto_env \<Rightarrow> verified_signs option \<Rightarrow> hash \<Rightarrow> signature \<Rightarrow> address \<Rightarrow>
   (lr_error + verified_signs option) option" where
  "save_sign ec cache h sign from =
    (if (case cache of None \<Rightarrow> False | Some m \<Rightarrow> map_has m from) then Some (Inl (ErrSignExist from))
     else
       (case VerifySignWithValidate ec h sign of
          SignPanic \<Rightarrow> None
        | SignErr e v \<Rightarrow> Some (Inl (ErrSignParse e))
        | SignOk signAccount validate \<Rightarrow>
            if signAccount \<noteq> from then Some (Inl (ErrSignAccount signAccount from))
            else if \<not> validate then Some (Inl ErrSignDisagree)
            else (case cache of
                    None \<Rightarrow> None
                  | Some m \<Rightarrow> Some (Inr (Some (map_put signAccount
                      \<lparr>vs_Sign = sign, vs_Account = signAccount, vs_Validate = validate, vs_Stock = 0\<rparr> m))))))"

definition SaveInquiryAgreeSign ::
  "crypto_env \<Rightarrow> masterCache \<Rightarrow> hash \<Rightarrow> signature \<Rightarrow> address \<Rightarrow> (masterCache \<times> lr_error option) option" where
  "SaveInquiryAgreeSign ec self reqHash sign from =
    (case save_sign ec (mc_inquiryAgreeSignCache self) reqHash sign from of
       None \<Rightarrow> None
     | Some (Inl err) \<Rightarrow> Some (self, Some err)
     | Some (Inr cache) \<Rightarrow> Some (self\<lparr>mc_inquiryAgreeSignCache := cache\<rparr>, None))"

text \<open>The signatures of a cache in the order \<open>rng\<close> in which the runtime iterates over a map.\<close>

definition cache_signs ::
  "((address \<times> VerifiedSign) list \<Rightarrow> (address \<times> VerifiedSign) list) \<Rightarrow> verified_signs option \<Rightarrow> VerifiedSign list" where
  "cache_signs rng cache = (case cache of None \<Rightarrow> map snd (rng []) | Some m \<Rightarrow> map snd (rng m))"

definition GetInquiryAgreeSigns ::
  "((address \<times> VerifiedSign) list \<Rightarrow> (address \<times> VerifiedSign) list) \<Rightarrow> masterCache \<Rightarrow> VerifiedSign list" where
  "GetInquiryAgreeSigns rng self = cache_signs rng (mc_inquiryAgreeSignCache self)"

definition SetInquiryResultAgree :: "masterCache \<Rightarrow> signature list \<Rightarrow> masterCache \<times> lr_error option" where
  "SetInquiryResultAgree self rightSign =
    (if mc_inquiryResult self \<noteq> ReelectRSPTypeNone then (self, Some ErrInquiryResultExist)
     else (self\<lparr>mc_inquiryResult := ReelectRSPTypeAgree,
             mc_rlReqMsg := Some \<lparr>lq_InquiryReq = mc_inquiryMsg self, lq_AgreeSigns = rightSign, lq_TimeStamp = 0\<rparr>,
             mc_inquiryMsg := None, mc_inquiryHash := 0, mc_inquiryAgreeSignCache := Some [],
             mc_reqShared := False\<rparr>, None))"

definition SetInquiryResultNotAgree ::
  "address \<Rightarrow> masterCache \<Rightarrow> ReelectRSPType \<Rightarrow> HD_ReelectInquiryRspMsg \<Rightarrow> masterCache \<times> lr_error option" where
  "SetInquiryResultNotAgree selfAddr self result rsp =
    (if result \<noteq> ReelectRSPTypePOS \<and> result \<noteq> ReelectRSPTypeAlreadyRL then (self, Some ErrInquiryResultType)
     else if mc_inquiryResult self \<noteq> ReelectRSPTypeNone then (self, Some ErrInquiryResultExist)
     else (self\<lparr>mc_inquiryResult := result, mc_inquiryMsg := None, mc_inquiryHash := 0,
             mc_inquiryAgreeSignCache := Some [], mc_rlReqMsg := None,
             mc_resultBroadcastMsg := Some \<lparr>rb_Number = mc_number self, rb_Type = result,
               rb_POSResult = ir_POSResult rsp, rb_RLResult = ir_RLResult rsp, rb_TimeStamp = 0,
               rb_From = selfAddr\<rparr>,
             mc_reqShared := False\<rparr>, None))"

definition SetRLResultBroadcastSuccess ::
  "address \<Rightarrow> int \<Rightarrow> masterCache \<Rightarrow> signature list \<Rightarrow> masterCache \<times> lr_error option" where
  "SetRLResultBroadcastSuccess selfAddr now self signs =
    (if mc_inquiryResult self \<noteq> ReelectRSPTypeAgree then (self, Some ErrNotAgreeState)
     else (self\<lparr>mc_resultBroadcastMsg := Some \<lparr>rb_Number = mc_number self, rb_Type = ReelectRSPTypeAgree,
               rb_POSResult = None,
               rb_RLResult = Some \<lparr>lk_Req = mc_rlReqMsg self, lk_Votes = signs, lk_TimeStamp = now\<rparr>,
               rb_TimeStamp = 0, rb_From = selfAddr\<rparr>,
             mc_reqShared := True\<rparr>, None))"

definition InquiryResult :: "masterCache \<Rightarrow> ReelectRSPType" where
  "InquiryResult self = mc_inquiryResult self"

text \<open>The in-place update of the request, seen through the result message that shares it.\<close>

definition update_shared_req ::
  "HD_ReelectLeaderReqMsg \<Rightarrow> HD_ReelectResultBroadcastMsg \<Rightarrow> HD_ReelectResultBroadcastMsg" where
  "update_shared_req req m = m\<lparr>rb_RLResult := map_option (\<lambda>k. k\<lparr>lk_Req := Some req\<rparr>) (rb_RLResult m)\<rparr>"

definition GetRLReqMsg ::
  "(rlp_val \<Rightarrow> hash) \<Rightarrow> int \<Rightarrow> masterCache \<Rightarrow>
   (masterCache \<times> (lr_error + HD_ReelectLeaderReqMsg \<times> hash)) option" where
  "GetRLReqMsg rlpHash now self =
    (if mc_inquiryResult self \<noteq> ReelectRSPTypeAgree then Some (self, Inl ErrNotAgreeState)
     else
       (case mc_rlReqMsg self of
          None \<Rightarrow> None
        | Some m \<Rightarrow>
            (let req = m\<lparr>lq_TimeStamp := now\<rparr>; h = LeaderReqHash rlpHash req
             in Some (self\<lparr>mc_rlReqMsg := Some req,
                   mc_resultBroadcastMsg := (if mc_reqShared self
                     then map_option (update_shared_req req) (mc_resultBroadcastMsg self)
                     else mc_resultBroadcastMsg self),
                   mc_rlReqHash := h, mc_rlVoteCache := Some []\<rparr>, Inr (req, h)))))"

definition SaveRLVote ::
  "crypto_env \<Rightarrow> masterCache \<Rightarrow> hash \<Rightarrow> signature \<Rightarrow> address \<Rightarrow> (masterCache \<times> lr_error option) option" where
  "SaveRLVote ec self signHash sign from =
    (if mc_rlReqHash self = 0 then Some (self, Some ErrSelfReqIsNil)
     else if signHash \<noteq> mc_rlReqHash self then Some (self, Some (ErrHashMismatch signHash (mc_rlReqHash self)))
     else
       (case save_sign ec (mc_rlVoteCache self) signHash sign from of
          None \<Rightarrow> None
        | Some (Inl err) \<Rightarrow> Some (self, Some err)
        | Some (Inr cache) \<Rightarrow> Some (self\<lparr>mc_rlVoteCache := cache\<rparr>, None)))"

definition GetRLSigns ::
  "((address \<times> VerifiedSign) list \<Rightarrow> (address \<times> VerifiedSign) list) \<Rightarrow> masterCache \<Rightarrow> VerifiedSign list" where
  "GetRLSigns rng self = cache_signs rng (mc_rlVoteCache self)"

definition GetResultBroadcastMsg ::
  "(rlp_val \<Rightarrow> hash) \<Rightarrow> int \<Rightarrow> masterCache \<Rightarrow>
   masterCache \<times> (lr_error + HD_ReelectResultBroadcastMsg \<times> hash)" where
  "GetResultBroadcastMsg rlpHash now self =
    (case mc_resultBroadcastMsg self of
       None \<Rightarrow> (self, Inl ErrNoResultMsg)
     | Some m \<Rightarrow>
         (let msg = m\<lparr>rb_TimeStamp := now\<rparr>; h = ResultHash rlpHash msg
          in (self\<lparr>mc_resultBroadcastMsg := Some msg, mc_resultBroadcastHash := h,
                mc_resultRspCache := Some []\<rparr>, Inr (msg, h))))"

definition GetLocalResultMsg :: "masterCache \<Rightarrow> lr_error + HD_ReelectResultBroadcastMsg" where
  "GetLocalResultMsg self =
    (case mc_resultBroadcastMsg self of None \<Rightarrow> Inl ErrNoResultMsg | Some m \<Rightarrow> Inr m)"

definition SaveResultRsp ::
  "crypto_env \<Rightarrow> masterCache \<Rightarrow> hash \<Rightarrow> signature \<Rightarrow> address \<Rightarrow> (masterCache \<times> lr_error option) option" where
  "SaveResultRsp ec self resultHash sign from =
    (if mc_resultBroadcastHash self = 0 then Some (self, Some ErrBroadcastIsNil)
     else if resultHash \<noteq> mc_resultBroadcastHash self
       then Some (self, Some (ErrHashMismatch resultHash (mc_resultBroadcastHash self)))
     else
       (case save_sign ec (mc_resultRspCache self) resultHash sign from of
          None \<Rightarrow> None
        | Some (Inl err) \<Rightarrow> Some (self, Some err)
        | Some (Inr cache) \<Rightarrow> Some (self\<lparr>mc_resultRspCache := cache\<rparr>, None)))"

definition GetResultRspSigns ::
  "((address \<times> VerifiedSign) list \<Rightarrow> (address \<times> VerifiedSign) list) \<Rightarrow> masterCache \<Rightarrow> VerifiedSign list" where
  "GetResultRspSigns rng self = cache_signs rng (mc_resultRspCache self)"

section \<open>Collecting signatures\<close>

text \<open>A run of replies, each a signature with its sender; errors are logged and the next reply is
  handled.\<close>

fun collect_signs ::
  "('s \<Rightarrow> hash \<Rightarrow> signature \<Rightarrow> address \<Rightarrow> ('s \<times> lr_error option) option) \<Rightarrow> hash \<Rightarrow> 's \<Rightarrow>
   (signature \<times> address) list \<Rightarrow> 's option" where
  "collect_signs save h s [] = Some s"
| "collect_signs save h s (r # rs) =
    (case save s h (fst r) (snd r) of None \<Rightarrow> None | Some (s', err) \<Rightarrow> collect_signs save h s' rs)"

text \<open>The first valid agreeing signature of an account among the replies.\<close>

fun first_valid :: "crypto_env \<Rightarrow> hash \<Rightarrow> address \<Rightarrow> (signature \<times> address) list \<Rightarrow> signature option" where
  "first_valid ec h a [] = None"
| "first_valid ec h a (r # rs) =
    (if snd r = a \<and> VerifySignWithValidate ec h (fst r) = SignOk a True then Some (fst r)
     else first_valid ec h a rs)"

definition agree_entry :: "address \<Rightarrow> signature \<Rightarrow> VerifiedSign" where
  "agree_entry a sign = \<lparr>vs_Sign = sign, vs_Account = a, vs_Validate = True, vs_Stock = 0\<rparr>"

text \<open>A cache holds exactly the first valid agreeing signature of each sender.\<close>

definition exact_signs ::
  "crypto_env \<Rightarrow> hash \<Rightarrow> (signature \<times> address) list \<Rightarrow> verified_signs option \<Rightarrow> bool" where
  "exact_signs ec h rs cache \<longleftrightarrow> (\<exists>m. cache = Some m \<and> gomap_ok m \<and>
    (\<forall>a. map_of m a = map_option (agree_entry a) (first_valid ec h a rs)))"

definition signs_ok :: "crypto_env \<Rightarrow> hash \<Rightarrow> verified_signs \<Rightarrow> bool" where
  "signs_ok ec h m \<longleftrightarrow> gomap_ok m \<and>
    (\<forall>(a, v) \<in> set m. VerifySignWithValidate ec h (vs_Sign v) = SignOk a True \<and> v = agree_entry a (vs_Sign v))"

lemma signs_ok_Nil [simp]: "signs_ok ec h []"
  by (simp add: signs_ok_def)

lemma signs_ok_put:
  "signs_ok ec h m \<Longrightarrow> VerifySignWithValidate ec h sign = SignOk a True \<Longrightarrow>
   signs_ok ec h (map_put a (agree_entry a sign) m)"
  by (auto simp: signs_ok_def agree_entry_def dest!: map_put_entries)

lemma save_sign_cases:
  "save_sign ec (Some m) h sign from =
    (if map_has m from then Some (Inl (ErrSignExist from))
     else case VerifySignWithValidate ec h sign of
       SignPanic \<Rightarrow> None
     | SignErr e v \<Rightarrow> Some (Inl (ErrSignParse e))
     | SignOk a v \<Rightarrow>
         if a \<noteq> from then Some (Inl (ErrSignAccount a from))
         else if v then Some (Inr (Some (map_put from (agree_entry from sign) m)))
         else Some (Inl ErrSignDisagree))"
  by (auto simp: save_sign_def agree_entry_def split: sign_outcome.splits)

text \<open>What a client relies on of a collecting function: for the hash that is asked for, a signature is
  stored exactly when it is the sender's first valid agreeing one, everything else leaves the state
  alone, and the function does not panic.\<close>

locale sign_collector =
  fixes ec :: crypto_env
    and asked :: "'s \<Rightarrow> hash"
    and signs :: "'s \<Rightarrow> verified_signs option"
    and save :: "'s \<Rightarrow> hash \<Rightarrow> signature \<Rightarrow> address \<Rightarrow> ('s \<times> lr_error option) option"
  assumes stored: "asked s \<noteq> 0 \<Longrightarrow> signs s = Some m \<Longrightarrow> \<not> map_has m from \<Longrightarrow>
      VerifySignWithValidate ec (asked s) sign = SignOk from True \<Longrightarrow>
      \<exists>s'. save s (asked s) sign from = Some (s', None) \<and> asked s' = asked s \<and>
        signs s' = Some (map_put from (agree_entry from sign) m)"
    and refused: "asked s \<noteq> 0 \<Longrightarrow> signs s = Some m \<Longrightarrow>
      map_has m from \<or> VerifySignWithValidate ec (asked s) sign \<noteq> SignOk from True \<Longrightarrow>
      map_has m from \<or> VerifySignWithValidate ec (asked s) sign \<noteq> SignPanic \<Longrightarrow>
      \<exists>err. save s (asked s) sign from = Some (s, Some err)"
begin

lemma collect_from:
  assumes "asked s = h" "h \<noteq> 0" "signs s = Some m" "gomap_ok m"
    and "\<And>sign. VerifySignWithValidate ec h sign \<noteq> SignPanic"
  shows "\<exists>s' m'. collect_signs save h s rs = Some s' \<and> asked s' = h \<and> signs s' = Some m' \<and> gomap_ok m' \<and>
    (\<forall>a. map_of m' a = (case map_of m a of Some v \<Rightarrow> Some v
       | None \<Rightarrow> map_option (agree_entry a) (first_valid ec h a rs)))"
  using assms(1,3,4)
proof (induction rs arbitrary: s m)
  case Nil
  then show ?case by (auto split: option.splits)
next
  case (Cons r rs)
  show ?case
  proof (cases "\<not> map_has m (snd r) \<and> VerifySignWithValidate ec h (fst r) = SignOk (snd r) True")
    case True
    then obtain s' where s': "save s h (fst r) (snd r) = Some (s', None)" "asked s' = h"
      "signs s' = Some (map_put (snd r) (agree_entry (snd r) (fst r)) m)"
      using stored [of s m "snd r" "fst r"] Cons.prems assms(2) by auto
    then obtain s2 m2 where "collect_signs save h s' rs = Some s2" "asked s2 = h" "signs s2 = Some m2" "gomap_ok m2"
      and m2: "\<And>a. map_of m2 a = (case map_of (map_put (snd r) (agree_entry (snd r) (fst r)) m) a of Some v \<Rightarrow> Some v
         | None \<Rightarrow> map_option (agree_entry a) (first_valid ec h a rs))"
      using Cons.IH [of s'] Cons.prems(3) by (metis gomap_ok_put)
    moreover have "map_of m2 a = (case map_of m a of Some v \<Rightarrow> Some v
         | None \<Rightarrow> map_option (agree_entry a) (first_valid ec h a (r # rs)))" for a
      using True by (auto simp: m2 map_has_def split: option.splits)
    ultimately show ?thesis using s' by auto
  next
    case False
    then obtain err where "save s h (fst r) (snd r) = Some (s, Some err)"
      using refused [of s m "snd r" "fst r"] Cons.prems assms(2,5) by auto
    moreover have "(case map_of m a of Some v \<Rightarrow> Some v
         | None \<Rightarrow> map_option (agree_entry a) (first_valid ec h a (r # rs))) =
        (case map_of m a of Some v \<Rightarrow> Some v | None \<Rightarrow> map_option (agree_entry a) (first_valid ec h a rs))" for a
      using False by (auto simp: map_has_def split: option.splits)
    ultimately show ?thesis using Cons.IH [OF Cons.prems] by simp
  qed
qed

lemma collect_exact:
  assumes "asked s = h" "h \<noteq> 0" "signs s = Some []"
    and "\<And>sign. VerifySignWithValidate ec h sign \<noteq> SignPanic"
  shows "\<exists>s'. collect_signs save h s rs = Some s' \<and> exact_signs ec h rs (signs s')"
  using collect_from [OF assms(1-3) _ assms(4), of rs] by (auto simp: exact_signs_def)

end

interpretation agree_signs: sign_collector ec mc_inquiryHash mc_inquiryAgreeSignCache "SaveInquiryAgreeSign ec" for ec
  by unfold_locales
     (auto simp: SaveInquiryAgreeSign_def save_sign_cases split: sign_outcome.splits)

interpretation rl_votes: sign_collector ec mc_rlReqHash mc_rlVoteCache "SaveRLVote ec" for ec
  by unfold_locales
     (auto simp: SaveRLVote_def save_sign_cases split: sign_outcome.splits)

interpretation result_rsps: sign_collector ec mc_resultBroadcastHash mc_resultRspCache "SaveResultRsp ec" for ec
  by unfold_locales
     (auto simp: SaveResultRsp_def save_sign_cases split: sign_outcome.splits)

section \<open>The cache's invariant\<close>

definition cache_ok :: "crypto_env \<Rightarrow> hash \<Rightarrow> verified_signs option \<Rightarrow> bool" where
  "cache_ok ec h c \<longleftrightarrow> (h \<noteq> 0 \<longrightarrow> c \<noteq> None \<and> (\<forall>sign. VerifySignWithValidate ec h sign \<noteq> SignPanic)) \<and>
    (\<forall>m. c = Some m \<longrightarrow> signs_ok ec h m)"

text \<open>The result message in the cache belongs to the current inquiry result, and a result that a
  request led to points to that request.\<close>

definition result_ok :: "masterCache \<Rightarrow> HD_ReelectResultBroadcastMsg \<Rightarrow> bool" where
  "result_ok c b \<longleftrightarrow> rb_Number b = mc_number c \<and> rb_Type b = mc_inquiryResult c \<and>
    (if mc_inquiryResult c = ReelectRSPTypeAgree
     then mc_reqShared c \<and> (\<exists>k. rb_RLResult b = Some k \<and> lk_Req k = mc_rlReqMsg c)
     else mc_inquiryResult c \<in> {ReelectRSPTypePOS, ReelectRSPTypeAlreadyRL})"

definition mc_ok :: "crypto_env \<Rightarrow> masterCache \<Rightarrow> bool" where
  "mc_ok ec c \<longleftrightarrow>
    cache_ok ec (mc_inquiryHash c) (mc_inquiryAgreeSignCache c) \<and>
    cache_ok ec (mc_rlReqHash c) (mc_rlVoteCache c) \<and>
    cache_ok ec (mc_resultBroadcastHash c) (mc_resultRspCache c) \<and>
    (mc_inquiryHash c \<noteq> 0 \<longrightarrow> mc_inquiryMsg c \<noteq> None \<and> mc_inquiryResult c = ReelectRSPTypeNone) \<and>
    (mc_inquiryResult c = ReelectRSPTypeAgree \<longrightarrow>
      (\<exists>r i. mc_rlReqMsg c = Some r \<and> lq_InquiryReq r = Some i)) \<and>
    (mc_rlReqHash c \<noteq> 0 \<longrightarrow> mc_inquiryResult c = ReelectRSPTypeAgree) \<and>
    (mc_resultBroadcastHash c \<noteq> 0 \<longrightarrow> mc_resultBroadcastMsg c \<noteq> None) \<and>
    (\<forall>b. mc_resultBroadcastMsg c = Some b \<longrightarrow> result_ok c b) \<and>
    (mc_reqShared c \<longrightarrow> mc_inquiryResult c = ReelectRSPTypeAgree)"

lemma result_ok_frame [frame_simps]:
  "result_ok c (b\<lparr>rb_TimeStamp := t\<rparr>) = result_ok c b"
  "result_ok (c\<lparr>mc_resultBroadcastMsg := x\<rparr>) b = result_ok c b"
  "result_ok (c\<lparr>mc_resultBroadcastHash := h\<rparr>) b = result_ok c b"
  "result_ok (c\<lparr>mc_resultRspCache := m\<rparr>) b = result_ok c b"
  "result_ok (c\<lparr>mc_rlVoteCache := m\<rparr>) b = result_ok c b"
  "result_ok (c\<lparr>mc_inquiryAgreeSignCache := m\<rparr>) b = result_ok c b"
  by (simp_all add: result_ok_def)

lemma cache_ok_simps [simp]:
  "cache_ok ec 0 None" "cache_ok ec 0 (Some m) \<longleftrightarrow> signs_ok ec 0 m"
  by (simp_all add: cache_ok_def)

lemma reelect_hash_no_panic:
  "VerifySignWithValidate ec (InquiryHash r q) sign \<noteq> SignPanic"
  "VerifySignWithValidate ec (LeaderReqHash r q') sign \<noteq> SignPanic"
  "VerifySignWithValidate ec (ResultHash r b) sign \<noteq> SignPanic"
  by (simp_all add: reelect_hashes emptyKeccak_no_panic)

lemma cache_ok_fresh [simp]:
  "cache_ok ec (InquiryHash r q) (Some [])" "cache_ok ec (LeaderReqHash r q') (Some [])"
  "cache_ok ec (ResultHash r b) (Some [])"
  by (simp_all add: cache_ok_def reelect_hash_no_panic)

lemma newMasterCache_ok: "mc_ok ec (newMasterCache n)"
  by (simp add: mc_ok_def newMasterCache_def)

lemma SetInquiryReq_ok: "mc_ok ec c \<Longrightarrow> mc_ok ec (fst (SetInquiryReq rlpHash c req))"
  by (simp add: mc_ok_def SetInquiryReq_def Let_def split: option.splits)

lemma ClearSelfInquiryMsg_ok: "mc_ok ec (ClearSelfInquiryMsg c)"
  by (simp add: mc_ok_def ClearSelfInquiryMsg_def)

lemma SetInquiryResultAgree_ok:
  "mc_ok ec c \<Longrightarrow> mc_inquiryHash c \<noteq> 0 \<Longrightarrow> mc_ok ec (fst (SetInquiryResultAgree c signs))"
  by (auto simp: mc_ok_def SetInquiryResultAgree_def result_ok_def)

lemma SetInquiryResultNotAgree_ok: "mc_ok ec c \<Longrightarrow> mc_ok ec (fst (SetInquiryResultNotAgree a c t rsp))"
  by (auto simp: mc_ok_def SetInquiryResultNotAgree_def result_ok_def)

lemma SetRLResultBroadcastSuccess_ok:
  "mc_ok ec c \<Longrightarrow> mc_ok ec (fst (SetRLResultBroadcastSuccess a now c signs))"
  by (auto simp: mc_ok_def SetRLResultBroadcastSuccess_def result_ok_def)

lemma GetRLReqMsg_ok:
  assumes "mc_ok ec c"
  shows "\<exists>c' r. GetRLReqMsg rlpHash now c = Some (c', r) \<and> mc_ok ec c'"
proof (cases "mc_inquiryResult c = ReelectRSPTypeAgree")
  case True
  then obtain r i where r: "mc_rlReqMsg c = Some r" "lq_InquiryReq r = Some i"
    using assms by (auto simp: mc_ok_def)
  show ?thesis
  proof (cases "mc_resultBroadcastMsg c")
    case None
    then show ?thesis using assms True r by (auto simp: mc_ok_def GetRLReqMsg_def Let_def)
  next
    case (Some b)
    then have "result_ok c b" using assms by (simp add: mc_ok_def)
    then obtain k where "mc_reqShared c" "rb_RLResult b = Some k"
      "rb_Number b = mc_number c" "rb_Type b = ReelectRSPTypeAgree"
      using True by (auto simp: result_ok_def)
    then show ?thesis using assms True r Some
      by (auto simp: mc_ok_def GetRLReqMsg_def Let_def result_ok_def update_shared_req_def)
  qed
qed (use assms in \<open>simp add: GetRLReqMsg_def\<close>)

lemma GetResultBroadcastMsg_ok: "mc_ok ec c \<Longrightarrow> mc_ok ec (fst (GetResultBroadcastMsg rlpHash now c))"
  by (auto simp: mc_ok_def GetResultBroadcastMsg_def frame_simps Let_def split: option.splits)

lemma save_sign_ok:
  assumes "cache_ok ec h c" "h \<noteq> 0"
  shows "\<exists>r. save_sign ec c h sign from = Some r \<and> (\<forall>c'. r = Inr c' \<longrightarrow> cache_ok ec h c')"
proof -
  obtain m where m: "c = Some m" "signs_ok ec h m" "VerifySignWithValidate ec h sign \<noteq> SignPanic"
    using assms by (auto simp: cache_ok_def)
  have "cache_ok ec h (Some (map_put from (agree_entry from sign) m))"
    if "VerifySignWithValidate ec h sign = SignOk from True"
    using assms signs_ok_put [OF m(2) that] by (simp add: cache_ok_def)
  then show ?thesis using m by (auto simp: save_sign_cases split: sign_outcome.splits)
qed

lemma mc_ok_caches:
  assumes "mc_ok ec c"
  shows "cache_ok ec (mc_inquiryHash c) (mc_inquiryAgreeSignCache c)"
    and "cache_ok ec (mc_rlReqHash c) (mc_rlVoteCache c)"
    and "cache_ok ec (mc_resultBroadcastHash c) (mc_resultRspCache c)"
  using assms by (simp_all add: mc_ok_def)

lemma SaveInquiryAgreeSign_ok:
  assumes "mc_ok ec c" "mc_inquiryHash c \<noteq> 0"
  shows "\<exists>c' e. SaveInquiryAgreeSign ec c (mc_inquiryHash c) sign from = Some (c', e) \<and> mc_ok ec c' \<and>
    mc_inquiryHash c' = mc_inquiryHash c"
proof -
  obtain r where "save_sign ec (mc_inquiryAgreeSignCache c) (mc_inquiryHash c) sign from = Some r"
    "\<forall>c'. r = Inr c' \<longrightarrow> cache_ok ec (mc_inquiryHash c) c'"
    using save_sign_ok [OF mc_ok_caches(1) [OF assms(1)] assms(2)] by blast
  then show ?thesis using assms(1) by (cases r) (auto simp: SaveInquiryAgreeSign_def mc_ok_def frame_simps)
qed

lemma SaveRLVote_ok:
  assumes "mc_ok ec c"
  shows "\<exists>c' e. SaveRLVote ec c h sign from = Some (c', e) \<and> mc_ok ec c'"
proof (cases "mc_rlReqHash c = 0 \<or> h \<noteq> mc_rlReqHash c")
  case False
  then obtain r where "save_sign ec (mc_rlVoteCache c) h sign from = Some r"
    "\<forall>c'. r = Inr c' \<longrightarrow> cache_ok ec h c'"
    using save_sign_ok [OF mc_ok_caches(2) [OF assms(1)]] by blast
  then show ?thesis using assms(1) False by (cases r) (auto simp: SaveRLVote_def mc_ok_def frame_simps)
qed (use assms in \<open>auto simp: SaveRLVote_def\<close>)

lemma SaveResultRsp_ok:
  assumes "mc_ok ec c"
  shows "\<exists>c' e. SaveResultRsp ec c h sign from = Some (c', e) \<and> mc_ok ec c'"
proof (cases "mc_resultBroadcastHash c = 0 \<or> h \<noteq> mc_resultBroadcastHash c")
  case False
  then obtain r where "save_sign ec (mc_resultRspCache c) h sign from = Some r"
    "\<forall>c'. r = Inr c' \<longrightarrow> cache_ok ec h c'"
    using save_sign_ok [OF mc_ok_caches(3) [OF assms(1)]] by blast
  then show ?thesis using assms(1) False by (cases r) (auto simp: SaveResultRsp_def mc_ok_def frame_simps)
qed (use assms in \<open>auto simp: SaveResultRsp_def\<close>)

section \<open>From the collected signatures to the other validators\<close>

lemma cache_signs_verified:
  assumes "cache_ok ec h cache" "range_order rng"
  shows "list_all2 (\<lambda>s v. VerifySignWithValidate ec h s = SignOk (vs_Account v) (vs_Validate v) \<and> vs_Sign v = s)
    (map vs_Sign (cache_signs rng cache)) (cache_signs rng cache)"
proof -
  have "VerifySignWithValidate ec h (vs_Sign v) = SignOk (vs_Account v) (vs_Validate v)"
    if v: "v \<in> set (cache_signs rng cache)" for v
  proof -
    obtain m a where m: "cache = Some m" "(a, v) \<in> set m"
      using v assms(2) by (cases cache) (auto simp: cache_signs_def)
    then have "VerifySignWithValidate ec h (vs_Sign v) = SignOk a True" "v = agree_entry a (vs_Sign v)"
      using assms(1) by (auto simp: cache_ok_def signs_ok_def)
    then show ?thesis by (metis VerifiedSign.select_convs(2,3) agree_entry_def)
  qed
  then show ?thesis by (simp add: list_all2_conv_all_nth)
qed

text \<open>What a quorum of collected signatures becomes is accepted by every node that knows the same
  validators.\<close>

lemma collected_signs_verify:
  assumes "cache_ok ec h cache" "range_order rng" "order_ok od" "order_ok od'"
    and "VerifyHashWithVerifiedSignsAndNumber od reader (cache_signs rng cache) n = Inr rightSigns"
    and "getValidatorStocks reader n = Inr stocks" "getValidatorStocks reader' n = Inr stocks"
    and "length stocks < 2 ^ 48"
  shows "\<exists>r. VerifyHashWithNumber od' ec reader' h rightSigns n = Inr r"
proof -
  have "VerifyHashWithStocks od ec h (map vs_Sign (cache_signs rng cache)) stocks = Inr rightSigns"
    using assms(5,6) verified_signs_same [OF cache_signs_verified [OF assms(1,2)], of od reader n]
    by (simp add: VerifyHashWithNumber_def)
  then show ?thesis
    using returned_signs_accepted [OF _ assms(3,4) getValidatorStocks_ok [OF assms(6)] assms(8)]
    by (simp add: VerifyHashWithNumber_def assms(7))
qed

section \<open>Properties\<close>

text \<open>C15: A master that has sent an inquiry, a re-election request or a result and then handles any
  sequence of replies ends with a cache that holds exactly, for each sender, the first of its signatures
  that verifies over the asked hash as an agreeing vote of that sender; forged, foreign, disagreeing and
  repeated signatures leave no trace, and no reply makes the code panic.\<close>

theorem master_collects_exactly:
  "(\<exists>c'. collect_signs (SaveInquiryAgreeSign ec) (snd (SetInquiryReq r c (Some q)))
        (fst (SetInquiryReq r c (Some q))) rs = Some c' \<and>
      exact_signs ec (InquiryHash r q) rs (mc_inquiryAgreeSignCache c')) \<and>
   (GetRLReqMsg r now c = Some (c1, Inr (req, h)) \<longrightarrow>
      (\<exists>c'. collect_signs (SaveRLVote ec) h c1 rs = Some c' \<and> exact_signs ec h rs (mc_rlVoteCache c'))) \<and>
   (GetResultBroadcastMsg r now c = (c2, Inr (msg, h')) \<longrightarrow>
      (\<exists>c'. collect_signs (SaveResultRsp ec) h' c2 rs = Some c' \<and> exact_signs ec h' rs (mc_resultRspCache c')))"
proof (intro conjI impI)
  show "\<exists>c'. collect_signs (SaveInquiryAgreeSign ec) (snd (SetInquiryReq r c (Some q)))
        (fst (SetInquiryReq r c (Some q))) rs = Some c' \<and>
      exact_signs ec (InquiryHash r q) rs (mc_inquiryAgreeSignCache c')"
    by (simp add: SetInquiryReq_def Let_def, rule agree_signs.collect_exact)
       (simp_all add: reelect_hash_no_panic)
next
  assume "GetRLReqMsg r now c = Some (c1, Inr (req, h))"
  then have "mc_rlReqHash c1 = h" "h = LeaderReqHash r req" "mc_rlVoteCache c1 = Some []"
    by (auto simp: GetRLReqMsg_def Let_def split: if_splits option.splits)
  then show "\<exists>c'. collect_signs (SaveRLVote ec) h c1 rs = Some c' \<and> exact_signs ec h rs (mc_rlVoteCache c')"
    by (intro rl_votes.collect_exact) (simp_all add: reelect_hash_no_panic)
next
  assume "GetResultBroadcastMsg r now c = (c2, Inr (msg, h'))"
  then have "mc_resultBroadcastHash c2 = h'" "h' = ResultHash r msg" "mc_resultRspCache c2 = Some []"
    by (auto simp: GetResultBroadcastMsg_def Let_def split: option.splits)
  then show "\<exists>c'. collect_signs (SaveResultRsp ec) h' c2 rs = Some c' \<and> exact_signs ec h' rs (mc_resultRspCache c')"
    by (intro result_rsps.collect_exact) (simp_all add: reelect_hash_no_panic)
qed

text \<open>C14: The signatures that the DPOS engine of the master selects from the agreements it collected, or
  from the votes it collected, are accepted by the engine of every other node that knows the same
  validators: a re-election request or result of an honest master passes the followers' signature
  check, whatever the iteration orders of the maps are.\<close>

theorem collected_quorum_convinces:
  assumes "mc_ok ec c" "range_order rng" "order_ok od" "order_ok od'"
    and "getValidatorStocks reader n = Inr stocks" "getValidatorStocks reader' n = Inr stocks"
    and "length stocks < 2 ^ 48"
  shows "(VerifyHashWithVerifiedSignsAndNumber od reader (GetInquiryAgreeSigns rng c) n = Inr signs \<longrightarrow>
      (\<exists>r. VerifyHashWithNumber od' ec reader' (mc_inquiryHash c) signs n = Inr r)) \<and>
    (VerifyHashWithVerifiedSignsAndNumber od reader (GetRLSigns rng c) n = Inr signs \<longrightarrow>
      (\<exists>r. VerifyHashWithNumber od' ec reader' (mc_rlReqHash c) signs n = Inr r))"
  using collected_signs_verify [OF mc_ok_caches(1) [OF assms(1)] assms(2-4) _ assms(5-7)]
    collected_signs_verify [OF mc_ok_caches(2) [OF assms(1)] assms(2-4) _ assms(5-7)]
  by (simp add: GetInquiryAgreeSigns_def GetRLSigns_def)

section \<open>Witnesses\<close>

definition demo_cache :: masterCache where
  "demo_cache = (newMasterCache 41)\<lparr>mc_inquiryHash := emptyKeccak, mc_inquiryMsg := Some (demo_inquiry 0 1 1000 3),
    mc_inquiryAgreeSignCache := Some [(1, agree_entry 1 0x100), (2, agree_entry 2 0x200), (3, agree_entry 3 0x300)]\<rparr>"

lemma demo_cache_ok: "mc_ok open_crypto demo_cache"
  by (simp add: mc_ok_def demo_cache_def newMasterCache_def cache_ok_def signs_ok_def gomap_ok_def open_verify
      sig64_def agree_entry_def emptyKeccak_no_panic)

theorem master_collects_exactly_witness:
  "\<forall>r. \<exists>c' m. collect_signs (SaveInquiryAgreeSign open_crypto) (InquiryHash r (demo_inquiry 0 1 1000 3))
      (fst (SetInquiryReq r (newMasterCache 41) (Some (demo_inquiry 0 1 1000 3))))
      [(0x100, 2), (0x100, 1), (0x101, 1)] = Some c' \<and>
    mc_inquiryAgreeSignCache c' = Some m \<and> map_of m 1 = Some (agree_entry 1 0x100) \<and> map_of m 2 = None"
proof
  fix r
  show "\<exists>c' m. collect_signs (SaveInquiryAgreeSign open_crypto) (InquiryHash r (demo_inquiry 0 1 1000 3))
      (fst (SetInquiryReq r (newMasterCache 41) (Some (demo_inquiry 0 1 1000 3))))
      [(0x100, 2), (0x100, 1), (0x101, 1)] = Some c' \<and>
    mc_inquiryAgreeSignCache c' = Some m \<and> map_of m 1 = Some (agree_entry 1 0x100) \<and> map_of m 2 = None"
    using conjunct1 [OF master_collects_exactly [of open_crypto r "newMasterCache 41" "demo_inquiry 0 1 1000 3"
        "[(0x100, 2), (0x100, 1), (0x101, 1)]"]]
    by (auto simp: exact_signs_def SetInquiryReq_def Let_def open_verify sig64_def)
qed

theorem collected_quorum_convinces_witness:
  "\<exists>signs r. VerifyHashWithVerifiedSignsAndNumber demo_order demo_reader (GetInquiryAgreeSigns rev demo_cache) 41 = Inr signs \<and>
    VerifyHashWithNumber demo_order open_crypto demo_reader emptyKeccak signs 41 = Inr r"
proof -
  have v: "VerifyHashWithVerifiedSignsAndNumber demo_order demo_reader (GetInquiryAgreeSigns rev demo_cache) 41 =
      Inr [0x100, 0x200, 0x300]"
    by (simp add: VerifyHashWithVerifiedSignsAndNumber_def demo_reader_stocks GetInquiryAgreeSigns_def
        cache_signs_def demo_cache_def newMasterCache_def agree_entry_def calculateDPOSTarget_def
        parseVerifiedSigns_def merge_sign_def verifyDPOS_def demo_order_def DPOSMinStockCount_def
        DPOSFullSignThreshold_def Let_def)
  show ?thesis
    using v collected_quorum_convinces [OF demo_cache_ok _ demo_order_ok demo_order_ok demo_reader_stocks
        demo_reader_stocks, of rev "[0x100, 0x200, 0x300]"]
    by (auto simp: demo_cache_def newMasterCache_def)
qed

end
