(* ===== verification/Reelect_Ctrl.thy ===== *)
theory Reelect_Ctrl
  imports Master_Cache
begin

text \<open>
  The controller of the leader election of one block, \<open>verifier/controller.go\<close>,
  \<open>verifier/ctrlHandle.go\<close> and \<open>verifier/ctrlReelection.go\<close>.

  A handler is a function from the controller to the controller it leaves behind; \<^const>\<open>None\<close> is a
  panic (a nil dereference, a write to a nil map or the panic of the signature check). What a handler
  sends or publishes is appended to the field \<open>ct_out\<close>. A timer is the number of seconds it was last set
  to, or \<^const>\<open>None\<close> when it is stopped. The node around the controller is the record
  \<open>ctrl_env\<close>; the clock readings of a handler are its arguments \<open>now\<close> and \<open>now'\<close>, in the order the code
  takes them. Log output is left out.
\<close>

section \<open>The node\<close>

text \<open>\<open>ce_leaderKey\<close> is the key \<open>sendInquiryRspWithRLConsensus\<close> looks the result cache up with: the code
  passes the account of the leader where \<open>GetRLConsensusMsg\<close> asks for a turn, and any conversion does.\<close>

record ctrl_env =
  ce_crypto :: crypto_env
  ce_rlpHash :: "rlp_val \<Rightarrow> hash"
  ce_order :: dpos_order
  ce_range :: "(address \<times> VerifiedSign) list \<Rightarrow> (address \<times> VerifiedSign) list"
  ce_BroadCastNodes :: "address list"
  ce_self :: address
  ce_chain :: chain_env
  ce_GetHeader :: "hash \<Rightarrow> u64 \<Rightarrow> Header option"
  ce_VerifyHeader :: "Header \<Rightarrow> bool"
  ce_signHelper :: SignHelper
  ce_leaderKey :: "address \<Rightarrow> u32"

abbreviation ce_bn :: "ctrl_env \<Rightarrow> address" where
  "ce_bn e \<equiv> hd (ce_BroadCastNodes e)"

datatype ctrl_out =
    PublishLeader LeaderChangeNotify
  | PublishRecovery RecoveryStateMsg
  | SendInquiryReq HD_ReelectInquiryReqMsg
  | SendInquiryRsp HD_ReelectInquiryRspMsg address
  | SendRLReq HD_ReelectLeaderReqMsg
  | SendRLVote HD_ReelectLeaderVoteMsg address
  | SendResultBroadcast HD_ReelectResultBroadcastMsg
  | SendResultRsp HD_ReelectResultRspMsg address
  | FetcherNotify hash u64

record startControllerMsg =
  sc_role :: role_type
  sc_validators :: "TopologyNodeInfo list option"
  sc_parentHeader :: "Header option"

record sendNewBlockReadyRsp =
  sn_repHash :: hash
  sn_target :: address
  sn_rspNumber :: u64

datatype ctrl_msg =
    MsgNil
  | MsgStart "startControllerMsg option"
  | MsgPOSFinished "BlockPOSFinishedNotify option"
  | MsgInquiryReq "HD_ReelectInquiryReqMsg option"
  | MsgInquiryRsp "HD_ReelectInquiryRspMsg option"
  | MsgRLReq "HD_ReelectLeaderReqMsg option"
  | MsgRLVote "HD_ReelectLeaderVoteMsg option"
  | MsgResultBroadcast "HD_ReelectResultBroadcastMsg option"
  | MsgResultRsp "HD_ReelectResultRspMsg option"
  | MsgNewBlockReadyRsp "sendNewBlockReadyRsp option"
  | MsgUnknown

section \<open>verifier/controller.go\<close>

record controller =
  ct_timer :: "int option"
  ct_reelectTimer :: "int option"
  ct_dc :: cdc
  ct_mp :: msgPool
  ct_selfCache :: masterCache
  ct_out :: "ctrl_out list"

text \<open>The controller as \<open>run\<close> finds it after it has stopped both timers.\<close>

definition newController :: "u64 \<Rightarrow> controller" where
  "newController number = \<lparr>ct_timer = None, ct_reelectTimer = None, ct_dc = newCDC number,
    ct_mp = newMsgPool, ct_selfCache = newMasterCache number, ct_out = []\<rparr>"

definition ct_Number :: "controller \<Rightarrow> u64" where
  "ct_Number self = dc_number (ct_dc self)"

definition ct_State :: "controller \<Rightarrow> lr_state" where
  "ct_State self = dc_state (ct_dc self)"

definition ct_ConsensusTurn :: "controller \<Rightarrow> u32" where
  "ct_ConsensusTurn self = dc_curConsensusTurn (ct_dc self)"

definition emit :: "ctrl_out \<Rightarrow> controller \<Rightarrow> controller" where
  "emit m self = self\<lparr>ct_out := ct_out self @ [m]\<rparr>"

definition set_dc :: "cdc \<Rightarrow> controller \<Rightarrow> controller" where
  "set_dc dc self = self\<lparr>ct_dc := dc\<rparr>"

definition set_cache :: "masterCache \<Rightarrow> controller \<Rightarrow> controller" where
  "set_cache c self = self\<lparr>ct_selfCache := c\<rparr>"

definition set_state :: "lr_state \<Rightarrow> controller \<Rightarrow> controller" where
  "set_state st self = self\<lparr>ct_dc := (ct_dc self)\<lparr>dc_state := st\<rparr>\<rparr>"

definition sendLeaderMsg :: "ctrl_env \<Rightarrow> controller \<Rightarrow> controller" where
  "sendLeaderMsg e self =
    (case PrepareLeaderMsg (ce_bn e) (ct_dc self) of
       Inl err \<Rightarrow> self
     | Inr msg \<Rightarrow> emit (PublishLeader msg) self)"

text \<open>\<open>setTimer\<close>: 0 stops the timer, any other number of seconds restarts it.\<close>

definition timer_value :: "int \<Rightarrow> int option" where
  "timer_value outTime = (if outTime = 0 then None else Some outTime)"

definition setTimer :: "int \<Rightarrow> controller \<Rightarrow> controller" where
  "setTimer outTime self = self\<lparr>ct_timer := timer_value outTime\<rparr>"

definition setReelectTimer :: "int \<Rightarrow> controller \<Rightarrow> controller" where
  "setReelectTimer outTime self = self\<lparr>ct_reelectTimer := timer_value outTime\<rparr>"

section \<open>Sending (verifier/ctrlReelection.go)\<close>

definition sendInquiryReq :: "ctrl_env \<Rightarrow> int \<Rightarrow> controller \<Rightarrow> controller option" where
  "sendInquiryReq e now self =
    (let dc = ct_dc self;
         req = \<lparr>iq_Number = dc_number dc, iq_ConsensusTurn = dc_curConsensusTurn dc,
                iq_ReelectTurn = dc_curReelectTurn dc, iq_TimeStamp = now,
                iq_Master = ce_self e, iq_From = ce_self e\<rparr>;
         (cache, reqHash) = SetInquiryReq (ce_rlpHash e) (ct_selfCache self) (Some req);
         self = set_cache cache self
     in case SignHashWithValidate (ce_signHelper e) reqHash True of
          None \<Rightarrow> None
        | Some None \<Rightarrow> Some self
        | Some (Some selfSign) \<Rightarrow>
            (case SaveInquiryAgreeSign (ce_crypto e) cache reqHash selfSign (ce_self e) of
               None \<Rightarrow> None
             | Some (cache, Some err) \<Rightarrow> Some (set_cache cache self)
             | Some (cache, None) \<Rightarrow> Some (emit (SendInquiryReq req) (set_cache cache self))))"

definition sendInquiryRspWithPOS :: "hash \<Rightarrow> address \<Rightarrow> u64 \<Rightarrow> controller \<Rightarrow> controller" where
  "sendInquiryRspWithPOS reqHash target number self =
    (case GetPOSNotifyMsg (ct_mp self) (GetConsensusLeader (ct_dc self)) (dc_curConsensusTurn (ct_dc self)) of
       Inl err \<Rightarrow> self
     | Inr POSMsg \<Rightarrow>
         emit (SendInquiryRsp \<lparr>ir_Number = number, ir_ReqHash = reqHash, ir_Type = ReelectRSPTypePOS,
           ir_AgreeSign = 0,
           ir_POSResult = Some \<lparr>bcr_From = 0, bcr_Header = pfn_Header POSMsg, bcr_ConsensusTurn = 0,
             bcr_TxsCode = pfn_TxsCode POSMsg\<rparr>,
           ir_RLResult = None, ir_NewBlock = None, ir_From = 0\<rparr> target) self)"

definition sendInquiryRspWithAgree ::
  "ctrl_env \<Rightarrow> hash \<Rightarrow> address \<Rightarrow> u64 \<Rightarrow> controller \<Rightarrow> controller option" where
  "sendInquiryRspWithAgree e reqHash target number self =
    (case SignHashWithValidate (ce_signHelper e) reqHash True of
       None \<Rightarrow> None
     | Some None \<Rightarrow> Some self
     | Some (Some sign) \<Rightarrow>
         Some (emit (SendInquiryRsp \<lparr>ir_Number = number, ir_ReqHash = reqHash, ir_Type = ReelectRSPTypeAgree,
           ir_AgreeSign = sign, ir_POSResult = None, ir_RLResult = None, ir_NewBlock = None,
           ir_From = 0\<rparr> target) self))"

definition sendInquiryRspWithRLConsensus ::
  "ctrl_env \<Rightarrow> hash \<Rightarrow> address \<Rightarrow> u64 \<Rightarrow> controller \<Rightarrow> controller" where
  "sendInquiryRspWithRLConsensus e reqHash target number self =
    (case GetRLConsensusMsg (ct_mp self) (ce_leaderKey e (GetConsensusLeader (ct_dc self))) of
       Inl err \<Rightarrow> self
     | Inr consensusMsg \<Rightarrow>
         emit (SendInquiryRsp \<lparr>ir_Number = number, ir_ReqHash = reqHash, ir_Type = ReelectRSPTypeAlreadyRL,
           ir_AgreeSign = 0, ir_POSResult = None, ir_RLResult = Some consensusMsg, ir_NewBlock = None,
           ir_From = 0\<rparr> target) self)"

definition sendInquiryRspWithNewBlockReady :: "hash \<Rightarrow> address \<Rightarrow> u64 \<Rightarrow> controller \<Rightarrow> controller" where
  "sendInquiryRspWithNewBlockReady reqHash target number self =
    (case GetParentHeader (ct_mp self) of
       None \<Rightarrow> self
     | Some parentHeader \<Rightarrow>
         emit (SendInquiryRsp \<lparr>ir_Number = number, ir_ReqHash = reqHash, ir_Type = ReelectRSPTypeNewBlockReady,
           ir_AgreeSign = 0, ir_POSResult = None, ir_RLResult = None, ir_NewBlock = Some parentHeader,
           ir_From = 0\<rparr> target) self)"

definition sendRLReq :: "ctrl_env \<Rightarrow> int \<Rightarrow> controller \<Rightarrow> controller option" where
  "sendRLReq e now self =
    (case GetRLReqMsg (ce_rlpHash e) now (ct_selfCache self) of
       None \<Rightarrow> None
     | Some (cache, Inl err) \<Rightarrow> Some (set_cache cache self)
     | Some (cache, Inr (req, reqHash)) \<Rightarrow>
         (let self = set_cache cache self
          in case SignHashWithValidate (ce_signHelper e) reqHash True of
               None \<Rightarrow> None
             | Some None \<Rightarrow> Some self
             | Some (Some selfSign) \<Rightarrow>
                 (case SaveRLVote (ce_crypto e) cache reqHash selfSign (ce_self e) of
                    None \<Rightarrow> None
                  | Some (cache, Some err) \<Rightarrow> Some (set_cache cache self)
                  | Some (cache, None) \<Rightarrow> Some (emit (SendRLReq req) (set_cache cache self)))))"

definition sendResultBroadcastMsg :: "ctrl_env \<Rightarrow> int \<Rightarrow> controller \<Rightarrow> controller option" where
  "sendResultBroadcastMsg e now self =
    (case GetResultBroadcastMsg (ce_rlpHash e) now (ct_selfCache self) of
       (cache, Inl err) \<Rightarrow> Some (set_cache cache self)
     | (cache, Inr (msg, msgHash)) \<Rightarrow>
         (let self = set_cache cache self
          in case SignHashWithValidate (ce_signHelper e) msgHash True of
               None \<Rightarrow> None
             | Some None \<Rightarrow> Some self
             | Some (Some selfSign) \<Rightarrow>
                 (case SaveResultRsp (ce_crypto e) cache msgHash selfSign (ce_self e) of
                    None \<Rightarrow> None
                  | Some (cache, Some err) \<Rightarrow> Some (set_cache cache self)
                  | Some (cache, None) \<Rightarrow> Some (emit (SendResultBroadcast msg) (set_cache cache self)))))"

definition sendResultBroadcastRsp ::
  "ctrl_env \<Rightarrow> HD_ReelectResultBroadcastMsg \<Rightarrow> controller \<Rightarrow> controller option" where
  "sendResultBroadcastRsp e req self =
    (let resultHash = ResultHash (ce_rlpHash e) req
     in case SignHashWithValidate (ce_signHelper e) resultHash True of
          None \<Rightarrow> None
        | Some None \<Rightarrow> Some self
        | Some (Some sign) \<Rightarrow>
            Some (emit (SendResultRsp \<lparr>rr_Number = ct_Number self, rr_ResultHash = resultHash, rr_Sign = sign,
              rr_From = 0\<rparr> (rb_From req)) self))"

section \<open>States and turns\<close>

definition processPOSState :: "controller \<Rightarrow> controller" where
  "processPOSState self =
    (if ct_State self \<noteq> stPos then self
     else
       (case GetPOSNotifyMsg (ct_mp self) (GetConsensusLeader (ct_dc self)) (dc_curConsensusTurn (ct_dc self)) of
          Inl err \<Rightarrow> self
        | Inr _ \<Rightarrow> set_state stMining self))"

definition startReelect :: "ctrl_env \<Rightarrow> int \<Rightarrow> u32 \<Rightarrow> controller \<Rightarrow> controller option" where
  "startReelect e now reelectTurn self =
    (if ct_State self \<noteq> stReelect then Some self
     else if dc_curReelectTurn (ct_dc self) = reelectTurn then Some self
     else
       (case SetReelectTurn (ce_bn e) (ct_dc self) reelectTurn of
          (dc, Some err) \<Rightarrow> Some (set_dc dc self)
        | (dc, None) \<Rightarrow>
            (let self = set_dc dc self;
                 next = (if GetReelectMaster dc = ce_self e
                         then sendInquiryReq e now (setReelectTimer LRSReelectInterval self)
                         else Some (setReelectTimer 0 self))
             in map_option (sendLeaderMsg e) next)))"

definition finishReelectWithPOS ::
  "ctrl_env \<Rightarrow> Header \<Rightarrow> address \<Rightarrow> controller \<Rightarrow> controller" where
  "finishReelectWithPOS e header from self =
    (let self = emit (PublishRecovery \<lparr>rs_Type = RecoveryTypePOS, rs_Header = header, rs_From = from\<rparr>) self;
         self = setReelectTimer 0 (setTimer 0 self);
         self = set_state stMining self;
         self = set_dc (fst (SetReelectTurn (ce_bn e) (ct_dc self) 0)) self;
         self = set_cache (ClearSelfInquiryMsg (ct_selfCache self)) self
     in sendLeaderMsg e self)"

text \<open>What handling a start message and finishing a re-election share: the state, the timer and the
  turn that \<open>CalState\<close> gives.\<close>

definition enter_state ::
  "ctrl_env \<Rightarrow> int \<Rightarrow> lr_state \<times> int \<times> u32 \<Rightarrow> controller \<Rightarrow> controller option" where
  "enter_state e now' cal self =
    (case cal of (st, remainTime, reelectTurn) \<Rightarrow>
       (let dc = (ct_dc self)\<lparr>dc_state := st, dc_curReelectTurn := 0\<rparr>;
            self = setTimer remainTime (set_dc dc self)
        in if st = stPos then Some (processPOSState self)
           else if st = stReelect then startReelect e now' reelectTurn self
           else Some self))"

definition finishReelectWithRLConsensus ::
  "ctrl_env \<Rightarrow> int \<Rightarrow> int \<Rightarrow> HD_ReelectLeaderReqMsg \<Rightarrow> HD_ReelectInquiryReqMsg \<Rightarrow> controller \<Rightarrow> controller option" where
  "finishReelectWithRLConsensus e now now' req inquiry self =
    (let consensusTurn = iq_ConsensusTurn inquiry + iq_ReelectTurn inquiry
     in case SetConsensusTurn (ce_bn e) (ct_dc self) consensusTurn of
          (dc, Some err) \<Rightarrow> Some (set_dc dc self)
        | (dc, None) \<Rightarrow>
            (let self = setReelectTimer 0 (set_dc dc self);
                 self = set_cache (ClearSelfInquiryMsg (ct_selfCache self)) self;
                 tt = fst (SetBeginTime (dc_turnTime (ct_dc self)) consensusTurn (lq_TimeStamp req));
                 self = set_dc ((ct_dc self)\<lparr>dc_turnTime := tt\<rparr>) self
             in map_option (sendLeaderMsg e) (enter_state e now' (CalState tt consensusTurn now) self)))"

definition ctrl_VerifyHash ::
  "ctrl_env \<Rightarrow> controller \<Rightarrow> hash \<Rightarrow> signature list \<Rightarrow> dpos_error + signature list" where
  "ctrl_VerifyHash e self h signs =
    VerifyHashWithNumber (ce_order e) (ce_crypto e) (cdc_reader (ce_chain e) (ct_dc self)) h signs
      (dc_number (ct_dc self))"

definition ctrl_VerifySigns ::
  "ctrl_env \<Rightarrow> controller \<Rightarrow> VerifiedSign list \<Rightarrow> dpos_error + signature list" where
  "ctrl_VerifySigns e self signs =
    VerifyHashWithVerifiedSignsAndNumber (ce_order e) (cdc_reader (ce_chain e) (ct_dc self)) signs
      (dc_number (ct_dc self))"

definition ctrl_VerifyBlock :: "ctrl_env \<Rightarrow> controller \<Rightarrow> Header \<Rightarrow> dpos_error option" where
  "ctrl_VerifyBlock e self header =
    VerifyBlock (ce_order e) (ce_crypto e) (ce_rlpHash e) (ce_BroadCastNodes e)
      (cdc_reader (ce_chain e) (ct_dc self)) header"

definition processResultBroadcastMsg ::
  "ctrl_env \<Rightarrow> int \<Rightarrow> int \<Rightarrow> HD_ReelectResultBroadcastMsg option \<Rightarrow> controller \<Rightarrow>
   (controller \<times> lr_error option) option" where
  "processResultBroadcastMsg e now now' msg self =
    (case msg of
       None \<Rightarrow> Some (self, Some ErrMsgIsNil)
     | Some m \<Rightarrow>
         (case rb_Type m of
            ReelectRSPTypePOS \<Rightarrow>
              (case Option.bind (rb_POSResult m) bcr_Header of
                 None \<Rightarrow> Some (self, Some ErrPOSResultIsNil)
               | Some header \<Rightarrow>
                   if h_Leader header \<noteq> GetConsensusLeader (ct_dc self)
                   then Some (self, Some (ErrCheck ''leader''))
                   else
                     (case ctrl_VerifyBlock e self header of
                        Some err \<Rightarrow> if err = DposPanic then None else Some (self, Some (ErrDpos err))
                      | None \<Rightarrow> Some (finishReelectWithPOS e header (rb_From m) self, None)))
          | t \<Rightarrow>
              if t = ReelectRSPTypeAgree \<or> t = ReelectRSPTypeAlreadyRL then
                (case rb_RLResult m of
                   None \<Rightarrow> Some (self, Some ErrLeaderResultIsNil)
                 | Some rlResult \<Rightarrow>
                     (case lk_Req rlResult of
                        None \<Rightarrow> None
                      | Some req \<Rightarrow>
                          (case lq_InquiryReq req of
                             None \<Rightarrow> None
                           | Some inquiry \<Rightarrow>
                               if iq_ConsensusTurn inquiry + iq_ReelectTurn inquiry < dc_curConsensusTurn (ct_dc self)
                               then Some (self, Some (ErrCheck ''turn''))
                               else if lk_TimeStamp rlResult < lq_TimeStamp req
                               then Some (self, Some ErrTimeSpan)
                               else
                                 (case ctrl_VerifyHash e self (LeaderReqHash (ce_rlpHash e) req) (lk_Votes rlResult) of
                                    Inl err \<Rightarrow> if err = DposPanic then None else Some (self, Some (ErrDpos err))
                                  | Inr _ \<Rightarrow>
                                      map_option (\<lambda>c. (c, None))
                                        (finishReelectWithRLConsensus e now now' req inquiry self)))))
              else Some (self, Some (ErrCheck ''type''))))"

section \<open>Timers (verifier/ctrlHandle.go, verifier/ctrlReelection.go)\<close>

definition reelectTimeOutHandle :: "ctrl_env \<Rightarrow> int \<Rightarrow> controller \<Rightarrow> controller option" where
  "reelectTimeOutHandle e now self =
    (if ct_State self \<noteq> stReelect then Some self
     else map_option (setReelectTimer LRSReelectInterval)
       (case InquiryResult (ct_selfCache self) of
          ReelectRSPTypeAgree \<Rightarrow> sendRLReq e now self
        | ReelectRSPTypePOS \<Rightarrow> sendResultBroadcastMsg e now self
        | ReelectRSPTypeAlreadyRL \<Rightarrow> sendResultBroadcastMsg e now self
        | _ \<Rightarrow> sendInquiryReq e now self))"

definition timeOutHandle :: "ctrl_env \<Rightarrow> int \<Rightarrow> int \<Rightarrow> controller \<Rightarrow> controller option" where
  "timeOutHandle e now now' self =
    (case ct_State self of
       stPos \<Rightarrow>
         (let remainTime = CalRemainTime (dc_turnTime (ct_dc self)) (dc_curConsensusTurn (ct_dc self)) 1 now;
              self = set_state stReelect (setTimer remainTime self)
          in startReelect e now' 1 self)
     | stReelect \<Rightarrow>
         (let reelectTurn = dc_curReelectTurn (ct_dc self) + 1;
              remainTime = CalRemainTime (dc_turnTime (ct_dc self)) (dc_curConsensusTurn (ct_dc self)) reelectTurn now;
              self = setTimer remainTime self
          in startReelect e now' reelectTurn self)
     | _ \<Rightarrow> Some self)"

section \<open>Message handlers (verifier/ctrlHandle.go)\<close>

definition save_parent :: "Header \<Rightarrow> controller \<Rightarrow> controller" where
  "save_parent parentHeader self = self\<lparr>ct_mp := SaveParentHeader (ct_mp self) (Some parentHeader)\<rparr>"

definition handleStartMsg ::
  "ctrl_env \<Rightarrow> int \<Rightarrow> int \<Rightarrow> startControllerMsg option \<Rightarrow> controller \<Rightarrow> controller option" where
  "handleStartMsg e now now' msg self =
    (case msg of
       None \<Rightarrow> Some self
     | Some m \<Rightarrow>
         (case sc_parentHeader m of
            None \<Rightarrow> Some self
          | Some parentHeader \<Rightarrow>
              if sc_role m \<noteq> RoleValidator then Some (save_parent parentHeader self)
              else
                (case dc_SetValidators (ce_bn e) (ce_chain e) (ct_dc self) (h_Leader parentHeader) (sc_validators m) of
                   (dc, Some err) \<Rightarrow> Some (set_dc dc self)
                 | (dc, None) \<Rightarrow>
                     (let self = set_dc dc self
                      in if IsBroadcastNumber (dc_number dc)
                         then Some (save_parent parentHeader (sendLeaderMsg e (set_state stIdle self)))
                         else
                           (case SetBeginTime (dc_turnTime dc) 0 (i64 (int (h_Time parentHeader))) of
                              (tt, False) \<Rightarrow> Some (sendLeaderMsg e (set_dc (dc\<lparr>dc_turnTime := tt\<rparr>) self))
                            | (tt, True) \<Rightarrow>
                                (let self = save_parent parentHeader (set_dc (dc\<lparr>dc_turnTime := tt\<rparr>) self)
                                 in map_option (sendLeaderMsg e)
                                      (if ct_ConsensusTurn self = 0
                                       then enter_state e now' (CalState tt 0 now) self
                                       else Some self)))))))"

definition handleBlockPOSFinishedNotify ::
  "BlockPOSFinishedNotify option \<Rightarrow> controller \<Rightarrow> controller option" where
  "handleBlockPOSFinishedNotify msg self =
    (case msg of
       None \<Rightarrow> Some self
     | Some m \<Rightarrow>
         (case SavePOSNotifyMsg (ct_mp self) (Some m) of
            None \<Rightarrow> None
          | Some (mp, err) \<Rightarrow> Some (processPOSState (self\<lparr>ct_mp := mp\<rparr>))))"

definition processNewBlockReadyRsp ::
  "ctrl_env \<Rightarrow> Header option \<Rightarrow> address \<Rightarrow> controller \<Rightarrow> controller option" where
  "processNewBlockReadyRsp e header from self =
    (case header of
       None \<Rightarrow> Some self
     | Some h \<Rightarrow>
         (let number = header_number h
          in case ce_GetHeader e (h_ParentHash h) (number - 1) of
               None \<Rightarrow> Some (emit (FetcherNotify (h_ParentHash h) (number - 1)) self)
             | Some parentHeader \<Rightarrow>
                 if \<not> ce_VerifyHeader e h then Some self
                 else
                   (case ctrl_VerifyBlock e self h of
                      Some err \<Rightarrow> if err = DposPanic then None else Some self
                    | None \<Rightarrow> Some (emit (PublishRecovery
                        \<lparr>rs_Type = RecoveryTypeFullHeader, rs_Header = h, rs_From = from\<rparr>) self))))"

section \<open>Message handlers (verifier/ctrlReelection.go)\<close>

definition handleInquiryReq ::
  "ctrl_env \<Rightarrow> HD_ReelectInquiryReqMsg option \<Rightarrow> controller \<Rightarrow> controller option" where
  "handleInquiryReq e msg self =
    (if ct_State self = stIdle then (case msg of None \<Rightarrow> None | Some _ \<Rightarrow> Some self)
     else
       (case msg of
          None \<Rightarrow> Some self
        | Some req \<Rightarrow>
            if iq_Master req \<noteq> iq_From req then Some self
            else
              (case dc_GetLeader (ce_bn e) (ct_dc self) (iq_ConsensusTurn req + iq_ReelectTurn req) of
                 Inl err \<Rightarrow> Some self
               | Inr master \<Rightarrow>
                   if master \<noteq> iq_From req then Some self
                   else if dc_curConsensusTurn (ct_dc self) < iq_ConsensusTurn req
                   then Some (self\<lparr>ct_mp := SaveInquiryReqMsg (ct_mp self) (Some req)\<rparr>)
                   else if iq_ConsensusTurn req = dc_curConsensusTurn (ct_dc self) then
                     (case ct_State self of
                        stMining \<Rightarrow>
                          Some (sendInquiryRspWithPOS (InquiryHash (ce_rlpHash e) req) (iq_From req) (iq_Number req) self)
                      | stReelect \<Rightarrow>
                          if iq_ReelectTurn req \<noteq> dc_curReelectTurn (ct_dc self) then Some self
                          else sendInquiryRspWithAgree e (InquiryHash (ce_rlpHash e) req) (iq_From req) (iq_Number req) self
                      | _ \<Rightarrow> Some self)
                   else
                     Some (sendInquiryRspWithRLConsensus e (InquiryHash (ce_rlpHash e) req) (iq_From req)
                       (iq_Number req) self))))"

definition handleInquiryRsp ::
  "ctrl_env \<Rightarrow> int \<Rightarrow> HD_ReelectInquiryRspMsg option \<Rightarrow> controller \<Rightarrow> controller option" where
  "handleInquiryRsp e now msg self =
    (case msg of
       None \<Rightarrow> None
     | Some rsp \<Rightarrow>
         if InquiryResult (ct_selfCache self) \<noteq> ReelectRSPTypeNone then Some self
         else
           (case CheckInquiryRspMsg (ct_selfCache self) (Some rsp) of
              Some err \<Rightarrow> Some self
            | None \<Rightarrow>
                if ir_Type rsp = ReelectRSPTypeNewBlockReady
                then processNewBlockReadyRsp e (ir_NewBlock rsp) (ir_From rsp) self
                else if ir_Type rsp = ReelectRSPTypePOS \<or> ir_Type rsp = ReelectRSPTypeAlreadyRL then
                  (case SetInquiryResultNotAgree (ce_self e) (ct_selfCache self) (ir_Type rsp) rsp of
                     (cache, Some err) \<Rightarrow> Some (set_cache cache self)
                   | (cache, None) \<Rightarrow> sendResultBroadcastMsg e now (set_cache cache self))
                else if ir_Type rsp = ReelectRSPTypeAgree then
                  (case SaveInquiryAgreeSign (ce_crypto e) (ct_selfCache self) (ir_ReqHash rsp) (ir_AgreeSign rsp) (ir_From rsp) of
                     None \<Rightarrow> None
                   | Some (cache, Some err) \<Rightarrow> Some (set_cache cache self)
                   | Some (cache, None) \<Rightarrow>
                       (let self = set_cache cache self
                        in case ctrl_VerifySigns e self (GetInquiryAgreeSigns (ce_range e) cache) of
                             Inl err \<Rightarrow> Some self
                           | Inr rightSigns \<Rightarrow>
                               (case SetInquiryResultAgree cache rightSigns of
                                  (cache, Some err) \<Rightarrow> Some (set_cache cache self)
                                | (cache, None) \<Rightarrow> sendRLReq e now (set_cache cache self))))
                else Some self))"

definition checkRLReqMsg ::
  "ctrl_env \<Rightarrow> HD_ReelectLeaderReqMsg option \<Rightarrow> controller \<Rightarrow> lr_error option option" where
  "checkRLReqMsg e msg self =
    (case msg of
       None \<Rightarrow> Some (Some ErrMsgIsNil)
     | Some req \<Rightarrow>
         (case lq_InquiryReq req of
            None \<Rightarrow> Some (Some ErrMsgIsNil)
          | Some inquiry \<Rightarrow>
              if iq_ConsensusTurn inquiry \<noteq> dc_curConsensusTurn (ct_dc self) then Some (Some (ErrCheck ''consensus turn''))
              else if iq_ReelectTurn inquiry \<noteq> dc_curReelectTurn (ct_dc self) then Some (Some (ErrCheck ''reelect turn''))
              else if iq_Master inquiry \<noteq> iq_From inquiry then Some (Some (ErrCheck ''from''))
              else if iq_Master inquiry \<noteq> GetReelectMaster (ct_dc self) then Some (Some (ErrCheck ''master''))
              else if lq_TimeStamp req < iq_TimeStamp inquiry then Some (Some ErrTimeSpan)
              else
                (case ctrl_VerifyHash e self (InquiryHash (ce_rlpHash e) inquiry) (lq_AgreeSigns req) of
                   Inl err \<Rightarrow> if err = DposPanic then None else Some (Some (ErrDpos err))
                 | Inr _ \<Rightarrow> Some None)))"

text \<open>The log line at the start of \<open>handleRLReq\<close> already looks into the inquiry of the request.\<close>

definition handleRLReq ::
  "ctrl_env \<Rightarrow> HD_ReelectLeaderReqMsg option \<Rightarrow> controller \<Rightarrow> controller option" where
  "handleRLReq e msg self =
    (case msg of
       None \<Rightarrow> None
     | Some req \<Rightarrow>
         (case lq_InquiryReq req of
            None \<Rightarrow> None
          | Some inquiry \<Rightarrow>
              if ct_State self \<noteq> stReelect then Some self
              else
                (case checkRLReqMsg e (Some req) self of
                   None \<Rightarrow> None
                 | Some (Some err) \<Rightarrow> Some self
                 | Some None \<Rightarrow>
                     (let h = LeaderReqHash (ce_rlpHash e) req
                      in case SignHashWithValidate (ce_signHelper e) h True of
                           None \<Rightarrow> None
                         | Some None \<Rightarrow> Some self
                         | Some (Some sign) \<Rightarrow>
                             Some (emit (SendRLVote \<lparr>lv_Vote = \<lparr>cv_SignHash = h,
                                 cv_Round = ucast (dc_curReelectTurn (ct_dc self) + dc_curConsensusTurn (ct_dc self)),
                                 cv_Sign = sign, cv_From = 0\<rparr>, lv_Number = dc_number (ct_dc self)\<rparr>
                               (iq_From inquiry)) self)))))"

definition handleRLVote ::
  "ctrl_env \<Rightarrow> int \<Rightarrow> int \<Rightarrow> HD_ReelectLeaderVoteMsg option \<Rightarrow> controller \<Rightarrow> controller option" where
  "handleRLVote e now now' msg self =
    (case msg of
       None \<Rightarrow> Some self
     | Some m \<Rightarrow>
         (case SaveRLVote (ce_crypto e) (ct_selfCache self) (cv_SignHash (lv_Vote m)) (cv_Sign (lv_Vote m)) (cv_From (lv_Vote m)) of
            None \<Rightarrow> None
          | Some (cache, Some err) \<Rightarrow> Some (set_cache cache self)
          | Some (cache, None) \<Rightarrow>
              (let self = set_cache cache self
               in case ctrl_VerifySigns e self (GetRLSigns (ce_range e) cache) of
                    Inl err \<Rightarrow> Some self
                  | Inr rightSigns \<Rightarrow>
                      (case SetRLResultBroadcastSuccess (ce_self e) now cache rightSigns of
                         (cache, Some err) \<Rightarrow> Some (set_cache cache self)
                       | (cache, None) \<Rightarrow> sendResultBroadcastMsg e now' (set_cache cache self)))))"

definition handleResultBroadcastMsg ::
  "ctrl_env \<Rightarrow> int \<Rightarrow> int \<Rightarrow> HD_ReelectResultBroadcastMsg option \<Rightarrow> controller \<Rightarrow> controller option" where
  "handleResultBroadcastMsg e now now' msg self =
    (case msg of
       None \<Rightarrow> Some self
     | Some m \<Rightarrow>
         (case processResultBroadcastMsg e now now' (Some m) self of
            None \<Rightarrow> None
          | Some (self, Some err) \<Rightarrow> Some self
          | Some (self, None) \<Rightarrow> sendResultBroadcastRsp e m self))"

definition handleResultRsp ::
  "ctrl_env \<Rightarrow> int \<Rightarrow> int \<Rightarrow> HD_ReelectResultRspMsg option \<Rightarrow> controller \<Rightarrow> controller option" where
  "handleResultRsp e now now' msg self =
    (case msg of
       None \<Rightarrow> Some self
     | Some rsp \<Rightarrow>
         (case SaveResultRsp (ce_crypto e) (ct_selfCache self) (rr_ResultHash rsp) (rr_Sign rsp) (rr_From rsp) of
            None \<Rightarrow> None
          | Some (cache, Some err) \<Rightarrow> Some (set_cache cache self)
          | Some (cache, None) \<Rightarrow>
              (let self = set_cache cache self
               in case ctrl_VerifySigns e self (GetResultRspSigns (ce_range e) cache) of
                    Inl err \<Rightarrow> Some self
                  | Inr _ \<Rightarrow>
                      (case GetLocalResultMsg cache of
                         Inl err \<Rightarrow> Some self
                       | Inr resultMsg \<Rightarrow>
                           map_option fst (processResultBroadcastMsg e now now' (Some resultMsg) self)))))"

definition handleMsg :: "ctrl_env \<Rightarrow> int \<Rightarrow> int \<Rightarrow> ctrl_msg \<Rightarrow> controller \<Rightarrow> controller option" where
  "handleMsg e now now' data self =
    (case data of
       MsgNil \<Rightarrow> Some self
     | MsgStart msg \<Rightarrow> handleStartMsg e now now' msg self
     | MsgPOSFinished msg \<Rightarrow> handleBlockPOSFinishedNotify msg self
     | MsgInquiryReq msg \<Rightarrow> handleInquiryReq e msg self
     | MsgInquiryRsp msg \<Rightarrow> handleInquiryRsp e now msg self
     | MsgRLReq msg \<Rightarrow> handleRLReq e msg self
     | MsgRLVote msg \<Rightarrow> handleRLVote e now now' msg self
     | MsgResultBroadcast msg \<Rightarrow> handleResultBroadcastMsg e now now' msg self
     | MsgResultRsp msg \<Rightarrow> handleResultRsp e now now' msg self
     | MsgNewBlockReadyRsp msg \<Rightarrow>
         (case msg of None \<Rightarrow> None
          | Some m \<Rightarrow> Some (sendInquiryRspWithNewBlockReady (sn_repHash m) (sn_target m) (sn_rspNumber m) self))
     | MsgUnknown \<Rightarrow> Some self)"

section \<open>The select loop\<close>

text \<open>A message is taken from the channel, or a timer that is running fires. A timer that has fired is
  stopped until it is set again.\<close>

inductive ctrl_step :: "ctrl_env \<Rightarrow> controller \<Rightarrow> controller \<Rightarrow> bool" for e where
  message: "handleMsg e now now' m c = Some c' \<Longrightarrow> ctrl_step e c c'"
| timer: "ct_timer c = Some t \<Longrightarrow> timeOutHandle e now now' (c\<lparr>ct_timer := None\<rparr>) = Some c' \<Longrightarrow> ctrl_step e c c'"
| reelect_timer: "ct_reelectTimer c = Some t \<Longrightarrow>
    reelectTimeOutHandle e now (c\<lparr>ct_reelectTimer := None\<rparr>) = Some c' \<Longrightarrow> ctrl_step e c c'"

inductive ctrl_reachable :: "ctrl_env \<Rightarrow> u64 \<Rightarrow> controller \<Rightarrow> bool" for e n where
  start: "ctrl_reachable e n (newController n)"
| step: "ctrl_reachable e n c \<Longrightarrow> ctrl_step e c c' \<Longrightarrow> ctrl_reachable e n c'"

end
