(* ===== verification/Reelect_Safety.thy ===== *)
theory Reelect_Safety
  imports Reelect_Ctrl
begin

text \<open>
  What the controller of the leader election keeps: the invariant of its parts, the evidence it asks for
  before it changes its turn or leaves the re-election, and when it panics.
\<close>

section \<open>Frames\<close>

lemma ctrl_update_simps [simp]:
  "ct_dc (emit m c) = ct_dc c" "ct_mp (emit m c) = ct_mp c" "ct_selfCache (emit m c) = ct_selfCache c"
  "ct_timer (emit m c) = ct_timer c" "ct_reelectTimer (emit m c) = ct_reelectTimer c"
  "ct_dc (set_dc dc c) = dc" "ct_mp (set_dc dc c) = ct_mp c" "ct_selfCache (set_dc dc c) = ct_selfCache c"
  "ct_timer (set_dc dc c) = ct_timer c" "ct_reelectTimer (set_dc dc c) = ct_reelectTimer c"
  "ct_dc (set_cache s c) = ct_dc c" "ct_mp (set_cache s c) = ct_mp c" "ct_selfCache (set_cache s c) = s"
  "ct_timer (set_cache s c) = ct_timer c" "ct_reelectTimer (set_cache s c) = ct_reelectTimer c"
  "ct_dc (set_state st c) = (ct_dc c)\<lparr>dc_state := st\<rparr>" "ct_mp (set_state st c) = ct_mp c"
  "ct_selfCache (set_state st c) = ct_selfCache c"
  "ct_timer (set_state st c) = ct_timer c" "ct_reelectTimer (set_state st c) = ct_reelectTimer c"
  "ct_dc (setTimer t c) = ct_dc c" "ct_mp (setTimer t c) = ct_mp c" "ct_selfCache (setTimer t c) = ct_selfCache c"
  "ct_timer (setTimer t c) = timer_value t" "ct_reelectTimer (setTimer t c) = ct_reelectTimer c"
  "ct_dc (setReelectTimer t c) = ct_dc c" "ct_mp (setReelectTimer t c) = ct_mp c"
  "ct_selfCache (setReelectTimer t c) = ct_selfCache c"
  "ct_timer (setReelectTimer t c) = ct_timer c" "ct_reelectTimer (setReelectTimer t c) = timer_value t"
  by (simp_all add: emit_def set_dc_def set_cache_def set_state_def setTimer_def setReelectTimer_def)

lemma sendLeaderMsg_simps [simp]:
  "ct_dc (sendLeaderMsg e c) = ct_dc c" "ct_mp (sendLeaderMsg e c) = ct_mp c"
  "ct_selfCache (sendLeaderMsg e c) = ct_selfCache c" "ct_timer (sendLeaderMsg e c) = ct_timer c"
  "ct_reelectTimer (sendLeaderMsg e c) = ct_reelectTimer c"
  by (simp_all add: sendLeaderMsg_def split: sum.splits)

lemma sendRsp_simps [simp]:
  "ct_dc (sendInquiryRspWithPOS h a n c) = ct_dc c" "ct_mp (sendInquiryRspWithPOS h a n c) = ct_mp c"
  "ct_selfCache (sendInquiryRspWithPOS h a n c) = ct_selfCache c"
  "ct_dc (sendInquiryRspWithRLConsensus e h a n c) = ct_dc c"
  "ct_mp (sendInquiryRspWithRLConsensus e h a n c) = ct_mp c"
  "ct_selfCache (sendInquiryRspWithRLConsensus e h a n c) = ct_selfCache c"
  "ct_dc (sendInquiryRspWithNewBlockReady h a n c) = ct_dc c"
  "ct_mp (sendInquiryRspWithNewBlockReady h a n c) = ct_mp c"
  "ct_selfCache (sendInquiryRspWithNewBlockReady h a n c) = ct_selfCache c"
  by (simp_all add: sendInquiryRspWithPOS_def sendInquiryRspWithRLConsensus_def
      sendInquiryRspWithNewBlockReady_def split: sum.splits option.splits)

section \<open>The controller's invariant\<close>

text \<open>The stored leader and master are those of the current turns.\<close>

definition leaders_ok :: "address \<Rightarrow> cdc \<Rightarrow> bool" where
  "leaders_ok bn dc \<longleftrightarrow>
    (\<forall>a. dc_GetLeader bn dc (dc_curConsensusTurn dc) = Inr a \<longrightarrow> a = dc_consensusLeader dc) \<and>
    (dc_curReelectTurn dc \<noteq> 0 \<longrightarrow>
      (\<forall>a. dc_GetLeader bn dc (dc_curConsensusTurn dc + dc_curReelectTurn dc) = Inr a \<longrightarrow> a = dc_reelectMaster dc))"

definition ctrl_ok :: "ctrl_env \<Rightarrow> controller \<Rightarrow> bool" where
  "ctrl_ok e c \<longleftrightarrow> mc_ok (ce_crypto e) (ct_selfCache c) \<and> leaders_ok (ce_bn e) (ct_dc c) \<and>
    msgpool_ok (ct_mp c) \<and> mp_rlConsensusCache (ct_mp c) = []"

text \<open>Signing an agreement does not panic: \<open>crypto.SignWithValidate\<close> computes the successor of the
  hash for disagreeing votes only.\<close>

definition signer_ok :: "ctrl_env \<Rightarrow> bool" where
  "signer_ok e \<longleftrightarrow> (\<forall>h. SignHashWithValidate (ce_signHelper e) h True \<noteq> None)"

lemma signer_ok_sign: "signer_ok e \<Longrightarrow> \<exists>s. SignHashWithValidate (ce_signHelper e) h True = Some s"
  by (auto simp: signer_ok_def)

text \<open>What the sending functions do to a controller: they touch the cache and the outbox only.\<close>

definition sent :: "ctrl_env \<Rightarrow> controller \<Rightarrow> controller \<Rightarrow> bool" where
  "sent e c c' \<longleftrightarrow> ct_dc c' = ct_dc c \<and> ct_mp c' = ct_mp c \<and> ct_timer c' = ct_timer c \<and>
    ct_reelectTimer c' = ct_reelectTimer c \<and> mc_ok (ce_crypto e) (ct_selfCache c')"

lemma sign_and_save_sent:
  assumes "signer_ok e" "mc_ok (ce_crypto e) cache"
    and save: "\<And>sign. \<exists>c' err. save sign = Some (c', err) \<and> mc_ok (ce_crypto e) c'"
  shows "\<exists>c'. (case SignHashWithValidate (ce_signHelper e) h True of
      None \<Rightarrow> None
    | Some None \<Rightarrow> Some (set_cache cache c)
    | Some (Some sign) \<Rightarrow>
        (case save sign of
           None \<Rightarrow> None
         | Some (cache', Some (err :: lr_error)) \<Rightarrow> Some (set_cache cache' (set_cache cache c))
         | Some (cache', None) \<Rightarrow> Some (emit m (set_cache cache' (set_cache cache c))))) = Some c' \<and>
    sent e c c'"
proof -
  obtain s where s: "SignHashWithValidate (ce_signHelper e) h True = Some s"
    using signer_ok_sign [OF assms(1)] by blast
  show ?thesis
  proof (cases s)
    case None
    then show ?thesis using s assms(2) by (simp add: sent_def)
  next
    case (Some sign)
    obtain c' err where "save sign = Some (c', err)" "mc_ok (ce_crypto e) c'" using save by blast
    then show ?thesis using s Some by (cases err) (simp_all add: sent_def)
  qed
qed

lemma sendInquiryReq_sent:
  assumes "signer_ok e" "mc_ok (ce_crypto e) (ct_selfCache c)"
  shows "\<exists>c'. sendInquiryReq e now c = Some c' \<and> sent e c c'"
proof -
  let ?dc = "ct_dc c"
  let ?req = "\<lparr>iq_Number = dc_number ?dc, iq_ConsensusTurn = dc_curConsensusTurn ?dc,
    iq_ReelectTurn = dc_curReelectTurn ?dc, iq_TimeStamp = now, iq_Master = ce_self e, iq_From = ce_self e\<rparr>"
  obtain cache h where set: "SetInquiryReq (ce_rlpHash e) (ct_selfCache c) (Some ?req) = (cache, h)"
    by fastforce
  have h: "h = InquiryHash (ce_rlpHash e) ?req" "mc_inquiryHash cache = h"
    using set by (auto simp: SetInquiryReq_def Let_def)
  have ok: "mc_ok (ce_crypto e) cache" using SetInquiryReq_ok [OF assms(2)] set by (metis fst_conv)
  have "\<exists>c' err. SaveInquiryAgreeSign (ce_crypto e) cache h sign (ce_self e) = Some (c', err) \<and>
      mc_ok (ce_crypto e) c'" for sign
    using SaveInquiryAgreeSign_ok [OF ok, of sign "ce_self e"] h by auto
  from sign_and_save_sent [OF assms(1) ok this] show ?thesis by (simp add: sendInquiryReq_def Let_def set)
qed

lemma sendRLReq_sent:
  assumes "signer_ok e" "mc_ok (ce_crypto e) (ct_selfCache c)"
  shows "\<exists>c'. sendRLReq e now c = Some c' \<and> sent e c c'"
proof -
  obtain cache r where get: "GetRLReqMsg (ce_rlpHash e) now (ct_selfCache c) = Some (cache, r)"
    and ok: "mc_ok (ce_crypto e) cache"
    using GetRLReqMsg_ok [OF assms(2)] by blast
  show ?thesis
  proof (cases r)
    case (Inl err)
    then show ?thesis using get ok by (simp add: sendRLReq_def sent_def)
  next
    case (Inr qh)
    obtain req h where qh: "qh = (req, h)" by fastforce
    have "\<exists>c' err. SaveRLVote (ce_crypto e) cache h sign (ce_self e) = Some (c', err) \<and>
        mc_ok (ce_crypto e) c'" for sign
      by (rule SaveRLVote_ok [OF ok])
    from sign_and_save_sent [OF assms(1) ok this] show ?thesis
      by (simp add: sendRLReq_def Let_def get Inr qh)
  qed
qed

lemma sendResultBroadcastMsg_sent:
  assumes "signer_ok e" "mc_ok (ce_crypto e) (ct_selfCache c)"
  shows "\<exists>c'. sendResultBroadcastMsg e now c = Some c' \<and> sent e c c'"
proof -
  obtain cache r where get: "GetResultBroadcastMsg (ce_rlpHash e) now (ct_selfCache c) = (cache, r)" by fastforce
  have ok: "mc_ok (ce_crypto e) cache"
    using GetResultBroadcastMsg_ok [OF assms(2), of "ce_rlpHash e" now] get by simp
  show ?thesis
  proof (cases r)
    case (Inl err)
    then show ?thesis using get ok by (simp add: sendResultBroadcastMsg_def sent_def)
  next
    case (Inr mh)
    obtain msg h where mh: "mh = (msg, h)" by fastforce
    have "\<exists>c' err. SaveResultRsp (ce_crypto e) cache h sign (ce_self e) = Some (c', err) \<and>
        mc_ok (ce_crypto e) c'" for sign
      by (rule SaveResultRsp_ok [OF ok])
    from sign_and_save_sent [OF assms(1) ok this] show ?thesis
      by (simp add: sendResultBroadcastMsg_def Let_def get Inr mh)
  qed
qed

section \<open>Turns and leaders\<close>

lemma leaders_ok_frame [frame_simps]:
  "leaders_ok bn (dc\<lparr>dc_state := st\<rparr>) = leaders_ok bn dc"
  "leaders_ok bn (dc\<lparr>dc_turnTime := tt\<rparr>) = leaders_ok bn dc"
  by (simp_all add: leaders_ok_def frame_simps)

lemma leaders_ok_reset: "leaders_ok bn dc \<Longrightarrow> leaders_ok bn (dc\<lparr>dc_curReelectTurn := 0\<rparr>)"
  by (simp add: leaders_ok_def frame_simps)

lemma SetReelectTurn_ok:
  "leaders_ok bn dc \<Longrightarrow> leaders_ok bn (fst (SetReelectTurn bn dc t))"
  by (auto simp: leaders_ok_def SetReelectTurn_def frame_simps split: sum.splits)

lemma SetReelectTurn_frame [simp]:
  "dc_number (fst (SetReelectTurn bn dc t)) = dc_number dc"
  "dc_state (fst (SetReelectTurn bn dc t)) = dc_state dc"
  "dc_curConsensusTurn (fst (SetReelectTurn bn dc t)) = dc_curConsensusTurn dc"
  "dc_turnTime (fst (SetReelectTurn bn dc t)) = dc_turnTime dc"
  "dc_leaderCal (fst (SetReelectTurn bn dc t)) = dc_leaderCal dc"
  by (auto simp: SetReelectTurn_def split: sum.splits)

lemma SetConsensusTurn_ok:
  "leaders_ok bn dc \<Longrightarrow> leaders_ok bn (fst (SetConsensusTurn bn dc t))"
  by (auto simp: leaders_ok_def SetConsensusTurn_def frame_simps split: sum.splits)

lemma dc_SetValidators_ok:
  assumes "leaders_ok bn dc" "dc_SetValidators bn chain dc a vs = (dc', err)"
  shows "leaders_ok bn dc' \<and> dc_number dc' = dc_number dc \<and> dc_curConsensusTurn dc' = dc_curConsensusTurn dc \<and>
    dc_turnTime dc' = dc_turnTime dc \<and> dc_state dc' = dc_state dc"
proof -
  obtain lc r where lc: "lc_SetValidators chain (dc_number dc) (dc_leaderCal dc) a vs = (lc, r)" by fastforce
  show ?thesis
  proof (cases r)
    case (Some e)
    then have "lc = dc_leaderCal dc"
      using lc by (auto simp: lc_SetValidators_def Let_def split: option.splits sum.splits)
    then show ?thesis using assms lc Some by (auto simp: dc_SetValidators_def)
  next
    case None
    let ?dc = "dc\<lparr>dc_leaderCal := lc\<rparr>"
    have same: "(\<exists>a. dc_GetLeader bn ?dc t = Inr a) \<longleftrightarrow> (\<exists>a. dc_GetLeader bn ?dc t' = Inr a)" for t t'
      by (simp add: dc_GetLeader_def lc_GetLeader_def Let_def)
    show ?thesis
    proof (cases "dc_GetLeader bn ?dc (dc_curConsensusTurn dc)")
      case (Inl e)
      then have "dc_GetLeader bn ?dc t \<noteq> Inr x" for t x using same [of t "dc_curConsensusTurn dc"] by auto
      then show ?thesis using assms(2) lc None Inl by (auto simp: dc_SetValidators_def leaders_ok_def)
    next
      case (Inr l)
      then show ?thesis using assms(2) lc None same [of "dc_curConsensusTurn dc" "dc_curConsensusTurn dc + dc_curReelectTurn dc"]
        by (auto simp: dc_SetValidators_def leaders_ok_def frame_simps Let_def split: if_splits sum.splits)
    qed
  qed
qed

section \<open>What the handlers keep\<close>

text \<open>A change of a controller that keeps the invariant and the number, and that reaches the mining
  state only with a POS notification in the pool.\<close>

definition moved :: "ctrl_env \<Rightarrow> controller \<Rightarrow> controller \<Rightarrow> bool" where
  "moved e c c' \<longleftrightarrow> ctrl_ok e c' \<and> dc_number (ct_dc c') = dc_number (ct_dc c) \<and>
    (mp_posNotifyCache (ct_mp c) \<noteq> [] \<longrightarrow> mp_posNotifyCache (ct_mp c') \<noteq> []) \<and>
    (ct_State c' = stMining \<longrightarrow> ct_State c = stMining \<or> mp_posNotifyCache (ct_mp c') \<noteq> [])"

text \<open>A change that also keeps the consensus turn.\<close>

definition kept :: "ctrl_env \<Rightarrow> controller \<Rightarrow> controller \<Rightarrow> bool" where
  "kept e c c' \<longleftrightarrow> moved e c c' \<and> ct_ConsensusTurn c' = ct_ConsensusTurn c"

lemma kept_refl: "ctrl_ok e c \<Longrightarrow> kept e c c"
  by (simp add: kept_def moved_def)

lemma moved_trans: "moved e a b \<Longrightarrow> moved e b c \<Longrightarrow> moved e a c"
  by (auto simp: moved_def)

lemma kept_trans: "kept e a b \<Longrightarrow> kept e b c \<Longrightarrow> kept e a c"
  by (auto simp: kept_def intro: moved_trans)

lemma moved_kept: "moved e a b \<Longrightarrow> kept e b c \<Longrightarrow> moved e a c"
  by (auto simp: kept_def intro: moved_trans)

lemma kept_ok: "kept e c c' \<Longrightarrow> ctrl_ok e c'"
  by (simp add: kept_def moved_def)

lemma sent_kept: "ctrl_ok e c \<Longrightarrow> sent e c c' \<Longrightarrow> kept e c c'"
  by (simp add: kept_def moved_def sent_def ctrl_ok_def ct_State_def ct_ConsensusTurn_def)

lemma kept_same:
  assumes "ctrl_ok e c" "ct_dc c' = ct_dc c" "ct_mp c' = ct_mp c" "mc_ok (ce_crypto e) (ct_selfCache c')"
  shows "kept e c c'"
  using assms by (simp add: kept_def moved_def ctrl_ok_def ct_State_def ct_ConsensusTurn_def)

lemma ctrl_ok_cache: "ctrl_ok e c \<Longrightarrow> mc_ok (ce_crypto e) (ct_selfCache c)"
  by (simp add: ctrl_ok_def)

lemma kept_leader_msg: "kept e c c' \<Longrightarrow> kept e c (sendLeaderMsg e c')"
  by (simp add: kept_def moved_def ctrl_ok_def ct_State_def ct_ConsensusTurn_def)

lemma moved_leader_msg: "moved e c c' \<Longrightarrow> moved e c (sendLeaderMsg e c')"
  by (simp add: moved_def ctrl_ok_def ct_State_def)

lemma processPOSState_kept: "ctrl_ok e c \<Longrightarrow> kept e c (processPOSState c)"
  by (auto simp: kept_def moved_def processPOSState_def ctrl_ok_def ct_State_def ct_ConsensusTurn_def
      frame_simps GetPOSNotifyMsg_def pos_lookup_eq split: sum.splits list.splits)

text \<open>Functions that always return, with a result that stands in a relation to the controller.\<close>

definition returns :: "(controller \<Rightarrow> bool) \<Rightarrow> controller option \<Rightarrow> bool" where
  "returns P r \<longleftrightarrow> (\<exists>c'. r = Some c' \<and> P c')"

lemma returnsI: "P c \<Longrightarrow> returns P (Some c)"
  by (simp add: returns_def)

lemma returns_mono: "returns P r \<Longrightarrow> (\<And>c. P c \<Longrightarrow> Q c) \<Longrightarrow> returns Q r"
  by (auto simp: returns_def)

lemma returns_map: "returns (\<lambda>c. P (f c)) r \<Longrightarrow> returns P (map_option f r)"
  by (auto simp: returns_def)

lemma sends_kept:
  assumes "signer_ok e" "ctrl_ok e c"
  shows "returns (kept e c) (sendInquiryReq e now c)"
    and "returns (kept e c) (sendRLReq e now c)"
    and "returns (kept e c) (sendResultBroadcastMsg e now c)"
  using sendInquiryReq_sent [OF assms(1) ctrl_ok_cache [OF assms(2)]]
    sendRLReq_sent [OF assms(1) ctrl_ok_cache [OF assms(2)]]
    sendResultBroadcastMsg_sent [OF assms(1) ctrl_ok_cache [OF assms(2)]] sent_kept [OF assms(2)]
  unfolding returns_def by blast+

lemma startReelect_kept:
  assumes "signer_ok e" "ctrl_ok e c"
  shows "returns (kept e c) (startReelect e now t c)"
proof (cases "ct_State c \<noteq> stReelect \<or> dc_curReelectTurn (ct_dc c) = t")
  case True
  then show ?thesis using kept_refl [OF assms(2)] by (auto simp: startReelect_def intro: returnsI)
next
  case False
  obtain dc err where set: "SetReelectTurn (ce_bn e) (ct_dc c) t = (dc, err)" by fastforce
  have dc: "dc = fst (SetReelectTurn (ce_bn e) (ct_dc c) t)" by (simp add: set)
  have k: "kept e c (set_dc dc c)" "kept e c (setReelectTimer i (set_dc dc c))" for i
    using assms(2) SetReelectTurn_ok [of "ce_bn e" "ct_dc c" t]
    by (simp_all add: kept_def moved_def ctrl_ok_def ct_State_def ct_ConsensusTurn_def dc)
  show ?thesis
  proof (cases err)
    case (Some x)
    then show ?thesis using False set k(1) by (simp add: startReelect_def returns_def)
  next
    case None
    have "returns (kept e c) (sendInquiryReq e now (setReelectTimer LRSReelectInterval (set_dc dc c)))"
      by (rule returns_mono [OF sends_kept(1) [OF assms(1) kept_ok [OF k(2)]]]) (rule kept_trans [OF k(2)])
    then have "returns (kept e c) (if GetReelectMaster dc = ce_self e
        then sendInquiryReq e now (setReelectTimer LRSReelectInterval (set_dc dc c))
        else Some (setReelectTimer 0 (set_dc dc c)))"
      using k(2) by (simp add: returnsI)
    then have "returns (kept e c) (map_option (sendLeaderMsg e) (if GetReelectMaster dc = ce_self e
        then sendInquiryReq e now (setReelectTimer LRSReelectInterval (set_dc dc c))
        else Some (setReelectTimer 0 (set_dc dc c))))"
      by (intro returns_map) (erule returns_mono, rule kept_leader_msg)
    then show ?thesis using False set None by (simp add: startReelect_def Let_def)
  qed
qed

lemma enter_state_kept:
  assumes "signer_ok e" "ctrl_ok e c" "fst cal \<noteq> stMining"
  shows "returns (kept e c) (enter_state e now' cal c)"
proof -
  obtain st t rt where cal: "cal = (st, t, rt)" by (cases cal)
  let ?c = "setTimer t (set_dc ((ct_dc c)\<lparr>dc_state := st, dc_curReelectTurn := 0\<rparr>) c)"
  have k: "kept e c ?c"
    using assms(2,3) leaders_ok_reset [of "ce_bn e" "(ct_dc c)\<lparr>dc_state := st\<rparr>"]
    by (simp add: cal kept_def moved_def ctrl_ok_def ct_State_def ct_ConsensusTurn_def frame_simps)
  have "returns (kept e c) (startReelect e now' rt ?c)"
    by (rule returns_mono [OF startReelect_kept [OF assms(1) kept_ok [OF k]]]) (rule kept_trans [OF k])
  then show ?thesis
    using k kept_trans [OF k processPOSState_kept [OF kept_ok [OF k]]]
    by (auto simp: enter_state_def cal Let_def returns_def)
qed

lemma finishReelectWithPOS_ok:
  assumes "ctrl_ok e c"
  shows "ctrl_ok e (finishReelectWithPOS e h a c) \<and>
    ct_State (finishReelectWithPOS e h a c) = stMining \<and>
    ct_ConsensusTurn (finishReelectWithPOS e h a c) = ct_ConsensusTurn c \<and>
    dc_number (ct_dc (finishReelectWithPOS e h a c)) = dc_number (ct_dc c) \<and>
    ct_mp (finishReelectWithPOS e h a c) = ct_mp c"
  using assms
  by (simp add: finishReelectWithPOS_def Let_def ctrl_ok_def ct_State_def ct_ConsensusTurn_def frame_simps
      ClearSelfInquiryMsg_ok SetReelectTurn_ok)

lemma CalState_not_mining [simp]: "fst (CalState tt t now) \<noteq> stMining"
  by (simp add: CalState_def Let_def)

lemma finishReelectWithRLConsensus_moved:
  assumes "signer_ok e" "ctrl_ok e c"
  shows "returns (\<lambda>c'. moved e c c' \<and> ct_ConsensusTurn c' =
      (case dc_GetLeader (ce_bn e) (ct_dc c) (iq_ConsensusTurn i + iq_ReelectTurn i) of
         Inl _ \<Rightarrow> ct_ConsensusTurn c | Inr _ \<Rightarrow> iq_ConsensusTurn i + iq_ReelectTurn i))
    (finishReelectWithRLConsensus e now now' req i c)"
proof -
  let ?t = "iq_ConsensusTurn i + iq_ReelectTurn i"
  obtain dc err where set: "SetConsensusTurn (ce_bn e) (ct_dc c) ?t = (dc, err)" by fastforce
  have dc: "leaders_ok (ce_bn e) dc" "dc_number dc = dc_number (ct_dc c)" "dc_state dc = dc_state (ct_dc c)"
    "dc_curConsensusTurn dc = (if err = None then ?t else ct_ConsensusTurn c)"
    "err = None \<longleftrightarrow> (\<exists>l. dc_GetLeader (ce_bn e) (ct_dc c) ?t = Inr l)"
    using set assms(2) SetConsensusTurn_ok [of "ce_bn e" "ct_dc c" ?t]
    by (auto simp: SetConsensusTurn_def ctrl_ok_def ct_ConsensusTurn_def split: sum.splits)
  show ?thesis
  proof (cases err)
    case (Some x)
    have "finishReelectWithRLConsensus e now now' req i c = Some (set_dc dc c)"
      by (simp add: finishReelectWithRLConsensus_def set Some)
    then show ?thesis
      using dc assms(2) Some
      by (auto simp: returns_def moved_def ctrl_ok_def ct_State_def ct_ConsensusTurn_def split: sum.splits)
  next
    case None
    let ?tt = "fst (SetBeginTime (dc_turnTime dc) ?t (lq_TimeStamp req))"
    let ?c = "set_dc (dc\<lparr>dc_turnTime := ?tt\<rparr>)
      (set_cache (ClearSelfInquiryMsg (ct_selfCache c)) (setReelectTimer 0 (set_dc dc c)))"
    have m: "moved e c ?c" "ct_ConsensusTurn ?c = ?t"
      using dc None assms(2)
      by (simp_all add: moved_def ctrl_ok_def ct_State_def ct_ConsensusTurn_def frame_simps ClearSelfInquiryMsg_ok)
    have "returns (kept e ?c) (map_option (sendLeaderMsg e) (enter_state e now' (CalState ?tt ?t now) ?c))"
    proof (rule returns_map, rule returns_mono)
      show "returns (kept e ?c) (enter_state e now' (CalState ?tt ?t now) ?c)"
        by (rule enter_state_kept [OF assms(1)]) (use m(1) in \<open>simp_all add: moved_def\<close>)
    qed (rule kept_leader_msg)
    moreover have "finishReelectWithRLConsensus e now now' req i c =
        map_option (sendLeaderMsg e) (enter_state e now' (CalState ?tt ?t now) ?c)"
      by (simp add: finishReelectWithRLConsensus_def set None Let_def)
    ultimately have r: "returns (kept e ?c) (finishReelectWithRLConsensus e now now' req i c)" by simp
    show ?thesis
      by (rule returns_mono [OF r]) (use m dc(5) None moved_kept [OF m(1)] in \<open>auto simp: kept_def split: sum.splits\<close>)
  qed
qed

text \<open>The evidence of a POS result and of a re-election result.\<close>

definition pos_evidence :: "ctrl_env \<Rightarrow> controller \<Rightarrow> HD_ReelectResultBroadcastMsg \<Rightarrow> bool" where
  "pos_evidence e c m \<longleftrightarrow> rb_Type m = ReelectRSPTypePOS \<and>
    (\<exists>p h. rb_POSResult m = Some p \<and> bcr_Header p = Some h \<and> h_Leader h = GetConsensusLeader (ct_dc c) \<and>
      ctrl_VerifyBlock e c h = None)"

definition rl_evidence :: "ctrl_env \<Rightarrow> controller \<Rightarrow> HD_ReelectResultBroadcastMsg \<Rightarrow> u32 \<Rightarrow> bool" where
  "rl_evidence e c m turn \<longleftrightarrow> rb_Type m \<in> {ReelectRSPTypeAgree, ReelectRSPTypeAlreadyRL} \<and>
    (\<exists>k q i r. rb_RLResult m = Some k \<and> lk_Req k = Some q \<and> lq_InquiryReq q = Some i \<and>
      turn = iq_ConsensusTurn i + iq_ReelectTurn i \<and> ct_ConsensusTurn c \<le> turn \<and>
      lq_TimeStamp q \<le> lk_TimeStamp k \<and>
      ctrl_VerifyHash e c (LeaderReqHash (ce_rlpHash e) q) (lk_Votes k) = Inr r)"

text \<open>Every way a result message can be processed: refused without a change, a POS result that verifies,
  or a re-election result that verifies.\<close>

lemma process_pos:
  "rb_Type m = ReelectRSPTypePOS \<Longrightarrow> processResultBroadcastMsg e now now' (Some m) c =
    (case Option.bind (rb_POSResult m) bcr_Header of
       None \<Rightarrow> Some (c, Some ErrPOSResultIsNil)
     | Some h \<Rightarrow>
         if h_Leader h \<noteq> GetConsensusLeader (ct_dc c) then Some (c, Some (ErrCheck ''leader''))
         else (case ctrl_VerifyBlock e c h of
                 Some err \<Rightarrow> if err = DposPanic then None else Some (c, Some (ErrDpos err))
               | None \<Rightarrow> Some (finishReelectWithPOS e h (rb_From m) c, None)))"
  by (simp add: processResultBroadcastMsg_def)

lemma process_rl:
  "rb_Type m \<in> {ReelectRSPTypeAgree, ReelectRSPTypeAlreadyRL} \<Longrightarrow>
   processResultBroadcastMsg e now now' (Some m) c =
    (case rb_RLResult m of
       None \<Rightarrow> Some (c, Some ErrLeaderResultIsNil)
     | Some k \<Rightarrow>
         (case lk_Req k of None \<Rightarrow> None | Some q \<Rightarrow>
           (case lq_InquiryReq q of None \<Rightarrow> None | Some i \<Rightarrow>
             if iq_ConsensusTurn i + iq_ReelectTurn i < dc_curConsensusTurn (ct_dc c) then Some (c, Some (ErrCheck ''turn''))
             else if lk_TimeStamp k < lq_TimeStamp q then Some (c, Some ErrTimeSpan)
             else (case ctrl_VerifyHash e c (LeaderReqHash (ce_rlpHash e) q) (lk_Votes k) of
                     Inl err \<Rightarrow> if err = DposPanic then None else Some (c, Some (ErrDpos err))
                   | Inr _ \<Rightarrow> map_option (\<lambda>c. (c, None)) (finishReelectWithRLConsensus e now now' q i c)))))"
  by (elim insertE) (simp_all add: processResultBroadcastMsg_def)

lemma process_other:
  "rb_Type m \<notin> {ReelectRSPTypePOS, ReelectRSPTypeAgree, ReelectRSPTypeAlreadyRL} \<Longrightarrow>
   processResultBroadcastMsg e now now' (Some m) c = Some (c, Some (ErrCheck ''type''))"
  by (cases "rb_Type m") (simp_all add: processResultBroadcastMsg_def)

lemma processResult_cases:
  assumes "signer_ok e" "ctrl_ok e c" "processResultBroadcastMsg e now now' (Some m) c = Some (c', err)"
  shows "c' = c \<and> err \<noteq> None \<or>
    (\<exists>h. pos_evidence e c m \<and> c' = finishReelectWithPOS e h (rb_From m) c \<and> err = None) \<or>
    (\<exists>t. rl_evidence e c m t \<and> moved e c c' \<and> ct_ConsensusTurn c' \<in> {ct_ConsensusTurn c, t} \<and> err = None)"
proof -
  consider (pos) "rb_Type m = ReelectRSPTypePOS" | (rl) "rb_Type m \<in> {ReelectRSPTypeAgree, ReelectRSPTypeAlreadyRL}"
    | (other) "rb_Type m \<notin> {ReelectRSPTypePOS, ReelectRSPTypeAgree, ReelectRSPTypeAlreadyRL}" by blast
  then show ?thesis
  proof cases
    case pos
    show ?thesis using assms(3) unfolding process_pos [OF pos]
      by (auto simp: pos_evidence_def pos bind_eq_Some_conv split: option.split_asm if_split_asm)
  next
    case rl
    note eq = assms(3) [unfolded process_rl [OF rl]]
    show ?thesis
    proof (cases "rb_RLResult m")
      case None
      then have "c' = c \<and> err \<noteq> None" using eq by auto
      then show ?thesis by blast
    next
      case k: (Some k)
      obtain q where q: "lk_Req k = Some q" using eq k by (cases "lk_Req k") simp_all
      obtain i where i: "lq_InquiryReq q = Some i" using eq k q by (cases "lq_InquiryReq q") simp_all
      let ?t = "iq_ConsensusTurn i + iq_ReelectTurn i"
      show ?thesis
      proof (cases "?t < dc_curConsensusTurn (ct_dc c) \<or> lk_TimeStamp k < lq_TimeStamp q")
        case True
        then have "c' = c \<and> err \<noteq> None" using eq k q i by (auto split: if_split_asm)
        then show ?thesis by blast
      next
        case False
        show ?thesis
        proof (cases "ctrl_VerifyHash e c (LeaderReqHash (ce_rlpHash e) q) (lk_Votes k)")
          case (Inl err')
          then have "c' = c \<and> err \<noteq> None" using eq k q i False by (auto split: if_split_asm)
          then show ?thesis by blast
        next
          case (Inr r)
          have "rl_evidence e c m ?t"
            using rl k q i False Inr by (auto simp: rl_evidence_def ct_ConsensusTurn_def)
          moreover have f: "finishReelectWithRLConsensus e now now' q i c = Some c'" "err = None"
            using eq k q i False Inr by auto
          moreover have "moved e c c' \<and> ct_ConsensusTurn c' \<in> {ct_ConsensusTurn c, ?t}"
            using finishReelectWithRLConsensus_moved [OF assms(1,2), of i now now' q]
            unfolding returns_def f(1) by (auto split: sum.splits)
          ultimately show ?thesis by blast
        qed
      qed
    qed
  next
    case other
    then have "c' = c \<and> err \<noteq> None" using assms(3) by (auto simp: process_other)
    then show ?thesis by blast
  qed
qed

section \<open>Panics\<close>

lemma ctrl_VerifyHash_no_panic:
  "ctrl_VerifyHash e c (LeaderReqHash r q) signs \<noteq> Inl DposPanic"
  "ctrl_VerifyHash e c (InquiryHash r i) signs \<noteq> Inl DposPanic"
  unfolding ctrl_VerifyHash_def using VerifyHashWithNumber_panic reelect_hash_no_panic by blast+

section \<open>The handlers that keep the turn\<close>

lemma handleStartMsg_kept:
  assumes "signer_ok e" "ctrl_ok e c"
  shows "returns (kept e c) (handleStartMsg e now now' msg c)"
proof (cases "\<exists>m h. msg = Some m \<and> sc_parentHeader m = Some h")
  case False
  then show ?thesis using kept_refl [OF assms(2)] by (auto simp: handleStartMsg_def returns_def split: option.splits)
next
  case True
  then obtain m h where m: "msg = Some m" "sc_parentHeader m = Some h" by blast
  let ?save = "save_parent h"
  have save: "kept e c' (?save c')" if "ctrl_ok e c'" for c'
    using that SaveParentHeader_ok [of "ct_mp c'" "Some h"]
    by (simp add: save_parent_def kept_def moved_def ctrl_ok_def ct_State_def ct_ConsensusTurn_def SaveParentHeader_def)
  obtain dc err where set: "dc_SetValidators (ce_bn e) (ce_chain e) (ct_dc c) (h_Leader h) (sc_validators m) = (dc, err)"
    by fastforce
  have dc: "leaders_ok (ce_bn e) dc" "dc_number dc = dc_number (ct_dc c)"
    "dc_curConsensusTurn dc = dc_curConsensusTurn (ct_dc c)" "dc_state dc = dc_state (ct_dc c)"
    using dc_SetValidators_ok [OF _ set] assms(2) by (auto simp: ctrl_ok_def)
  have k: "kept e c (set_dc (dc\<lparr>dc_turnTime := tt\<rparr>) (set_dc dc c))" "kept e c (set_dc dc c)"
    "kept e c (set_state stIdle (set_dc dc c))" for tt
    using dc assms(2) by (simp_all add: kept_def moved_def ctrl_ok_def ct_State_def ct_ConsensusTurn_def frame_simps)
  obtain tt b where tt: "SetBeginTime (dc_turnTime dc) 0 (i64 (int (h_Time h))) = (tt, b)" by fastforce
  let ?c = "?save (set_dc (dc\<lparr>dc_turnTime := tt\<rparr>) (set_dc dc c))"
  have kc: "kept e c ?c" using k(1) by (rule kept_trans [OF _ save]) (rule kept_ok [OF k(1)])
  have enter: "returns (kept e c) (enter_state e now' (CalState tt 0 now) ?c)"
    by (rule returns_mono [OF enter_state_kept [OF assms(1) kept_ok [OF kc]]]) (simp_all add: kept_trans [OF kc])
  show ?thesis
  proof (cases "sc_role m \<noteq> RoleValidator \<or> err \<noteq> None")
    case True
    then show ?thesis using save [OF assms(2)] k(2) set
      by (auto simp: handleStartMsg_def m intro!: returnsI)
  next
    case role: False
    show ?thesis
    proof (cases "IsBroadcastNumber (dc_number dc)")
      case True
      have "kept e c (?save (sendLeaderMsg e (set_state stIdle (set_dc dc c))))"
        using kept_leader_msg [OF k(3)] by (rule kept_trans [OF _ save]) (rule kept_ok [OF kept_leader_msg [OF k(3)]])
      then show ?thesis using role set True by (simp add: handleStartMsg_def m Let_def returnsI)
    next
      case nb: False
      have "returns (kept e c) (map_option (sendLeaderMsg e)
          (if ct_ConsensusTurn ?c = 0 then enter_state e now' (CalState tt 0 now) ?c else Some ?c))"
        by (intro returns_map returns_mono [OF _ kept_leader_msg]) (use enter kc in \<open>auto simp: returns_def\<close>)
      then show ?thesis
        using role set nb tt kept_leader_msg [OF k(1)]
        by (cases b) (simp_all add: handleStartMsg_def m Let_def returnsI)
    qed
  qed
qed

lemma SavePOSNotifyMsg_frame:
  "SavePOSNotifyMsg mp (Some m) = Some (mp', err) \<Longrightarrow>
   mp_rlConsensusCache mp' = mp_rlConsensusCache mp \<and>
   (mp_posNotifyCache mp \<noteq> [] \<longrightarrow> mp_posNotifyCache mp' \<noteq> [])"
  by (auto simp: SavePOSNotifyMsg_def split: option.splits if_splits)

lemma handleBlockPOSFinishedNotify_kept:
  assumes "ctrl_ok e c" "handleBlockPOSFinishedNotify msg c = Some c'"
  shows "kept e c c'"
proof (cases msg)
  case None
  then show ?thesis using assms kept_refl by (simp add: handleBlockPOSFinishedNotify_def)
next
  case (Some m)
  then obtain mp err where mp: "SavePOSNotifyMsg (ct_mp c) (Some m) = Some (mp, err)"
    and c': "c' = processPOSState (c\<lparr>ct_mp := mp\<rparr>)"
    using assms(2) by (auto simp: handleBlockPOSFinishedNotify_def split: option.splits)
  have "kept e c (c\<lparr>ct_mp := mp\<rparr>)"
    using assms(1) SavePOSNotifyMsg_ok [OF _ mp] SavePOSNotifyMsg_frame [OF mp]
    by (simp add: kept_def moved_def ctrl_ok_def ct_State_def ct_ConsensusTurn_def)
  then show ?thesis unfolding c' by (rule kept_trans [OF _ processPOSState_kept]) (rule kept_ok, fact)
qed

lemma SaveInquiryReqMsg_frame [simp]:
  "mp_rlConsensusCache (SaveInquiryReqMsg mp m) = mp_rlConsensusCache mp"
  "mp_posNotifyCache (SaveInquiryReqMsg mp m) = mp_posNotifyCache mp"
  by (auto simp: SaveInquiryReqMsg_def split: option.splits)

lemma sendInquiryRspWithAgree_kept:
  assumes "signer_ok e" "ctrl_ok e c"
  shows "returns (kept e c) (sendInquiryRspWithAgree e h a n c)"
proof -
  obtain s where s: "SignHashWithValidate (ce_signHelper e) h True = Some s"
    using signer_ok_sign [OF assms(1)] by blast
  have "kept e c (emit m c)" for m by (rule kept_same [OF assms(2)]) (simp_all add: ctrl_ok_cache [OF assms(2)])
  then show ?thesis
    using s kept_refl [OF assms(2)] by (cases s) (simp_all add: sendInquiryRspWithAgree_def returnsI)
qed

lemma handleInquiryReq_kept:
  assumes "signer_ok e" "ctrl_ok e c"
  shows "returns (kept e c) (handleInquiryReq e (Some req) c)"
proof -
  have k: "kept e c (sendInquiryRspWithPOS h a n c)" "kept e c (sendInquiryRspWithRLConsensus e h a n c)" for h a n
    by (rule kept_same [OF assms(2)], simp_all add: ctrl_ok_cache [OF assms(2)])+
  have s: "kept e c (c\<lparr>ct_mp := SaveInquiryReqMsg (ct_mp c) (Some req)\<rparr>)"
    using assms(2) SaveInquiryReqMsg_ok
    by (simp add: kept_def moved_def ctrl_ok_def ct_State_def ct_ConsensusTurn_def)
  note r = kept_refl [OF assms(2)]
  show ?thesis
  proof (cases "ct_State c = stIdle \<or> iq_Master req \<noteq> iq_From req")
    case True
    then show ?thesis using r by (auto simp: handleInquiryReq_def returnsI)
  next
    case False
    then show ?thesis
      using r k s sendInquiryRspWithAgree_kept [OF assms]
      by (cases "ct_State c"; cases "dc_GetLeader (ce_bn e) (ct_dc c) (iq_ConsensusTurn req + iq_ReelectTurn req)")
         (simp_all add: handleInquiryReq_def returnsI)
  qed
qed

lemma processNewBlockReadyRsp_kept:
  assumes "ctrl_ok e c" "processNewBlockReadyRsp e header from c = Some c'"
  shows "kept e c c'"
proof -
  have "ct_dc c' = ct_dc c \<and> ct_mp c' = ct_mp c \<and> ct_selfCache c' = ct_selfCache c"
    using assms(2) by (auto simp: processNewBlockReadyRsp_def Let_def split: option.splits if_splits)
  then show ?thesis using kept_same [OF assms(1)] ctrl_ok_cache [OF assms(1)] by simp
qed

lemma set_cache_kept:
  "ctrl_ok e c \<Longrightarrow> mc_ok (ce_crypto e) s \<Longrightarrow> kept e c (set_cache s c)"
  by (rule kept_same) simp_all

lemma CheckInquiryRspMsg_None:
  "CheckInquiryRspMsg s (Some rsp) = None \<longleftrightarrow> mc_inquiryHash s \<noteq> 0 \<and> ir_ReqHash rsp = mc_inquiryHash s"
  by (simp add: CheckInquiryRspMsg_def)

lemma SaveInquiryAgreeSign_checked:
  assumes "mc_ok ec s" "CheckInquiryRspMsg s (Some rsp) = None"
  shows "\<exists>s' err. SaveInquiryAgreeSign ec s (ir_ReqHash rsp) sign from = Some (s', err) \<and> mc_ok ec s' \<and>
    mc_inquiryHash s' \<noteq> 0"
  using SaveInquiryAgreeSign_ok [OF assms(1), of sign "from"] assms(2) by (auto simp: CheckInquiryRspMsg_None)

lemma inquiry_agree_kept:
  assumes "signer_ok e" "ctrl_ok e c" "mc_ok (ce_crypto e) s" "mc_inquiryHash s \<noteq> 0"
  shows "returns (kept e c) (case SetInquiryResultAgree s signs of
     (s', Some err) \<Rightarrow> Some (set_cache s' (set_cache s c))
   | (s', None) \<Rightarrow> sendRLReq e now (set_cache s' (set_cache s c)))"
proof -
  obtain s' err where s': "SetInquiryResultAgree s signs = (s', err)" by fastforce
  have k: "kept e c (set_cache s' (set_cache s c))"
    using SetInquiryResultAgree_ok [OF assms(3,4), of signs] s' by (intro kept_same [OF assms(2)]) simp_all
  have "returns (kept e c) (sendRLReq e now (set_cache s' (set_cache s c)))"
    by (rule returns_mono [OF sends_kept(2) [OF assms(1) kept_ok [OF k]]]) (rule kept_trans [OF k])
  then show ?thesis using k s' by (cases err) (simp_all add: returnsI)
qed

lemma inquiry_other_kept:
  assumes "signer_ok e" "ctrl_ok e c"
  shows "returns (kept e c) (case SetInquiryResultNotAgree a (ct_selfCache c) t rsp of
     (s', Some err) \<Rightarrow> Some (set_cache s' c)
   | (s', None) \<Rightarrow> sendResultBroadcastMsg e now (set_cache s' c))"
proof -
  obtain s' err where s': "SetInquiryResultNotAgree a (ct_selfCache c) t rsp = (s', err)" by fastforce
  have k: "kept e c (set_cache s' c)"
    using SetInquiryResultNotAgree_ok [OF ctrl_ok_cache [OF assms(2)], of a t rsp] s'
    by (intro set_cache_kept [OF assms(2)]) simp
  have "returns (kept e c) (sendResultBroadcastMsg e now (set_cache s' c))"
    by (rule returns_mono [OF sends_kept(3) [OF assms(1) kept_ok [OF k]]]) (rule kept_trans [OF k])
  then show ?thesis using k s' by (cases err) (simp_all add: returnsI)
qed

lemma handleInquiryRsp_kept:
  assumes "signer_ok e" "ctrl_ok e c"
  shows "ir_Type rsp = ReelectRSPTypeNewBlockReady \<and> handleInquiryRsp e now (Some rsp) c =
      processNewBlockReadyRsp e (ir_NewBlock rsp) (ir_From rsp) c \<or>
    returns (kept e c) (handleInquiryRsp e now (Some rsp) c)"
proof (cases "InquiryResult (ct_selfCache c) = ReelectRSPTypeNone \<and> CheckInquiryRspMsg (ct_selfCache c) (Some rsp) = None")
  case False
  then have "handleInquiryRsp e now (Some rsp) c = Some c"
    by (auto simp: handleInquiryRsp_def split: option.splits)
  then show ?thesis using kept_refl [OF assms(2)] by (simp add: returnsI)
next
  case True
  obtain s err where s: "SaveInquiryAgreeSign (ce_crypto e) (ct_selfCache c) (ir_ReqHash rsp) (ir_AgreeSign rsp) (ir_From rsp) = Some (s, err)"
    and ok: "mc_ok (ce_crypto e) s" "mc_inquiryHash s \<noteq> 0"
    using SaveInquiryAgreeSign_checked [OF ctrl_ok_cache [OF assms(2)] conjunct2 [OF True]] by blast
  have ks: "kept e c (set_cache s c)" by (rule set_cache_kept [OF assms(2) ok(1)])
  show ?thesis
  proof (cases "ir_Type rsp = ReelectRSPTypeAgree")
    case agree: True
    have "returns (kept e c) (handleInquiryRsp e now (Some rsp) c)"
      using True agree s ks inquiry_agree_kept [OF assms ok]
      by (cases err; cases "ctrl_VerifySigns e (set_cache s c) (GetInquiryAgreeSigns (ce_range e) s)")
         (simp_all add: handleInquiryRsp_def Let_def returnsI)
    then show ?thesis ..
  next
    case False
    then show ?thesis
      using True kept_refl [OF assms(2)] inquiry_other_kept [OF assms]
      by (simp add: handleInquiryRsp_def returnsI)
  qed
qed

lemma checkRLReqMsg_no_panic: "checkRLReqMsg e msg c \<noteq> None"
  using ctrl_VerifyHash_no_panic(2)
  by (auto simp: checkRLReqMsg_def split: option.splits sum.splits)

lemma handleRLReq_kept:
  assumes "signer_ok e" "ctrl_ok e c" "lq_InquiryReq req \<noteq> None"
  shows "returns (kept e c) (handleRLReq e (Some req) c)"
proof -
  obtain i where i: "lq_InquiryReq req = Some i" using assms(3) by blast
  have k: "kept e c (emit m c)" for m by (rule kept_same [OF assms(2)]) (simp_all add: ctrl_ok_cache [OF assms(2)])
  obtain s where s: "SignHashWithValidate (ce_signHelper e) (LeaderReqHash (ce_rlpHash e) req) True = Some s"
    using signer_ok_sign [OF assms(1)] by blast
  obtain r where r: "checkRLReqMsg e (Some req) c = Some r" using checkRLReqMsg_no_panic by blast
  show ?thesis using i k s r kept_refl [OF assms(2)]
    by (cases r; cases s) (simp_all add: handleRLReq_def Let_def returnsI)
qed

lemma handleRLVote_kept:
  assumes "signer_ok e" "ctrl_ok e c"
  shows "returns (kept e c) (handleRLVote e now now' msg c)"
proof (cases msg)
  case None
  then show ?thesis using kept_refl [OF assms(2)] by (simp add: handleRLVote_def returnsI)
next
  case (Some m)
  let ?v = "lv_Vote m"
  obtain s err where s: "SaveRLVote (ce_crypto e) (ct_selfCache c) (cv_SignHash ?v) (cv_Sign ?v) (cv_From ?v) = Some (s, err)"
    and ok: "mc_ok (ce_crypto e) s"
    using SaveRLVote_ok [OF ctrl_ok_cache [OF assms(2)]] by blast
  have ks: "kept e c (set_cache s c)" by (rule set_cache_kept [OF assms(2) ok])
  show ?thesis
  proof (cases "ctrl_VerifySigns e (set_cache s c) (GetRLSigns (ce_range e) s)")
    case (Inl x)
    then show ?thesis using Some s ks by (cases err) (simp_all add: handleRLVote_def Let_def returnsI)
  next
    case (Inr signs)
    obtain s' err' where s': "SetRLResultBroadcastSuccess (ce_self e) now s signs = (s', err')" by fastforce
    have k: "kept e c (set_cache s' (set_cache s c))"
      using SetRLResultBroadcastSuccess_ok [OF ok, of "ce_self e" now signs] s'
      by (intro kept_same [OF assms(2)]) simp_all
    have "returns (kept e c) (sendResultBroadcastMsg e now' (set_cache s' (set_cache s c)))"
      by (rule returns_mono [OF sends_kept(3) [OF assms(1) kept_ok [OF k]]]) (rule kept_trans [OF k])
    then show ?thesis using Some s s' ks k Inr
      by (cases err; cases err') (simp_all add: handleRLVote_def Let_def returnsI)
  qed
qed

lemma reelectTimeOutHandle_kept:
  assumes "signer_ok e" "ctrl_ok e c"
  shows "returns (kept e c) (reelectTimeOutHandle e now c)"
proof (cases "ct_State c = stReelect")
  case False
  then show ?thesis using kept_refl [OF assms(2)] by (simp add: reelectTimeOutHandle_def returnsI)
next
  case True
  let ?r = "case InquiryResult (ct_selfCache c) of
          ReelectRSPTypeAgree \<Rightarrow> sendRLReq e now c
        | ReelectRSPTypePOS \<Rightarrow> sendResultBroadcastMsg e now c
        | ReelectRSPTypeAlreadyRL \<Rightarrow> sendResultBroadcastMsg e now c
        | _ \<Rightarrow> sendInquiryReq e now c"
  have "returns (kept e c) ?r"
    using sends_kept [OF assms, of now] by (simp split: ReelectRSPType.splits)
  then have "returns (kept e c) (map_option (setReelectTimer LRSReelectInterval) ?r)"
    by (intro returns_map)
       (erule returns_mono, simp add: kept_def moved_def ctrl_ok_def ct_State_def ct_ConsensusTurn_def)
  then show ?thesis using True by (simp add: reelectTimeOutHandle_def)
qed

lemma timeOutHandle_kept:
  assumes "signer_ok e" "ctrl_ok e c"
  shows "returns (kept e c) (timeOutHandle e now now' c)"
proof -
  have k: "kept e c (set_state stReelect (setTimer t c))" "kept e c (setTimer t c)" for t
    using assms(2) by (simp_all add: kept_def moved_def ctrl_ok_def ct_State_def ct_ConsensusTurn_def frame_simps)
  have "returns (kept e c) (startReelect e now' r c')" if "kept e c c'" for r c'
    by (rule returns_mono [OF startReelect_kept [OF assms(1) kept_ok [OF that]]]) (rule kept_trans [OF that])
  then show ?thesis using k kept_refl [OF assms(2)]
    by (simp add: timeOutHandle_def Let_def returnsI split: lr_state.splits)
qed

section \<open>Steps of the controller\<close>

lemma evidence_cache [simp]:
  "pos_evidence e (set_cache s c) m = pos_evidence e c m"
  "rl_evidence e (set_cache s c) m t = rl_evidence e c m t"
  by (simp_all add: pos_evidence_def rl_evidence_def ctrl_VerifyBlock_def ctrl_VerifyHash_def ct_ConsensusTurn_def)

text \<open>The result message a handler processes: the one it is given, or the one in the master's cache when a
  reply to it completes the quorum.\<close>

fun handled_result :: "ctrl_msg \<Rightarrow> controller \<Rightarrow> HD_ReelectResultBroadcastMsg option" where
  "handled_result (MsgResultBroadcast m) c = m"
| "handled_result (MsgResultRsp (Some _)) c = mc_resultBroadcastMsg (ct_selfCache c)"
| "handled_result _ c = None"

text \<open>The two ways a step can go further than \<^const>\<open>kept\<close>, both by the result message \<open>b\<close>.\<close>

definition pos_finished :: "ctrl_env \<Rightarrow> HD_ReelectResultBroadcastMsg \<Rightarrow> controller \<Rightarrow> controller \<Rightarrow> bool" where
  "pos_finished e b c c' \<longleftrightarrow> pos_evidence e c b \<and> ctrl_ok e c' \<and>
    dc_number (ct_dc c') = dc_number (ct_dc c) \<and> ct_ConsensusTurn c' = ct_ConsensusTurn c"

definition rl_finished :: "ctrl_env \<Rightarrow> HD_ReelectResultBroadcastMsg \<Rightarrow> controller \<Rightarrow> controller \<Rightarrow> bool" where
  "rl_finished e b c c' \<longleftrightarrow> (\<exists>t. rl_evidence e c b t \<and> moved e c c' \<and>
    ct_ConsensusTurn c' \<in> {ct_ConsensusTurn c, t})"

definition stepped ::
  "ctrl_env \<Rightarrow> HD_ReelectResultBroadcastMsg option \<Rightarrow> controller \<Rightarrow> controller \<Rightarrow> bool" where
  "stepped e r c c' \<longleftrightarrow> kept e c c' \<or> (\<exists>b. r = Some b \<and> (pos_finished e b c c' \<or> rl_finished e b c c'))"

lemma stepped_ok: "stepped e r c c' \<Longrightarrow> ctrl_ok e c' \<and> dc_number (ct_dc c') = dc_number (ct_dc c)"
  by (auto simp: stepped_def kept_def moved_def pos_finished_def rl_finished_def)

lemma finished_kept:
  "pos_finished e m a b \<Longrightarrow> kept e b c \<Longrightarrow> pos_finished e m a c"
  "rl_finished e m a b \<Longrightarrow> kept e b c \<Longrightarrow> rl_finished e m a c"
proof -
  assume "pos_finished e m a b" "kept e b c"
  then show "pos_finished e m a c" by (simp add: pos_finished_def kept_def moved_def)
next
  assume ab: "rl_finished e m a b" and bc: "kept e b c"
  then obtain t where "rl_evidence e a m t" "moved e a b" "ct_ConsensusTurn b \<in> {ct_ConsensusTurn a, t}"
    by (auto simp: rl_finished_def)
  moreover have "ct_ConsensusTurn c = ct_ConsensusTurn b" "moved e a c"
    using bc moved_kept [OF \<open>moved e a b\<close> bc] by (simp_all add: kept_def)
  ultimately show "rl_finished e m a c" by (auto simp: rl_finished_def)
qed

lemma stepped_kept: "stepped e r a b \<Longrightarrow> kept e b c \<Longrightarrow> stepped e r a c"
  unfolding stepped_def using kept_trans finished_kept by blast

lemma processResult_stepped:
  assumes "signer_ok e" "ctrl_ok e c" "processResultBroadcastMsg e now now' (Some m) c = Some (c', err)"
  shows "stepped e (Some m) c c'"
  using processResult_cases [OF assms]
proof (elim disjE exE conjE)
  assume "c' = c"
  then show ?thesis using kept_refl [OF assms(2)] by (simp add: stepped_def)
next
  fix h assume "pos_evidence e c m" "c' = finishReelectWithPOS e h (rb_From m) c"
  then have "pos_finished e m c c'" using finishReelectWithPOS_ok [OF assms(2)] by (auto simp: pos_finished_def)
  then show ?thesis by (simp add: stepped_def)
next
  fix t assume "rl_evidence e c m t" "moved e c c'" "ct_ConsensusTurn c' \<in> {ct_ConsensusTurn c, t}"
  then have "rl_finished e m c c'" unfolding rl_finished_def by blast
  then show ?thesis by (simp add: stepped_def)
qed

lemma sendResultBroadcastRsp_kept:
  assumes "signer_ok e" "ctrl_ok e c"
  shows "returns (kept e c) (sendResultBroadcastRsp e m c)"
proof -
  obtain s where s: "SignHashWithValidate (ce_signHelper e) (ResultHash (ce_rlpHash e) m) True = Some s"
    using signer_ok_sign [OF assms(1)] by blast
  have "kept e c (emit x c)" for x by (rule kept_same [OF assms(2)]) (simp_all add: ctrl_ok_cache [OF assms(2)])
  then show ?thesis
    using s kept_refl [OF assms(2)] by (cases s) (simp_all add: sendResultBroadcastRsp_def Let_def returnsI)
qed

lemma handleResultBroadcastMsg_stepped:
  assumes "signer_ok e" "ctrl_ok e c" "handleResultBroadcastMsg e now now' msg c = Some c'"
  shows "stepped e msg c c'"
proof (cases msg)
  case None
  then show ?thesis using assms(3) kept_refl [OF assms(2)]
    by (simp add: handleResultBroadcastMsg_def stepped_def)
next
  case (Some m)
  obtain c1 err where p: "processResultBroadcastMsg e now now' (Some m) c = Some (c1, err)"
    using assms(3) Some by (auto simp: handleResultBroadcastMsg_def split: option.splits)
  note st = processResult_stepped [OF assms(1,2) p, folded Some]
  show ?thesis
  proof (cases err)
    case None
    have "returns (kept e c1) (sendResultBroadcastRsp e m c1)"
      using sendResultBroadcastRsp_kept [OF assms(1)] stepped_ok [OF st] by blast
    then have "kept e c1 c'"
      using assms(3) Some p None by (simp add: handleResultBroadcastMsg_def returns_def)
    then show ?thesis using stepped_kept [OF st] by blast
  next
    case (Some x)
    then show ?thesis using assms(3) p st \<open>msg = Some m\<close> by (simp add: handleResultBroadcastMsg_def)
  qed
qed

lemma stepped_cache: "stepped e r (set_cache s c) c' \<Longrightarrow> stepped e r c c'"
  by (simp add: stepped_def kept_def moved_def pos_finished_def rl_finished_def ct_State_def ct_ConsensusTurn_def)

lemma SaveResultRsp_result_msg:
  "SaveResultRsp ec s h sign a = Some (s', err) \<Longrightarrow> mc_resultBroadcastMsg s' = mc_resultBroadcastMsg s"
  by (auto simp: SaveResultRsp_def split: if_splits option.splits sum.splits)

lemma handleResultRsp_stepped:
  assumes "signer_ok e" "ctrl_ok e c" "handleResultRsp e now now' msg c = Some c'"
  shows "stepped e (handled_result (MsgResultRsp msg) c) c c'"
proof (cases msg)
  case None
  then show ?thesis using assms(3) kept_refl [OF assms(2)] by (simp add: handleResultRsp_def stepped_def)
next
  case (Some rsp)
  obtain s err where s: "SaveResultRsp (ce_crypto e) (ct_selfCache c) (rr_ResultHash rsp) (rr_Sign rsp) (rr_From rsp) = Some (s, err)"
    and ok: "mc_ok (ce_crypto e) s"
    using SaveResultRsp_ok [OF ctrl_ok_cache [OF assms(2)]] by blast
  have k: "kept e c (set_cache s c)" by (rule set_cache_kept [OF assms(2) ok])
  show ?thesis
  proof (cases "\<exists>r m. err = None \<and> ctrl_VerifySigns e (set_cache s c) (GetResultRspSigns (ce_range e) s) = Inr r \<and>
      GetLocalResultMsg s = Inr m")
    case False
    then have "c' = set_cache s c"
      using assms(3) Some s by (auto simp: handleResultRsp_def Let_def split: option.splits sum.splits)
    then show ?thesis using k by (simp add: stepped_def)
  next
    case True
    then obtain m r where "err = None" "ctrl_VerifySigns e (set_cache s c) (GetResultRspSigns (ce_range e) s) = Inr r"
      "GetLocalResultMsg s = Inr m" by blast
    then obtain err' where "processResultBroadcastMsg e now now' (Some m) (set_cache s c) = Some (c', err')"
      using assms(3) Some s by (auto simp: handleResultRsp_def Let_def)
    then have "stepped e (Some m) (set_cache s c) c'" by (rule processResult_stepped [OF assms(1) kept_ok [OF k]])
    moreover have "mc_resultBroadcastMsg (ct_selfCache c) = Some m"
      using SaveResultRsp_result_msg [OF s] \<open>GetLocalResultMsg s = Inr m\<close>
      by (simp add: GetLocalResultMsg_def split: option.splits)
    ultimately show ?thesis using stepped_cache Some by simp
  qed
qed

lemma returns_kept_stepped: "returns (kept e c) r \<Longrightarrow> r = Some c' \<Longrightarrow> stepped e b c c'"
  by (simp add: returns_def stepped_def)

lemma handleMsg_stepped:
  assumes "signer_ok e" "ctrl_ok e c" "handleMsg e now now' m c = Some c'"
  shows "stepped e (handled_result m c) c c'"
proof (cases m)
  case (MsgInquiryReq q)
  show ?thesis
  proof (cases q)
    case None
    then show ?thesis using assms(3) MsgInquiryReq kept_refl [OF assms(2)]
      by (cases "ct_State c = stIdle") (auto simp: handleMsg_def handleInquiryReq_def stepped_def)
  next
    case (Some r)
    then show ?thesis
      using assms(3) MsgInquiryReq returns_kept_stepped [OF handleInquiryReq_kept [OF assms(1,2)]] by (simp add: handleMsg_def)
  qed
next
  case (MsgInquiryRsp q)
  then obtain r where r: "q = Some r" "handleInquiryRsp e now (Some r) c = Some c'"
    using assms(3) by (cases q) (simp_all add: handleMsg_def handleInquiryRsp_def)
  then show ?thesis
    using handleInquiryRsp_kept [OF assms(1,2), of r now] processNewBlockReadyRsp_kept [OF assms(2)]
    by (auto simp: returns_def stepped_def)
next
  case (MsgRLReq q)
  then obtain r where r: "q = Some r" "lq_InquiryReq r \<noteq> None" "handleRLReq e (Some r) c = Some c'"
    using assms(3) by (auto simp: handleMsg_def handleRLReq_def split: option.splits)
  then show ?thesis using returns_kept_stepped [OF handleRLReq_kept [OF assms(1,2)]] by blast
next
  case (MsgNewBlockReadyRsp q)
  then obtain r :: sendNewBlockReadyRsp where "c' = sendInquiryRspWithNewBlockReady (sn_repHash r) (sn_target r) (sn_rspNumber r) c"
    using assms(3) by (auto simp: handleMsg_def split: option.splits)
  then have "kept e c c'" using kept_same [OF assms(2)] ctrl_ok_cache [OF assms(2)] by simp
  then show ?thesis by (simp add: stepped_def)
next
  case (MsgPOSFinished q)
  then have "kept e c c'"
    using assms(3) handleBlockPOSFinishedNotify_kept [OF assms(2)] by (simp add: handleMsg_def)
  then show ?thesis by (simp add: stepped_def)
next
  case (MsgResultBroadcast q)
  then show ?thesis using assms(3) handleResultBroadcastMsg_stepped [OF assms(1,2)] by (simp add: handleMsg_def)
next
  case (MsgResultRsp q)
  then show ?thesis using assms(3) handleResultRsp_stepped [OF assms(1,2)] by (simp add: handleMsg_def)
next
  case (MsgStart q)
  then show ?thesis using assms(3) returns_kept_stepped [OF handleStartMsg_kept [OF assms(1,2)]] by (simp add: handleMsg_def)
next
  case (MsgRLVote q)
  then show ?thesis using assms(3) returns_kept_stepped [OF handleRLVote_kept [OF assms(1,2)]] by (simp add: handleMsg_def)
qed (use assms(3) kept_refl [OF assms(2)] in \<open>simp_all add: handleMsg_def stepped_def\<close>)

lemma ctrl_ok_timers [simp]:
  "ctrl_ok e (c\<lparr>ct_timer := t\<rparr>) = ctrl_ok e c" "ctrl_ok e (c\<lparr>ct_reelectTimer := t\<rparr>) = ctrl_ok e c"
  by (simp_all add: ctrl_ok_def)

lemma kept_timers:
  "kept e (c\<lparr>ct_timer := t\<rparr>) c' = kept e c c'" "kept e (c\<lparr>ct_reelectTimer := t\<rparr>) c' = kept e c c'"
  by (simp_all add: kept_def moved_def ct_State_def ct_ConsensusTurn_def)

text \<open>A step that does more than \<^const>\<open>kept\<close> handles a message with a result message.\<close>

lemma ctrl_step_stepped:
  assumes "signer_ok e" "ctrl_ok e c" "ctrl_step e c c'"
  shows "kept e c c' \<or> (\<exists>now now' m b. handleMsg e now now' m c = Some c' \<and> handled_result m c = Some b \<and>
    (pos_finished e b c c' \<or> rl_finished e b c c'))"
  using assms(3)
proof cases
  case (message now now' m)
  then show ?thesis using handleMsg_stepped [OF assms(1,2)] unfolding stepped_def by metis
next
  case (timer t now now')
  then have "kept e c c'"
    using timeOutHandle_kept [OF assms(1), of "c\<lparr>ct_timer := None\<rparr>" now now'] assms(2)
    by (auto simp: returns_def kept_timers)
  then show ?thesis ..
next
  case (reelect_timer t now)
  then have "kept e c c'"
    using reelectTimeOutHandle_kept [OF assms(1), of "c\<lparr>ct_reelectTimer := None\<rparr>" now] assms(2)
    by (auto simp: returns_def kept_timers)
  then show ?thesis ..
qed

lemma ctrl_step_ok:
  assumes "signer_ok e" "ctrl_ok e c" "ctrl_step e c c'"
  shows "ctrl_ok e c' \<and> dc_number (ct_dc c') = dc_number (ct_dc c)"
  using ctrl_step_stepped [OF assms] by (auto simp: kept_def moved_def pos_finished_def rl_finished_def)

lemma newController_ok: "ctrl_ok e (newController n)"
  using newMsgPool_ok
  by (simp add: ctrl_ok_def newController_def newMasterCache_ok leaders_ok_def newCDC_def
      dc_GetLeader_def lc_GetLeader_def newLeaderCalculator_def newMsgPool_def)

lemma reachable_ok:
  assumes "signer_ok e" "ctrl_reachable e n c"
  shows "ctrl_ok e c \<and> dc_number (ct_dc c) = n"
  using assms(2)
proof (induction rule: ctrl_reachable.induct)
  case start
  show ?case by (simp add: newController_ok) (simp add: newController_def newCDC_def)
next
  case (step c c')
  then show ?case using ctrl_step_ok [OF assms(1)] by metis
qed

section \<open>Properties\<close>

text \<open>C8: In every controller that can be reached from a new one by messages and timers, in any order, the
  stored consensus leader and re-election master are those the leader calculator gives for the current
  turns, the signature caches of the master hold only verified agreements over the hashes asked for, one
  per account, the message pool keeps its keys, and the number is the one the controller was made
  for.\<close>

theorem controller_invariant:
  assumes "signer_ok e" "ctrl_reachable e n c"
  shows "leaders_ok (ce_bn e) (ct_dc c) \<and> mc_ok (ce_crypto e) (ct_selfCache c) \<and> msgpool_ok (ct_mp c) \<and>
    ct_Number c = n"
  using reachable_ok [OF assms] by (simp add: ctrl_ok_def ct_Number_def)

text \<open>C9: A controller changes its consensus turn only by a message, and only upwards. The message is a
  re-election result, or a reply that completes the quorum for the result in the master's own cache, and the
  result names the request whose turns add up to the new turn. At least \<open>dpos_quorum\<close> of the validators of the
  block have an agreeing signature among the votes of that result. No other message and no timer changes the
  turn. The votes are signatures of the hash the code computes of the request, which is the hash of the empty
  string for every request, so nothing ties them to this request.\<close>

theorem turn_change_needs_quorum:
  assumes "signer_ok e" "order_ok (ce_order e)" "ctrl_reachable e n c" "ctrl_step e c c'"
    and "ct_ConsensusTurn c' \<noteq> ct_ConsensusTurn c"
  shows "ct_ConsensusTurn c < ct_ConsensusTurn c' \<and>
    (\<exists>now now' m b k req i stocks. handleMsg e now now' m c = Some c' \<and> handled_result m c = Some b \<and>
      rb_RLResult b = Some k \<and> lk_Req k = Some req \<and> lq_InquiryReq req = Some i \<and>
      ct_ConsensusTurn c' = iq_ConsensusTurn i + iq_ReelectTurn i \<and>
      getValidatorStocks (cdc_reader (ce_chain e) (ct_dc c)) n = Inr stocks \<and>
      LeaderReqHash (ce_rlpHash e) req = emptyKeccak \<and>
      dpos_quorum (length stocks) \<le> card (agreers (ce_crypto e) emptyKeccak (lk_Votes k) stocks))"
proof -
  have ok: "ctrl_ok e c" "dc_number (ct_dc c) = n" using reachable_ok [OF assms(1,3)] by simp_all
  obtain now now' m b where m: "handleMsg e now now' m c = Some c'" "handled_result m c = Some b"
    and ev: "rl_evidence e c b (ct_ConsensusTurn c')"
    using ctrl_step_stepped [OF assms(1) ok(1) assms(4)] assms(5)
    by (auto simp: kept_def pos_finished_def rl_finished_def)
  obtain k q i r where k: "rb_RLResult b = Some k" "lk_Req k = Some q" "lq_InquiryReq q = Some i"
    "ct_ConsensusTurn c' = iq_ConsensusTurn i + iq_ReelectTurn i" "ct_ConsensusTurn c \<le> ct_ConsensusTurn c'"
    and v: "ctrl_VerifyHash e c emptyKeccak (lk_Votes k) = Inr r"
    using ev by (auto simp: rl_evidence_def reelect_hashes)
  obtain stocks where st: "getValidatorStocks (cdc_reader (ce_chain e) (ct_dc c)) n = Inr stocks"
    "VerifyHashWithStocks (ce_order e) (ce_crypto e) emptyKeccak (lk_Votes k) stocks = Inr r"
    using v ok(2) by (auto simp: ctrl_VerifyHash_def VerifyHashWithNumber_def split: sum.splits)
  have "ct_ConsensusTurn c < ct_ConsensusTurn c'" using k(5) assms(5) by simp
  moreover have "LeaderReqHash (ce_rlpHash e) q = emptyKeccak" by (simp add: reelect_hashes)
  moreover note accept_quorum(1) [OF st(2) assms(2)]
  ultimately show ?thesis using m k st(1) by blast
qed

text \<open>C10: A controller enters the state in which it waits for the mining result only when its pool holds
  a notification that the POS vote is finished, or by a message with a result, received or from the master's
  own cache, whose header is led by the current consensus leader and whose signatures the DPOS engine
  accepts.\<close>

theorem mining_needs_pos:
  assumes "signer_ok e" "ctrl_reachable e n c" "ctrl_step e c c'"
    and "ct_State c \<noteq> stMining" "ct_State c' = stMining"
  shows "mp_posNotifyCache (ct_mp c') \<noteq> [] \<or>
    (\<exists>now now' m b p h. handleMsg e now now' m c = Some c' \<and> handled_result m c = Some b \<and>
      rb_POSResult b = Some p \<and> bcr_Header p = Some h \<and> h_Leader h = GetConsensusLeader (ct_dc c) \<and>
      VerifyBlock (ce_order e) (ce_crypto e) (ce_rlpHash e) (ce_BroadCastNodes e)
        (cdc_reader (ce_chain e) (ct_dc c)) h = None)"
proof -
  have "ctrl_ok e c" using reachable_ok [OF assms(1,2)] by simp
  from ctrl_step_stepped [OF assms(1) this assms(3)] show ?thesis
  proof (elim disjE exE conjE)
    assume "kept e c c'"
    then show ?thesis using assms(4,5) by (auto simp: kept_def moved_def)
  next
    fix now now' m b
    assume m: "handleMsg e now now' m c = Some c'" "handled_result m c = Some b" and "pos_finished e b c c'"
    then obtain p h where "rb_POSResult b = Some p" "bcr_Header p = Some h" "h_Leader h = GetConsensusLeader (ct_dc c)"
      "ctrl_VerifyBlock e c h = None" by (auto simp: pos_finished_def pos_evidence_def)
    then show ?thesis using m unfolding ctrl_VerifyBlock_def by blast
  next
    fix b assume "rl_finished e b c c'"
    then show ?thesis using assms(4,5) by (auto simp: rl_finished_def moved_def)
  qed
qed

section \<open>Completeness of messages\<close>

definition result_complete :: "HD_ReelectResultBroadcastMsg \<Rightarrow> bool" where
  "result_complete m \<longleftrightarrow>
    (case rb_RLResult m of None \<Rightarrow> True | Some k \<Rightarrow> Option.bind (lk_Req k) lq_InquiryReq \<noteq> None)"

fun msg_complete :: "ctrl_msg \<Rightarrow> bool" where
  "msg_complete (MsgPOSFinished (Some m)) = (pfn_Header m \<noteq> None)"
| "msg_complete (MsgInquiryReq m) = (m \<noteq> None)"
| "msg_complete (MsgInquiryRsp m) = (m \<noteq> None)"
| "msg_complete (MsgRLReq m) = (Option.bind m lq_InquiryReq \<noteq> None)"
| "msg_complete (MsgResultBroadcast (Some m)) = result_complete m"
| "msg_complete (MsgNewBlockReadyRsp m) = (m \<noteq> None)"
| "msg_complete m = True"

text \<open>The header a step may verify, and when the check of its signatures does not panic.\<close>

definition result_header :: "HD_ReelectResultBroadcastMsg \<Rightarrow> Header option" where
  "result_header m = Option.bind (rb_POSResult m) bcr_Header"

fun carried_header :: "ctrl_msg \<Rightarrow> controller \<Rightarrow> Header option" where
  "carried_header (MsgInquiryRsp (Some rsp)) c = ir_NewBlock rsp"
| "carried_header m c = Option.bind (handled_result m c) result_header"

definition quiet_header :: "ctrl_env \<Rightarrow> Header \<Rightarrow> bool" where
  "quiet_header e h \<longleftrightarrow> (\<forall>s \<in> set (h_Signatures h).
    VerifySignWithValidate (ce_crypto e) (HashNoSignsAndNonce (ce_rlpHash e) h) s \<noteq> SignPanic)"

lemma quiet_header_VerifyBlock:
  assumes "quiet_header e h" shows "ctrl_VerifyBlock e c h \<noteq> Some DposPanic"
proof
  assume p: "ctrl_VerifyBlock e c h = Some DposPanic"
  have "\<exists>s \<in> set (h_Signatures h).
    VerifySignWithValidate (ce_crypto e) (HashNoSignsAndNonce (ce_rlpHash e) h) s = SignPanic"
  proof (cases "IsBroadcastNumber (header_number h)")
    case True
    then show ?thesis using p
      by (auto simp: ctrl_VerifyBlock_def VerifyBlock_def verifyBroadcastBlock_def
          split: list.splits sign_outcome.splits if_splits)
  next
    case False
    then have "VerifyHashWithNumber (ce_order e) (ce_crypto e) (cdc_reader (ce_chain e) (ct_dc c))
        (HashNoSignsAndNonce (ce_rlpHash e) h) (h_Signatures h) (header_number h) = Inl DposPanic"
      using p by (auto simp: ctrl_VerifyBlock_def VerifyBlock_def VerifyHashWithNumber_def split: sum.splits)
    then show ?thesis by (rule VerifyHashWithNumber_panic)
  qed
  then show False using assms by (auto simp: quiet_header_def)
qed

lemma processResult_returns:
  assumes "signer_ok e" "ctrl_ok e c" "result_complete m"
    and "\<forall>h \<in> set_option (result_header m). quiet_header e h"
  shows "processResultBroadcastMsg e now now' (Some m) c \<noteq> None"
proof -
  have vb: "ctrl_VerifyBlock e c h \<noteq> Some DposPanic" if "result_header m = Some h" for h
    using quiet_header_VerifyBlock assms(4) that by simp
  have fin: "finishReelectWithRLConsensus e now now' q i c \<noteq> None" for q i
    using finishReelectWithRLConsensus_moved [OF assms(1,2), of i now now' q] by (auto simp: returns_def)
  consider (pos) "rb_Type m = ReelectRSPTypePOS" | (rl) "rb_Type m \<in> {ReelectRSPTypeAgree, ReelectRSPTypeAlreadyRL}"
    | (other) "rb_Type m \<notin> {ReelectRSPTypePOS, ReelectRSPTypeAgree, ReelectRSPTypeAlreadyRL}" by blast
  then show ?thesis
  proof cases
    case pos
    then show ?thesis using vb by (auto simp: process_pos result_header_def split: option.splits)
  next
    case rl
    show ?thesis unfolding process_rl [OF rl]
      using assms(3) fin ctrl_VerifyHash_no_panic(1)
      by (auto simp: result_complete_def bind_eq_Some_conv split: option.splits sum.splits)
  next
    case other
    then show ?thesis by (simp add: process_other)
  qed
qed

text \<open>C12: A step of a reachable controller does not panic if the message it handles has no nil pointers
  inside, the result message in the master's cache has none, and no signature of the header the step verifies,
  if any, makes the signature check panic. The header is the one of a result message or the new block of an
  inquiry reply; the check panics on a signature with the disagreeing mark when the hash of the header has a
  leading zero byte, one hash in 256. The two timers of the controller do not panic at all.\<close>

theorem controller_no_panic:
  assumes "signer_ok e" "ctrl_reachable e n c" "msg_complete m"
    and "\<forall>b. mc_resultBroadcastMsg (ct_selfCache c) = Some b \<longrightarrow> result_complete b"
    and "\<forall>h \<in> set_option (carried_header m c). quiet_header e h"
  shows "handleMsg e now now' m c \<noteq> None \<and> timeOutHandle e now now' c \<noteq> None \<and>
    reelectTimeOutHandle e now c \<noteq> None"
proof -
  have ok: "ctrl_ok e c" using reachable_ok [OF assms(1,2)] by simp
  have r: "returns P r \<Longrightarrow> r \<noteq> None" for P r by (auto simp: returns_def)
  have "handleMsg e now now' m c \<noteq> None"
  proof (cases m)
    case (MsgPOSFinished q)
    then show ?thesis using assms(3)
      by (cases q) (auto simp: handleMsg_def handleBlockPOSFinishedNotify_def SavePOSNotifyMsg_def split: option.splits)
  next
    case (MsgInquiryReq q)
    then show ?thesis using assms(3) r [OF handleInquiryReq_kept [OF assms(1) ok]] by (auto simp: handleMsg_def)
  next
    case (MsgInquiryRsp q)
    obtain rsp where rsp: "q = Some rsp" using MsgInquiryRsp assms(3) by auto
    have "ctrl_VerifyBlock e c h \<noteq> Some DposPanic" if "ir_NewBlock rsp = Some h" for h
      using quiet_header_VerifyBlock assms(5) that MsgInquiryRsp rsp by simp
    then have p: "processNewBlockReadyRsp e (ir_NewBlock rsp) a c \<noteq> None" for a
      by (auto simp: processNewBlockReadyRsp_def Let_def split: option.splits)
    note rsp
    then show ?thesis
      using MsgInquiryRsp p handleInquiryRsp_kept [OF assms(1) ok, of rsp now] r [of "kept e c"]
      by (auto simp: handleMsg_def)
  next
    case (MsgRLReq q)
    then show ?thesis using assms(3) r [OF handleRLReq_kept [OF assms(1) ok]]
      by (auto simp: handleMsg_def bind_eq_Some_conv)
  next
    case (MsgResultBroadcast q)
    show ?thesis
    proof (cases q)
      case None
      then show ?thesis using MsgResultBroadcast by (simp add: handleMsg_def handleResultBroadcastMsg_def)
    next
      case (Some b)
      then obtain c1 err where p: "processResultBroadcastMsg e now now' (Some b) c = Some (c1, err)"
        using processResult_returns [OF assms(1) ok, of b now now'] assms(3,5) MsgResultBroadcast by auto
      have "sendResultBroadcastRsp e b c1 \<noteq> None"
        by (rule r [OF sendResultBroadcastRsp_kept [OF assms(1)]])
           (use stepped_ok [OF processResult_stepped [OF assms(1) ok p]] in simp)
      then show ?thesis using MsgResultBroadcast Some p
        by (cases err) (simp_all add: handleMsg_def handleResultBroadcastMsg_def)
    qed
  next
    case (MsgResultRsp q)
    show ?thesis
    proof (cases q)
      case None
      then show ?thesis using MsgResultRsp by (simp add: handleMsg_def handleResultRsp_def)
    next
      case (Some rsp)
      obtain s err where s: "SaveResultRsp (ce_crypto e) (ct_selfCache c) (rr_ResultHash rsp) (rr_Sign rsp) (rr_From rsp) = Some (s, err)"
        and sok: "mc_ok (ce_crypto e) s"
        using SaveResultRsp_ok [OF ctrl_ok_cache [OF ok]] by blast
      have "processResultBroadcastMsg e now now' (Some b) (set_cache s c) \<noteq> None" if "GetLocalResultMsg s = Inr b" for b
        using processResult_returns [OF assms(1) kept_ok [OF set_cache_kept [OF ok sok]], of b]
          that assms(4,5) MsgResultRsp Some SaveResultRsp_result_msg [OF s]
        by (simp add: GetLocalResultMsg_def split: option.splits)
      then show ?thesis using MsgResultRsp Some s
        by (auto simp: handleMsg_def handleResultRsp_def Let_def split: option.splits sum.splits)
    qed
  next
    case (MsgNewBlockReadyRsp q)
    then show ?thesis using assms(3) by (auto simp: handleMsg_def)
  next
    case (MsgStart q)
    then show ?thesis using r [OF handleStartMsg_kept [OF assms(1) ok]] by (simp add: handleMsg_def)
  next
    case (MsgRLVote q)
    then show ?thesis using r [OF handleRLVote_kept [OF assms(1) ok]] by (simp add: handleMsg_def)
  qed (simp_all add: handleMsg_def)
  then show ?thesis
    using r [OF timeOutHandle_kept [OF assms(1) ok]] r [OF reelectTimeOutHandle_kept [OF assms(1) ok]] by simp
qed

section \<open>Replays\<close>

text \<open>A result message built around votes that were given for another request.\<close>

definition forged_result :: "u32 \<Rightarrow> signature list \<Rightarrow> HD_ReelectResultBroadcastMsg" where
  "forged_result turn signs = \<lparr>rb_Number = 0, rb_Type = ReelectRSPTypeAgree, rb_POSResult = None,
    rb_RLResult = Some \<lparr>lk_Req = Some \<lparr>lq_InquiryReq = Some \<lparr>iq_Number = 0, iq_ConsensusTurn = turn,
        iq_ReelectTurn = 0, iq_TimeStamp = 0, iq_Master = 0, iq_From = 0\<rparr>,
        lq_AgreeSigns = [], lq_TimeStamp = 0\<rparr>, lk_Votes = signs, lk_TimeStamp = 0\<rparr>,
    rb_TimeStamp = 0, rb_From = 0\<rparr>"

lemma forged_result_accepted:
  assumes "signer_ok e" "ctrl_ok e c"
    and "ctrl_VerifyHash e c (LeaderReqHash (ce_rlpHash e) req) signs = Inr r"
    and "dc_GetLeader (ce_bn e) (ct_dc c) t = Inr l" "ct_ConsensusTurn c \<le> t"
  shows "\<exists>c'. handleResultBroadcastMsg e now now' (Some (forged_result t signs)) c = Some c' \<and> ct_ConsensusTurn c' = t"
proof -
  let ?i = "\<lparr>iq_Number = 0, iq_ConsensusTurn = t, iq_ReelectTurn = 0, iq_TimeStamp = 0, iq_Master = 0, iq_From = 0\<rparr>"
  let ?q = "\<lparr>lq_InquiryReq = Some ?i, lq_AgreeSigns = [], lq_TimeStamp = 0\<rparr>"
  obtain c1 where c1: "finishReelectWithRLConsensus e now now' ?q ?i c = Some c1" "moved e c c1" "ct_ConsensusTurn c1 = t"
    using finishReelectWithRLConsensus_moved [OF assms(1,2), of ?i now now' ?q] assms(4)
    unfolding returns_def by auto
  have "ctrl_VerifyHash e c (LeaderReqHash (ce_rlpHash e) ?q) signs = Inr r"
    using assms(3) by (simp only: reelect_hashes)
  then have "processResultBroadcastMsg e now now' (Some (forged_result t signs)) c = Some (c1, None)"
    using c1(1) assms(5) by (simp add: process_rl forged_result_def ct_ConsensusTurn_def)
  moreover obtain c2 where "sendResultBroadcastRsp e (forged_result t signs) c1 = Some c2" "kept e c1 c2"
    using sendResultBroadcastRsp_kept [OF assms(1), of c1] c1(2) unfolding returns_def moved_def by blast
  ultimately show ?thesis using c1(3) by (simp add: handleResultBroadcastMsg_def kept_def)
qed

text \<open>C38: Votes can be replayed. If the DPOS engine accepts some votes for one re-election request, then for
  every turn that is not below the current one the result message with the same votes and a
  made-up request moves the controller to that turn; the sender needs no signature of its own.
  The reason is that the hash of a request is the same for all requests.\<close>

theorem replayed_votes_force_any_turn:
  assumes "signer_ok e" "ctrl_reachable e n c"
    and "VerifyHashWithNumber (ce_order e) (ce_crypto e) (cdc_reader (ce_chain e) (ct_dc c))
      (LeaderReqHash (ce_rlpHash e) req) signs n = Inr r"
    and "dc_GetLeader (ce_bn e) (ct_dc c) t = Inr l" "ct_ConsensusTurn c \<le> t"
  shows "\<exists>c'. handleResultBroadcastMsg e now now' (Some (forged_result t signs)) c = Some c' \<and>
    ct_ConsensusTurn c' = t"
proof -
  have ok: "ctrl_ok e c" "dc_number (ct_dc c) = n" using reachable_ok [OF assms(1,2)] by simp_all
  show ?thesis
    using forged_result_accepted [OF assms(1) ok(1) _ assms(4,5)] assms(3) ok(2)
    unfolding ctrl_VerifyHash_def by blast
qed

section \<open>Witnesses\<close>

text \<open>Three validators 1, 2 and 3, and the controller of block 43 on the node with account \<open>a\<close>.\<close>

definition demo_env :: "address \<Rightarrow> signature \<Rightarrow> ctrl_env" where
  "demo_env a sg = \<lparr>ce_crypto = open_crypto, ce_rlpHash = (\<lambda>_. emptyKeccak), ce_order = demo_order, ce_range = rev,
    ce_BroadCastNodes = [9], ce_self = a, ce_chain = demo_chain, ce_GetHeader = (\<lambda>_ _. None),
    ce_VerifyHeader = (\<lambda>_. True),
    ce_signHelper = \<lparr>sh_testMode = True, sh_testKey = (\<lambda>h. Some sg), sh_signWallet = None\<rparr>,
    ce_leaderKey = (\<lambda>_. 0)\<rparr>"

lemma demo_env_sel [simp]:
  "ce_crypto (demo_env a sg) = open_crypto" "ce_rlpHash (demo_env a sg) = (\<lambda>_. emptyKeccak)"
  "ce_order (demo_env a sg) = demo_order" "ce_range (demo_env a sg) = rev"
  "ce_BroadCastNodes (demo_env a sg) = [9]" "ce_self (demo_env a sg) = a" "ce_chain (demo_env a sg) = demo_chain"
  "SignHashWithValidate (ce_signHelper (demo_env a sg)) h True = Some (Some sg)"
  by (simp_all add: demo_env_def SignHashWithValidate_def SignWithValidate_def vote_hash_def)

definition demo_start :: "startControllerMsg" where
  "demo_start = \<lparr>sc_role = RoleValidator, sc_validators = Some (tg_NodeList demo_graph),
    sc_parentHeader = Some (zero_header\<lparr>h_Leader := 2, h_Time := 1000\<rparr>)\<rparr>"

definition demo_lc :: leaderCalculator where
  "demo_lc = \<lparr>lc_preLeader = 2, lc_leaderList = [(0, 3), (1, 1), (2, 2)], lc_validators = tg_NodeList demo_graph\<rparr>"

definition demo_dc :: "lr_state \<Rightarrow> u32 \<Rightarrow> address \<Rightarrow> cdc" where
  "demo_dc st rt master = \<lparr>dc_state = st, dc_number = 43, dc_curConsensusTurn = 0, dc_consensusLeader = 3,
    dc_curReelectTurn = rt, dc_reelectMaster = master, dc_leaderCal = demo_lc, dc_turnTime = \<lparr>beginTimes = [(0, 1000)]\<rparr>\<rparr>"

lemma demo_set_validators:
  "dc_SetValidators 9 demo_chain (newCDC 43) 2 (Some (tg_NodeList demo_graph)) =
    ((demo_dc stIdle 0 0)\<lparr>dc_turnTime := newTurnTimes\<rparr>, None)"
  by (simp add: dc_SetValidators_def newCDC_def demo_leaders dc_GetLeader_def lc_GetLeader_def
      leader_at_def demo_dc_def demo_lc_def schedule_defs Let_def)

definition demo_base :: controller where
  "demo_base = save_parent (zero_header\<lparr>h_Leader := 2, h_Time := 1000\<rparr>) (set_dc (demo_dc stIdle 0 0) (newController 43))"

lemma demo_base_sel [simp]:
  "ct_dc demo_base = demo_dc stIdle 0 0" "ct_selfCache demo_base = newMasterCache 43"
  "mp_posNotifyCache (ct_mp demo_base) = []" "ct_timer demo_base = None"
  by (simp_all add: demo_base_def save_parent_def newController_def SaveParentHeader_def newMsgPool_def)

lemma demo_started:
  "handleMsg (demo_env a sg) now now' (MsgStart (Some demo_start)) (newController 43) =
    map_option (sendLeaderMsg (demo_env a sg))
      (enter_state (demo_env a sg) now' (CalState \<lparr>beginTimes = [(0, 1000)]\<rparr> 0 now) demo_base)"
proof -
  have 1: "SetBeginTime newTurnTimes 0 1000 = (\<lparr>beginTimes = [(0, 1000)]\<rparr>, True)"
    by (simp add: SetBeginTime_def newTurnTimes_def)
  have 2: "ct_dc (newController 43) = newCDC 43" by (simp add: newController_def)
  have 3: "set_dc x (set_dc y c) = set_dc x c" for x y c by (simp add: set_dc_def)
  have 4: "(demo_dc stIdle 0 0)\<lparr>dc_turnTime := \<lparr>beginTimes = [(0, 1000)]\<rparr>\<rparr> = demo_dc stIdle 0 0" "dc_number (demo_dc st r m) = 43" for st r m
    by (simp_all add: demo_dc_def)
  show ?thesis
    by (simp add: handleMsg_def handleStartMsg_def demo_start_def 1 2 3 4 demo_set_validators demo_validators(3) Let_def
        demo_base_def [symmetric] ct_ConsensusTurn_def) (simp add: demo_dc_def)
qed

lemma demo_calstate:
  "CalState \<lparr>beginTimes = [(0, 1000)]\<rparr> 0 1005 = (stPos, 35, 0)"
  "CalState \<lparr>beginTimes = [(0, 1000)]\<rparr> 0 1045 = (stReelect, 5, 1)"
  by (simp_all add: CalState_def GetBeginTime_def Let_def pos_time_def LRSPOSOutTime_def LRSParentMiningTime_def LRSReelectOutTime_def)

lemma demo_start_pos:
  "\<exists>c. handleMsg (demo_env a sg) 1005 0 (MsgStart (Some demo_start)) (newController 43) = Some c \<and>
    ct_dc c = demo_dc stPos 0 0 \<and> ct_selfCache c = newMasterCache 43 \<and> mp_posNotifyCache (ct_mp c) = []"
  by (simp add: demo_started demo_calstate enter_state_def processPOSState_def ct_State_def GetPOSNotifyMsg_def)
    (simp add: demo_dc_def)

lemma demo_start_reelect:
  assumes "sig64 sg < 2" "a = ucast (ucast (ucast (drop_bit 8 sg) :: u8) :: hash)"
  shows
  "\<exists>c. handleMsg (demo_env a sg) 1045 1046 (MsgStart (Some demo_start)) (newController 43) = Some c \<and>
    ct_dc c = demo_dc stReelect 1 1 \<and> ct_timer c = Some 5 \<and> (if a = 1 then mc_inquiryMsg (ct_selfCache c) = Some
       \<lparr>iq_Number = 43, iq_ConsensusTurn = 0, iq_ReelectTurn = 1, iq_TimeStamp = 1046, iq_Master = 1, iq_From = 1\<rparr> \<and>
      mc_inquiryHash (ct_selfCache c) = emptyKeccak \<and>
      mc_inquiryAgreeSignCache (ct_selfCache c) = Some [(1, agree_entry 1 sg)] \<and>
      mc_inquiryResult (ct_selfCache c) = ReelectRSPTypeNone
     else ct_selfCache c = newMasterCache 43)"
proof -
  let ?e = "demo_env a sg"
  let ?dc = "(demo_dc stReelect 0 0)"
  have 1: "dc_GetLeader 9 ?dc (0 + 1) = Inr 1"
    by (simp add: dc_GetLeader_def lc_GetLeader_def leader_at_def demo_dc_def demo_lc_def schedule_defs Let_def)
  have 2: "SetReelectTurn 9 ?dc 1 = (demo_dc stReelect 1 1, None)"
    using 1 by (simp add: SetReelectTurn_def) (simp add: demo_dc_def)
  have 3: "(demo_dc stIdle 0 0)\<lparr>dc_state := stReelect, dc_curReelectTurn := 0\<rparr> = ?dc" by (simp add: demo_dc_def)
  have 4: "dc_state (demo_dc st r m) = st" "dc_curReelectTurn (demo_dc st r m) = r" "dc_reelectMaster (demo_dc st r m) = m"
    "dc_number (demo_dc st r m) = 43" "dc_curConsensusTurn (demo_dc st r m) = 0" for st r m by (simp_all add: demo_dc_def)
  show ?thesis using assms
    by (auto simp: demo_started demo_calstate enter_state_def 3 startReelect_def ct_State_def 4 2 Let_def GetReelectMaster_def
      sendInquiryReq_def SetInquiryReq_def SaveInquiryAgreeSign_def save_sign_cases open_verify timer_value_def reelect_hashes)
qed

lemma demo_signer: "signer_ok (demo_env a sg)"
  by (simp add: signer_ok_def)

lemma demo_reach: "handleMsg e now now' m (newController 43) = Some c \<Longrightarrow> ctrl_reachable e 43 c"
  by (rule ctrl_reachable.step [OF ctrl_reachable.start ctrl_step.message])

lemma demo_dc_stocks: "getValidatorStocks (cdc_reader demo_chain (demo_dc st r m)) 43 = Inr [(1, 1), (2, 1), (3, 1)]"
  by (simp add: getValidatorStocks_def getValidatorGraph_def cdc_reader_def dc_GetValidatorByNumber_def demo_dc_def
      demo_chain_def demo_graph_def graph2ValidatorStocks_def)

lemma demo_votes:
  "VerifyHashWithNumber demo_order open_crypto (cdc_reader demo_chain (demo_dc st r m)) h [0x100, 0x200, 0x300] 43 =
    Inr [0x300, 0x200, 0x100]"
  by (simp add: VerifyHashWithNumber_def demo_dc_stocks VerifyHashWithStocks_def calculateDPOSTarget_def verifySigns_def
      verifyDPOS_def open_verify sig64_def merge_sign_def demo_order_def DPOSMinStockCount_def DPOSFullSignThreshold_def)

lemma demo_leader: "dc_GetLeader 9 (demo_dc st r m) 1 = Inr 1"
  by (simp add: dc_GetLeader_def lc_GetLeader_def leader_at_def demo_dc_def demo_lc_def schedule_defs Let_def)

theorem controller_invariant_witness:
  "\<exists>c. ctrl_reachable (demo_env 1 0x100) 43 c \<and> ct_dc c = demo_dc stReelect 1 1 \<and> leaders_ok 9 (ct_dc c)"
proof -
  obtain c where c: "handleMsg (demo_env 1 0x100) 1045 1046 (MsgStart (Some demo_start)) (newController 43) = Some c"
    "ct_dc c = demo_dc stReelect 1 1"
    using demo_start_reelect [of "0x100" 1] by (auto simp: sig64_def)
  show ?thesis using c controller_invariant [OF demo_signer demo_reach [OF c(1)]] demo_reach [OF c(1)] by auto
qed

theorem replayed_votes_force_any_turn_witness:
  "\<exists>c c'. ctrl_reachable (demo_env 1 0x100) 43 c \<and> ct_ConsensusTurn c = 0 \<and>
    handleResultBroadcastMsg (demo_env 1 0x100) 2000 2000 (Some (forged_result 1 [0x100, 0x200, 0x300])) c = Some c' \<and>
    ct_ConsensusTurn c' = 1"
proof -
  obtain c where c: "handleMsg (demo_env 1 0x100) 1005 0 (MsgStart (Some demo_start)) (newController 43) = Some c"
    "ct_dc c = demo_dc stPos 0 0"
    using demo_start_pos [of 1 "0x100"] by auto
  have t: "ct_ConsensusTurn c = 0" by (simp add: ct_ConsensusTurn_def c(2) demo_dc_def)
  show ?thesis
    using replayed_votes_force_any_turn [OF demo_signer demo_reach [OF c(1)], of "\<lparr>lq_InquiryReq = None, lq_AgreeSigns = [], lq_TimeStamp = 0\<rparr>" "[0x100, 0x200, 0x300]"
        "[0x300, 0x200, 0x100]" 1 1 2000 2000] demo_reach [OF c(1)] t
    by (auto simp: c(2) demo_votes demo_leader)
qed

theorem turn_change_needs_quorum_witness:
  "\<exists>c c'. ctrl_step (demo_env 1 0x100) c c' \<and> ct_ConsensusTurn c < ct_ConsensusTurn c'"
proof -
  obtain c where c: "handleMsg (demo_env 1 0x100) 1005 0 (MsgStart (Some demo_start)) (newController 43) = Some c"
    "ct_dc c = demo_dc stPos 0 0"
    using demo_start_pos [of 1 "0x100"] by auto
  have t: "ct_ConsensusTurn c = 0" by (simp add: ct_ConsensusTurn_def c(2) demo_dc_def)
  have ok: "ctrl_ok (demo_env 1 0x100) c" "dc_number (ct_dc c) = 43"
    using reachable_ok [OF demo_signer demo_reach [OF c(1)]] by simp_all
  obtain c' where c': "handleResultBroadcastMsg (demo_env 1 0x100) 2000 2000
      (Some (forged_result 1 [0x100, 0x200, 0x300])) c = Some c'" "ct_ConsensusTurn c' = 1"
    using forged_result_accepted [OF demo_signer ok(1), of "\<lparr>lq_InquiryReq = None, lq_AgreeSigns = [], lq_TimeStamp = 0\<rparr>" "[0x100, 0x200, 0x300]" "[0x300, 0x200, 0x100]" 1 1
        2000 2000]
    by (auto simp: ctrl_VerifyHash_def ok(2) [unfolded c(2)] c(2) demo_votes demo_leader t)
  then have st: "ctrl_step (demo_env 1 0x100) c c'"
    by (intro ctrl_step.message [of _ 2000 2000 "MsgResultBroadcast (Some (forged_result 1 [0x100, 0x200, 0x300]))"])
       (simp add: handleMsg_def)
  have "ct_ConsensusTurn c < ct_ConsensusTurn c'"
    using turn_change_needs_quorum [OF demo_signer _ demo_reach [OF c(1)] st] c'(2) t demo_order_ok by simp
  then show ?thesis using st by blast
qed

theorem mining_needs_pos_witness:
  "\<exists>c c'. ctrl_step (demo_env 1 0x100) c c' \<and> ct_State c = stPos \<and> ct_State c' = stMining \<and>
    (mp_posNotifyCache (ct_mp c') \<noteq> [] \<or>
     (\<exists>h. h_Leader h = GetConsensusLeader (ct_dc c) \<and> VerifyBlock demo_order open_crypto (\<lambda>_. emptyKeccak) [9] (cdc_reader demo_chain (ct_dc c)) h = None))"
proof -
  obtain c where c: "handleMsg (demo_env 1 0x100) 1005 0 (MsgStart (Some demo_start)) (newController 43) = Some c"
    "ct_dc c = demo_dc stPos 0 0" "mp_posNotifyCache (ct_mp c) = []"
    using demo_start_pos [of 1 "0x100"] by auto
  obtain c' where c': "handleMsg (demo_env 1 0x100) 0 0 (MsgPOSFinished (Some (demo_pos 3 0))) c = Some c'" "ct_State c' = stMining"
    by (auto simp: handleMsg_def handleBlockPOSFinishedNotify_def SavePOSNotifyMsg_def demo_pos_def c
        processPOSState_def GetPOSNotifyMsg_def ct_State_def demo_dc_def)
  then have st: "ctrl_step (demo_env 1 0x100) c c'" using ctrl_step.message by blast
  have s: "ct_State c = stPos" by (simp add: ct_State_def c(2) demo_dc_def)
  show ?thesis using mining_needs_pos [OF demo_signer demo_reach [OF c(1)] st] c'(2) s st by auto
qed

definition demo_pos_result :: HD_ReelectResultBroadcastMsg where
  "demo_pos_result = (forged_result 1 [])\<lparr>rb_Type := ReelectRSPTypePOS, rb_RLResult := None,
    rb_POSResult := Some \<lparr>bcr_From = 3, bcr_Header = Some (zero_header\<lparr>h_Leader := 3, h_Signatures := [0x100, 0x201]\<rparr>),
      bcr_ConsensusTurn = 0, bcr_TxsCode = []\<rparr>\<rparr>"

theorem controller_no_panic_witness:
  "\<exists>c. ctrl_reachable (demo_env 1 0x100) 43 c \<and>
    handleMsg (demo_env 1 0x100) 0 0 (MsgResultBroadcast (Some demo_pos_result)) c \<noteq> None"
proof -
  obtain c where c: "handleMsg (demo_env 1 0x100) 1005 0 (MsgStart (Some demo_start)) (newController 43) = Some c"
    "ct_selfCache c = newMasterCache 43"
    using demo_start_pos [of 1 "0x100"] by auto
  have q: "\<forall>h \<in> set_option (carried_header (MsgResultBroadcast (Some demo_pos_result)) c). quiet_header (demo_env 1 0x100) h"
    by (simp add: quiet_header_def HashNoSignsAndNonce_def emptyKeccak_no_panic)
  have "handleMsg (demo_env 1 0x100) 0 0 (MsgResultBroadcast (Some demo_pos_result)) c \<noteq> None"
    using controller_no_panic [OF demo_signer demo_reach [OF c(1)] _ _ q, of 0 0]
    by (simp add: c(2) newMasterCache_def result_complete_def demo_pos_result_def)
  then show ?thesis using demo_reach [OF c(1)] by blast
qed

end
