(* ===== verification/Reelect_Progress.thy ===== *)
theory Reelect_Progress
  imports Reelect_Safety
begin

text \<open>
  How a re-election goes on: the steps from the replies a master collects to the votes of the other
  validators, and two places where the code gets in its own way.
\<close>

section \<open>Timers\<close>

lemma sendInquiryReq_frame:
  assumes "sendInquiryReq e now c = Some c'"
  shows "ct_dc c' = ct_dc c \<and> ct_mp c' = ct_mp c \<and> ct_timer c' = ct_timer c \<and> ct_reelectTimer c' = ct_reelectTimer c"
  using assms by (auto simp: sendInquiryReq_def Let_def split: prod.splits option.splits)

lemma startReelect_frame:
  assumes "startReelect e now t c = Some c'"
  shows "ct_timer c' = ct_timer c \<and> ct_State c' = ct_State c \<and> ct_ConsensusTurn c' = ct_ConsensusTurn c"
proof -
  obtain dc err where s: "SetReelectTurn (ce_bn e) (ct_dc c) t = (dc, err)" by fastforce
  have dc: "dc_state dc = dc_state (ct_dc c)" "dc_curConsensusTurn dc = dc_curConsensusTurn (ct_dc c)"
    using SetReelectTurn_frame [of "ce_bn e" "ct_dc c" t] s by simp_all
  show ?thesis
    using assms s dc
    by (cases err)
       (auto simp: startReelect_def Let_def ct_State_def ct_ConsensusTurn_def dest!: sendInquiryReq_frame split: if_splits)
qed

text \<open>When the timer of a turn is handled exactly at the deadline of the next re-election turn, the time
  that remains is 0 and \<open>setTimer(0)\<close> stops the timer instead of letting it fire: the controller stays
  in the re-election state with no timer running, so no later turn ever starts by time-out.\<close>

theorem exact_deadline_stops_timer:
  assumes "signer_ok e" "ctrl_reachable e n c" "ct_State c = stReelect"
    and "CalRemainTime (dc_turnTime (ct_dc c)) (ct_ConsensusTurn c) (dc_curReelectTurn (ct_dc c) + 1) now = 0"
  shows "\<exists>c'. timeOutHandle e now now' c = Some c' \<and> ct_State c' = stReelect \<and> ct_timer c' = None"
proof -
  let ?t = "dc_curReelectTurn (ct_dc c) + 1"
  have ok: "ctrl_ok e (setTimer 0 c)" using reachable_ok [OF assms(1,2)] by (simp add: ctrl_ok_def)
  obtain c' where c': "startReelect e now' ?t (setTimer 0 c) = Some c'"
    using startReelect_kept [OF assms(1) ok] unfolding returns_def by blast
  have "timeOutHandle e now now' c = Some c'"
    using assms(3,4) c' by (simp add: timeOutHandle_def Let_def ct_ConsensusTurn_def)
  moreover have "ct_timer c' = None" "ct_State c' = stReelect"
    using startReelect_frame [OF c'] assms(3) by (simp_all add: timer_value_def ct_State_def)
  ultimately show ?thesis by blast
qed

section \<open>The shared request\<close>

text \<open>C39: A master whose re-election request is sent again after the votes were counted refuses its own
  result. The repeated request sets the time stamp of the request object that the result message points
  to, so that the result seems older than its request, and \<open>processResultBroadcastMsg\<close> returns an error
  and changes nothing.\<close>

theorem resent_request_spoils_result:
  assumes "mc_ok ec s" "SetRLResultBroadcastSuccess a now s signs = (s1, None)"
    and "GetRLReqMsg rlpHash later s1 = Some (s2, r)" "now < later"
  shows "\<exists>msg err. GetLocalResultMsg s2 = Inr msg \<and>
    processResultBroadcastMsg e t t' (Some msg) c = Some (c, Some err)"
proof -
  have agree: "mc_inquiryResult s = ReelectRSPTypeAgree"
    using assms(2) by (simp add: SetRLResultBroadcastSuccess_def split: if_splits)
  then obtain q i where q: "mc_rlReqMsg s = Some q" "lq_InquiryReq q = Some i"
    using assms(1) by (auto simp: mc_ok_def)
  have "GetLocalResultMsg s2 = Inr \<lparr>rb_Number = mc_number s, rb_Type = ReelectRSPTypeAgree, rb_POSResult = None,
      rb_RLResult = Some \<lparr>lk_Req = Some (q\<lparr>lq_TimeStamp := later\<rparr>), lk_Votes = signs, lk_TimeStamp = now\<rparr>,
      rb_TimeStamp = 0, rb_From = a\<rparr>"
    using assms(2,3) agree q
    by (auto simp: SetRLResultBroadcastSuccess_def GetRLReqMsg_def Let_def update_shared_req_def GetLocalResultMsg_def)
  then show ?thesis using q(2) assms(4) by (auto simp: process_rl)
qed

section \<open>From agreements to votes\<close>

text \<open>A node that signs with the key of its own account.\<close>

definition signs_own :: "ctrl_env \<Rightarrow> bool" where
  "signs_own e \<longleftrightarrow> (\<forall>h. \<exists>s. SignHashWithValidate (ce_signHelper e) h True = Some (Some s) \<and>
    VerifySignWithValidate (ce_crypto e) h s = SignOk (ce_self e) True)"

lemma signs_own_ok: "signs_own e \<Longrightarrow> signer_ok e"
  unfolding signs_own_def signer_ok_def by (metis option.distinct(1))

lemma out_simps [simp]:
  "ct_out (emit m c) = ct_out c @ [m]" "ct_out (set_cache s c) = ct_out c"
  by (simp_all add: emit_def set_cache_def)

lemma sendRLReq_sends:
  assumes "signs_own e" "mc_inquiryResult (ct_selfCache c) = ReelectRSPTypeAgree" "mc_rlReqMsg (ct_selfCache c) = Some m"
  shows "\<exists>c'. sendRLReq e now c = Some c' \<and> ct_out c' = ct_out c @ [SendRLReq (m\<lparr>lq_TimeStamp := now\<rparr>)] \<and>
    mc_inquiryResult (ct_selfCache c') = ReelectRSPTypeAgree"
proof -
  let ?req = "m\<lparr>lq_TimeStamp := now\<rparr>"
  let ?h = "LeaderReqHash (ce_rlpHash e) ?req"
  obtain cache where get: "GetRLReqMsg (ce_rlpHash e) now (ct_selfCache c) = Some (cache, Inr (?req, ?h))"
    and cache: "mc_rlReqHash cache = ?h" "mc_rlVoteCache cache = Some []" "mc_inquiryResult cache = ReelectRSPTypeAgree"
    using assms(2,3) by (simp add: GetRLReqMsg_def Let_def)
  obtain sg where sg: "SignHashWithValidate (ce_signHelper e) ?h True = Some (Some sg)"
    "VerifySignWithValidate (ce_crypto e) ?h sg = SignOk (ce_self e) True"
    using assms(1) unfolding signs_own_def by blast
  have "SaveRLVote (ce_crypto e) cache ?h sg (ce_self e) =
      Some (cache\<lparr>mc_rlVoteCache := Some [(ce_self e, agree_entry (ce_self e) sg)]\<rparr>, None)"
    using cache sg(2) by (simp add: SaveRLVote_def save_sign_cases)
  then show ?thesis using get sg(1) cache(3) by (simp add: sendRLReq_def Let_def)
qed

text \<open>C13: Progress of a re-election. When a reply completes a quorum of agreements, the master turns the
  inquiry and the selected signatures into a re-election request and sends it in the same step. Every
  other validator that is in the re-election of the same turns under this master and knows the same
  validators answers that request with a vote, and the vote verifies as an agreement over the request
  by that validator.\<close>

theorem agreement_quorum_yields_votes:
  assumes "signs_own e" "ctrl_reachable e n c" "mc_inquiryMsg (ct_selfCache c) = Some i"
    and asked: "mc_inquiryHash (ct_selfCache c) = InquiryHash (ce_rlpHash e) i"
    and rsp: "ir_Type rsp = ReelectRSPTypeAgree" "CheckInquiryRspMsg (ct_selfCache c) (Some rsp) = None"
      "SaveInquiryAgreeSign (ce_crypto e) (ct_selfCache c) (ir_ReqHash rsp) (ir_AgreeSign rsp) (ir_From rsp) = Some (s, None)"
    and quorum: "VerifyHashWithVerifiedSignsAndNumber (ce_order e) (cdc_reader (ce_chain e) (ct_dc c))
      (GetInquiryAgreeSigns (ce_range e) s) n = Inr signs"
    and orders: "range_order (ce_range e)" "order_ok (ce_order e)" "order_ok (ce_order e')"
    and follower: "signs_own e'" "ctrl_reachable e' n f" "ce_crypto e' = ce_crypto e"
      "ce_rlpHash e' = ce_rlpHash e" "ct_State f = stReelect"
      "ct_ConsensusTurn f = iq_ConsensusTurn i" "dc_curReelectTurn (ct_dc f) = iq_ReelectTurn i"
      "GetReelectMaster (ct_dc f) = iq_Master i" "iq_From i = iq_Master i" "iq_TimeStamp i \<le> now"
    and same: "getValidatorStocks (cdc_reader (ce_chain e) (ct_dc c)) n = Inr stocks"
      "getValidatorStocks (cdc_reader (ce_chain e') (ct_dc f)) n = Inr stocks" "length stocks < 2 ^ 48"
  shows "\<exists>c' req f' vote. handleInquiryRsp e now (Some rsp) c = Some c' \<and> ct_out c' = ct_out c @ [SendRLReq req] \<and>
    handleRLReq e' (Some req) f = Some f' \<and> ct_out f' = ct_out f @ [SendRLVote vote (iq_From i)] \<and>
    VerifySignWithValidate (ce_crypto e) (LeaderReqHash (ce_rlpHash e) req) (cv_Sign (lv_Vote vote)) =
      SignOk (ce_self e') True"
proof -
  have ok: "ctrl_ok e c" "dc_number (ct_dc c) = n" using reachable_ok [OF signs_own_ok [OF assms(1)] assms(2)] by simp_all
  have nf: "dc_number (ct_dc f) = n" using reachable_ok [OF signs_own_ok [OF follower(1)] follower(2)] by simp
  have h: "mc_inquiryHash (ct_selfCache c) \<noteq> 0" "ir_ReqHash rsp = mc_inquiryHash (ct_selfCache c)"
    using rsp(2) by (simp_all add: CheckInquiryRspMsg_None)
  have none: "mc_inquiryResult (ct_selfCache c) = ReelectRSPTypeNone"
    using ctrl_ok_cache [OF ok(1)] h(1) by (simp add: mc_ok_def)
  have s: "mc_ok (ce_crypto e) s" "mc_inquiryHash s = mc_inquiryHash (ct_selfCache c)"
    using SaveInquiryAgreeSign_ok [OF ctrl_ok_cache [OF ok(1)] h(1), of "ir_AgreeSign rsp" "ir_From rsp"] rsp(3) h(2)
    by auto
  have si: "mc_inquiryMsg s = Some i" "mc_inquiryResult s = ReelectRSPTypeNone"
    using rsp(3) assms(3) none by (auto simp: SaveInquiryAgreeSign_def split: option.splits sum.splits)
  let ?m = "\<lparr>lq_InquiryReq = Some i, lq_AgreeSigns = signs, lq_TimeStamp = 0\<rparr>"
  let ?req = "\<lparr>lq_InquiryReq = Some i, lq_AgreeSigns = signs, lq_TimeStamp = now\<rparr>"
  obtain s1 where s1: "SetInquiryResultAgree s signs = (s1, None)" "mc_inquiryResult s1 = ReelectRSPTypeAgree"
    "mc_rlReqMsg s1 = Some ?m"
    using si by (simp add: SetInquiryResultAgree_def)
  obtain c' where "sendRLReq e now (set_cache s1 (set_cache s c)) = Some c'" "ct_out c' = ct_out c @ [SendRLReq ?req]"
    using sendRLReq_sends [OF assms(1), of "set_cache s1 (set_cache s c)" ?m now] s1 by auto
  then have master: "handleInquiryRsp e now (Some rsp) c = Some c'" "ct_out c' = ct_out c @ [SendRLReq ?req]"
    using rsp none quorum ok(2) s1(1)
    by (simp_all add: handleInquiryRsp_def InquiryResult_def ctrl_VerifySigns_def Let_def)
  obtain r where "VerifyHashWithNumber (ce_order e') (ce_crypto e) (cdc_reader (ce_chain e') (ct_dc f))
      (mc_inquiryHash s) signs n = Inr r"
    using collected_signs_verify [OF mc_ok_caches(1) [OF s(1)] orders _ same] quorum
    by (auto simp: GetInquiryAgreeSigns_def)
  then have check: "checkRLReqMsg e' (Some ?req) f = Some None"
    using follower nf s(2) asked by (simp add: checkRLReqMsg_def ctrl_VerifyHash_def ct_ConsensusTurn_def)
  obtain sg where sg: "SignHashWithValidate (ce_signHelper e') (LeaderReqHash (ce_rlpHash e') ?req) True = Some (Some sg)"
    "VerifySignWithValidate (ce_crypto e') (LeaderReqHash (ce_rlpHash e') ?req) sg = SignOk (ce_self e') True"
    using follower(1) unfolding signs_own_def by blast
  then show ?thesis using master check follower(3-5) by (auto simp: handleRLReq_def Let_def)
qed

section \<open>Witnesses\<close>

lemma demo_signs_own: "signs_own (demo_env 1 0x100)" "signs_own (demo_env 3 0x300)"
  by (simp_all add: signs_own_def open_verify sig64_def)

theorem exact_deadline_stops_timer_witness:
  "\<exists>c c'. ctrl_reachable (demo_env 1 0x100) 43 c \<and> ct_timer c = Some 5 \<and>
    timeOutHandle (demo_env 1 0x100) 1120 1120 c = Some c' \<and> ct_State c' = stReelect \<and> ct_timer c' = None"
proof -
  obtain c where c: "handleMsg (demo_env 1 0x100) 1045 1046 (MsgStart (Some demo_start)) (newController 43) = Some c"
    "ct_dc c = demo_dc stReelect 1 1" "ct_timer c = Some 5"
    using demo_start_reelect [of "0x100" 1] by (auto simp: sig64_def)
  have r: "CalRemainTime (dc_turnTime (ct_dc c)) (ct_ConsensusTurn c) (dc_curReelectTurn (ct_dc c) + 1) 1120 = 0"
    by (simp add: c(2) demo_dc_def ct_ConsensusTurn_def CalRemainTime_def GetBeginTime_def pos_time_def Let_def
        LRSPOSOutTime_def LRSParentMiningTime_def LRSReelectOutTime_def)
  have "ct_State c = stReelect" by (simp add: ct_State_def c(2) demo_dc_def)
  then show ?thesis
    using exact_deadline_stops_timer [OF demo_signer demo_reach [OF c(1)] _ r] demo_reach [OF c(1)] c(3) by blast
qed

definition demo_agreed :: masterCache where
  "demo_agreed = (newMasterCache 43)\<lparr>mc_inquiryResult := ReelectRSPTypeAgree, mc_rlReqMsg :=
    Some \<lparr>lq_InquiryReq = Some (demo_inquiry 0 1 1000 1), lq_AgreeSigns = [0x100, 0x200, 0x300], lq_TimeStamp = 1010\<rparr>\<rparr>"

theorem resent_request_spoils_result_witness:
  "\<exists>s1 s2 r msg err. SetRLResultBroadcastSuccess 1 1012 demo_agreed [0x100, 0x200, 0x300] = (s1, None) \<and>
    GetRLReqMsg (\<lambda>_. 7) 1015 s1 = Some (s2, r) \<and> GetLocalResultMsg s2 = Inr msg \<and>
    processResultBroadcastMsg (demo_env 1 0x100) 1016 1016 (Some msg) (newController 43) = Some (newController 43, Some err)"
proof -
  have ok: "mc_ok open_crypto demo_agreed"
    by (simp add: mc_ok_def demo_agreed_def newMasterCache_def)
  obtain s1 where s1: "SetRLResultBroadcastSuccess 1 1012 demo_agreed [0x100, 0x200, 0x300] = (s1, None)"
    by (simp add: SetRLResultBroadcastSuccess_def demo_agreed_def newMasterCache_def)
  then obtain s2 r where s2: "GetRLReqMsg (\<lambda>_. 7) 1015 s1 = Some (s2, r)"
    using GetRLReqMsg_ok [OF SetRLResultBroadcastSuccess_ok [OF ok, of 1 1012 "[0x100, 0x200, 0x300]"]] by fastforce
  show ?thesis
    using s1 s2 resent_request_spoils_result [OF ok s1 s2, of "demo_env 1 0x100" 1016 1016 "newController 43"] by auto
qed

definition demo_agree :: "address \<Rightarrow> signature \<Rightarrow> HD_ReelectInquiryRspMsg" where
  "demo_agree a sg = \<lparr>ir_Number = 43, ir_ReqHash = emptyKeccak, ir_Type = ReelectRSPTypeAgree, ir_AgreeSign = sg,
    ir_POSResult = None, ir_RLResult = None, ir_NewBlock = None, ir_From = a\<rparr>"

lemma demo_few:
  "VerifyHashWithVerifiedSignsAndNumber demo_order (cdc_reader demo_chain (demo_dc st r m))
    [agree_entry 2 0x200, agree_entry 1 0x100] 43 = Inl ErrSignCountErr"
  by (simp add: VerifyHashWithVerifiedSignsAndNumber_def demo_dc_stocks calculateDPOSTarget_def demo_order_def
      DPOSMinStockCount_def DPOSFullSignThreshold_def parseVerifiedSigns_def)

lemma demo_enough:
  "VerifyHashWithVerifiedSignsAndNumber demo_order (cdc_reader demo_chain (demo_dc st r m))
    [agree_entry 3 0x300, agree_entry 2 0x200, agree_entry 1 0x100] 43 = Inr [0x100, 0x200, 0x300]"
  by (simp add: VerifyHashWithVerifiedSignsAndNumber_def demo_dc_stocks calculateDPOSTarget_def demo_order_def
      DPOSMinStockCount_def DPOSFullSignThreshold_def parseVerifiedSigns_def verifyDPOS_def merge_sign_def agree_entry_def)

lemma demo_two_agreed:
  "\<exists>c. ctrl_reachable (demo_env 1 0x100) 43 c \<and> ct_dc c = demo_dc stReelect 1 1 \<and>
    mc_inquiryMsg (ct_selfCache c) = Some
       \<lparr>iq_Number = 43, iq_ConsensusTurn = 0, iq_ReelectTurn = 1, iq_TimeStamp = 1046, iq_Master = 1, iq_From = 1\<rparr> \<and>
    mc_inquiryHash (ct_selfCache c) = emptyKeccak \<and> mc_inquiryResult (ct_selfCache c) = ReelectRSPTypeNone \<and>
    mc_inquiryAgreeSignCache (ct_selfCache c) = Some [(1, agree_entry 1 0x100), (2, agree_entry 2 0x200)]"
proof -
  let ?e = "demo_env 1 0x100"
  obtain c where c: "handleMsg ?e 1045 1046 (MsgStart (Some demo_start)) (newController 43) = Some c"
    "ct_dc c = demo_dc stReelect 1 1"
    "mc_inquiryMsg (ct_selfCache c) = Some
       \<lparr>iq_Number = 43, iq_ConsensusTurn = 0, iq_ReelectTurn = 1, iq_TimeStamp = 1046, iq_Master = 1, iq_From = 1\<rparr>"
    "mc_inquiryHash (ct_selfCache c) = emptyKeccak"
    "mc_inquiryAgreeSignCache (ct_selfCache c) = Some [(1, agree_entry 1 0x100)]"
    "mc_inquiryResult (ct_selfCache c) = ReelectRSPTypeNone"
    using demo_start_reelect [of "0x100" 1] by (auto simp: sig64_def)
  let ?c = "set_cache ((ct_selfCache c)\<lparr>mc_inquiryAgreeSignCache :=
    Some [(1, agree_entry 1 0x100), (2, agree_entry 2 0x200)]\<rparr>) c"
  have "emptyKeccak \<noteq> 0" by (simp add: emptyKeccak_def)
  then have "handleMsg ?e 1047 1047 (MsgInquiryRsp (Some (demo_agree 2 0x200))) c = Some ?c"
    using c demo_few [of stReelect 1 1]
    by (simp add: handleMsg_def handleInquiryRsp_def InquiryResult_def CheckInquiryRspMsg_def demo_agree_def
        SaveInquiryAgreeSign_def save_sign_cases open_verify sig64_def ctrl_VerifySigns_def Let_def
        GetInquiryAgreeSigns_def cache_signs_def)
       (simp add: demo_dc_def)
  then have "ctrl_reachable ?e 43 ?c" using demo_reach [OF c(1)] by (blast intro: ctrl_reachable.step ctrl_step.message)
  then show ?thesis using c by (intro exI [of _ ?c]) simp
qed

theorem agreement_quorum_yields_votes_witness:
  "\<exists>c c' f req f' vote. ctrl_reachable (demo_env 1 0x100) 43 c \<and> ctrl_reachable (demo_env 3 0x300) 43 f \<and>
    handleInquiryRsp (demo_env 1 0x100) 1050 (Some (demo_agree 3 0x300)) c = Some c' \<and>
    ct_out c' = ct_out c @ [SendRLReq req] \<and>
    handleRLReq (demo_env 3 0x300) (Some req) f = Some f' \<and> ct_out f' = ct_out f @ [SendRLVote vote 1]"
proof -
  let ?e = "demo_env 1 0x100" and ?e' = "demo_env 3 0x300"
  let ?i = "\<lparr>iq_Number = 43, iq_ConsensusTurn = 0, iq_ReelectTurn = 1, iq_TimeStamp = 1046, iq_Master = 1, iq_From = 1\<rparr>"
  obtain c where c: "ctrl_reachable ?e 43 c" "ct_dc c = demo_dc stReelect 1 1" "mc_inquiryMsg (ct_selfCache c) = Some ?i"
    "mc_inquiryHash (ct_selfCache c) = emptyKeccak" "mc_inquiryResult (ct_selfCache c) = ReelectRSPTypeNone"
    "mc_inquiryAgreeSignCache (ct_selfCache c) = Some [(1, agree_entry 1 0x100), (2, agree_entry 2 0x200)]"
    using demo_two_agreed by blast
  obtain f where f: "handleMsg ?e' 1045 1046 (MsgStart (Some demo_start)) (newController 43) = Some f"
    "ct_dc f = demo_dc stReelect 1 1"
    using demo_start_reelect [of "0x300" 3] by (auto simp: sig64_def)
  have st: "ct_State f = stReelect" "ct_ConsensusTurn f = 0" "dc_curReelectTurn (ct_dc f) = 1" "GetReelectMaster (ct_dc f) = 1"
    by (simp_all add: ct_State_def ct_ConsensusTurn_def GetReelectMaster_def f(2) demo_dc_def)
  have nz: "emptyKeccak \<noteq> 0" by (simp add: emptyKeccak_def)
  let ?s = "(ct_selfCache c)\<lparr>mc_inquiryAgreeSignCache :=
    Some [(1, agree_entry 1 0x100), (2, agree_entry 2 0x200), (3, agree_entry 3 0x300)]\<rparr>"
  have s: "SaveInquiryAgreeSign (ce_crypto ?e) (ct_selfCache c) (ir_ReqHash (demo_agree 3 0x300))
      (ir_AgreeSign (demo_agree 3 0x300)) (ir_From (demo_agree 3 0x300)) = Some (?s, None)"
    using c nz by (simp add: SaveInquiryAgreeSign_def demo_agree_def save_sign_cases open_verify sig64_def)
  have q: "VerifyHashWithVerifiedSignsAndNumber (ce_order ?e) (cdc_reader (ce_chain ?e) (ct_dc c))
      (GetInquiryAgreeSigns (ce_range ?e) ?s) 43 = Inr [0x100, 0x200, 0x300]"
    using demo_enough [of stReelect 1 1] by (simp add: c(2) GetInquiryAgreeSigns_def cache_signs_def)
  have "\<exists>c' req f' vote. handleInquiryRsp ?e 1050 (Some (demo_agree 3 0x300)) c = Some c' \<and> ct_out c' = ct_out c @ [SendRLReq req] \<and>
    handleRLReq ?e' (Some req) f = Some f' \<and> ct_out f' = ct_out f @ [SendRLVote vote (iq_From ?i)] \<and>
    VerifySignWithValidate (ce_crypto ?e) (LeaderReqHash (ce_rlpHash ?e) req) (cv_Sign (lv_Vote vote)) = SignOk (ce_self ?e') True"
    by (rule agreement_quorum_yields_votes [OF demo_signs_own(1) c(1,3) _ _ _ s q _ _ _ demo_signs_own(2) demo_reach [OF f(1)],
          where stocks = "[(1, 1), (2, 1), (3, 1)]"])
       (use c nz st in \<open>simp_all add: reelect_hashes demo_agree_def CheckInquiryRspMsg_def demo_dc_stocks f(2)
         demo_order_ok range_order_def\<close>)
  then have "\<exists>c' req f' vote. handleInquiryRsp ?e 1050 (Some (demo_agree 3 0x300)) c = Some c' \<and>
    ct_out c' = ct_out c @ [SendRLReq req] \<and>
    handleRLReq ?e' (Some req) f = Some f' \<and> ct_out f' = ct_out f @ [SendRLVote vote 1]" by simp blast
  then show ?thesis using c(1) demo_reach [OF f(1)] by blast
qed

end
