(* ===== verification/Number_Window.thy ===== *)
theory Number_Window
  imports Matrix_Prelude
begin

text \<open>
  Tables of workers by block number. The leader election (\<open>verifier/ctrlManager.go\<close>), the block
  verification (\<open>blkconsensus/blkverify/process_manage.go\<close>) and the block generation
  (\<open>blockgenor/process_manage.go\<close>) each keep a current number and a map from numbers to workers. A worker
  is made when a number is first asked for, only numbers in a window around the current one may be asked
  for, and workers that fall out of the window are closed and removed when the current number changes.
\<close>

section \<open>Removing the workers below a bound\<close>

text \<open>The loops of \<open>fixCtrlMap\<close> and \<open>fixProcessMap\<close>: the keys below the bound are collected and then
  deleted.\<close>

definition keys_below :: "u64 \<Rightarrow> (u64, 'p) gomap \<Rightarrow> u64 list" where
  "keys_below bound m = map fst (filter (\<lambda>kv. fst kv < bound) m)"

definition drop_below :: "u64 \<Rightarrow> (u64, 'p) gomap \<Rightarrow> (u64, 'p) gomap" where
  "drop_below bound m = foldl (\<lambda>m delKey. map_del delKey m) m (keys_below bound m)"

lemma drop_below_filter: "drop_below bound m = filter (\<lambda>kv. \<not> fst kv < bound) m"
  unfolding drop_below_def foldl_map_del keys_below_def by (rule filter_cong) force+

lemma drop_below_simps [simp]:
  "gomap_ok m \<Longrightarrow> gomap_ok (drop_below bound m)"
  "fst ` set (drop_below bound m) = {k \<in> fst ` set m. \<not> k < bound}"
  by (auto simp: drop_below_filter)

lemma map_of_drop_below [simp]:
  "map_of (drop_below bound m) k = (if k < bound then None else map_of m k)"
  unfolding drop_below_filter by (induction m) auto

text \<open>The error of asking for a number outside the window.\<close>

datatype number_error = ErrNumberLess u64 u64 | ErrNumberTooBig u64 u64

section \<open>The contract of a table\<close>

text \<open>\<open>get\<close> returns the worker of a number and makes it when there is none; \<open>move\<close> changes the current
  number; \<open>legal\<close> says which numbers a client may ask for; \<open>low\<close> is the least number that is kept.\<close>

locale worker_table =
  fixes cur :: "'s \<Rightarrow> u64" and tab :: "'s \<Rightarrow> (u64, 'p) gomap"
    and fresh :: "u64 \<Rightarrow> 'p" and low :: "u64 \<Rightarrow> u64"
    and get :: "'s \<Rightarrow> u64 \<Rightarrow> 's \<times> 'p" and move :: "'s \<Rightarrow> u64 \<Rightarrow> 's" and legal :: "'s \<Rightarrow> u64 \<Rightarrow> bool"
  assumes get_law: "cur (fst (get s n)) = cur s \<and>
      tab (fst (get s n)) = (if map_has (tab s) n then tab s else map_put n (fresh n) (tab s)) \<and>
      snd (get s n) = (case map_of (tab s) n of None \<Rightarrow> fresh n | Some p \<Rightarrow> p)"
    and move_law: "cur (move s n) = n \<and> tab (move s n) = drop_below (low n) (tab s)"
    and legal_law: "legal s n \<longleftrightarrow> low (cur s) \<le> n \<and> n \<le> cur s + 2"
    and low_law: "low n \<le> n" "m \<le> n \<Longrightarrow> low m \<le> low n"
begin

definition windowed :: "'s \<Rightarrow> bool" where
  "windowed s \<longleftrightarrow> gomap_ok (tab s) \<and>
    (\<forall>k. map_has (tab s) k \<longrightarrow> low (cur s) \<le> k \<and> unat k \<le> unat (cur s) + 2)"

definition holds :: "(u64 \<Rightarrow> 'p \<Rightarrow> bool) \<Rightarrow> 's \<Rightarrow> bool" where
  "holds P s \<longleftrightarrow> (\<forall>k p. map_of (tab s) k = Some p \<longrightarrow> P k p)"

lemma legal_unat: "legal s n \<Longrightarrow> unat n \<le> unat (cur s) + 2"
proof -
  assume "legal s n"
  then have "unat n \<le> unat (cur s + 2)" by (simp add: legal_law word_le_nat_alt)
  also have "\<dots> \<le> unat (cur s) + 2" by (simp add: unat_word_ariths)
  finally show ?thesis .
qed

lemma get_windowed:
  assumes "windowed s" "legal s n \<or> n = cur s"
  shows "windowed (fst (get s n))"
proof -
  have "low (cur s) \<le> n \<and> unat n \<le> unat (cur s) + 2"
    using assms(2) legal_unat low_law(1) by (auto simp: legal_law)
  then show ?thesis using assms(1) get_law [of s n]
    by (auto simp: windowed_def map_has_def split: if_splits)
qed

lemma move_windowed:
  assumes "windowed s" "cur s \<le> n"
  shows "windowed (move s n)"
proof -
  have "unat (cur s) \<le> unat n" using assms(2) by (simp add: word_le_nat_alt)
  then show ?thesis using assms(1) move_law [of s n] by (fastforce simp: windowed_def map_has_def split: if_splits)
qed

lemma get_holds: "holds P s \<Longrightarrow> (\<And>n. P n (fresh n)) \<Longrightarrow> holds P (fst (get s n)) \<and> P n (snd (get s n))"
  using get_law [of s n] by (auto simp: holds_def map_has_def split: option.splits if_splits)

lemma move_holds: "holds P s \<Longrightarrow> holds P (move s n)"
  using move_law [of s n] by (auto simp: holds_def split: if_splits)

lemma get_idem: "get_again = get (fst (get s n)) n \<Longrightarrow> tab (fst get_again) = tab (fst (get s n)) \<and> snd get_again = snd (get s n)"
  using get_law [of s n] get_law [of "fst (get s n)" n]
  by (auto simp: map_has_def split: option.splits if_splits)

lemma get_map: "map_of (tab (fst (get s n))) = (map_of (tab s))(n \<mapsto> snd (get s n))"
  using get_law [of s n] by (auto simp: map_has_def split: option.splits if_splits)

lemma move_map: "map_of (tab (move s n)) k = (if k < low n then None else map_of (tab s) k)"
  using move_law [of s n] by simp

lemma windowed_size:
  assumes "windowed s"
  shows "length (tab s) \<le> unat (cur s) + 3 - unat (low (cur s))"
proof -
  have "unat ` fst ` set (tab s) \<subseteq> {unat (low (cur s)) .. unat (cur s) + 2}"
    using assms by (auto simp: windowed_def word_le_nat_alt map_has_iff)
  then have "card (unat ` fst ` set (tab s)) \<le> unat (cur s) + 3 - unat (low (cur s))"
    using card_mono [of "{unat (low (cur s)) .. unat (cur s) + 2}" "unat ` fst ` set (tab s)"] by simp
  moreover have "card (unat ` fst ` set (tab s)) = card (fst ` set (tab s))"
    by (rule card_image) (auto intro!: inj_onI simp: word_unat_eq_iff)
  ultimately show ?thesis using assms by (simp add: gomap_length windowed_def)
qed

end

end
