(* ===== verification/Ctrl_Manager.thy ===== *)
theory Ctrl_Manager
  imports Reelect_Safety Number_Window
begin

text \<open>
  The controllers of all blocks and the service that feeds them, \<open>verifier/ctrlManager.go\<close> and
  \<open>verifier/leaderReElection.go\<close>.

  A controller runs in its own goroutine and takes its messages from a channel of capacity 10, so the
  table holds a controller together with the content of its channel. A call that has to wait for room in
  a channel is \<open>Waits\<close>: it has no effect until it can be completed. A nil dereference is \<open>Crash\<close>.
\<close>

section \<open>Controllers with their channels (verifier/controller.go)\<close>

record ctrl_slot =
  sl_ctrl :: controller
  sl_msgCh :: "ctrl_msg list"

definition newSlot :: "u64 \<Rightarrow> ctrl_slot" where
  "newSlot number = \<lparr>sl_ctrl = newController number, sl_msgCh = []\<rparr>"

definition msgCh_cap :: nat where "msgCh_cap = 10"

definition ReceiveMsg :: "ctrl_slot \<Rightarrow> ctrl_msg \<Rightarrow> ctrl_slot option" where
  "ReceiveMsg self msg =
    (if length (sl_msgCh self) < msgCh_cap then Some (self\<lparr>sl_msgCh := sl_msgCh self @ [msg]\<rparr>) else None)"

section \<open>verifier/ctrlManager.go\<close>

record ControllerManager =
  cm_curNumber :: u64
  cm_ctrlMap :: "(u64, ctrl_slot) gomap"

definition NewControllerManager :: ControllerManager where
  "NewControllerManager = \<lparr>cm_curNumber = 0, cm_ctrlMap = []\<rparr>"

definition fixCtrlMap :: "ControllerManager \<Rightarrow> ControllerManager" where
  "fixCtrlMap cm =
    (if cm_ctrlMap cm = [] then cm
     else cm\<lparr>cm_ctrlMap := drop_below (cm_curNumber cm) (cm_ctrlMap cm)\<rparr>)"

definition cm_isLegalNumber :: "ControllerManager \<Rightarrow> u64 \<Rightarrow> number_error option" where
  "cm_isLegalNumber cm number =
    (if number < cm_curNumber cm then Some (ErrNumberLess number (cm_curNumber cm))
     else if number > cm_curNumber cm + 2 then Some (ErrNumberTooBig number (cm_curNumber cm))
     else None)"

definition getController :: "ControllerManager \<Rightarrow> u64 \<Rightarrow> ControllerManager \<times> ctrl_slot" where
  "getController cm number =
    (case map_of (cm_ctrlMap cm) number of
       Some ctrl \<Rightarrow> (cm, ctrl)
     | None \<Rightarrow> (let ctrl = newSlot number in (cm\<lparr>cm_ctrlMap := map_put number ctrl (cm_ctrlMap cm)\<rparr>, ctrl)))"

datatype outcome = Handled ControllerManager | Waits | Crash

text \<open>\<open>ReceiveMsg\<close> on the controller of a number that is in the table.\<close>

definition put_msg :: "ControllerManager \<times> ctrl_slot \<Rightarrow> u64 \<Rightarrow> ctrl_msg \<Rightarrow> outcome" where
  "put_msg ctrl number msg =
    (case ctrl of (cm, slot) \<Rightarrow>
       (case ReceiveMsg slot msg of
          None \<Rightarrow> Waits
        | Some slot' \<Rightarrow> Handled (cm\<lparr>cm_ctrlMap := map_put number slot' (cm_ctrlMap cm)\<rparr>)))"

definition StartController :: "ControllerManager \<Rightarrow> u64 \<Rightarrow> startControllerMsg \<Rightarrow> outcome" where
  "StartController cm number msg =
    (if cm_curNumber cm > number then Handled cm
     else
       (let cm' = (if cm_curNumber cm < number then fixCtrlMap (cm\<lparr>cm_curNumber := number\<rparr>) else cm)
        in put_msg (getController cm' number) number (MsgStart (Some msg))))"

definition GetController :: "ControllerManager \<Rightarrow> u64 \<Rightarrow> number_error + ControllerManager \<times> ctrl_slot" where
  "GetController cm number =
    (case cm_isLegalNumber cm number of
       Some err \<Rightarrow> Inl err
     | None \<Rightarrow> Inr (getController cm number))"

definition GetCurController :: "ControllerManager \<Rightarrow> ControllerManager \<times> ctrl_slot" where
  "GetCurController cm = getController cm (cm_curNumber cm)"

section \<open>verifier/leaderReElection.go\<close>

text \<open>What the service asks of the chain and of the role service.\<close>

record identity_env =
  ie_ctrl :: ctrl_env
  ie_NewTopologyGraph :: "Header \<Rightarrow> topology_error + TopologyGraph"
  ie_GetHeaderByHash :: "hash \<Rightarrow> Header option"
  ie_GetTopologyByNumber :: "role_type \<Rightarrow> u64 \<Rightarrow> TopologyGraph option"

datatype identity_msg =
    NewBlockReady "Header option option"
  | RoleUpdated "RoleUpdatedMsg option"
  | BlkPOSNotify "BlockPOSFinishedNotify option"
  | RlInquiryReq "HD_ReelectInquiryReqMsg option"
  | RlInquiryRsp "HD_ReelectInquiryRspMsg option"
  | RlReq "HD_ReelectLeaderReqMsg option"
  | RlVote "HD_ReelectLeaderVoteMsg option"
  | RlResultBC "HD_ReelectResultBroadcastMsg option"
  | RlResultRsp "HD_ReelectResultRspMsg option"

definition genValidatorList :: "identity_env \<Rightarrow> Header \<Rightarrow> topology_error + TopologyGraph" where
  "genValidatorList e header =
    (case ie_NewTopologyGraph e header of
       Inl err \<Rightarrow> Inl err
     | Inr newGraph \<Rightarrow> Inr \<lparr>tg_Number = tg_Number newGraph,
         tg_NodeList = filter (\<lambda>node. tn_Type node = RoleValidator) (tg_NodeList newGraph), tg_CurNodeNumber = 0\<rparr>)"

fun role_of_account :: "address \<Rightarrow> TopologyNodeInfo list \<Rightarrow> role_type" where
  "role_of_account selfAccount [] = RoleNil"
| "role_of_account selfAccount (v # vs) =
    (if tn_Account v = selfAccount then tn_Type v else role_of_account selfAccount vs)"

definition getRoleFromTopology :: "identity_env \<Rightarrow> TopologyGraph \<Rightarrow> role_type" where
  "getRoleFromTopology e validators = role_of_account (ce_self (ie_ctrl e)) (tg_NodeList validators)"

definition newBlockReadyBCHandle :: "identity_env \<Rightarrow> ControllerManager \<Rightarrow> Header option option \<Rightarrow> outcome" where
  "newBlockReadyBCHandle e cm msg =
    (case msg of
       Some (Some header) \<Rightarrow>
         (case genValidatorList e header of
            Inl err \<Rightarrow> Handled cm
          | Inr validators \<Rightarrow>
              StartController cm (header_number header + 1)
                \<lparr>sc_role = getRoleFromTopology e validators, sc_validators = Some (tg_NodeList validators),
                 sc_parentHeader = Some header\<rparr>)
     | _ \<Rightarrow> Handled cm)"

definition roleUpdateMsgHandle :: "identity_env \<Rightarrow> ControllerManager \<Rightarrow> RoleUpdatedMsg option \<Rightarrow> outcome" where
  "roleUpdateMsgHandle e cm msg =
    (case msg of
       None \<Rightarrow> Handled cm
     | Some m \<Rightarrow>
         if ru_Leader m = 0 then Handled cm
         else
           (case ie_GetHeaderByHash e (ru_BlockHash m) of
              None \<Rightarrow> Handled cm
            | Some header \<Rightarrow>
                (case ie_GetTopologyByNumber e RoleValidator (ru_BlockNum m) of
                   None \<Rightarrow> Handled cm
                 | Some validators \<Rightarrow>
                     StartController cm (ru_BlockNum m + 1)
                       \<lparr>sc_role = ru_Role m, sc_validators = Some (tg_NodeList validators),
                        sc_parentHeader = Some header\<rparr>)))"

text \<open>The end of the other handlers: get the controller of the message's number and send it there.\<close>

definition deliver :: "ControllerManager \<Rightarrow> u64 \<Rightarrow> ctrl_msg \<Rightarrow> outcome" where
  "deliver cm number msg =
    (case GetController cm number of
       Inl err \<Rightarrow> Handled cm
     | Inr ctrl \<Rightarrow> put_msg ctrl number msg)"

definition blockPOSFinishedMsgHandle :: "ControllerManager \<Rightarrow> BlockPOSFinishedNotify option \<Rightarrow> outcome" where
  "blockPOSFinishedMsgHandle cm msg =
    (case msg of
       None \<Rightarrow> Handled cm
     | Some m \<Rightarrow>
         (case pfn_Header m of
            None \<Rightarrow> Crash
          | Some header \<Rightarrow>
              if h_Leader header = 0 then Handled cm
              else deliver cm (pfn_Number m) (MsgPOSFinished (Some m))))"

definition rlInquiryReqHandle :: "identity_env \<Rightarrow> ControllerManager \<Rightarrow> HD_ReelectInquiryReqMsg option \<Rightarrow> outcome" where
  "rlInquiryReqHandle e cm msg =
    (case msg of
       None \<Rightarrow> Handled cm
     | Some req \<Rightarrow>
         (let (cm, curCtrl) = GetCurController cm
          in if ct_Number (sl_ctrl curCtrl) > iq_Number req
             then put_msg (cm, curCtrl) (cm_curNumber cm) (MsgNewBlockReadyRsp (Some
                    \<lparr>sn_repHash = InquiryHash (ce_rlpHash (ie_ctrl e)) req, sn_target = iq_From req,
                     sn_rspNumber = iq_Number req\<rparr>))
             else deliver cm (iq_Number req) (MsgInquiryReq (Some req))))"

definition rlInquiryRspHandle :: "ControllerManager \<Rightarrow> HD_ReelectInquiryRspMsg option \<Rightarrow> outcome" where
  "rlInquiryRspHandle cm msg =
    (case msg of None \<Rightarrow> Handled cm | Some rsp \<Rightarrow> deliver cm (ir_Number rsp) (MsgInquiryRsp (Some rsp)))"

definition rlReqMsgHandle :: "ControllerManager \<Rightarrow> HD_ReelectLeaderReqMsg option \<Rightarrow> outcome" where
  "rlReqMsgHandle cm msg =
    (case msg of
       None \<Rightarrow> Handled cm
     | Some req \<Rightarrow>
         (case lq_InquiryReq req of
            None \<Rightarrow> Crash
          | Some inquiry \<Rightarrow> deliver cm (iq_Number inquiry) (MsgRLReq (Some req))))"

definition rlVoteMsgHandle :: "ControllerManager \<Rightarrow> HD_ReelectLeaderVoteMsg option \<Rightarrow> outcome" where
  "rlVoteMsgHandle cm msg =
    (case msg of None \<Rightarrow> Handled cm | Some req \<Rightarrow> deliver cm (lv_Number req) (MsgRLVote (Some req)))"

definition rlResultBroadcastHandle :: "ControllerManager \<Rightarrow> HD_ReelectResultBroadcastMsg option \<Rightarrow> outcome" where
  "rlResultBroadcastHandle cm msg =
    (case msg of None \<Rightarrow> Handled cm | Some m \<Rightarrow> deliver cm (rb_Number m) (MsgResultBroadcast (Some m)))"

definition rlResultRspHandle :: "ControllerManager \<Rightarrow> HD_ReelectResultRspMsg option \<Rightarrow> outcome" where
  "rlResultRspHandle cm msg =
    (case msg of None \<Rightarrow> Handled cm | Some rsp \<Rightarrow> deliver cm (rr_Number rsp) (MsgResultRsp (Some rsp)))"

text \<open>The select of \<open>run\<close>.\<close>

definition identity_handle :: "identity_env \<Rightarrow> ControllerManager \<Rightarrow> identity_msg \<Rightarrow> outcome" where
  "identity_handle e cm msg =
    (case msg of
       NewBlockReady m \<Rightarrow> newBlockReadyBCHandle e cm m
     | RoleUpdated m \<Rightarrow> roleUpdateMsgHandle e cm m
     | BlkPOSNotify m \<Rightarrow> blockPOSFinishedMsgHandle cm m
     | RlInquiryReq m \<Rightarrow> rlInquiryReqHandle e cm m
     | RlInquiryRsp m \<Rightarrow> rlInquiryRspHandle cm m
     | RlReq m \<Rightarrow> rlReqMsgHandle cm m
     | RlVote m \<Rightarrow> rlVoteMsgHandle cm m
     | RlResultBC m \<Rightarrow> rlResultBroadcastHandle cm m
     | RlResultRsp m \<Rightarrow> rlResultRspHandle cm m)"

section \<open>The running service\<close>

text \<open>A step is one message handled by the service, or one turn of the loop of a controller: it takes the
  first message of its channel, or one of its running timers fires.\<close>

abbreviation with_slot :: "u64 \<Rightarrow> ctrl_slot \<Rightarrow> ControllerManager \<Rightarrow> ControllerManager" where
  "with_slot n slot cm \<equiv> cm\<lparr>cm_ctrlMap := map_put n slot (cm_ctrlMap cm)\<rparr>"

inductive identity_step :: "identity_env \<Rightarrow> ControllerManager \<Rightarrow> ControllerManager \<Rightarrow> bool" for e where
  arrival: "identity_handle e cm msg = Handled cm' \<Longrightarrow> identity_step e cm cm'"
| message: "map_of (cm_ctrlMap cm) n = Some slot \<Longrightarrow> sl_msgCh slot = m # q \<Longrightarrow>
    handleMsg (ie_ctrl e) now now' m (sl_ctrl slot) = Some c' \<Longrightarrow>
    identity_step e cm (with_slot n \<lparr>sl_ctrl = c', sl_msgCh = q\<rparr> cm)"
| timer: "map_of (cm_ctrlMap cm) n = Some slot \<Longrightarrow> ct_timer (sl_ctrl slot) = Some t \<Longrightarrow>
    timeOutHandle (ie_ctrl e) now now' ((sl_ctrl slot)\<lparr>ct_timer := None\<rparr>) = Some c' \<Longrightarrow>
    identity_step e cm (with_slot n (slot\<lparr>sl_ctrl := c'\<rparr>) cm)"
| reelect_timer: "map_of (cm_ctrlMap cm) n = Some slot \<Longrightarrow> ct_reelectTimer (sl_ctrl slot) = Some t \<Longrightarrow>
    reelectTimeOutHandle (ie_ctrl e) now ((sl_ctrl slot)\<lparr>ct_reelectTimer := None\<rparr>) = Some c' \<Longrightarrow>
    identity_step e cm (with_slot n (slot\<lparr>sl_ctrl := c'\<rparr>) cm)"

inductive identity_reachable :: "identity_env \<Rightarrow> ControllerManager \<Rightarrow> bool" for e where
  start: "identity_reachable e NewControllerManager"
| step: "identity_reachable e cm \<Longrightarrow> identity_step e cm cm' \<Longrightarrow> identity_reachable e cm'"

section \<open>The table of controllers is a worker table\<close>

interpretation ctab: worker_table cm_curNumber cm_ctrlMap newSlot "\<lambda>n. n" getController
  "\<lambda>cm n. fixCtrlMap (cm\<lparr>cm_curNumber := n\<rparr>)" "\<lambda>cm n. cm_isLegalNumber cm n = None"
  by unfold_locales
    (auto simp: getController_def fixCtrlMap_def cm_isLegalNumber_def map_has_def drop_below_filter Let_def
      split: option.splits)

text \<open>The number a message is about. A reply that the asked block is over is made by the service itself
  and goes to the controller of the current block.\<close>

fun msg_number :: "ctrl_msg \<Rightarrow> u64 option" where
  "msg_number (MsgPOSFinished (Some m)) = Some (pfn_Number m)"
| "msg_number (MsgInquiryReq (Some m)) = Some (iq_Number m)"
| "msg_number (MsgInquiryRsp (Some m)) = Some (ir_Number m)"
| "msg_number (MsgRLReq (Some m)) = map_option iq_Number (lq_InquiryReq m)"
| "msg_number (MsgRLVote (Some m)) = Some (lv_Number m)"
| "msg_number (MsgResultBroadcast (Some m)) = Some (rb_Number m)"
| "msg_number (MsgResultRsp (Some m)) = Some (rr_Number m)"
| "msg_number _ = None"

definition slot_ok :: "ctrl_env \<Rightarrow> u64 \<Rightarrow> ctrl_slot \<Rightarrow> bool" where
  "slot_ok e n slot \<longleftrightarrow> ctrl_reachable e n (sl_ctrl slot) \<and> length (sl_msgCh slot) \<le> msgCh_cap \<and>
    (\<forall>m \<in> set (sl_msgCh slot). \<forall>k. msg_number m = Some k \<longrightarrow> k = n)"

definition identity_ok :: "identity_env \<Rightarrow> ControllerManager \<Rightarrow> bool" where
  "identity_ok e cm \<longleftrightarrow> ctab.windowed cm \<and> ctab.holds (slot_ok (ie_ctrl e)) cm"

lemma newSlot_ok [simp]: "slot_ok e n (newSlot n)"
  by (simp add: slot_ok_def newSlot_def ctrl_reachable.start)

lemma ReceiveMsg_ok:
  "slot_ok e n slot \<Longrightarrow> msg_number m = None \<or> msg_number m = Some n \<Longrightarrow> ReceiveMsg slot m = Some slot' \<Longrightarrow> slot_ok e n slot'"
  by (auto simp: slot_ok_def ReceiveMsg_def split: if_splits)

lemma with_slot_ok:
  assumes "identity_ok e cm" "map_has (cm_ctrlMap cm) n" "slot_ok (ie_ctrl e) n slot"
  shows "identity_ok e (with_slot n slot cm)"
  using assms by (auto simp: identity_ok_def ctab.windowed_def ctab.holds_def map_has_def)

lemma getController_ok:
  assumes "identity_ok e cm" "cm_isLegalNumber cm n = None \<or> n = cm_curNumber cm"
  shows "identity_ok e (fst (getController cm n)) \<and> slot_ok (ie_ctrl e) n (snd (getController cm n)) \<and>
    map_of (cm_ctrlMap (fst (getController cm n))) n = Some (snd (getController cm n)) \<and>
    cm_curNumber (fst (getController cm n)) = cm_curNumber cm"
  using assms ctab.get_windowed [of cm n] ctab.get_holds [of "slot_ok (ie_ctrl e)" cm n]
    ctab.get_map [of cm n] ctab.get_law [of cm n]
  by (simp add: identity_ok_def)

lemma put_msg_ok:
  assumes "identity_ok e cm" "map_of (cm_ctrlMap cm) n = Some slot" "msg_number m = None \<or> msg_number m = Some n"
    and "put_msg (cm, slot) n m = Handled cm'"
  shows "identity_ok e cm' \<and> cm_curNumber cm' = cm_curNumber cm"
proof -
  have "slot_ok (ie_ctrl e) n slot" using assms(1,2) by (simp add: identity_ok_def ctab.holds_def)
  then show ?thesis using assms(4) ReceiveMsg_ok [of "ie_ctrl e" n slot m] with_slot_ok [OF assms(1)] assms(2,3)
    by (auto simp: put_msg_def map_has_def split: option.splits)
qed

lemma put_get_ok:
  assumes "identity_ok e cm" "cm_isLegalNumber cm n = None \<or> n = cm_curNumber cm" "msg_number m = None \<or> msg_number m = Some n"
    and "put_msg (getController cm n) n m = Handled cm'"
  shows "identity_ok e cm' \<and> cm_curNumber cm' = cm_curNumber cm"
  using put_msg_ok [of e "fst (getController cm n)" n "snd (getController cm n)" m cm'] assms
    getController_ok [OF assms(1,2)] by simp

lemma StartController_ok:
  assumes "identity_ok e cm" "StartController cm n m = Handled cm'"
  shows "identity_ok e cm' \<and> cm_curNumber cm \<le> cm_curNumber cm'"
proof (cases "cm_curNumber cm < n")
  case True
  let ?cm = "fixCtrlMap (cm\<lparr>cm_curNumber := n\<rparr>)"
  have ok: "identity_ok e ?cm" "cm_curNumber ?cm = n"
    using assms(1) True ctab.move_windowed [where s = cm and n = n] ctab.move_holds [where P = "slot_ok (ie_ctrl e)" and s = cm and n = n]
      ctab.move_law [where s = cm and n = n]
    by (simp_all add: identity_ok_def order_less_imp_le)
  have "put_msg (getController ?cm n) n (MsgStart (Some m)) = Handled cm'"
    using assms(2) True by (auto simp: StartController_def Let_def split: if_splits)
  then show ?thesis using put_get_ok [OF ok(1), of n "MsgStart (Some m)" cm'] ok(2) True by (auto simp: order_less_imp_le)
next
  case False
  then show ?thesis using assms put_get_ok [OF assms(1), of n "MsgStart (Some m)"]
    by (auto simp: StartController_def split: if_splits)
qed

lemma deliver_ok:
  assumes "identity_ok e cm" "msg_number m = None \<or> msg_number m = Some n" "deliver cm n m = Handled cm'"
  shows "identity_ok e cm' \<and> cm_curNumber cm' = cm_curNumber cm"
  using assms put_get_ok [OF assms(1), of n m]
  by (auto simp: deliver_def GetController_def split: option.splits)

lemma rlInquiryReqHandle_ok:
  assumes "identity_ok e cm" "rlInquiryReqHandle e cm (Some req) = Handled cm'"
  shows "identity_ok e cm' \<and> cm_curNumber cm' = cm_curNumber cm"
proof -
  obtain cm1 cur where g: "GetCurController cm = (cm1, cur)" by fastforce
  then have g': "getController cm (cm_curNumber cm) = (cm1, cur)" by (simp add: GetCurController_def)
  note ok = getController_ok [OF assms(1), of "cm_curNumber cm", unfolded g', simplified]
  let ?rsp = "MsgNewBlockReadyRsp (Some \<lparr>sn_repHash = InquiryHash (ce_rlpHash (ie_ctrl e)) req,
    sn_target = iq_From req, sn_rspNumber = iq_Number req\<rparr>)"
  show ?thesis
    using assms(2) g ok put_msg_ok [of e cm1 "cm_curNumber cm" cur ?rsp cm']
      deliver_ok [of e cm1 "MsgInquiryReq (Some req)" "iq_Number req" cm']
    by (auto simp: rlInquiryReqHandle_def split: if_splits)
qed

lemma identity_handle_ok:
  assumes "identity_ok e cm" "identity_handle e cm msg = Handled cm'"
  shows "identity_ok e cm' \<and> cm_curNumber cm \<le> cm_curNumber cm'"
proof -
  have d: "deliver cm n m = Handled cm' \<Longrightarrow> msg_number m = Some n \<Longrightarrow> identity_ok e cm' \<and> cm_curNumber cm \<le> cm_curNumber cm'"
    for n m using deliver_ok [OF assms(1), of m n cm'] by simp
  have s: "StartController cm n m = Handled cm' \<Longrightarrow> identity_ok e cm' \<and> cm_curNumber cm \<le> cm_curNumber cm'" for n m
    using StartController_ok [OF assms(1)] by blast
  have r: "rlInquiryReqHandle e cm (Some req) = Handled cm' \<Longrightarrow> identity_ok e cm' \<and> cm_curNumber cm \<le> cm_curNumber cm'" for req
    using rlInquiryReqHandle_ok [OF assms(1), of req cm'] by simp
  have q: "rlInquiryReqHandle e cm None = Handled cm" by (simp add: rlInquiryReqHandle_def)
  show ?thesis
  proof (cases msg)
    case (RlInquiryReq m)
    then show ?thesis using assms r q by (cases m) (auto simp: identity_handle_def)
  qed (use assms in \<open>auto simp: identity_handle_def newBlockReadyBCHandle_def roleUpdateMsgHandle_def blockPOSFinishedMsgHandle_def
     rlInquiryRspHandle_def rlReqMsgHandle_def rlVoteMsgHandle_def rlResultBroadcastHandle_def rlResultRspHandle_def
     split: option.splits if_splits sum.splits dest: s d\<close>)
qed

lemma identity_step_ok:
  assumes "identity_step e cm cm'" "identity_ok e cm"
  shows "identity_ok e cm' \<and> cm_curNumber cm \<le> cm_curNumber cm'"
  using assms
proof (induction rule: identity_step.induct)
  case (arrival cm msg cm')
  then show ?case using identity_handle_ok by blast
next
  case (message cm n slot m q now now' c')
  have "slot_ok (ie_ctrl e) n slot" using message by (simp add: identity_ok_def ctab.holds_def)
  then have "slot_ok (ie_ctrl e) n \<lparr>sl_ctrl = c', sl_msgCh = q\<rparr>"
    using message ctrl_reachable.step ctrl_step.message by (fastforce simp: slot_ok_def)
  then show ?case using with_slot_ok message by (simp add: map_has_def)
next
  case (timer cm n slot t now now' c')
  have "slot_ok (ie_ctrl e) n slot" using timer by (simp add: identity_ok_def ctab.holds_def)
  then have "slot_ok (ie_ctrl e) n (slot\<lparr>sl_ctrl := c'\<rparr>)"
    using timer ctrl_reachable.step ctrl_step.timer by (fastforce simp: slot_ok_def)
  then show ?case using with_slot_ok timer by (simp add: map_has_def)
next
  case (reelect_timer cm n slot t now c')
  have "slot_ok (ie_ctrl e) n slot" using reelect_timer by (simp add: identity_ok_def ctab.holds_def)
  then have "slot_ok (ie_ctrl e) n (slot\<lparr>sl_ctrl := c'\<rparr>)"
    using reelect_timer ctrl_reachable.step ctrl_step.reelect_timer by (fastforce simp: slot_ok_def)
  then show ?case using with_slot_ok reelect_timer by (simp add: map_has_def)
qed

lemma identity_reachable_ok: "identity_reachable e cm \<Longrightarrow> identity_ok e cm"
proof (induction rule: identity_reachable.induct)
  case start
  show ?case by (simp add: identity_ok_def ctab.windowed_def ctab.holds_def NewControllerManager_def)
next
  case (step cm cm')
  then show ?case using identity_step_ok by blast
qed

section \<open>Properties\<close>

text \<open>C11: However messages, timers and the loops of the controllers interleave, the service of the leader
  election holds at most three controllers at a time, those of the current block number and of the two
  numbers after it. Each of them is a controller reachable from a new one of its own number, its channel
  holds at most 10 messages, and every one of these that carries a number carries that number.\<close>

theorem identity_window:
  assumes "identity_reachable e cm"
  shows "length (cm_ctrlMap cm) \<le> 3 \<and> gomap_ok (cm_ctrlMap cm) \<and>
    (\<forall>n slot. map_of (cm_ctrlMap cm) n = Some slot \<longrightarrow>
      unat (cm_curNumber cm) \<le> unat n \<and> unat n \<le> unat (cm_curNumber cm) + 2 \<and>
      ctrl_reachable (ie_ctrl e) n (sl_ctrl slot) \<and> length (sl_msgCh slot) \<le> 10 \<and>
      (\<forall>m \<in> set (sl_msgCh slot). msg_number m = None \<or> msg_number m = Some n))"
proof -
  have ok: "ctab.windowed cm" "ctab.holds (slot_ok (ie_ctrl e)) cm"
    using identity_reachable_ok [OF assms] by (simp_all add: identity_ok_def)
  have "unat (cm_curNumber cm) \<le> unat n \<and> unat n \<le> unat (cm_curNumber cm) + 2 \<and> slot_ok (ie_ctrl e) n slot"
    if "map_of (cm_ctrlMap cm) n = Some slot" for n slot
    using ok that by (simp add: ctab.windowed_def ctab.holds_def map_has_def word_le_nat_alt)
  moreover have "length (cm_ctrlMap cm) \<le> 3" "gomap_ok (cm_ctrlMap cm)"
    using ctab.windowed_size [OF ok(1)] ok(1) by (simp_all add: ctab.windowed_def)
  ultimately show ?thesis unfolding slot_ok_def msgCh_cap_def by (metis not_None_eq)
qed

section \<open>A witness\<close>

definition demo_identity :: identity_env where
  "demo_identity = \<lparr>ie_ctrl = demo_env 1 0x100, ie_NewTopologyGraph = (\<lambda>h. Inr demo_graph),
    ie_GetHeaderByHash = (\<lambda>h. Some zero_header), ie_GetTopologyByNumber = (\<lambda>r n. Some demo_graph)\<rparr>"

definition demo_manager :: ControllerManager where
  "demo_manager = \<lparr>cm_curNumber = 43, cm_ctrlMap = [(43, \<lparr>sl_ctrl = newController 43, sl_msgCh =
    [MsgStart (Some \<lparr>sc_role = RoleValidator, sc_validators = Some (tg_NodeList demo_graph), sc_parentHeader = Some zero_header\<rparr>)]\<rparr>)]\<rparr>"

lemma demo_manager_reachable: "identity_reachable demo_identity demo_manager"
proof -
  let ?m = "RoleUpdated (Some \<lparr>ru_Role = RoleValidator, ru_BlockNum = 42, ru_BlockHash = 7, ru_Leader = 2\<rparr>)"
  have "identity_handle demo_identity NewControllerManager ?m = Handled demo_manager"
    by (simp add: identity_handle_def roleUpdateMsgHandle_def demo_identity_def StartController_def NewControllerManager_def
        fixCtrlMap_def getController_def put_msg_def newSlot_def ReceiveMsg_def msgCh_cap_def demo_manager_def Let_def)
  then show ?thesis using identity_reachable.start identity_reachable.step identity_step.arrival by blast
qed

theorem identity_window_witness:
  "identity_reachable demo_identity demo_manager \<and> cm_curNumber demo_manager = 43 \<and> length (cm_ctrlMap demo_manager) \<le> 3"
  using identity_window [OF demo_manager_reachable] demo_manager_reachable by (simp add: demo_manager_def)

end
