(* ===== verification/Elect_Data.thy ===== *)
theory Elect_Data
  imports Topology
begin

text \<open>
  The election data of the re-election service, \<open>reelection/\<close>: when the lists of miners and validators
  of the next period are generated, where they are stored, and how they become the election and topology
  fields of a header.

  The database is a map from keys to the structures whose JSON is stored; a \<open>Put\<close> succeeds and a \<open>Get\<close>
  fails only for a missing key. The deposits, the random seed and the election service that answer a
  request are parameters, \<^const>\<open>None\<close> when they fail or do not answer in time. Log output is left out.
\<close>

section \<open>params/man/matrixconfig.go, reelection/reelection.go\<close>

definition VerifyNetChangeUpTime :: u64 where "VerifyNetChangeUpTime = 6"
definition MinerNetChangeUpTime :: u64 where "MinerNetChangeUpTime = 4"
definition VerifyTopologyGenerateUpTime :: u64 where "VerifyTopologyGenerateUpTime = 8"
definition MinerTopologyGenerateUpTime :: u64 where "MinerTopologyGenerateUpTime = 8"

definition MinerTopGenTiming :: u64 where
  "MinerTopGenTiming = GetReElectionInterval - MinerTopologyGenerateUpTime"
definition ValidatorTopGenTiming :: u64 where
  "ValidatorTopGenTiming = GetReElectionInterval - VerifyTopologyGenerateUpTime"

lemmas timing_defs = VerifyNetChangeUpTime_def MinerNetChangeUpTime_def VerifyTopologyGenerateUpTime_def
  MinerTopologyGenerateUpTime_def MinerTopGenTiming_def ValidatorTopGenTiming_def GetReElectionInterval_def
  schedule_defs

record AllNative =
  an_MasterMiner :: "TopologyNodeInfo list"
  an_BackUpMiner :: "TopologyNodeInfo list"
  an_MasterValidator :: "TopologyNodeInfo list"
  an_BackUpValidator :: "TopologyNodeInfo list"
  an_CandidateValidator :: "TopologyNodeInfo list"

record ElectMiner =
  em_MasterMiner :: "TopologyNodeInfo list"
  em_BackUpMiner :: "TopologyNodeInfo list"

record ElectValidator =
  ev_MasterValidator :: "TopologyNodeInfo list"
  ev_BackUpValidator :: "TopologyNodeInfo list"
  ev_CandidateValidator :: "TopologyNodeInfo list"

record ElectReturnInfo =
  er_MasterMiner :: "TopologyNodeInfo list"
  er_BackUpMiner :: "TopologyNodeInfo list"
  er_MasterValidator :: "TopologyNodeInfo list"
  er_BackUpValidator :: "TopologyNodeInfo list"

definition no_miners :: ElectMiner where "no_miners = \<lparr>em_MasterMiner = [], em_BackUpMiner = []\<rparr>"
definition no_validators :: ElectValidator where
  "no_validators = \<lparr>ev_MasterValidator = [], ev_BackUpValidator = [], ev_CandidateValidator = []\<rparr>"
definition no_elect :: ElectReturnInfo where
  "no_elect = \<lparr>er_MasterMiner = [], er_BackUpMiner = [], er_MasterValidator = [], er_BackUpValidator = []\<rparr>"

datatype elect_error =
    ErrNotFound string
  | ErrRole
  | ErrDepositList
  | ErrSeedGen
  | ErrMinerTimeout
  | ErrValidatorTimeout
  | ErrNotAllData

section \<open>Keys and the database (reelection/topGen.go, reelection/updateNative.go)\<close>

text \<open>\<open>big.Int.String\<close>.\<close>

definition digit :: "nat \<Rightarrow> char" where
  "digit n = char_of (48 + n)"

fun nat_string :: "nat \<Rightarrow> string" where
  "nat_string n = (if n < 10 then [digit n] else nat_string (n div 10) @ [digit (n mod 10)])"

declare nat_string.simps [simp del]

definition int_string :: "int \<Rightarrow> string" where
  "int_string i = (if i < 0 then CHR ''-'' # nat_string (nat (- i)) else nat_string (nat i))"

definition MakeElectDBKey :: "u64 \<Rightarrow> role_type \<Rightarrow> string" where
  "MakeElectDBKey height role =
    (let t = i64 (uint height)
     in if role = RoleMiner then int_string t @ ''---'' @ ''Miner---Elect''
        else if role = RoleValidator then int_string t @ ''---'' @ ''Validator---Elect''
        else '''')"

definition MakeNativeDBKey :: "u64 \<Rightarrow> string" where
  "MakeNativeDBKey height = int_string (i64 (uint height)) @ ''---'' @ ''Native''"

datatype ldb_value = DbMiner ElectMiner | DbValidator ElectValidator | DbNative AllNative

type_synonym ldb = "(string, ldb_value) gomap"

text \<open>Unmarshalling fills the fields of the target that the stored JSON has.\<close>

fun as_miner :: "ldb_value \<Rightarrow> ElectMiner" where
  "as_miner (DbMiner m) = m"
| "as_miner (DbValidator v) = no_miners"
| "as_miner (DbNative a) = \<lparr>em_MasterMiner = an_MasterMiner a, em_BackUpMiner = an_BackUpMiner a\<rparr>"

fun as_validator :: "ldb_value \<Rightarrow> ElectValidator" where
  "as_validator (DbValidator v) = v"
| "as_validator (DbMiner m) = no_validators"
| "as_validator (DbNative a) = \<lparr>ev_MasterValidator = an_MasterValidator a,
    ev_BackUpValidator = an_BackUpValidator a, ev_CandidateValidator = an_CandidateValidator a\<rparr>"

fun as_native :: "ldb_value \<Rightarrow> AllNative" where
  "as_native (DbNative a) = a"
| "as_native (DbMiner m) = \<lparr>an_MasterMiner = em_MasterMiner m, an_BackUpMiner = em_BackUpMiner m,
    an_MasterValidator = [], an_BackUpValidator = [], an_CandidateValidator = []\<rparr>"
| "as_native (DbValidator v) = \<lparr>an_MasterMiner = [], an_BackUpMiner = [],
    an_MasterValidator = ev_MasterValidator v, an_BackUpValidator = ev_BackUpValidator v,
    an_CandidateValidator = ev_CandidateValidator v\<rparr>"

definition writeElectData :: "ldb \<Rightarrow> role_type \<Rightarrow> u64 \<Rightarrow> ElectMiner \<Rightarrow> ElectValidator \<Rightarrow> ldb" where
  "writeElectData db aim height minerData validatorData =
    (if aim = RoleMiner then map_put (MakeElectDBKey height RoleMiner) (DbMiner minerData) db
     else if aim = RoleValidator then map_put (MakeElectDBKey height RoleValidator) (DbValidator validatorData) db
     else db)"

definition readElectData :: "ldb \<Rightarrow> role_type \<Rightarrow> u64 \<Rightarrow> elect_error + ElectMiner \<times> ElectValidator" where
  "readElectData db aim height =
    (if aim = RoleMiner then
       (case map_of db (MakeElectDBKey height RoleMiner) of
          None \<Rightarrow> Inl (ErrNotFound (MakeElectDBKey height RoleMiner))
        | Some ans \<Rightarrow> Inr (as_miner ans, no_validators))
     else if aim = RoleValidator then
       (case map_of db (MakeElectDBKey height RoleValidator) of
          None \<Rightarrow> Inl (ErrNotFound (MakeElectDBKey height RoleValidator))
        | Some ans \<Rightarrow> Inr (no_miners, as_validator ans))
     else Inl ErrRole)"

definition writeNativeData :: "ldb \<Rightarrow> u64 \<Rightarrow> AllNative \<Rightarrow> ldb" where
  "writeNativeData db height data = map_put (MakeNativeDBKey height) (DbNative data) db"

definition readNativeData :: "ldb \<Rightarrow> u64 \<Rightarrow> elect_error + AllNative" where
  "readNativeData db height =
    (case map_of db (MakeNativeDBKey height) of
       None \<Rightarrow> Inl (ErrNotFound (MakeNativeDBKey height))
     | Some ans \<Rightarrow> Inr (as_native ans))"

definition GetNativeFromDB :: "ldb \<Rightarrow> u64 \<Rightarrow> ldb \<times> elect_error option" where
  "GetNativeFromDB db height =
    (case readElectData db RoleMiner (height - MinerNetChangeUpTime) of
       Inl err \<Rightarrow> (db, Some err)
     | Inr (minerElect, _) \<Rightarrow>
         (case readElectData db RoleValidator (height - VerifyNetChangeUpTime) of
            Inl err \<Rightarrow> (db, Some err)
          | Inr (_, validatorElect) \<Rightarrow>
              (writeNativeData db height \<lparr>an_MasterMiner = em_MasterMiner minerElect,
                 an_BackUpMiner = em_BackUpMiner minerElect, an_MasterValidator = ev_MasterValidator validatorElect,
                 an_BackUpValidator = ev_BackUpValidator validatorElect,
                 an_CandidateValidator = ev_CandidateValidator validatorElect\<rparr>, None)))"

section \<open>Generation of the lists (reelection/topGen.go, handlemsg.go, checkGen.go)\<close>

record RandomRequest =
  rq_MinHash :: hash
  rq_PrivateMap :: "(address, u8 list) gomap"
  rq_PublicMap :: "(address, u8 list) gomap"

text \<open>\<open>'d\<close> are the deposit lists and \<open>'s\<close> the seeds, which are only passed on.\<close>

record ('d, 's) elect_env =
  ee_BlockHash :: "u64 \<Rightarrow> hash option"
  ee_GetBroadcastTxs :: "int \<Rightarrow> string \<Rightarrow> (address, u8 list) gomap"
  ee_Random :: "RandomRequest \<Rightarrow> 's option"
  ee_Deposits :: "int \<Rightarrow> role_type \<Rightarrow> 'd option"
  ee_MinerElection :: "u64 \<Rightarrow> 's \<Rightarrow> 'd \<Rightarrow> ElectMiner option"
  ee_ValidatorElection :: "u64 \<Rightarrow> 's \<Rightarrow> 'd \<Rightarrow> ElectValidator option"

text \<open>The smallest hash of the blocks of one broadcast period up to \<open>height\<close>. The counter of the loop and
  its bound are unsigned; \<^const>\<open>None\<close> is the panic on a missing block.\<close>

function min_hash_loop :: "(u64 \<Rightarrow> hash option) \<Rightarrow> u64 \<Rightarrow> u64 \<Rightarrow> hash \<Rightarrow> hash option" where
  "min_hash_loop bh bound i minhash =
    (if i > bound then
       (case bh i of
          None \<Rightarrow> None
        | Some blockhash \<Rightarrow> min_hash_loop bh bound (i - 1) (if minhash > blockhash then blockhash else minhash))
     else Some minhash)"
  by pat_completeness auto
termination
proof (relation "measure (\<lambda>(bh, bound, i, minhash). unat i)")
  fix bh bound i minhash blockhash
  assume "bound < (i :: u64)"
  then have "i \<noteq> 0" by auto
  then show "((bh, bound, i - 1, (if minhash > blockhash then blockhash else minhash)), bh, bound, i, minhash)
      \<in> measure (\<lambda>(bh, bound, i, minhash). unat i)"
    by (simp add: unat_minus_one unat_gt_0)
qed simp

declare min_hash_loop.simps [simp del]

definition getMinHash :: "(u64 \<Rightarrow> hash option) \<Rightarrow> u64 \<Rightarrow> hash option" where
  "getMinHash bh height =
    (case bh height of
       None \<Rightarrow> None
     | Some minhash \<Rightarrow> min_hash_loop bh (height - GetBroadcastInterval) (height - 1) minhash)"

definition CalcbeforeSeedGen :: "('d, 's) elect_env \<Rightarrow> u64 \<Rightarrow> RandomRequest option" where
  "CalcbeforeSeedGen e height =
    (let height_1 = height div GetBroadcastInterval * GetBroadcastInterval;
         height_2 = height_1 - GetBroadcastInterval
     in case getMinHash (ee_BlockHash e) height of
          None \<Rightarrow> None
        | Some minHash \<Rightarrow> Some \<lparr>rq_MinHash = minHash,
            rq_PrivateMap = ee_GetBroadcastTxs e (i64 (uint height_1)) ''SeedPrivateKey'',
            rq_PublicMap = ee_GetBroadcastTxs e (i64 (uint height_2)) ''SeedPublicKey''\<rparr>)"

definition GetSeed :: "('d, 's) elect_env \<Rightarrow> u64 \<Rightarrow> 's option option" where
  "GetSeed e height = map_option (ee_Random e) (CalcbeforeSeedGen e height)"

definition GetAllElectedByHeight :: "('d, 's) elect_env \<Rightarrow> int \<Rightarrow> role_type \<Rightarrow> 'd option" where
  "GetAllElectedByHeight e height tp =
    (if tp = RoleMiner then ee_Deposits e height RoleMiner
     else if tp = RoleValidator then ee_Deposits e height RoleValidator
     else None)"

text \<open>A result is the database and the error, \<^const>\<open>None\<close> a panic.\<close>

type_synonym db_result = "(ldb \<times> elect_error option) option"

definition ToGenMinerTop :: "('d, 's) elect_env \<Rightarrow> ldb \<Rightarrow> u64 \<Rightarrow> db_result" where
  "ToGenMinerTop e db height =
    (case GetAllElectedByHeight e (i64 (uint height)) RoleMiner of
       None \<Rightarrow> Some (db, Some ErrDepositList)
     | Some minerDeposit \<Rightarrow>
         (case GetSeed e height of
            None \<Rightarrow> None
          | Some None \<Rightarrow> Some (db, Some ErrSeedGen)
          | Some (Some seed) \<Rightarrow>
              (case ee_MinerElection e height seed minerDeposit of
                 None \<Rightarrow> Some (db, Some ErrMinerTimeout)
               | Some topRsp \<Rightarrow>
                   Some (writeElectData db RoleMiner (height + MinerTopologyGenerateUpTime) topRsp no_validators, None))))"

definition ToGenValidatorTop :: "('d, 's) elect_env \<Rightarrow> ldb \<Rightarrow> u64 \<Rightarrow> db_result" where
  "ToGenValidatorTop e db height =
    (case GetAllElectedByHeight e (i64 (uint height)) RoleValidator of
       None \<Rightarrow> Some (db, Some ErrDepositList)
     | Some validatorDeposit \<Rightarrow>
         (case GetSeed e height of
            None \<Rightarrow> None
          | Some None \<Rightarrow> Some (db, Some ErrSeedGen)
          | Some (Some seed) \<Rightarrow>
              (case ee_ValidatorElection e height seed validatorDeposit of
                 None \<Rightarrow> Some (db, Some ErrValidatorTimeout)
               | Some topRsp \<Rightarrow>
                   Some (writeElectData db RoleValidator (height + VerifyTopologyGenerateUpTime) no_miners topRsp, None))))"

definition IsMinerTopGenTiming :: "u64 \<Rightarrow> bool" where
  "IsMinerTopGenTiming height \<longleftrightarrow> height mod GetReElectionInterval = MinerTopGenTiming"

definition IsValidatorTopGenTiming :: "u64 \<Rightarrow> bool" where
  "IsValidatorTopGenTiming height \<longleftrightarrow> height mod GetReElectionInterval = ValidatorTopGenTiming"

text \<open>The error of the second generation replaces that of the first.\<close>

definition HandleTopGen :: "('d, 's) elect_env \<Rightarrow> ldb \<Rightarrow> u64 \<Rightarrow> db_result" where
  "HandleTopGen e db height =
    (case (if IsMinerTopGenTiming height then ToGenMinerTop e db height else Some (db, None)) of
       None \<Rightarrow> None
     | Some (db, err) \<Rightarrow>
         if IsValidatorTopGenTiming height then ToGenValidatorTop e db height else Some (db, err))"

definition roleUpdateProcess :: "('d, 's) elect_env \<Rightarrow> ldb \<Rightarrow> role_type \<Rightarrow> u64 \<Rightarrow> db_result" where
  "roleUpdateProcess e db role blockNum =
    (if RoleValidator \<noteq> role then Some (db, None) else HandleTopGen e db blockNum)"

definition boolTopStatus :: "ldb \<Rightarrow> u64 \<Rightarrow> role_type \<Rightarrow> bool" where
  "boolTopStatus db height types = (case readElectData db types height of Inl err \<Rightarrow> False | Inr _ \<Rightarrow> True)"

definition checkTopGenStatus :: "('d, 's) elect_env \<Rightarrow> ldb \<Rightarrow> u64 \<Rightarrow> db_result" where
  "checkTopGenStatus e db height =
    (let reElectionHeight = GetNextReElectionNumber height;
         miners = (if boolTopStatus db reElectionHeight RoleMiner then Some (db, None, False)
                   else if height = 0 then Some (db, None, True)
                   else (case ToGenMinerTop e db (reElectionHeight - MinerTopologyGenerateUpTime) of
                           None \<Rightarrow> None
                         | Some (db, err) \<Rightarrow> Some (db, err, err \<noteq> None)))
     in case miners of
          None \<Rightarrow> None
        | Some (db, err, True) \<Rightarrow> Some (db, err)
        | Some (db, err, False) \<Rightarrow>
            if boolTopStatus db reElectionHeight RoleValidator then Some (db, None)
            else if height = 0 then Some (db, None)
            else ToGenValidatorTop e db (reElectionHeight - VerifyTopologyGenerateUpTime))"

section \<open>Queries (reelection/reelection.go, reelection/cal.go)\<close>

text \<open>A query may generate missing data, so it returns the database with its result.\<close>

definition GetElection :: "('d, 's) elect_env \<Rightarrow> ldb \<Rightarrow> u64 \<Rightarrow> (ldb \<times> (elect_error + ElectReturnInfo)) option" where
  "GetElection e db height =
    (if IsReElectionNumber (height + MinerNetChangeUpTime) then
       (case checkTopGenStatus e db (height + MinerNetChangeUpTime) of
          None \<Rightarrow> None
        | Some (db, _) \<Rightarrow> Some (db,
            (case readElectData db RoleMiner (height + MinerNetChangeUpTime) of
               Inl err \<Rightarrow> Inl err
             | Inr (ans, _) \<Rightarrow> Inr (no_elect\<lparr>er_MasterMiner := em_MasterMiner ans, er_BackUpMiner := em_BackUpMiner ans\<rparr>))))
     else if IsReElectionNumber (height + VerifyNetChangeUpTime) then
       (case checkTopGenStatus e db (height + VerifyNetChangeUpTime) of
          None \<Rightarrow> None
        | Some (db, _) \<Rightarrow> Some (db,
            (case readElectData db RoleValidator (height + VerifyNetChangeUpTime) of
               Inl err \<Rightarrow> Inl err
             | Inr (_, ans) \<Rightarrow> Inr (no_elect\<lparr>er_MasterValidator := ev_MasterValidator ans,
                 er_BackUpValidator := ev_BackUpValidator ans\<rparr>))))
     else Some (db, Inr no_elect))"

definition GetNetTopologyAll :: "('d, 's) elect_env \<Rightarrow> ldb \<Rightarrow> u64 \<Rightarrow> (ldb \<times> (elect_error + ElectReturnInfo)) option" where
  "GetNetTopologyAll e db height =
    (if IsReElectionNumber (height + 1) then
       (case checkTopGenStatus e db (height + 1) of
          None \<Rightarrow> None
        | Some (db, _) \<Rightarrow>
            (case readElectData db RoleMiner (height + 1) of
               Inl err \<Rightarrow> Some (db, Inl err)
             | Inr (ans, _) \<Rightarrow>
                 (case checkTopGenStatus e db (height + 1) of
                    None \<Rightarrow> None
                  | Some (db, _) \<Rightarrow> Some (db,
                      (case readElectData db RoleValidator (height + 1) of
                         Inl err \<Rightarrow> Inl err
                       | Inr (_, ans1) \<Rightarrow> Inr \<lparr>er_MasterMiner = em_MasterMiner ans, er_BackUpMiner = em_BackUpMiner ans,
                           er_MasterValidator = ev_MasterValidator ans1, er_BackUpValidator = ev_BackUpValidator ans1\<rparr>)))))
     else Some (db, Inr no_elect))"

record Alternative =
  al_A :: address
  al_B :: address
  al_Position :: u16

text \<open>The function returns before it looks at the topology.\<close>

definition GetTopoChange :: "u64 \<Rightarrow> address list \<Rightarrow> elect_error + Alternative list" where
  "GetTopoChange height offline = Inr []"

definition checkInGraph :: "TopologyGraph \<Rightarrow> u16 \<Rightarrow> address" where
  "checkInGraph graph pos =
    (case find (\<lambda>v. tn_Position v = pos) (tg_NodeList graph) of None \<Rightarrow> 0 | Some v \<Rightarrow> tn_Account v)"

definition checkInDiff :: "NetTopology \<Rightarrow> address \<Rightarrow> bool" where
  "checkInDiff diff add = list_ex (\<lambda>v. nd_Account v = add) (nt_Data diff)"

definition IsInArray :: "address \<Rightarrow> address list \<Rightarrow> bool" where
  "IsInArray aimAddress offline = list_ex (\<lambda>v. v = aimAddress) offline"

fun top_offline_loop :: "NetTopology \<Rightarrow> TopologyGraph \<Rightarrow> NetTopologyData list \<Rightarrow> address list" where
  "top_offline_loop chg prev [] = []"
| "top_offline_loop chg prev (v # vs) =
    (if nd_Position v = PosOffline \<or> nd_Position v = PosOnline then top_offline_loop chg prev vs
     else let account = checkInGraph prev (nd_Position v)
          in if checkInDiff chg account then top_offline_loop chg prev vs
             else account # top_offline_loop chg prev vs)"

definition ParseTopNodeOffline :: "NetTopology \<Rightarrow> TopologyGraph \<Rightarrow> address list" where
  "ParseTopNodeOffline topologyChg prevTopology =
    (if nt_Type topologyChg \<noteq> NetTopoTypeChange then []
     else top_offline_loop topologyChg prevTopology (nt_Data topologyChg))"

fun primary_loop :: "NetTopologyData list \<Rightarrow> address list \<times> address list" where
  "primary_loop [] = ([], [])"
| "primary_loop (v # vs) =
    (let (online, offline) = primary_loop vs
     in if nd_Position v = PosOffline then (online, nd_Account v # offline)
        else if nd_Position v = PosOnline then (nd_Account v # online, offline)
        else (online, offline))"

definition ParsePrimaryTopNodeState :: "NetTopology \<Rightarrow> address list \<times> address list" where
  "ParsePrimaryTopNodeState topologyChg =
    (if nt_Type topologyChg \<noteq> NetTopoTypeChange then ([], []) else primary_loop (nt_Data topologyChg))"

text \<open>\<open>srcMap\<close> and \<open>orderIndex\<close>.\<close>

definition elect_order :: "ElectReturnInfo \<Rightarrow> (elect_role \<times> TopologyNodeInfo list) list" where
  "elect_order info =
    [(ElectRoleValidator, er_MasterValidator info), (ElectRoleValidatorBackUp, er_BackUpValidator info),
     (ElectRoleMiner, er_MasterMiner info), (ElectRoleMinerBackUp, er_BackUpMiner info)]"

definition TransferToElectionStu :: "ElectReturnInfo \<Rightarrow> Elect list" where
  "TransferToElectionStu info =
    concat (map (\<lambda>(role, src). map (\<lambda>node. \<lparr>el_Account = tn_Account node, el_Stock = tn_Stock node, el_Type = role\<rparr>) src)
      (elect_order info))"

fun topology_data :: "elect_role \<Rightarrow> nat \<Rightarrow> TopologyNodeInfo list \<Rightarrow> NetTopologyData list" where
  "topology_data role i [] = []"
| "topology_data role i (node # src) =
    \<lparr>nd_Account = tn_Account node, nd_Position = GeneratePosition (of_nat i) role\<rparr> # topology_data role (Suc i) src"

definition TransferToNetTopologyAllStu :: "ElectReturnInfo \<Rightarrow> NetTopology" where
  "TransferToNetTopologyAllStu info =
    \<lparr>nt_Type = NetTopoTypeAll, nt_Data = concat (map (\<lambda>(role, src). topology_data role 0 src) (elect_order info))\<rparr>"

definition TransferToNetTopologyChgStu :: "Alternative list \<Rightarrow> address list \<Rightarrow> address list \<Rightarrow> NetTopology" where
  "TransferToNetTopologyChgStu alterInfo onlinePrimaryNods offlinePrimaryNodes =
    \<lparr>nt_Type = NetTopoTypeChange, nt_Data =
      map (\<lambda>alter. \<lparr>nd_Account = al_A alter, nd_Position = al_Position alter\<rparr>) alterInfo @
      map (\<lambda>a. \<lparr>nd_Account = a, nd_Position = PosOnline\<rparr>) onlinePrimaryNods @
      map (\<lambda>a. \<lparr>nd_Account = a, nd_Position = PosOffline\<rparr>) offlinePrimaryNodes\<rparr>"

definition topo_node :: "NetTopologyData \<Rightarrow> TopologyNodeInfo" where
  "topo_node data = \<lparr>tn_Account = nd_Account data, tn_Position = nd_Position data,
    tn_Type = GetRoleTypeFromPosition (nd_Position data), tn_Stock = 0, tn_NodeNumber = 0\<rparr>"

definition nodes_of_role :: "role_type \<Rightarrow> NetTopology \<Rightarrow> TopologyNodeInfo list" where
  "nodes_of_role role topo = filter (\<lambda>node. tn_Type node = role) (map topo_node (nt_Data topo))"

definition paraseNetTopology :: "NetTopology \<Rightarrow> elect_error + TopologyNodeInfo list \<times> TopologyNodeInfo list \<times>
    TopologyNodeInfo list \<times> TopologyNodeInfo list" where
  "paraseNetTopology topo =
    (if nt_Type topo \<noteq> NetTopoTypeAll then Inl ErrNotAllData
     else Inr (nodes_of_role RoleMiner topo, nodes_of_role RoleBackupMiner topo,
       nodes_of_role RoleValidator topo, nodes_of_role RoleBackupValidator topo))"

section \<open>Updates of the primary lists (reelection/updateNative.go)\<close>

definition locate :: "address \<Rightarrow> TopologyNodeInfo list \<Rightarrow> TopologyNodeInfo list \<Rightarrow> TopologyNodeInfo list \<Rightarrow>
    int \<times> TopologyNodeInfo option" where
  "locate address master backUp cand =
    (case find (\<lambda>v. tn_Account v = address) master of
       Some v \<Rightarrow> (0, Some v)
     | None \<Rightarrow>
         (case find (\<lambda>v. tn_Account v = address) backUp of
            Some v \<Rightarrow> (1, Some v)
          | None \<Rightarrow>
              (case find (\<lambda>v. tn_Account v = address) cand of
                 Some v \<Rightarrow> (2, Some v)
               | None \<Rightarrow> (-1, None))))"

definition whereIsV :: "ldb \<Rightarrow> address \<Rightarrow> role_type \<Rightarrow> u64 \<Rightarrow> elect_error + int \<times> TopologyNodeInfo option" where
  "whereIsV db address role height =
    (if role = RoleMiner then
       (case readElectData db RoleMiner
               (height div GetBroadcastInterval * GetBroadcastInterval - MinerTopologyGenerateUpTime) of
          Inl err \<Rightarrow> Inl err
        | Inr (ans, _) \<Rightarrow> Inr (locate address (em_MasterMiner ans) (em_BackUpMiner ans) []))
     else if role = RoleValidator then
       (case readElectData db RoleValidator
               (height div GetBroadcastInterval * GetBroadcastInterval - VerifyTopologyGenerateUpTime) of
          Inl err \<Rightarrow> Inl err
        | Inr (_, ans) \<Rightarrow> Inr (locate address (ev_MasterValidator ans) (ev_BackUpValidator ans) (ev_CandidateValidator ans)))
     else Inl ErrRole)"

fun online_loop :: "NetTopology \<Rightarrow> TopologyGraph \<Rightarrow> NetTopologyData list \<Rightarrow> address list \<times> address list" where
  "online_loop diff graph [] = ([], [])"
| "online_loop diff graph (v # vs) =
    (let (online, offline) = online_loop diff graph vs
     in if nd_Position v = 0xF000 then (online, nd_Account v # offline)
        else if nd_Position v = 0xF001 then (nd_Account v # online, offline)
        else let nativeAdd = checkInGraph graph (nd_Position v)
             in if checkInDiff diff nativeAdd then (online, offline) else (online, nativeAdd # offline))"

definition CalOnline :: "NetTopology \<Rightarrow> TopologyGraph \<Rightarrow> address list \<times> address list" where
  "CalOnline diff graph = online_loop diff graph (nt_Data diff)"

text \<open>The deletion loop of \<open>deleteOfflineNode\<close> ranges over the slice as it was at the start, with its
  elements read from the array that the deletions shift: \<open>arr\<close> is the array, \<open>len\<close> the length of the
  current slice, \<open>k\<close> the index and \<open>todo\<close> the iterations left. \<^const>\<open>None\<close> is the panic of a slice
  expression out of range.\<close>

fun delete_loop :: "address list \<Rightarrow> nat \<Rightarrow> nat \<Rightarrow> TopologyNodeInfo list \<Rightarrow> nat \<Rightarrow> TopologyNodeInfo list option" where
  "delete_loop offline 0 k arr len = Some (take len arr)"
| "delete_loop offline (Suc todo) k arr len =
    (if IsInArray (tn_Account (arr ! k)) offline then
       (if k + 1 > len then None
        else delete_loop offline todo (k + 1)
               (take k arr @ drop (k + 1) (take len arr) @ drop (len - 1) arr) (len - 1))
     else delete_loop offline todo (k + 1) arr len)"

definition deleteOfflineNode :: "address list \<Rightarrow> TopologyNodeInfo list \<Rightarrow> TopologyNodeInfo list \<Rightarrow>
    (TopologyNodeInfo list \<times> TopologyNodeInfo list) option" where
  "deleteOfflineNode offline Master BackUp =
    (case delete_loop offline (length Master) 0 Master (length Master) of
       None \<Rightarrow> None
     | Some Master \<Rightarrow>
         (case delete_loop offline (length BackUp) 0 BackUp (length BackUp) of
            None \<Rightarrow> None
          | Some BackUp \<Rightarrow> Some (Master, BackUp)))"

section \<open>Keys\<close>

definition digits_val :: "string \<Rightarrow> nat" where
  "digits_val s = foldl (\<lambda>acc c. 10 * acc + (of_char c - 48)) 0 s"

lemma of_char_digit: "n < 10 \<Longrightarrow> (of_char (digit n) :: nat) = 48 + n"
  by (simp add: digit_def)

lemma digits_val_nat_string [simp]: "digits_val (nat_string n) = n"
proof (induction n rule: nat_string.induct)
  case (1 n)
  then show ?case
    by (subst nat_string.simps) (auto simp: digits_val_def of_char_digit)
qed

lemma nat_string_digits: "c \<in> set (nat_string n) \<Longrightarrow> (48 :: nat) \<le> of_char c"
proof (induction n rule: nat_string.induct)
  case (1 n)
  then show ?case by (subst (asm) (2) nat_string.simps) (auto simp: of_char_digit split: if_splits)
qed

lemma int_string_inj: "int_string i = int_string j \<longleftrightarrow> i = j"
proof -
  have minus: "nat_string n \<noteq> CHR ''-'' # s" for n s
    using nat_string_digits [of "CHR ''-''" n] by auto
  have "nat_string m = nat_string n \<longleftrightarrow> m = n" for m n
    by (metis digits_val_nat_string)
  then show ?thesis using minus by (auto simp: int_string_def dest: sym)
qed

lemma i64_uint_inj: "i64 (uint (a :: u64)) = i64 (uint b) \<longleftrightarrow> a = b"
proof -
  have "i64 (uint x) = sint x" for x :: u64
    by (simp add: i64_def sint_uint signed_take_bit_eq_take_bit_shift take_bit_eq_mod)
  then show ?thesis by (metis signed_word_eqI)
qed

text \<open>The three kinds of keys end differently.\<close>

lemma db_keys_distinct:
  "MakeElectDBKey h RoleMiner \<noteq> MakeElectDBKey h' RoleValidator"
  "MakeElectDBKey h RoleMiner \<noteq> MakeNativeDBKey h'"
  "MakeElectDBKey h RoleValidator \<noteq> MakeNativeDBKey h'"
proof -
  have "rev (MakeElectDBKey h RoleMiner) ! 9 \<noteq> rev (MakeElectDBKey h' RoleValidator) ! 9" for h h'
    by (simp add: MakeElectDBKey_def RoleMiner_def RoleValidator_def Let_def)
  then show "MakeElectDBKey h RoleMiner \<noteq> MakeElectDBKey h' RoleValidator" by metis
  have "last (MakeElectDBKey h r) \<noteq> last (MakeNativeDBKey h')" if "r = RoleMiner \<or> r = RoleValidator" for r
    using that by (auto simp: MakeElectDBKey_def MakeNativeDBKey_def Let_def)
  then show "MakeElectDBKey h RoleMiner \<noteq> MakeNativeDBKey h'" "MakeElectDBKey h RoleValidator \<noteq> MakeNativeDBKey h'"
    by metis+
qed

text \<open>A region of the database: structures of one kind filed by height.\<close>

locale db_region =
  fixes key :: "u64 \<Rightarrow> string" and enc :: "'v \<Rightarrow> ldb_value" and dec :: "ldb_value \<Rightarrow> 'v"
  assumes key_inj: "key h = key h' \<longleftrightarrow> h = h'"
    and dec_enc: "dec (enc v) = v"
begin

lemma read_back: "map_option dec (map_of (map_put (key h) (enc v) db) (key h')) =
  (if h' = h then Some v else map_option dec (map_of db (key h')))"
  by (simp add: key_inj dec_enc)

lemma stored_iff: "map_of (map_put (key h) (enc v) db) (key h') = None \<longleftrightarrow> h' \<noteq> h \<and> map_of db (key h') = None"
  by (simp add: key_inj)

end

interpretation miner_db: db_region "\<lambda>h. MakeElectDBKey h RoleMiner" DbMiner as_miner
  by unfold_locales (simp_all add: MakeElectDBKey_def int_string_inj i64_uint_inj)

interpretation validator_db: db_region "\<lambda>h. MakeElectDBKey h RoleValidator" DbValidator as_validator
  by unfold_locales (simp_all add: MakeElectDBKey_def int_string_inj i64_uint_inj RoleMiner_def RoleValidator_def)

interpretation native_db: db_region MakeNativeDBKey DbNative as_native
  by unfold_locales (simp_all add: MakeNativeDBKey_def int_string_inj i64_uint_inj)

lemma roles_differ [simp]: "RoleMiner \<noteq> RoleValidator" "RoleValidator \<noteq> RoleMiner"
  by (simp_all add: RoleMiner_def RoleValidator_def)

lemma read_write_elect [simp]:
  "readElectData (writeElectData db RoleMiner h m v) RoleMiner h' =
    (if h' = h then Inr (m, no_validators) else readElectData db RoleMiner h')"
  "readElectData (writeElectData db RoleValidator h m v) RoleValidator h' =
    (if h' = h then Inr (no_miners, v) else readElectData db RoleValidator h')"
  "readElectData (writeElectData db RoleMiner h m v) RoleValidator h' = readElectData db RoleValidator h'"
  "readElectData (writeElectData db RoleValidator h m v) RoleMiner h' = readElectData db RoleMiner h'"
  by (simp_all add: readElectData_def writeElectData_def miner_db.key_inj validator_db.key_inj
      db_keys_distinct db_keys_distinct [symmetric])

lemma read_write_native [simp]:
  "readNativeData (writeNativeData db h a) h' = (if h' = h then Inr a else readNativeData db h')"
  "readNativeData (writeElectData db r h m v) h' = readNativeData db h'"
  "readElectData (writeNativeData db h a) r h' = readElectData db r h'"
  by (simp_all add: readElectData_def writeElectData_def readNativeData_def writeNativeData_def
      native_db.key_inj db_keys_distinct db_keys_distinct [symmetric])

section \<open>From generation to announcement\<close>

lemma mod_shift:
  assumes "(h :: u64) mod 60 = 52" "unat h + 8 < 2 ^ 64" "k \<le> 8"
  shows "(h + of_nat k) mod 60 = 0 \<longleftrightarrow> k = 8"
proof -
  have "unat h mod 60 = 52" using arg_cong [OF assms(1), of unat] by (simp add: unat_mod)
  moreover have "unat (h + of_nat k) = unat h + k"
    using assms(2,3) by (simp add: unat_word_ariths unat_of_nat)
  ultimately have "unat (h + of_nat k) mod 60 = (52 + k) mod 60" by (metis mod_add_left_eq)
  then have "unat ((h + of_nat k) mod 60) = (52 + k) mod 60" by (simp only: unat_mod) simp
  moreover have "(52 + k) mod 60 = 0 \<longleftrightarrow> k = 8" using assms(3) by presburger
  ultimately show ?thesis by (metis unat_eq_0)
qed

lemma generation_heights:
  assumes "h mod GetReElectionInterval = MinerTopGenTiming" "unat h + 8 < 2 ^ 64"
  shows "IsReElectionNumber (h + 8)" "\<not> IsReElectionNumber (h + 6)" "GetNextReElectionNumber (h + 8) = h + 8" "h + 8 \<noteq> 0"
proof -
  have h: "h mod 60 = 52" using assms(1) by (simp add: timing_defs)
  show r: "IsReElectionNumber (h + 8)" "\<not> IsReElectionNumber (h + 6)"
    using mod_shift [OF h assms(2), of 8] mod_shift [OF h assms(2), of 6] by (simp_all add: schedule_defs)
  then show "GetNextReElectionNumber (h + 8) = h + 8" by (simp add: GetNextReElectionNumber_def)
  have "unat (h + 8) = unat h + 8" using assms(2) by (simp add: unat_word_ariths)
  then show "h + 8 \<noteq> 0" by (metis add_is_0 unat_0 zero_neq_numeral)
qed

lemma checkTopGenStatus_present:
  assumes "boolTopStatus db (GetNextReElectionNumber n) RoleMiner" "boolTopStatus db (GetNextReElectionNumber n) RoleValidator"
  shows "checkTopGenStatus e db n = Some (db, None)"
  using assms by (simp add: checkTopGenStatus_def)

text \<open>C31: What is elected is what is announced. When a validator generates the lists at its height of the
  period (the 52nd of 60 blocks) and both elections are answered, the miners of this answer are the
  election of the block 4 before the re-election block, the validators that of the block 6 before it, and
  the full topology of the block before it has both; none of these queries generates anything again.\<close>

theorem elected_lists_announced:
  assumes "IsMinerTopGenTiming h" "unat h + 8 < 2 ^ 64"
    and seed: "GetSeed e h = Some (Some seed)"
    and miners: "ee_Deposits e (i64 (uint h)) RoleMiner = Some md" "ee_MinerElection e h seed md = Some m"
    and validators: "ee_Deposits e (i64 (uint h)) RoleValidator = Some vd" "ee_ValidatorElection e h seed vd = Some v"
  shows "\<exists>db'. roleUpdateProcess e db RoleValidator h = Some (db', None) \<and>
    GetElection e db' (h + 4) = Some (db', Inr (no_elect\<lparr>er_MasterMiner := em_MasterMiner m, er_BackUpMiner := em_BackUpMiner m\<rparr>)) \<and>
    GetElection e db' (h + 2) = Some (db', Inr (no_elect\<lparr>er_MasterValidator := ev_MasterValidator v,
      er_BackUpValidator := ev_BackUpValidator v\<rparr>)) \<and>
    GetNetTopologyAll e db' (h + 7) = Some (db', Inr \<lparr>er_MasterMiner = em_MasterMiner m, er_BackUpMiner = em_BackUpMiner m,
      er_MasterValidator = ev_MasterValidator v, er_BackUpValidator = ev_BackUpValidator v\<rparr>)"
proof -
  let ?db = "writeElectData (writeElectData db RoleMiner (h + 8) m no_validators) RoleValidator (h + 8) no_miners v"
  have t: "h mod GetReElectionInterval = MinerTopGenTiming" using assms(1) by (simp add: IsMinerTopGenTiming_def)
  note hs = generation_heights [OF t assms(2)]
  have add: "h + 4 + 4 = h + 8" "h + 2 + 4 = h + 6" "h + 2 + 6 = h + 8" "h + 7 + 1 = h + 8" by simp_all
  have "IsValidatorTopGenTiming h"
    using t by (simp add: IsValidatorTopGenTiming_def timing_defs)
  then have "roleUpdateProcess e db RoleValidator h = Some (?db, None)"
    using assms(1) seed miners validators
    by (simp add: roleUpdateProcess_def HandleTopGen_def ToGenMinerTop_def ToGenValidatorTop_def GetAllElectedByHeight_def
        MinerTopologyGenerateUpTime_def VerifyTopologyGenerateUpTime_def)
  moreover have "checkTopGenStatus e ?db (h + 8) = Some (?db, None)"
    by (rule checkTopGenStatus_present) (simp_all add: hs boolTopStatus_def)
  ultimately show ?thesis using hs
    by (intro exI [of _ ?db]) (simp add: GetElection_def GetNetTopologyAll_def MinerNetChangeUpTime_def VerifyNetChangeUpTime_def add)
qed

section \<open>Election data and header fields\<close>

lemma topology_data_nodes:
  assumes "role \<le> 3" "i + length src \<le> 4096"
  shows "map (tn_Type \<circ> topo_node) (topology_data role i src) = replicate (length src) (Transfer2CommonRole role)"
    "map nd_Account (topology_data role i src) = map tn_Account src"
  using assms(2)
proof (induction src arbitrary: i)
  case (Cons node src)
  { case 1
    have "(of_nat i :: u16) < 4096" using 1 by (simp add: word_less_nat_alt unat_of_nat)
    then have "GetRoleTypeFromPosition (GeneratePosition (of_nat i) role) = Transfer2CommonRole role"
      using position_role [OF assms(1)] by (simp add: GetRoleTypeFromPosition_def)
    then show ?case using Cons(1) [of "Suc i"] 1 by (simp add: topo_node_def)
  next
    case 2
    then show ?case using Cons(2) [of "Suc i"] by simp }
qed simp_all

lemma filter_role:
  assumes "map (tn_Type \<circ> topo_node) ds = replicate n r"
  shows "filter (\<lambda>node. tn_Type node = r') (map topo_node ds) = (if r = r' then map topo_node ds else [])"
proof -
  have "tn_Type (topo_node d) = r" if "d \<in> set ds" for d
    using that arg_cong [OF assms, of set] by (auto simp: image_iff split: if_splits)
  then show ?thesis by (auto simp: filter_map comp_def intro!: arg_cong [where f = "map topo_node"] filter_True filter_False)
qed


section \<open>The hash that goes into the seed\<close>

lemma greaterThanAtMost_pred: "(bound :: u64) < i \<Longrightarrow> {bound<..i} = insert i {bound<..i - 1}"
proof -
  assume b: "bound < i"
  then have "i \<noteq> 0" by auto
  then have u: "unat (i - 1) = unat i - 1" "unat bound < unat i"
    using b unat_minus_one [of i] by (simp_all add: word_less_nat_alt)
  show ?thesis
  proof (rule set_eqI)
    fix x :: u64
    have "unat bound < unat x \<and> unat x \<le> unat i \<longleftrightarrow> unat x = unat i \<or> unat bound < unat x \<and> unat x \<le> unat i - 1"
      using u(2) by linarith
    then show "x \<in> {bound<..i} \<longleftrightarrow> x \<in> insert i {bound<..i - 1}"
      by (simp only: greaterThanAtMost_iff insert_iff word_less_nat_alt word_le_nat_alt u(1) word_unat_eq_iff)
  qed
qed

lemma le_pred: "(bound :: u64) < i \<Longrightarrow> j \<le> i - 1 \<Longrightarrow> j \<le> i"
  using greaterThanAtMost_pred [of bound i] unat_minus_one [of i]
  by (cases "i = 0") (simp_all add: word_le_nat_alt)

lemma min_hash_loop_min:
  assumes "\<And>j. bound < j \<Longrightarrow> j \<le> i \<Longrightarrow> bh j = Some (hs j)"
  shows "min_hash_loop bh bound i m = Some (Min (insert m (hs ` {bound<..i})))"
  using assms
proof (induction bh bound i m rule: min_hash_loop.induct)
  case (1 bh bound i m)
  show ?case
  proof (cases "bound < i")
    case True
    have mn: "(if hs i < m then hs i else m) = min m (hs i)" by (metis min_def not_le)
    have IH: "min_hash_loop bh bound (i - 1) (min m (hs i)) = Some (Min (insert (min m (hs i)) (hs ` {bound<..i - 1})))"
      using 1(1) [OF True 1(2) [OF True order_refl]] 1(2) le_pred [OF True] by (simp add: mn)
    have "Min (insert (min m (hs i)) (hs ` {bound<..i - 1})) = Min (insert m (hs ` {bound<..i}))"
      using True by (cases "{bound<..i - 1} = {}") (simp_all add: greaterThanAtMost_pred min.assoc)
    then show ?thesis using IH 1(2) [of i] True by (subst min_hash_loop.simps) (simp add: mn)
  next
    case False
    then have "{bound<..i} = {}" by auto
    then show ?thesis using False by (subst min_hash_loop.simps) simp
  qed
qed

text \<open>C33: From the 20th block on, \<open>getMinHash\<close> ends and returns the smallest hash of the last 20 blocks,
  those of one broadcast period, when these blocks are present.\<close>

theorem getMinHash_minimum:
  assumes "20 \<le> height" "\<And>j. height - 20 < j \<Longrightarrow> j \<le> height \<Longrightarrow> bh j = Some (hs j)"
  shows "getMinHash bh height = Some (Min (hs ` {height - 20<..height})) \<and> card {height - 20<..height} = 20"
proof
  have u: "unat (height - 20) = unat height - 20" using assms(1) by (simp add: unat_sub)
  have "20 \<le> unat height" using assms(1) by (simp add: word_le_nat_alt)
  then have lt: "height - 20 < height" by (simp add: word_less_nat_alt u)
  have "min_hash_loop bh (height - 20) (height - 1) (hs height) = Some (Min (insert (hs height) (hs ` {height - 20<..height - 1})))"
  proof (rule min_hash_loop_min)
    fix j assume "height - 20 < j" "j \<le> height - 1"
    moreover from this have "j \<le> height" using le_pred [OF lt] by simp
    ultimately show "bh j = Some (hs j)" using assms(2) by simp
  qed
  then show "getMinHash bh height = Some (Min (hs ` {height - 20<..height}))"
    using assms(2) [OF lt order_refl] greaterThanAtMost_pred [OF lt]
    by (simp add: getMinHash_def GetBroadcastInterval_def broadcastInterval_def)
  have "unat ` {height - 20<..height} = {unat height - 20<..unat height}"
  proof
    show "unat ` {height - 20<..height} \<subseteq> {unat height - 20<..unat height}"
      by (auto simp: word_less_nat_alt word_le_nat_alt u)
    show "{unat height - 20<..unat height} \<subseteq> unat ` {height - 20<..height}"
    proof
      fix n assume n: "n \<in> {unat height - 20<..unat height}"
      then have "n < 2 ^ 64" using unsigned_less [of height, where ?'a = nat] by auto
      then have "unat (of_nat n :: u64) = n" by (simp add: unat_of_nat)
      then show "n \<in> unat ` {height - 20<..height}" using n
        by (intro image_eqI [of _ _ "of_nat n"]) (auto simp: word_less_nat_alt word_le_nat_alt u)
    qed
  qed
  moreover have "card (unat ` {height - 20<..height}) = card {height - 20<..height}"
    by (rule card_image) (auto intro: inj_onI simp: word_unat_eq_iff)
  ultimately show "card {height - 20<..height} = 20" using \<open>20 \<le> unat height\<close> by simp
qed

section \<open>Deleting while ranging\<close>

lemma delete_loop_skip:
  assumes "\<And>j. k \<le> j \<Longrightarrow> j < k + n \<Longrightarrow> \<not> IsInArray (tn_Account (arr ! j)) off"
  shows "delete_loop off (n + m) k arr len = delete_loop off m (k + n) arr len"
  using assms
proof (induction n arbitrary: k)
  case (Suc n)
  then show ?case using Suc(1) [of "Suc k"] Suc(2) [of k] by simp
qed simp

lemma delete_loop_online:
  assumes "\<forall>v \<in> set vs. \<not> IsInArray (tn_Account v) off"
  shows "delete_loop off (length vs) 0 vs (length vs) = Some vs"
  using delete_loop_skip [of 0 "length vs" vs off 0 "length vs"] assms by simp

text \<open>C40: \<open>deleteOfflineNode\<close> is wrong as soon as two neighbouring nodes of a list are offline: it panics
  when they are the last two, and otherwise the second of them stays in the list.\<close>

theorem deleteOfflineNode_neighbours:
  assumes "\<forall>v \<in> set xs. \<not> IsInArray (tn_Account v) off" "IsInArray (tn_Account x) off" "IsInArray (tn_Account y) off"
  shows "deleteOfflineNode off (xs @ [x, y]) bs = None \<and>
    (\<forall>zs. zs \<noteq> [] \<and> (\<forall>v \<in> set (zs @ bs). \<not> IsInArray (tn_Account v) off) \<longrightarrow>
      deleteOfflineNode off (xs @ x # y # zs) bs = Some (xs @ y # zs, bs))"
proof
  have skip: "delete_loop off (length xs + m) 0 (xs @ ys) len = delete_loop off m (length xs) (xs @ ys) len" for m ys len
    using delete_loop_skip [of 0 "length xs" "xs @ ys" off m len] assms(1) by (simp add: nth_append)
  show "deleteOfflineNode off (xs @ [x, y]) bs = None"
    using skip [of "Suc (Suc 0)" "[x, y]" "length xs + 2"] assms(2,3)
    by (simp add: deleteOfflineNode_def nth_append)
  show "\<forall>zs. zs \<noteq> [] \<and> (\<forall>v \<in> set (zs @ bs). \<not> IsInArray (tn_Account v) off) \<longrightarrow>
      deleteOfflineNode off (xs @ x # y # zs) bs = Some (xs @ y # zs, bs)"
  proof (intro allI impI, elim conjE)
    fix zs assume z: "zs \<noteq> []" "\<forall>v \<in> set (zs @ bs). \<not> IsInArray (tn_Account v) off"
    let ?n = "length xs + 2 + length zs" and ?arr = "xs @ y # zs @ [last zs]"
    have l: "drop (length zs - Suc 0) zs = [last zs]"
      using z(1) by (metis One_nat_def append_butlast_last_id append_eq_conv_conj length_butlast)
    have "delete_loop off (length xs + Suc (Suc (length zs))) 0 (xs @ x # y # zs) ?n =
        delete_loop off (Suc (length zs)) (length xs + 1) ?arr (?n - 1)"
      using assms(2) z(1) by (subst skip) (simp add: nth_append l drop_Cons')
    also have "\<dots> = delete_loop off 0 (length xs + 1 + Suc (length zs)) ?arr (?n - 1)"
      using delete_loop_skip [of "length xs + 1" "Suc (length zs)" ?arr off 0 "?n - 1"] z
      by (auto simp: nth_append nth_Cons')
    finally have "delete_loop off (length xs + Suc (Suc (length zs))) 0 (xs @ x # y # zs) ?n = Some (xs @ y # zs)" by simp
    then show "deleteOfflineNode off (xs @ x # y # zs) bs = Some (xs @ y # zs, bs)"
      using delete_loop_online [of bs off] z(2) by (simp add: deleteOfflineNode_def)
  qed
qed

section \<open>Witnesses\<close>

definition demo_node :: "address \<Rightarrow> TopologyNodeInfo" where
  "demo_node a = \<lparr>tn_Account = a, tn_Position = 0, tn_Type = RoleMiner, tn_Stock = 1, tn_NodeNumber = 0\<rparr>"

definition demo_elect :: "(nat, nat) elect_env" where
  "demo_elect = \<lparr>ee_BlockHash = (\<lambda>n. Some (ucast n + 7)), ee_GetBroadcastTxs = (\<lambda>h s. []), ee_Random = (\<lambda>r. Some 5),
    ee_Deposits = (\<lambda>h r. Some 1), ee_MinerElection = (\<lambda>h s d. Some \<lparr>em_MasterMiner = [demo_node 3], em_BackUpMiner = []\<rparr>),
    ee_ValidatorElection = (\<lambda>h s d. Some \<lparr>ev_MasterValidator = [demo_node 1], ev_BackUpValidator = [demo_node 2],
      ev_CandidateValidator = []\<rparr>)\<rparr>"

theorem getMinHash_minimum_witness:
  "\<exists>x. getMinHash (ee_BlockHash demo_elect) 52 = Some x"
  using getMinHash_minimum [of 52 "ee_BlockHash demo_elect" "\<lambda>n. ucast n + 7"] by (simp add: demo_elect_def)

theorem elected_lists_announced_witness:
  "\<exists>db'. roleUpdateProcess demo_elect [] RoleValidator 52 = Some (db', None) \<and>
    GetElection demo_elect db' 56 = Some (db', Inr (no_elect\<lparr>er_MasterMiner := [demo_node 3], er_BackUpMiner := []\<rparr>))"
proof -
  have "\<exists>x. getMinHash (ee_BlockHash demo_elect) 52 = Some x"
    using min_hash_loop_min [of 32 51 "ee_BlockHash demo_elect" "\<lambda>n. ucast n + 7" "59"]
    by (simp add: getMinHash_def demo_elect_def GetBroadcastInterval_def broadcastInterval_def)
  then have "GetSeed demo_elect 52 = Some (Some 5)"
    by (auto simp: GetSeed_def CalcbeforeSeedGen_def Let_def demo_elect_def)
  then show ?thesis
    using elected_lists_announced [of 52 demo_elect 5 1 "\<lparr>em_MasterMiner = [demo_node 3], em_BackUpMiner = []\<rparr>" 1
        "\<lparr>ev_MasterValidator = [demo_node 1], ev_BackUpValidator = [demo_node 2], ev_CandidateValidator = []\<rparr>" "[]"]
    by (auto simp: IsMinerTopGenTiming_def timing_defs demo_elect_def)
qed


theorem deleteOfflineNode_neighbours_witness:
  "deleteOfflineNode [1, 2] [demo_node 3, demo_node 1, demo_node 2] [] = None"
  using deleteOfflineNode_neighbours [of "[demo_node 3]" "[1, 2]" "demo_node 1" "demo_node 2" "[]"]
  by (simp add: IsInArray_def demo_node_def)

end
