(* ===== verification/Blk_Checks.thy ===== *)
theory Blk_Checks
  imports Elect_Data
begin

text \<open>
  How a verifier checks the election and topology fields of a proposed header,
  \<open>blkconsensus/blkverify/verify_election_topology.go\<close>. What the re-election service, the role service and
  the top node service answer are parameters; a failure is \<^const>\<open>None\<close>.
\<close>

unbundle bit_operations_syntax

section \<open>blkconsensus/blkverify/verify_election_topology.go\<close>

definition StateOnline :: u8 where "StateOnline = 1"
definition StateOffline :: u8 where "StateOffline = 2"

datatype check_error =
    ErrGetElection
  | ErrElectionSize
  | ErrElectionInfo
  | ErrTopoSize
  | ErrTopoInfo
  | ErrTopNodeState
  | ErrPrimaryNodeState
  | ErrService

text \<open>What the checks ask of the re-election service and the topology store. \<^const>\<open>None\<close> is an error of the service;
  \<open>GetElection\<close> can also panic, on a block that \<open>getMinHash\<close> does not find (\<open>topGen.go\<close>), which is outside this view.\<close>

record check_view =
  cv_GetElection :: "u64 \<Rightarrow> ElectReturnInfo option"
  cv_GetNetTopologyAll :: "u64 \<Rightarrow> ElectReturnInfo option"
  cv_GetTopologyByNumber :: "role_type \<Rightarrow> u64 \<Rightarrow> TopologyGraph option"
  cv_CurTopNodeState :: "(address, u8) gomap"
  cv_PrimaryNodeState :: "(address, u8) gomap"

definition verifyElection :: "(rlp_val \<Rightarrow> hash) \<Rightarrow> check_view \<Rightarrow> u64 \<Rightarrow> Header \<Rightarrow> check_error option" where
  "verifyElection rlpHash w number header =
    (case cv_GetElection w number of
       None \<Rightarrow> Some ErrGetElection
     | Some info \<Rightarrow>
         (let electInfo = TransferToElectionStu info
          in if length electInfo \<noteq> length (h_Elect header) then Some ErrElectionSize
             else if length electInfo = 0 then None
             else if RlpHash rlpHash (VList (map rlp_Elect (h_Elect header))) \<noteq> RlpHash rlpHash (VList (map rlp_Elect electInfo))
             then Some ErrElectionInfo
             else None))"

text \<open>The end of both topology checks: the own topology against that of the header.\<close>

definition same_topology :: "(rlp_val \<Rightarrow> hash) \<Rightarrow> NetTopology \<Rightarrow> NetTopology \<Rightarrow> check_error option" where
  "same_topology rlpHash target own =
    (if length (nt_Data own) \<noteq> length (nt_Data target) then Some ErrTopoSize
     else if RlpHash rlpHash (rlp_NetTopology target) \<noteq> RlpHash rlpHash (rlp_NetTopology own) then Some ErrTopoInfo
     else None)"

definition verifyAllNetTopology :: "(rlp_val \<Rightarrow> hash) \<Rightarrow> check_view \<Rightarrow> Header \<Rightarrow> check_error option" where
  "verifyAllNetTopology rlpHash w header =
    (case cv_GetNetTopologyAll w (header_number header) of
       None \<Rightarrow> Some ErrService
     | Some info \<Rightarrow> same_topology rlpHash (h_NetTopology header) (TransferToNetTopologyAllStu info))"

definition checkStateByConsensus :: "address list \<Rightarrow> address list \<Rightarrow> (address, u8) gomap \<Rightarrow> bool" where
  "checkStateByConsensus offlineNodes onlineNodes stateMap \<longleftrightarrow>
    list_all (\<lambda>node. map_of stateMap node = Some StateOffline) offlineNodes \<and>
    list_all (\<lambda>node. map_of stateMap node = Some StateOnline) onlineNodes"

definition parseOnlineState :: "Header \<Rightarrow> TopologyGraph \<Rightarrow> address list \<times> address list \<times> address list" where
  "parseOnlineState header prevTopology =
    (let (onlinePrimaryNods, offlinePrimaryNodes) = ParsePrimaryTopNodeState (h_NetTopology header)
     in (ParseTopNodeOffline (h_NetTopology header) prevTopology, onlinePrimaryNods, offlinePrimaryNodes))"

definition verifyChgNetTopology :: "(rlp_val \<Rightarrow> hash) \<Rightarrow> check_view \<Rightarrow> u64 \<Rightarrow> Header \<Rightarrow> check_error option" where
  "verifyChgNetTopology rlpHash w number header =
    (if nt_Data (h_NetTopology header) = [] then None
     else
       (case cv_GetTopologyByNumber w (RoleValidator OR RoleBackupValidator OR RoleMiner OR RoleBackupMiner) (number - 1) of
          None \<Rightarrow> Some ErrService
        | Some prevTopology \<Rightarrow>
            (case parseOnlineState header prevTopology of (offlineTopNodes, onlinePrimaryNods, offlinePrimaryNodes) \<Rightarrow>
               if \<not> checkStateByConsensus offlineTopNodes [] (cv_CurTopNodeState w) then Some ErrTopNodeState
               else if \<not> checkStateByConsensus offlinePrimaryNodes onlinePrimaryNods (cv_PrimaryNodeState w)
               then Some ErrPrimaryNodeState
               else
                 (case GetTopoChange number offlineTopNodes of
                    Inl err \<Rightarrow> Some ErrService
                  | Inr alterInfo \<Rightarrow>
                      same_topology rlpHash (h_NetTopology header)
                        (TransferToNetTopologyChgStu alterInfo onlinePrimaryNods offlinePrimaryNodes)))))"

definition verifyNetTopology :: "(rlp_val \<Rightarrow> hash) \<Rightarrow> check_view \<Rightarrow> u64 \<Rightarrow> Header \<Rightarrow> check_error option" where
  "verifyNetTopology rlpHash w number header =
    (if nt_Type (h_NetTopology header) = NetTopoTypeAll then verifyAllNetTopology rlpHash w header
     else verifyChgNetTopology rlpHash w number header)"

section \<open>What an accepted header says\<close>

text \<open>Two topologies are told apart by the hash.\<close>

definition told_apart :: "(rlp_val \<Rightarrow> hash) \<Rightarrow> NetTopology \<Rightarrow> NetTopology \<Rightarrow> bool" where
  "told_apart rlpHash t t' \<longleftrightarrow> (rlpHash (rlp_NetTopology t) = rlpHash (rlp_NetTopology t') \<longrightarrow> t = t')"

lemma rlp_serializable_topology [simp]:
  "rlp_serializable (rlp_NetTopology t)" "list_all rlp_serializable (map rlp_Elect es)"
  by (auto simp: rlp_NetTopology_def rlp_Elect_def list_all_iff)

lemma same_topology_iff: "told_apart r t t' \<Longrightarrow> same_topology r t t' = None \<longleftrightarrow> t' = t"
  by (auto simp: same_topology_def told_apart_def RlpHash_def)

text \<open>C28: A topology change that a verifier accepts only marks primary nodes as online or offline, each of
  them as the local consensus of the top nodes has it, and replaces no position: the list of replacements
  is empty for every block.\<close>

theorem accepted_change_replaces_nothing:
  assumes "verifyNetTopology r w number header = None" "nt_Type (h_NetTopology header) \<noteq> NetTopoTypeAll"
    and "told_apart r (h_NetTopology header)
      (case ParsePrimaryTopNodeState (h_NetTopology header) of (on, off) \<Rightarrow> TransferToNetTopologyChgStu [] on off)"
    and "d \<in> set (nt_Data (h_NetTopology header))"
  shows "nd_Position d = PosOnline \<and> map_of (cv_PrimaryNodeState w) (nd_Account d) = Some StateOnline \<or>
    nd_Position d = PosOffline \<and> map_of (cv_PrimaryNodeState w) (nd_Account d) = Some StateOffline"
proof -
  let ?t = "h_NetTopology header"
  have ne: "nt_Data ?t \<noteq> []" using assms(4) by auto
  then obtain prev where prev: "cv_GetTopologyByNumber w (RoleValidator OR RoleBackupValidator OR RoleMiner OR RoleBackupMiner) (number - 1) = Some prev"
    using assms(1,2) by (auto simp: verifyNetTopology_def verifyChgNetTopology_def split: option.splits)
  obtain on off where p: "ParsePrimaryTopNodeState ?t = (on, off)" by fastforce
  have s: "checkStateByConsensus off on (cv_PrimaryNodeState w)" "same_topology r ?t (TransferToNetTopologyChgStu [] on off) = None"
    using assms(1,2) ne prev p
    by (auto simp: verifyNetTopology_def verifyChgNetTopology_def parseOnlineState_def GetTopoChange_def split: if_splits)
  then have t: "TransferToNetTopologyChgStu [] on off = ?t" using same_topology_iff [OF assms(3)] p by simp
  have "nt_Data ?t = map (\<lambda>a. \<lparr>nd_Account = a, nd_Position = PosOnline\<rparr>) on @
      map (\<lambda>a. \<lparr>nd_Account = a, nd_Position = PosOffline\<rparr>) off"
    unfolding t [symmetric] by (simp add: TransferToNetTopologyChgStu_def)
  then show ?thesis using assms(4) s(1) by (auto simp: checkStateByConsensus_def list_all_iff)
qed

text \<open>A verifier accepts the election list and the full topology of a header exactly when they are the
  ones it computes itself from the election data.\<close>

theorem accepted_fields_iff:
  assumes "cv_GetElection w number = Some info" "cv_GetNetTopologyAll w (header_number header) = Some all"
    and "nt_Type (h_NetTopology header) = NetTopoTypeAll"
    and "told_apart r (h_NetTopology header) (TransferToNetTopologyAllStu all)"
    and "r (VList (map rlp_Elect (h_Elect header))) = r (VList (map rlp_Elect (TransferToElectionStu info))) \<longrightarrow>
      h_Elect header = TransferToElectionStu info"
  shows "(verifyElection r w number header = None \<longleftrightarrow> h_Elect header = TransferToElectionStu info) \<and>
    (verifyNetTopology r w number header = None \<longleftrightarrow> h_NetTopology header = TransferToNetTopologyAllStu all)"
  using assms same_topology_iff [OF assms(4)]
  by (auto simp: verifyElection_def verifyNetTopology_def verifyAllNetTopology_def RlpHash_def Let_def)

section \<open>Witnesses\<close>

definition demo_view :: check_view where
  "demo_view = \<lparr>cv_GetElection = (\<lambda>n. Some (no_elect\<lparr>er_MasterMiner := [demo_node 3]\<rparr>)),
    cv_GetNetTopologyAll = (\<lambda>n. Some (no_elect\<lparr>er_MasterMiner := [demo_node 3]\<rparr>)),
    cv_GetTopologyByNumber = (\<lambda>r n. Some \<lparr>tg_Number = n, tg_NodeList = [demo_node 3], tg_CurNodeNumber = 0\<rparr>),
    cv_CurTopNodeState = [], cv_PrimaryNodeState = [(4, StateOnline)]\<rparr>"

definition demo_header :: "u8 \<Rightarrow> NetTopologyData list \<Rightarrow> Header" where
  "demo_header ty data = zero_header\<lparr>h_NetTopology := \<lparr>nt_Type = ty, nt_Data = data\<rparr>,
    h_Elect := [\<lparr>el_Account = 3, el_Stock = 1, el_Type = ElectRoleMiner\<rparr>]\<rparr>"

theorem accepted_change_replaces_nothing_witness:
  "verifyNetTopology (\<lambda>_. 7) demo_view 41 (demo_header NetTopoTypeChange [\<lparr>nd_Account = 4, nd_Position = PosOnline\<rparr>]) = None \<and>
   map_of (cv_PrimaryNodeState demo_view) 4 = Some StateOnline"
proof -
  let ?d = "\<lparr>nd_Account = 4, nd_Position = PosOnline\<rparr> :: NetTopologyData"
  let ?h = "demo_header NetTopoTypeChange [?d]"
  have p: "ParsePrimaryTopNodeState (h_NetTopology ?h) = ([4], [])"
    by (simp add: ParsePrimaryTopNodeState_def demo_header_def topo_const_defs)
  have v: "verifyNetTopology (\<lambda>_. 7) demo_view 41 ?h = None"
    using p by (simp add: verifyNetTopology_def verifyChgNetTopology_def parseOnlineState_def ParseTopNodeOffline_def demo_header_def
        demo_view_def checkStateByConsensus_def GetTopoChange_def same_topology_def TransferToNetTopologyChgStu_def RlpHash_def
        topo_const_defs StateOnline_def)
  show ?thesis
    using v p accepted_change_replaces_nothing [OF v, of ?d]
    by (simp add: demo_header_def told_apart_def TransferToNetTopologyChgStu_def topo_const_defs)
qed

theorem accepted_fields_iff_witness:
  "verifyElection (\<lambda>_. 7) demo_view 41 (demo_header NetTopoTypeAll [\<lparr>nd_Account = 3, nd_Position = 0\<rparr>]) = None \<and>
   verifyNetTopology (\<lambda>_. 7) demo_view 41 (demo_header NetTopoTypeAll [\<lparr>nd_Account = 3, nd_Position = 0\<rparr>]) = None"
proof -
  let ?h = "demo_header NetTopoTypeAll [\<lparr>nd_Account = 3, nd_Position = 0\<rparr>]"
  let ?i = "no_elect\<lparr>er_MasterMiner := [demo_node 3]\<rparr>"
  have e: "TransferToElectionStu ?i = h_Elect ?h" "TransferToNetTopologyAllStu ?i = h_NetTopology ?h"
    by (simp_all add: TransferToElectionStu_def TransferToNetTopologyAllStu_def elect_order_def no_elect_def demo_node_def
        demo_header_def GeneratePosition_def elect_role_defs)
  show ?thesis
    using accepted_fields_iff [of demo_view 41 ?i ?h ?i "\<lambda>_. 7"] e
    by (simp add: demo_view_def told_apart_def) (simp add: demo_header_def)
qed

end
