(* ===== verification/Req_Cache.thy ===== *)
theory Req_Cache
  imports Reelect_Msgs
begin

text \<open>
  The requests a verifier holds for one block number, \<open>blkconsensus/blkverify/req_cache.go\<close>.

  A request is kept as a \<open>reqData\<close> object that the cache and the verifying process point to, and the
  process writes into it. The objects are the elements of the list \<open>rc_heap\<close>, which only grows; a pointer
  is an index of this list. Transactions, receipts and the state database are values of a type \<open>'x\<close> that
  this code only passes on.
\<close>

section \<open>blkconsensus/blkverify/req_cache.go\<close>

definition otherReqCountMax :: nat where "otherReqCountMax = 50"

datatype req_error = ParamErr | LeaderReqExistErr | CantFindErr | ReqTurnLow u32 u32 | ReqTurnMismatch u32 u32

datatype lv_result =
    LocalVerifyProcessing
  | LocalVerifySuccess
  | LocalVerifyFailedButCanRecover
  | LocalVerifyStateFailed

record 'x reqData =
  rd_req :: HD_BlkConsensusReqMsg
  rd_hash :: hash
  rd_txs :: "'x option"
  rd_receipts :: "'x option"
  rd_stateDB :: "'x option"
  rd_localReq :: bool
  rd_localVerifyResult :: lv_result

record 'x LocalBlockVerifyConsensusReq =
  lr_BlkVerifyConsensusReq :: HD_BlkConsensusReqMsg
  lr_Txs :: "'x option"
  lr_Receipts :: "'x option"
  lr_State :: "'x option"

text \<open>Making a \<open>reqData\<close> takes the hash of the header; \<^const>\<open>None\<close> is the panic on a nil header.\<close>

definition newReqData :: "(rlp_val \<Rightarrow> hash) \<Rightarrow> HD_BlkConsensusReqMsg \<Rightarrow> 'x reqData option" where
  "newReqData rlpHash req =
    (case bcr_Header req of
       None \<Rightarrow> None
     | Some header \<Rightarrow> Some \<lparr>rd_req = req, rd_hash = HashNoSignsAndNonce rlpHash header, rd_txs = None,
         rd_receipts = None, rd_stateDB = None, rd_localReq = False, rd_localVerifyResult = LocalVerifyProcessing\<rparr>)"

definition newReqDataByLocalReq :: "(rlp_val \<Rightarrow> hash) \<Rightarrow> 'x LocalBlockVerifyConsensusReq \<Rightarrow> 'x reqData option" where
  "newReqDataByLocalReq rlpHash localReq =
    (case bcr_Header (lr_BlkVerifyConsensusReq localReq) of
       None \<Rightarrow> None
     | Some header \<Rightarrow> Some \<lparr>rd_req = lr_BlkVerifyConsensusReq localReq, rd_hash = HashNoSignsAndNonce rlpHash header,
         rd_txs = lr_Txs localReq, rd_receipts = lr_Receipts localReq, rd_stateDB = lr_State localReq,
         rd_localReq = True, rd_localVerifyResult = LocalVerifyProcessing\<rparr>)"

record 'x reqCache =
  rc_curTurn :: u32
  rc_leaderReqCache :: "(address, nat) gomap"
  rc_otherReqCache :: "nat list"
  rc_otherReqLimit :: nat
  rc_heap :: "'x reqData list"

definition newReqCache :: "'x reqCache" where
  "newReqCache = \<lparr>rc_curTurn = 0, rc_leaderReqCache = [], rc_otherReqCache = [], rc_otherReqLimit = otherReqCountMax,
    rc_heap = []\<rparr>"

abbreviation req_at :: "'x reqCache \<Rightarrow> nat \<Rightarrow> 'x reqData" where
  "req_at rc i \<equiv> rc_heap rc ! i"

abbreviation turn_at :: "'x reqCache \<Rightarrow> nat \<Rightarrow> u32" where
  "turn_at rc i \<equiv> bcr_ConsensusTurn (rd_req (req_at rc i))"

definition alloc_req :: "'x reqCache \<Rightarrow> 'x reqData \<Rightarrow> 'x reqCache \<times> nat" where
  "alloc_req rc data = (rc\<lparr>rc_heap := rc_heap rc @ [data]\<rparr>, length (rc_heap rc))"

definition rc_AddReq ::
  "(rlp_val \<Rightarrow> hash) \<Rightarrow> 'x reqCache \<Rightarrow> HD_BlkConsensusReqMsg option \<Rightarrow> ('x reqCache \<times> req_error option) option" where
  "rc_AddReq rlpHash rc msg =
    (case msg of
       None \<Rightarrow> Some (rc, Some ParamErr)
     | Some req \<Rightarrow>
         if bcr_ConsensusTurn req < rc_curTurn rc
         then Some (rc, Some (ReqTurnLow (bcr_ConsensusTurn req) (rc_curTurn rc)))
         else
           (case bcr_Header req of
              None \<Rightarrow> None
            | Some header \<Rightarrow>
                if h_Leader header = bcr_From req then
                  (if case map_of (rc_leaderReqCache rc) (bcr_From req) of
                        None \<Rightarrow> False | Some oldReq \<Rightarrow> turn_at rc oldReq \<ge> bcr_ConsensusTurn req
                   then Some (rc, Some LeaderReqExistErr)
                   else map_option (\<lambda>data.
                     (let (rc, i) = alloc_req rc data
                      in (rc\<lparr>rc_leaderReqCache := map_put (bcr_From req) i (rc_leaderReqCache rc)\<rparr>, None)))
                     (newReqData rlpHash req))
                else
                  map_option (\<lambda>data.
                    (let (rc, i) = alloc_req rc data
                     in if length (rc_otherReqCache rc) \<ge> rc_otherReqLimit rc
                        then (rc\<lparr>rc_otherReqCache := drop 1 (rc_otherReqCache rc) @ [i]\<rparr>, None)
                        else (rc\<lparr>rc_otherReqCache := rc_otherReqCache rc @ [i]\<rparr>, None)))
                    (newReqData rlpHash req)))"

definition rc_AddLocalReq ::
  "(rlp_val \<Rightarrow> hash) \<Rightarrow> 'x reqCache \<Rightarrow> 'x LocalBlockVerifyConsensusReq option \<Rightarrow> ('x reqCache \<times> req_error option) option" where
  "rc_AddLocalReq rlpHash rc msg =
    (case msg of
       None \<Rightarrow> Some (rc, Some ParamErr)
     | Some req \<Rightarrow>
         (case bcr_Header (lr_BlkVerifyConsensusReq req) of
            None \<Rightarrow> None
          | Some header \<Rightarrow>
              map_option (\<lambda>data.
                (let (rc, i) = alloc_req rc data
                 in (rc\<lparr>rc_leaderReqCache := map_put (h_Leader header) i (rc_leaderReqCache rc)\<rparr>, None)))
                (newReqDataByLocalReq rlpHash req)))"

definition SetCurTurn :: "'x reqCache \<Rightarrow> u32 \<Rightarrow> 'x reqCache" where
  "SetCurTurn rc consensusTurn =
    (if rc_curTurn rc \<ge> consensusTurn then rc
     else
       (let deleteList = map fst (filter (\<lambda>kv. turn_at rc (snd kv) < consensusTurn) (rc_leaderReqCache rc))
        in rc\<lparr>rc_curTurn := consensusTurn,
              rc_leaderReqCache := foldl (\<lambda>m delKey. map_del delKey m) (rc_leaderReqCache rc) deleteList,
              rc_otherReqCache := filter (\<lambda>i. turn_at rc i \<ge> consensusTurn) (rc_otherReqCache rc)\<rparr>))"

definition GetLeaderReq :: "'x reqCache \<Rightarrow> address \<Rightarrow> u32 \<Rightarrow> req_error + nat" where
  "GetLeaderReq rc leader consensusTurn =
    (if leader = 0 then Inl ParamErr
     else
       (case map_of (rc_leaderReqCache rc) leader of
          None \<Rightarrow> Inl CantFindErr
        | Some req \<Rightarrow>
            if turn_at rc req \<noteq> consensusTurn then Inl (ReqTurnMismatch (turn_at rc req) consensusTurn)
            else Inr req))"

text \<open>The order of ranging over the map of the leaders is the argument \<open>rng\<close>.\<close>

definition GetAllReq :: "((address \<times> nat) list \<Rightarrow> (address \<times> nat) list) \<Rightarrow> 'x reqCache \<Rightarrow> nat list" where
  "GetAllReq rng rc = map snd (rng (rc_leaderReqCache rc)) @ rc_otherReqCache rc"

definition GetLeaderReqByHash ::
  "((address \<times> nat) list \<Rightarrow> (address \<times> nat) list) \<Rightarrow> 'x reqCache \<Rightarrow> hash \<Rightarrow> req_error + nat" where
  "GetLeaderReqByHash rng rc h =
    (if h = 0 then Inl ParamErr
     else
       (case find (\<lambda>i. rd_hash (req_at rc i) = h) (map snd (rng (rc_leaderReqCache rc))) of
          Some req \<Rightarrow> Inr req
        | None \<Rightarrow>
            (case find (\<lambda>i. rd_hash (req_at rc i) = h) (rc_otherReqCache rc) of
               Some req \<Rightarrow> Inr req
             | None \<Rightarrow> Inl CantFindErr)))"

section \<open>The invariant\<close>

lemmas rc_simps = rc_AddReq_def rc_AddLocalReq_def newReqData_def newReqDataByLocalReq_def alloc_req_def Let_def

definition data_ok :: "(rlp_val \<Rightarrow> hash) \<Rightarrow> 'x reqData \<Rightarrow> bool" where
  "data_ok rlpHash rd \<longleftrightarrow> (\<exists>header. bcr_Header (rd_req rd) = Some header \<and> rd_hash rd = HashNoSignsAndNonce rlpHash header)"

text \<open>Pointers are valid, an entry is filed under the leader of its header, the requests of the network are
  not older than the current turn, the list of the others is bounded, and every object has a header and
  its hash.\<close>

definition rc_ok :: "(rlp_val \<Rightarrow> hash) \<Rightarrow> 'x reqCache \<Rightarrow> bool" where
  "rc_ok rlpHash rc \<longleftrightarrow> gomap_ok (rc_leaderReqCache rc) \<and>
    (\<forall>a i. map_of (rc_leaderReqCache rc) a = Some i \<longrightarrow> i < length (rc_heap rc) \<and>
      map_option h_Leader (bcr_Header (rd_req (req_at rc i))) = Some a \<and>
      (\<not> rd_localReq (req_at rc i) \<longrightarrow> rc_curTurn rc \<le> turn_at rc i)) \<and>
    (\<forall>i \<in> set (rc_otherReqCache rc). i < length (rc_heap rc) \<and> rc_curTurn rc \<le> turn_at rc i) \<and>
    0 < rc_otherReqLimit rc \<and> length (rc_otherReqCache rc) \<le> rc_otherReqLimit rc \<and>
    (\<forall>rd \<in> set (rc_heap rc). data_ok rlpHash rd)"

lemma newReqCache_ok [simp]: "rc_ok r newReqCache"
  by (simp add: rc_ok_def newReqCache_def otherReqCountMax_def)

lemma put_leader_ok:
  assumes "rc_ok r rc" "data_ok r rd" "map_option h_Leader (bcr_Header (rd_req rd)) = Some a"
    and "\<not> rd_localReq rd \<longrightarrow> rc_curTurn rc \<le> bcr_ConsensusTurn (rd_req rd)"
  shows "rc_ok r (rc\<lparr>rc_heap := rc_heap rc @ [rd],
    rc_leaderReqCache := map_put a (length (rc_heap rc)) (rc_leaderReqCache rc)\<rparr>)"
  using assms by (auto simp: rc_ok_def nth_append less_Suc_eq)

lemma put_other_ok:
  assumes "rc_ok r rc" "data_ok r rd" "rc_curTurn rc \<le> bcr_ConsensusTurn (rd_req rd)"
    and "length (rc_otherReqCache rc) - k < rc_otherReqLimit rc"
  shows "rc_ok r (rc\<lparr>rc_heap := rc_heap rc @ [rd],
    rc_otherReqCache := drop k (rc_otherReqCache rc) @ [length (rc_heap rc)]\<rparr>)"
  using assms by (auto simp: rc_ok_def nth_append less_Suc_eq dest: in_set_dropD)

lemma rc_AddReq_ok:
  assumes "rc_ok r rc" "rc_AddReq r rc msg = Some (rc', err)"
  shows "rc_ok r rc'"
proof (cases msg)
  case None
  then show ?thesis using assms by (simp add: rc_AddReq_def)
next
  case (Some req)
  show ?thesis
  proof (cases "bcr_ConsensusTurn req < rc_curTurn rc")
    case True
    then show ?thesis using assms Some by (simp add: rc_AddReq_def)
  next
    case False
    then obtain header where h: "bcr_Header req = Some header"
      using assms(2) Some by (auto simp: rc_AddReq_def split: option.splits)
    let ?rd = "\<lparr>rd_req = req, rd_hash = HashNoSignsAndNonce r header, rd_txs = None, rd_receipts = None,
      rd_stateDB = None, rd_localReq = False, rd_localVerifyResult = LocalVerifyProcessing\<rparr>"
    have rd: "data_ok r ?rd" using h by (simp add: data_ok_def)
    have lim: "0 < rc_otherReqLimit rc" "length (rc_otherReqCache rc) \<le> rc_otherReqLimit rc"
      using assms(1) by (simp_all add: rc_ok_def)
    have o: "rc_ok r (rc\<lparr>rc_heap := rc_heap rc @ [?rd],
        rc_otherReqCache := drop k (rc_otherReqCache rc) @ [length (rc_heap rc)]\<rparr>)"
      if "length (rc_otherReqCache rc) - k < rc_otherReqLimit rc" for k
      using put_other_ok [OF assms(1) rd _ that] False by (simp add: not_less)
    show ?thesis using assms Some False h put_leader_ok [OF assms(1) rd, of "bcr_From req"] o [of 0] o [of 1] lim
      by (auto simp: rc_simps not_less split: if_splits)
  qed
qed

lemma rc_AddLocalReq_ok:
  assumes "rc_ok r rc" "rc_AddLocalReq r rc msg = Some (rc', err)"
  shows "rc_ok r rc'"
proof (cases msg)
  case None
  then show ?thesis using assms by (simp add: rc_AddLocalReq_def)
next
  case (Some req)
  then obtain header where h: "bcr_Header (lr_BlkVerifyConsensusReq req) = Some header"
    using assms(2) by (auto simp: rc_AddLocalReq_def split: option.splits)
  show ?thesis using assms Some h put_leader_ok [OF assms(1), of _ "h_Leader header"]
    by (auto simp: rc_simps data_ok_def)
qed

lemma SetCurTurn_leader:
  assumes "gomap_ok (rc_leaderReqCache rc)" "\<not> rc_curTurn rc \<ge> t"
  shows "gomap_ok (rc_leaderReqCache (SetCurTurn rc t))"
    "map_of (rc_leaderReqCache (SetCurTurn rc t)) a = (case map_of (rc_leaderReqCache rc) a of
       None \<Rightarrow> None | Some i \<Rightarrow> if turn_at rc i < t then None else Some i)"
proof -
  have eq: "rc_leaderReqCache (SetCurTurn rc t) = filter (\<lambda>kv. \<not> turn_at rc (snd kv) < t) (rc_leaderReqCache rc)"
    using assms unfolding SetCurTurn_def foldl_map_del
    by (auto simp: Let_def gomap_ok_map_of intro!: filter_cong)
  then show "gomap_ok (rc_leaderReqCache (SetCurTurn rc t))" using assms(1) by simp
  show "map_of (rc_leaderReqCache (SetCurTurn rc t)) a = (case map_of (rc_leaderReqCache rc) a of
       None \<Rightarrow> None | Some i \<Rightarrow> if turn_at rc i < t then None else Some i)"
    unfolding eq using assms(1) by (simp add: map_of_filter_key split: option.splits)
qed

lemma SetCurTurn_fields [simp]:
  "rc_heap (SetCurTurn rc t) = rc_heap rc" "rc_otherReqLimit (SetCurTurn rc t) = rc_otherReqLimit rc"
  "rc_curTurn (SetCurTurn rc t) = max (rc_curTurn rc) t"
  by (simp_all add: SetCurTurn_def Let_def max_def) (auto simp: not_le)

lemma SetCurTurn_ok:
  assumes "rc_ok r rc"
  shows "rc_ok r (SetCurTurn rc t)"
proof (cases "rc_curTurn rc \<ge> t")
  case True
  then show ?thesis using assms by (simp add: SetCurTurn_def)
next
  case False
  have g: "gomap_ok (rc_leaderReqCache rc)" using assms by (simp add: rc_ok_def)
  have m: "max (rc_curTurn rc) t = t" using False by (meson linear max_absorb2)
  have "rc_otherReqCache (SetCurTurn rc t) = filter (\<lambda>i. turn_at rc i \<ge> t) (rc_otherReqCache rc)"
    using False by (simp add: SetCurTurn_def Let_def)
  moreover have "length (filter P (rc_otherReqCache rc)) \<le> rc_otherReqLimit rc" for P
    using assms length_filter_le [of P "rc_otherReqCache rc"] unfolding rc_ok_def by linarith
  ultimately show ?thesis
    using assms SetCurTurn_leader [OF g False] by (auto simp: rc_ok_def m not_less split: option.splits if_splits)
qed

section \<open>One request per leader and turn\<close>

text \<open>Sequences of requests from the network and of turn changes.\<close>

datatype req_op = OpAdd "HD_BlkConsensusReqMsg option" | OpTurn u32

fun run_reqs :: "(rlp_val \<Rightarrow> hash) \<Rightarrow> 'x reqCache \<Rightarrow> req_op list \<Rightarrow> 'x reqCache option" where
  "run_reqs r rc [] = Some rc"
| "run_reqs r rc (OpAdd msg # ops) =
    (case rc_AddReq r rc msg of None \<Rightarrow> None | Some (rc', err) \<Rightarrow> run_reqs r rc' ops)"
| "run_reqs r rc (OpTurn t # ops) = run_reqs r (SetCurTurn rc t) ops"

text \<open>The request \<open>i\<close> is the one held for the leader and the turn, or the turn is over for this leader.\<close>

definition turn_over :: "address \<Rightarrow> u32 \<Rightarrow> 'x reqCache \<Rightarrow> bool" where
  "turn_over a t rc \<longleftrightarrow> t < rc_curTurn rc \<or> (\<exists>j. map_of (rc_leaderReqCache rc) a = Some j \<and> t < turn_at rc j)"

definition held_or_over :: "address \<Rightarrow> u32 \<Rightarrow> nat \<Rightarrow> 'x reqData \<Rightarrow> 'x reqCache \<Rightarrow> bool" where
  "held_or_over a t i rd rc \<longleftrightarrow> i < length (rc_heap rc) \<and> req_at rc i = rd \<and> bcr_ConsensusTurn (rd_req rd) = t \<and>
    (map_of (rc_leaderReqCache rc) a = Some i \<or> turn_over a t rc)"

definition no_local :: "'x reqCache \<Rightarrow> bool" where
  "no_local rc \<longleftrightarrow> (\<forall>rd \<in> set (rc_heap rc). \<not> rd_localReq rd)"

text \<open>What adding a request can do to the entry of a leader.\<close>

lemma rc_AddReq_effect:
  assumes "rc_AddReq r rc msg = Some (rc', err)"
  shows "rc' = rc \<or> (\<exists>rd. rc_heap rc' = rc_heap rc @ [rd] \<and> rc_curTurn rc' = rc_curTurn rc \<and> \<not> rd_localReq rd \<and>
    (\<forall>a. map_of (rc_leaderReqCache rc') a = map_of (rc_leaderReqCache rc) a \<or>
      map_of (rc_leaderReqCache rc') a = Some (length (rc_heap rc)) \<and> rc_curTurn rc \<le> bcr_ConsensusTurn (rd_req rd) \<and>
      (\<forall>j. map_of (rc_leaderReqCache rc) a = Some j \<longrightarrow> turn_at rc j < bcr_ConsensusTurn (rd_req rd))))"
proof (cases "rc' = rc")
  case False
  then obtain req header where "msg = Some req" "bcr_Header req = Some header" "\<not> bcr_ConsensusTurn req < rc_curTurn rc"
    using assms by (auto simp: rc_AddReq_def split: option.splits if_splits)
  then show ?thesis using assms False
    by (cases "map_of (rc_leaderReqCache rc) (bcr_From req)") (auto simp: rc_simps not_less not_le split: if_splits)
qed simp

lemma held_or_over_add:
  assumes "held_or_over a t i rd rc" "rc_ok r rc" "rc_AddReq r rc msg = Some (rc', err)"
  shows "held_or_over a t i rd rc'"
proof (cases "rc' = rc")
  case False
  then obtain rd' where rd': "rc_heap rc' = rc_heap rc @ [rd']" "rc_curTurn rc' = rc_curTurn rc"
    "map_of (rc_leaderReqCache rc') a = map_of (rc_leaderReqCache rc) a \<or>
      map_of (rc_leaderReqCache rc') a = Some (length (rc_heap rc)) \<and>
      (\<forall>j. map_of (rc_leaderReqCache rc) a = Some j \<longrightarrow> turn_at rc j < bcr_ConsensusTurn (rd_req rd'))"
    using rc_AddReq_effect [OF assms(3)] by blast
  have in_heap: "j < length (rc_heap rc)" if "map_of (rc_leaderReqCache rc) a = Some j" for j
    using that assms(2) by (simp add: rc_ok_def)
  show ?thesis using assms(1) rd' in_heap
    by (auto simp: held_or_over_def turn_over_def nth_append intro: less_trans)
qed (use assms in simp)

lemma held_or_over_turn:
  assumes "held_or_over a t i rd rc" "rc_ok r rc"
  shows "held_or_over a t i rd (SetCurTurn rc c)"
proof (cases "rc_curTurn rc \<ge> c")
  case True
  then show ?thesis using assms by (simp add: SetCurTurn_def)
next
  case False
  have g: "gomap_ok (rc_leaderReqCache rc)" using assms(2) by (simp add: rc_ok_def)
  show ?thesis using assms(1) SetCurTurn_leader(2) [OF g False, of a] False
    by (auto simp: held_or_over_def turn_over_def max_def not_less not_le split: option.splits intro: less_trans less_le_trans)
qed

lemma no_local_run:
  assumes "no_local rc" "rc_ok r rc" "run_reqs r rc ops = Some rc'"
  shows "no_local rc' \<and> rc_ok r rc'"
  using assms
proof (induction r rc ops rule: run_reqs.induct)
  case (2 r rc msg ops)
  then obtain rc1 err where s: "rc_AddReq r rc msg = Some (rc1, err)" "run_reqs r rc1 ops = Some rc'"
    by (auto split: option.splits)
  then show ?case using 2(1) [OF s(1) refl] 2(2,3) rc_AddReq_ok [OF 2(3) s(1)] rc_AddReq_effect [OF s(1)]
    by (auto simp: no_local_def)
next
  case (3 r rc t ops)
  then show ?case using SetCurTurn_ok [OF 3(3)] by (simp add: no_local_def)
qed simp

lemma held_or_over_run:
  assumes "held_or_over a t i rd rc" "rc_ok r rc" "run_reqs r rc ops = Some rc'"
  shows "held_or_over a t i rd rc'"
  using assms
proof (induction r rc ops rule: run_reqs.induct)
  case (2 r rc msg ops)
  then obtain rc1 err where s: "rc_AddReq r rc msg = Some (rc1, err)" "run_reqs r rc1 ops = Some rc'"
    by (auto split: option.splits)
  then show ?case using 2(1) [OF s(1) refl] held_or_over_add [OF 2(2,3) s(1)] rc_AddReq_ok [OF 2(3) s(1)] by simp
next
  case (3 r rc t ops)
  then show ?case using held_or_over_turn [OF 3(2,3)] SetCurTurn_ok [OF 3(3)] by simp
qed simp

lemma GetLeaderReq_iff:
  "GetLeaderReq rc a t = Inr i \<longleftrightarrow> a \<noteq> 0 \<and> map_of (rc_leaderReqCache rc) a = Some i \<and> turn_at rc i = t"
  by (auto simp: GetLeaderReq_def split: option.splits)

text \<open>C26: For every leader and consensus turn a verifier works on one request only. Whatever requests and
  turn changes arrive, in whatever order, all the requests of the network that \<open>GetLeaderReq\<close> ever returns
  for a leader and a turn are the same object with the same content; a leader that sends two blocks in
  one turn has the second one refused.\<close>

theorem one_request_per_turn:
  assumes "run_reqs r newReqCache ops = Some rc" "GetLeaderReq rc a t = Inr i"
    and "run_reqs r rc ops' = Some rc'" "GetLeaderReq rc' a t = Inr j"
  shows "j = i \<and> req_at rc' j = req_at rc i"
proof -
  have rc: "no_local rc" "rc_ok r rc"
    using no_local_run [OF _ newReqCache_ok assms(1)] by (simp_all add: no_local_def newReqCache_def)
  have rc': "no_local rc'" "rc_ok r rc'" using no_local_run [OF rc assms(3)] by simp_all
  have "held_or_over a t i (req_at rc i) rc"
    using assms(2) rc(2) by (auto simp: GetLeaderReq_iff held_or_over_def rc_ok_def)
  from held_or_over_run [OF this rc(2) assms(3)]
  have h: "held_or_over a t i (req_at rc i) rc'" .
  have j: "map_of (rc_leaderReqCache rc') a = Some j" "turn_at rc' j = t" using assms(4) by (simp_all add: GetLeaderReq_iff)
  have "j < length (rc_heap rc')" using j(1) rc'(2) by (auto simp: rc_ok_def)
  then have "\<not> rd_localReq (req_at rc' j)" using rc'(1) by (simp add: no_local_def)
  then have "rc_curTurn rc' \<le> turn_at rc' j" using j(1) rc'(2) by (auto simp: rc_ok_def)
  then have "\<not> turn_over a t rc'" using j by (auto simp: turn_over_def)
  then show ?thesis using h j(1) by (simp add: held_or_over_def)
qed

text \<open>A local request replaces the request of its leader whatever turns the two are of: after a local
  request of an earlier turn the request that was held for the later turn cannot be found.\<close>

theorem local_request_replaces_newer:
  assumes "rc_ok r rc" "GetLeaderReq rc a t = Inr i"
    and "bcr_Header (lr_BlkVerifyConsensusReq l) = Some header" "h_Leader header = a"
    and "bcr_ConsensusTurn (lr_BlkVerifyConsensusReq l) < t"
  shows "\<exists>rc'. rc_AddLocalReq r rc (Some l) = Some (rc', None) \<and>
    GetLeaderReq rc' a t = Inl (ReqTurnMismatch (bcr_ConsensusTurn (lr_BlkVerifyConsensusReq l)) t)"
  using assms by (auto simp: rc_simps GetLeaderReq_def GetLeaderReq_iff split: option.splits)

section \<open>Witnesses\<close>

definition demo_req :: "address \<Rightarrow> address \<Rightarrow> u32 \<Rightarrow> HD_BlkConsensusReqMsg" where
  "demo_req from leader turn = \<lparr>bcr_From = from, bcr_Header = Some (zero_header\<lparr>h_Leader := leader\<rparr>),
    bcr_ConsensusTurn = turn, bcr_TxsCode = []\<rparr>"

theorem one_request_per_turn_witness:
  "\<exists>rc rc' :: nat reqCache. run_reqs (\<lambda>_. 7) newReqCache [OpAdd (Some (demo_req 3 3 1))] = Some rc \<and>
    run_reqs (\<lambda>_. 7) rc [OpAdd (Some (demo_req 3 3 1)), OpTurn 1] = Some rc' \<and> GetLeaderReq rc' 3 1 = Inr 0 \<and>
    req_at rc' 0 = req_at rc 0"
proof -
  let ?r = "\<lambda>_ :: rlp_val. 7 :: hash"
  obtain rc :: "nat reqCache" where rc: "run_reqs ?r newReqCache [OpAdd (Some (demo_req 3 3 1))] = Some rc"
    by (simp add: rc_simps newReqCache_def demo_req_def)
  obtain rc' where rc': "run_reqs ?r rc [OpAdd (Some (demo_req 3 3 1)), OpTurn 1] = Some rc'"
    using rc by (auto simp: rc_simps newReqCache_def demo_req_def)
  have g: "GetLeaderReq rc 3 1 = Inr 0" "GetLeaderReq rc' 3 1 = Inr 0"
    using rc rc' by (auto simp: rc_simps newReqCache_def demo_req_def GetLeaderReq_def SetCurTurn_def)
  show ?thesis using one_request_per_turn [OF rc g(1) rc' g(2)] rc rc' g(2) by blast
qed

theorem local_request_replaces_newer_witness:
  "\<exists>rc rc' :: nat reqCache. run_reqs (\<lambda>_. 7) newReqCache [OpAdd (Some (demo_req 3 3 2))] = Some rc \<and>
    rc_AddLocalReq (\<lambda>_. 7) rc (Some \<lparr>lr_BlkVerifyConsensusReq = demo_req 3 3 1, lr_Txs = None, lr_Receipts = None, lr_State = None\<rparr>) =
      Some (rc', None) \<and> GetLeaderReq rc' 3 2 = Inl (ReqTurnMismatch 1 2)"
proof -
  let ?r = "\<lambda>_ :: rlp_val. 7 :: hash"
  obtain rc :: "nat reqCache" where rc: "run_reqs ?r newReqCache [OpAdd (Some (demo_req 3 3 2))] = Some rc"
    by (simp add: rc_simps newReqCache_def demo_req_def)
  have ok: "rc_ok ?r rc" using no_local_run [OF _ newReqCache_ok rc] by (simp add: no_local_def newReqCache_def)
  have g: "GetLeaderReq rc 3 2 = Inr 0" using rc by (auto simp: rc_simps newReqCache_def demo_req_def GetLeaderReq_def)
  show ?thesis using rc local_request_replaces_newer [OF ok g, of "\<lparr>lr_BlkVerifyConsensusReq = demo_req 3 3 1, lr_Txs = None,
    lr_Receipts = None, lr_State = None\<rparr>"] by (auto simp: demo_req_def)
qed

end
