(* ===== verification/Blk_Process.thy ===== *)
theory Blk_Process
  imports Blk_Checks Req_Cache Vote_Pool
begin

text \<open>
  The verification of the blocks proposed for one number, \<open>blkconsensus/blkverify/verify_process.go\<close>,
  \<open>broadcast_process.go\<close> and \<open>msg_resend_process.go\<close>.

  A process works on the vote pool that all processes share, so a function takes and returns the pair of
  the pool and the process; \<^const>\<open>None\<close> is a panic. What is published, and the transactions that are asked
  for, are appended to the field \<open>p_out\<close>; a resending message sender is the message it sends. The parts of
  the node that stay the same are the record \<open>verify_env\<close>; what the chain and the services answer in a
  call is the record \<open>verify_view\<close>. The clock of the vote pool is the argument \<open>now\<close>.
\<close>

section \<open>Environment and state\<close>

record verify_env =
  ve_crypto :: crypto_env
  ve_rlpHash :: "rlp_val \<Rightarrow> hash"
  ve_order :: dpos_order
  ve_voteRange :: "(hash \<times> voteInfo) list \<Rightarrow> (hash \<times> voteInfo) list"
  ve_poolRange :: "(address \<times> (hash, voteInfo) gomap) list \<Rightarrow> (address \<times> (hash, voteInfo) gomap) list"
  ve_reqRange :: "(address \<times> nat) list \<Rightarrow> (address \<times> nat) list"
  ve_BroadCastNodes :: "address list"
  ve_signHelper :: SignHelper
  ve_NewResendMsgCtrl :: "nat \<Rightarrow> nat \<Rightarrow> bool"

text \<open>Running the transactions of a block on a copy of its header: the work cannot be made, the
  transactions or the finalization fail, or the header is filled in and receipts and state result.\<close>

datatype 'x exec_result = ExecNoWork | ExecFailed | ExecDone Header 'x 'x

record 'x verify_view =
  vw_reader :: ValidatorReader
  vw_VerifyHeader :: "Header \<Rightarrow> bool"
  vw_check :: check_view
  vw_Execute :: "Header \<Rightarrow> 'x \<Rightarrow> 'x exec_result"

datatype proc_state = StateIdle | StateStart | StateReqVerify | StateTxsVerify | StateDPOSVerify | StateEnd

fun state_code :: "proc_state \<Rightarrow> nat" where
  "state_code StateIdle = 0"
| "state_code StateStart = 1"
| "state_code StateReqVerify = 2"
| "state_code StateTxsVerify = 3"
| "state_code StateDPOSVerify = 4"
| "state_code StateEnd = 5"

datatype 'x blk_out =
    PubVerifyConsensusOK Header hash "'x option" "'x option" "'x option"
  | PubPOSFinished BlockPOSFinishedNotify
  | AskTxs "u32 list" int address

record 'x Process =
  p_leaderCache :: LeaderChangeNotify
  p_number :: u64
  p_role :: role_type
  p_state :: proc_state
  p_curProcessReq :: "nat option"
  p_reqCache :: "'x reqCache"
  p_txsAcquireSeq :: int
  p_voteMsgSender :: "HD_ConsensusVote option"
  p_mineReqMsgSender :: "Header option"
  p_posedReqSender :: "HD_BlkConsensusReqMsg option"
  p_out :: "'x blk_out list"

type_synonym 'x pstate = "VotePool \<times> 'x Process"

definition newProcess :: "u64 \<Rightarrow> 'x Process" where
  "newProcess number = \<lparr>p_leaderCache = \<lparr>lcn_ConsensusState = False, lcn_Leader = 0, lcn_NextLeader = 0, lcn_Number = number,
      lcn_ConsensusTurn = 0, lcn_ReelectTurn = 0, lcn_TurnBeginTime = 0, lcn_TurnEndTime = 0\<rparr>,
    p_number = number, p_role = RoleNil, p_state = StateIdle, p_curProcessReq = None, p_reqCache = newReqCache,
    p_txsAcquireSeq = 0, p_voteMsgSender = None, p_mineReqMsgSender = None, p_posedReqSender = None, p_out = []\<rparr>"

definition checkState :: "proc_state \<Rightarrow> 'x Process \<Rightarrow> bool" where
  "checkState state p \<longleftrightarrow> p_state p = state"

definition changeState :: "proc_state \<Rightarrow> 'x Process \<Rightarrow> 'x Process" where
  "changeState targetState p =
    (if state_code (p_state p) + 1 = state_code targetState then p\<lparr>p_state := targetState\<rparr> else p)"

definition publish :: "'x blk_out \<Rightarrow> 'x Process \<Rightarrow> 'x Process" where
  "publish m p = p\<lparr>p_out := p_out p @ [m]\<rparr>"

text \<open>The object the process points to, \<^const>\<open>None\<close> for the nil pointer. A request that was stored has a
  header, because its hash was taken when it was stored.\<close>

definition cur_req :: "'x Process \<Rightarrow> 'x reqData option" where
  "cur_req p = map_option (\<lambda>i. req_at (p_reqCache p) i) (p_curProcessReq p)"

definition set_req :: "nat \<Rightarrow> ('x reqData \<Rightarrow> 'x reqData) \<Rightarrow> 'x Process \<Rightarrow> 'x Process" where
  "set_req i f p = p\<lparr>p_reqCache := (p_reqCache p)\<lparr>rc_heap := (rc_heap (p_reqCache p))[i := f (req_at (p_reqCache p) i)]\<rparr>\<rparr>"

definition set_cur :: "('x reqData \<Rightarrow> 'x reqData) \<Rightarrow> 'x Process \<Rightarrow> 'x Process" where
  "set_cur f p = (case p_curProcessReq p of None \<Rightarrow> p | Some i \<Rightarrow> set_req i f p)"

abbreviation rd_header :: "'x reqData \<Rightarrow> Header" where
  "rd_header rd \<equiv> the (bcr_Header (rd_req rd))"

section \<open>blkconsensus/blkverify/msg_resend_process.go\<close>

definition MinerReqSendInterval :: nat where "MinerReqSendInterval = 3"
definition PosedReqSendInterval :: nat where "PosedReqSendInterval = 10"
definition BlkVoteSendInterval :: nat where "BlkVoteSendInterval = 3"
definition BlkVoteSendTimes :: nat where "BlkVoteSendTimes = 8"

definition closeMineReqMsgSender :: "'x Process \<Rightarrow> 'x Process" where
  "closeMineReqMsgSender p = p\<lparr>p_mineReqMsgSender := None\<rparr>"

definition closePosedReqSender :: "'x Process \<Rightarrow> 'x Process" where
  "closePosedReqSender p = p\<lparr>p_posedReqSender := None\<rparr>"

definition closeVoteMsgSender :: "'x Process \<Rightarrow> 'x Process" where
  "closeVoteMsgSender p = p\<lparr>p_voteMsgSender := None\<rparr>"

definition stopSender :: "'x Process \<Rightarrow> 'x Process" where
  "stopSender p = closeVoteMsgSender (closePosedReqSender (closeMineReqMsgSender p))"

definition startSendMineReq :: "verify_env \<Rightarrow> Header \<Rightarrow> 'x Process \<Rightarrow> 'x Process" where
  "startSendMineReq e req p =
    (let p = closeMineReqMsgSender p
     in if ve_NewResendMsgCtrl e MinerReqSendInterval 0 then p\<lparr>p_mineReqMsgSender := Some req\<rparr> else p)"

definition startPosedReqSender :: "verify_env \<Rightarrow> HD_BlkConsensusReqMsg \<Rightarrow> 'x Process \<Rightarrow> 'x Process" where
  "startPosedReqSender e req p =
    (let p = closePosedReqSender p
     in if ve_NewResendMsgCtrl e PosedReqSendInterval 0 then p\<lparr>p_posedReqSender := Some req\<rparr> else p)"

definition startVoteMsgSender :: "verify_env \<Rightarrow> HD_ConsensusVote \<Rightarrow> 'x Process \<Rightarrow> 'x Process" where
  "startVoteMsgSender e vote p =
    (let p = closeVoteMsgSender p
     in if ve_NewResendMsgCtrl e BlkVoteSendInterval BlkVoteSendTimes then p\<lparr>p_voteMsgSender := Some vote\<rparr> else p)"

section \<open>Votes and DPOS (verify_process.go)\<close>

definition pool_add :: "verify_env \<Rightarrow> int \<Rightarrow> VotePool \<Rightarrow> hash \<Rightarrow> signature \<Rightarrow> address \<Rightarrow> bool \<Rightarrow>
    (VotePool \<times> vote_error option) option" where
  "pool_add e now vp h sign from verifyFrom =
    (case AddVote (ve_crypto e) (ve_voteRange e) now vp h sign from verifyFrom of
       None \<Rightarrow> None
     | Some (vp, err) \<Rightarrow> if err = Some VotePanic then None else Some (vp, err))"

definition finishedProcess :: "verify_env \<Rightarrow> 'x reqData \<Rightarrow> 'x pstate \<Rightarrow> 'x pstate" where
  "finishedProcess e req s =
    (case s of (vp, p) \<Rightarrow>
       if rd_localVerifyResult req = LocalVerifyProcessing then (vp, p)
       else if rd_localVerifyResult req = LocalVerifyStateFailed then (vp, p)
       else
         (let p = (if rd_localVerifyResult req = LocalVerifySuccess
                   then publish (PubPOSFinished \<lparr>pfn_Number = p_number p, pfn_Header = bcr_Header (rd_req req),
                          pfn_ConsensusTurn = bcr_ConsensusTurn (rd_req req), pfn_TxsCode = bcr_TxsCode (rd_req req)\<rparr>) p
                   else p);
              p = startSendMineReq e (rd_header req) p;
              p = startPosedReqSender e (rd_req req) p
          in (DelVotes vp (rd_hash req), p\<lparr>p_state := StateEnd\<rparr>)))"

definition set_signatures :: "signature list \<Rightarrow> 'x reqData \<Rightarrow> 'x reqData" where
  "set_signatures signs rd = rd\<lparr>rd_req := (rd_req rd)\<lparr>bcr_Header :=
    map_option (\<lambda>h. h\<lparr>h_Signatures := signs\<rparr>) (bcr_Header (rd_req rd))\<rparr>\<rparr>"

definition processDPOSOnce :: "verify_env \<Rightarrow> 'x verify_view \<Rightarrow> 'x pstate \<Rightarrow> 'x pstate option" where
  "processDPOSOnce e w s =
    (case s of (vp, p) \<Rightarrow>
       if \<not> checkState StateDPOSVerify p then Some (vp, p)
       else
         (case cur_req p of
            None \<Rightarrow> None
          | Some req \<Rightarrow>
              (case VerifyHashWithVerifiedSignsAndNumber (ve_order e) (vw_reader w)
                      (GetVotes (ve_poolRange e) vp (rd_hash req)) (p_number p) of
                 Inl err \<Rightarrow> Some (vp, p)
               | Inr rightSigns \<Rightarrow>
                   Some (finishedProcess e (set_signatures rightSigns req) (vp, set_cur (set_signatures rightSigns) p)))))"

definition sendVote :: "verify_env \<Rightarrow> int \<Rightarrow> bool \<Rightarrow> 'x pstate \<Rightarrow> 'x pstate option" where
  "sendVote e now validate s =
    (case s of (vp, p) \<Rightarrow>
       (case cur_req p of
          None \<Rightarrow> None
        | Some req \<Rightarrow>
            (case SignHashWithValidate (ve_signHelper e) (rd_hash req) validate of
               None \<Rightarrow> None
             | Some None \<Rightarrow> Some (vp, p)
             | Some (Some sign) \<Rightarrow>
                 (let p = startVoteMsgSender e \<lparr>cv_SignHash = rd_hash req, cv_Round = p_number p, cv_Sign = sign, cv_From = 0\<rparr> p
                  in case pool_add e now vp (rd_hash req) sign 0 False of
                       None \<Rightarrow> None
                     | Some (vp, _) \<Rightarrow>
                         Some (vp, publish (PubVerifyConsensusOK (rd_header req) (rd_hash req) (rd_txs req) (rd_receipts req)
                           (rd_stateDB req)) p)))))"

definition bcFinishedProcess :: "lv_result \<Rightarrow> 'x Process \<Rightarrow> 'x Process option" where
  "bcFinishedProcess lvResult p =
    (let p = set_cur (\<lambda>rd. rd\<lparr>rd_localVerifyResult := lvResult\<rparr>) p
     in case cur_req p of
          None \<Rightarrow> None
        | Some req \<Rightarrow>
            if lvResult = LocalVerifyProcessing then Some p
            else if lvResult = LocalVerifyStateFailed then Some p
            else
              (let p = (if lvResult = LocalVerifySuccess
                        then publish (PubVerifyConsensusOK (rd_header req) (rd_hash req) (rd_txs req) (rd_receipts req)
                               (rd_stateDB req)) p
                        else p)
               in Some (p\<lparr>p_state := StateEnd\<rparr>)))"

definition startDPOSVerify ::
  "verify_env \<Rightarrow> 'x verify_view \<Rightarrow> int \<Rightarrow> lv_result \<Rightarrow> 'x pstate \<Rightarrow> 'x pstate option" where
  "startDPOSVerify e w now lvResult s =
    (case s of (vp, p) \<Rightarrow>
       if state_code (p_state p) \<ge> state_code StateDPOSVerify then Some (vp, p)
       else if p_role p = RoleBroadcast then map_option (\<lambda>p. (vp, p)) (bcFinishedProcess lvResult p)
       else
         (case (if lvResult = LocalVerifySuccess then sendVote e now True (vp, p) else Some (vp, p)) of
            None \<Rightarrow> None
          | Some (vp, p) \<Rightarrow>
              (case p_curProcessReq p of
                 None \<Rightarrow> None
               | Some _ \<Rightarrow>
                   processDPOSOnce e w (vp, (set_cur (\<lambda>rd. rd\<lparr>rd_localVerifyResult := lvResult\<rparr>) p)
                     \<lparr>p_state := StateDPOSVerify\<rparr>))))"

section \<open>Requests and transactions (verify_process.go, broadcast_process.go)\<close>

definition startTxsVerify :: "'x Process \<Rightarrow> 'x Process option" where
  "startTxsVerify p =
    (if \<not> checkState StateReqVerify p then Some p
     else
       (let p = changeState StateTxsVerify p;
            p = p\<lparr>p_txsAcquireSeq := p_txsAcquireSeq p + 1\<rparr>
        in case cur_req p of
             None \<Rightarrow> None
           | Some req \<Rightarrow>
               Some (publish (AskTxs (bcr_TxsCode (rd_req req)) (p_txsAcquireSeq p) (h_Leader (rd_header req))) p)))"

definition bcProcessReqVerify :: "'x verify_view \<Rightarrow> 'x Process \<Rightarrow> 'x Process option" where
  "bcProcessReqVerify w p =
    (if \<not> checkState StateReqVerify p then Some p
     else
       (case cur_req p of
          None \<Rightarrow> None
        | Some req \<Rightarrow>
            if \<not> vw_VerifyHeader w (rd_header req) then bcFinishedProcess LocalVerifyStateFailed p
            else startTxsVerify p))"

fun bc_req_loop :: "verify_env \<Rightarrow> 'x verify_view \<Rightarrow> nat list \<Rightarrow> 'x Process \<Rightarrow> 'x Process option" where
  "bc_req_loop e w [] p = Some p"
| "bc_req_loop e w (i # reqList) p =
    (let req = req_at (p_reqCache p) i
     in if rd_localVerifyResult req \<noteq> LocalVerifyProcessing then bc_req_loop e w reqList p
        else
          (case VerifyBlock (ve_order e) (ve_crypto e) (ve_rlpHash e) (ve_BroadCastNodes e) (vw_reader w) (rd_header req) of
             Some err \<Rightarrow>
               if err = DposPanic then None
               else bc_req_loop e w reqList (set_req i (\<lambda>rd. rd\<lparr>rd_localVerifyResult := LocalVerifyStateFailed\<rparr>) p)
           | None \<Rightarrow> bcProcessReqVerify w (p\<lparr>p_curProcessReq := Some i, p_state := StateReqVerify\<rparr>)))"

definition startReqVerifyBC :: "verify_env \<Rightarrow> 'x verify_view \<Rightarrow> 'x Process \<Rightarrow> 'x Process option" where
  "startReqVerifyBC e w p =
    (if \<not> checkState StateStart p \<and> \<not> checkState StateEnd p then Some p
     else bc_req_loop e w (GetAllReq (ve_reqRange e) (p_reqCache p)) p)"

definition processReqOnce :: "verify_env \<Rightarrow> 'x verify_view \<Rightarrow> int \<Rightarrow> 'x pstate \<Rightarrow> 'x pstate option" where
  "processReqOnce e w now s =
    (case s of (vp, p) \<Rightarrow>
       if \<not> checkState StateReqVerify p then Some (vp, p)
       else
         (case cur_req p of
            None \<Rightarrow> None
          | Some req \<Rightarrow>
              (let header = rd_header req; headerTime = i64 (int (h_Time header))
               in if rd_localReq req then startDPOSVerify e w now LocalVerifySuccess (vp, p)
                  else if headerTime < lcn_TurnBeginTime (p_leaderCache p) \<or> headerTime > lcn_TurnEndTime (p_leaderCache p)
                  then startDPOSVerify e w now LocalVerifyStateFailed (vp, p)
                  else if \<not> vw_VerifyHeader w header then startDPOSVerify e w now LocalVerifyStateFailed (vp, p)
                  else if verifyElection (ve_rlpHash e) (vw_check w) (p_number p) header \<noteq> None
                  then startDPOSVerify e w now LocalVerifyStateFailed (vp, p)
                  else if verifyNetTopology (ve_rlpHash e) (vw_check w) (p_number p) header \<noteq> None
                  then startDPOSVerify e w now LocalVerifyFailedButCanRecover (vp, p)
                  else map_option (\<lambda>p. (vp, p)) (startTxsVerify p))))"

definition startReqVerifyCommon :: "verify_env \<Rightarrow> 'x verify_view \<Rightarrow> int \<Rightarrow> 'x pstate \<Rightarrow> 'x pstate option" where
  "startReqVerifyCommon e w now s =
    (case s of (vp, p) \<Rightarrow>
       if \<not> checkState StateStart p then Some (vp, p)
       else if \<not> lcn_ConsensusState (p_leaderCache p) then Some (vp, p)
       else
         (case GetLeaderReq (p_reqCache p) (lcn_Leader (p_leaderCache p)) (lcn_ConsensusTurn (p_leaderCache p)) of
            Inl err \<Rightarrow> Some (vp, p)
          | Inr req \<Rightarrow> processReqOnce e w now (vp, p\<lparr>p_curProcessReq := Some req, p_state := StateReqVerify\<rparr>)))"

text \<open>The choice made by \<open>StartRunning\<close>, \<open>AddReq\<close> and \<open>AddLocalReq\<close>.\<close>

definition startReqVerify :: "verify_env \<Rightarrow> 'x verify_view \<Rightarrow> int \<Rightarrow> 'x pstate \<Rightarrow> 'x pstate option" where
  "startReqVerify e w now s =
    (case s of (vp, p) \<Rightarrow>
       if p_role p = RoleBroadcast then map_option (\<lambda>p. (vp, p)) (startReqVerifyBC e w p)
       else if p_role p = RoleValidator then startReqVerifyCommon e w now (vp, p)
       else Some (vp, p))"

definition ProcessTxsAcquireTimeOut :: "verify_env \<Rightarrow> 'x verify_view \<Rightarrow> int \<Rightarrow> int \<Rightarrow> 'x pstate \<Rightarrow> 'x pstate option" where
  "ProcessTxsAcquireTimeOut e w now seq s =
    (case s of (vp, p) \<Rightarrow>
       if seq \<noteq> p_txsAcquireSeq p then Some (vp, p)
       else if \<not> checkState StateTxsVerify p then Some (vp, p)
       else startDPOSVerify e w now LocalVerifyFailedButCanRecover (vp, p))"

record 'x RetChan =
  rt_Rxs :: 'x
  rt_Err :: bool
  rt_Resqe :: int

definition VerifyTxs :: "verify_env \<Rightarrow> 'x verify_view \<Rightarrow> int \<Rightarrow> 'x RetChan \<Rightarrow> 'x pstate \<Rightarrow> 'x pstate option" where
  "VerifyTxs e w now result s =
    (case s of (vp, p) \<Rightarrow>
       if \<not> checkState StateTxsVerify p then Some (vp, p)
       else if rt_Resqe result \<noteq> p_txsAcquireSeq p then Some (vp, p)
       else if rt_Err result then startDPOSVerify e w now LocalVerifyFailedButCanRecover (vp, p)
       else
         (case cur_req p of
            None \<Rightarrow> None
          | Some req \<Rightarrow>
              (let p = set_cur (\<lambda>rd. rd\<lparr>rd_txs := Some (rt_Rxs result)\<rparr>) p
               in case vw_Execute w ((rd_header req)\<lparr>h_GasUsed := 0\<rparr>) (rt_Rxs result) of
                    ExecNoWork \<Rightarrow> startDPOSVerify e w now LocalVerifyFailedButCanRecover (vp, p)
                  | ExecFailed \<Rightarrow> startDPOSVerify e w now LocalVerifyStateFailed (vp, p)
                  | ExecDone localHeader receipts st \<Rightarrow>
                      if HashNoSignsAndNonce (ve_rlpHash e) localHeader \<noteq> rd_hash req
                      then startDPOSVerify e w now LocalVerifyStateFailed (vp, p)
                      else startDPOSVerify e w now LocalVerifySuccess
                             (vp, set_cur (\<lambda>rd. rd\<lparr>rd_receipts := Some receipts, rd_stateDB := Some st\<rparr>) p))))"

section \<open>Entry points (verify_process.go)\<close>

definition StartRunning :: "verify_env \<Rightarrow> 'x verify_view \<Rightarrow> int \<Rightarrow> role_type \<Rightarrow> 'x pstate \<Rightarrow> 'x pstate option" where
  "StartRunning e w now role s =
    (case s of (vp, p) \<Rightarrow> startReqVerify e w now (vp, changeState StateStart (p\<lparr>p_role := role\<rparr>)))"

definition p_Close :: "'x Process \<Rightarrow> 'x Process" where
  "p_Close p = stopSender (p\<lparr>p_state := StateIdle, p_curProcessReq := None\<rparr>)"

definition stopProcess :: "'x Process \<Rightarrow> 'x Process" where
  "stopProcess p =
    (let p = closeMineReqMsgSender p;
         p = p\<lparr>p_leaderCache := (p_leaderCache p)\<lparr>lcn_Leader := 0, lcn_NextLeader := 0, lcn_ConsensusTurn := 0,
               lcn_ReelectTurn := 0, lcn_TurnBeginTime := 0, lcn_TurnEndTime := 0\<rparr>, p_curProcessReq := None\<rparr>
     in if state_code (p_state p) > state_code StateIdle then p\<lparr>p_state := StateStart\<rparr> else p)"

definition SetLeaderInfo ::
  "verify_env \<Rightarrow> 'x verify_view \<Rightarrow> int \<Rightarrow> LeaderChangeNotify \<Rightarrow> 'x pstate \<Rightarrow> 'x pstate option" where
  "SetLeaderInfo e w now info s =
    (case s of (vp, p) \<Rightarrow>
       (let p = p\<lparr>p_leaderCache := (p_leaderCache p)\<lparr>lcn_ConsensusState := lcn_ConsensusState info\<rparr>\<rparr>
        in if \<not> lcn_ConsensusState info then Some (vp, stopProcess p)
           else if lcn_Leader (p_leaderCache p) = lcn_Leader info \<and> lcn_ConsensusTurn (p_leaderCache p) = lcn_ConsensusTurn info
           then Some (vp, p)
           else
             (let p = p\<lparr>p_leaderCache := (p_leaderCache p)\<lparr>lcn_Leader := lcn_Leader info, lcn_NextLeader := lcn_NextLeader info,
                        lcn_ConsensusTurn := lcn_ConsensusTurn info, lcn_ReelectTurn := lcn_ReelectTurn info,
                        lcn_TurnBeginTime := lcn_TurnBeginTime info, lcn_TurnEndTime := lcn_TurnEndTime info\<rparr>,
                        p_curProcessReq := None,
                        p_reqCache := SetCurTurn (p_reqCache p) (lcn_ConsensusTurn info)\<rparr>;
                  p = stopSender p
              in if state_code (p_state p) > state_code StateIdle then
                   (let p = p\<lparr>p_state := StateStart\<rparr>
                    in if p_role p = RoleValidator then startReqVerifyCommon e w now (vp, p) else Some (vp, p))
                 else Some (vp, p))))"

definition p_AddReq ::
  "verify_env \<Rightarrow> 'x verify_view \<Rightarrow> int \<Rightarrow> HD_BlkConsensusReqMsg option \<Rightarrow> 'x pstate \<Rightarrow> 'x pstate option" where
  "p_AddReq e w now reqMsg s =
    (case s of (vp, p) \<Rightarrow>
       (case rc_AddReq (ve_rlpHash e) (p_reqCache p) reqMsg of
          None \<Rightarrow> None
        | Some (rc, Some err) \<Rightarrow> if reqMsg = None then None else Some (vp, p\<lparr>p_reqCache := rc\<rparr>)
        | Some (rc, None) \<Rightarrow> startReqVerify e w now (vp, p\<lparr>p_reqCache := rc\<rparr>)))"

definition p_AddLocalReq ::
  "verify_env \<Rightarrow> 'x verify_view \<Rightarrow> int \<Rightarrow> 'x LocalBlockVerifyConsensusReq \<Rightarrow> 'x pstate \<Rightarrow> 'x pstate option" where
  "p_AddLocalReq e w now localReq s =
    (case s of (vp, p) \<Rightarrow>
       (case rc_AddLocalReq (ve_rlpHash e) (p_reqCache p) (Some localReq) of
          None \<Rightarrow> None
        | Some (rc, Some err) \<Rightarrow> Some (vp, p\<lparr>p_reqCache := rc\<rparr>)
        | Some (rc, None) \<Rightarrow> startReqVerify e w now (vp, p\<lparr>p_reqCache := rc\<rparr>)))"

fun add_signs :: "verify_env \<Rightarrow> int \<Rightarrow> hash \<Rightarrow> signature list \<Rightarrow> VotePool \<Rightarrow> VotePool option" where
  "add_signs e now h [] vp = Some vp"
| "add_signs e now h (sign # signs) vp =
    (case pool_add e now vp h sign 0 False of None \<Rightarrow> None | Some (vp, _) \<Rightarrow> add_signs e now h signs vp)"

definition ProcessRecoveryMsg :: "verify_env \<Rightarrow> 'x verify_view \<Rightarrow> int \<Rightarrow> Header \<Rightarrow> 'x pstate \<Rightarrow> 'x pstate option" where
  "ProcessRecoveryMsg e w now header s =
    (case s of (vp, p) \<Rightarrow>
       (let msgHeaderHash = HashNoSignsAndNonce (ve_rlpHash e) header
        in case GetLeaderReqByHash (ve_reqRange e) (p_reqCache p) msgHeaderHash of
             Inl err \<Rightarrow> Some (vp, p)
           | Inr i \<Rightarrow>
               (let h = rd_hash (req_at (p_reqCache p) i)
                in if h \<noteq> msgHeaderHash then Some (vp, p)
                   else
                     (case add_signs e now h (h_Signatures header) (DelVotes vp h) of
                        None \<Rightarrow> None
                      | Some vp \<Rightarrow> processDPOSOnce e w (vp, p)))))"

end
