(* ===== verification/Blk_Safety.thy ===== *)
theory Blk_Safety
  imports Blk_Process
begin

text \<open>
  Properties of the verification of proposed blocks: what a process keeps true in every state it can
  reach, for which blocks it votes and for which it asks the miners.
\<close>

section \<open>Events and reachable states\<close>

datatype 'x proc_event =
    EvStart role_type
  | EvLeader LeaderChangeNotify
  | EvReq "HD_BlkConsensusReqMsg option"
  | EvLocal "'x LocalBlockVerifyConsensusReq"
  | EvDPOS
  | EvRecovery Header
  | EvTxs "'x RetChan"
  | EvTxsTimeOut int

definition proc_handle :: "verify_env \<Rightarrow> 'x verify_view \<Rightarrow> int \<Rightarrow> 'x proc_event \<Rightarrow> 'x pstate \<Rightarrow> 'x pstate option" where
  "proc_handle e w now ev s =
    (case ev of
       EvStart role \<Rightarrow> StartRunning e w now role s
     | EvLeader info \<Rightarrow> SetLeaderInfo e w now info s
     | EvReq msg \<Rightarrow> p_AddReq e w now msg s
     | EvLocal req \<Rightarrow> p_AddLocalReq e w now req s
     | EvDPOS \<Rightarrow> processDPOSOnce e w s
     | EvRecovery header \<Rightarrow> ProcessRecoveryMsg e w now header s
     | EvTxs result \<Rightarrow> VerifyTxs e w now result s
     | EvTxsTimeOut seq \<Rightarrow> ProcessTxsAcquireTimeOut e w now seq s)"

text \<open>The pool is in use by the other processes too, so between two events of a process it may change to
  any other consistent pool. A node has one role while a process runs.\<close>

definition vpool_ok :: "verify_env \<Rightarrow> VotePool \<Rightarrow> bool" where
  "vpool_ok e vp \<longleftrightarrow> pool_ok (ve_crypto e) vp \<and> 0 < AccountVoteCountLimit vp"

text \<open>\<open>W\<close> is the set of the views that the chain and the services give the process.\<close>

inductive proc_reachable :: "verify_env \<Rightarrow> 'x verify_view set \<Rightarrow> role_type \<Rightarrow> u64 \<Rightarrow> 'x pstate \<Rightarrow> bool" for e W r n where
  start: "vpool_ok e vp \<Longrightarrow> proc_reachable e W r n (vp, newProcess n)"
| step: "proc_reachable e W r n s \<Longrightarrow> w \<in> W \<Longrightarrow> (\<forall>r'. ev = EvStart r' \<longrightarrow> r' = r) \<Longrightarrow> proc_handle e w now ev s = Some s' \<Longrightarrow>
    proc_reachable e W r n s'"
| pool: "proc_reachable e W r n (vp, p) \<Longrightarrow> vpool_ok e vp' \<Longrightarrow> proc_reachable e W r n (vp', p)"

section \<open>The invariant\<close>

definition env_ok :: "verify_env \<Rightarrow> bool" where
  "env_ok e \<longleftrightarrow> range_order (ve_voteRange e) \<and> range_order (ve_poolRange e) \<and> range_order (ve_reqRange e) \<and> order_ok (ve_order e)"

text \<open>A validator that has taken up a request has taken that of the current leader and turn.\<close>

definition of_leader :: "'x Process \<Rightarrow> bool" where
  "of_leader p \<longleftrightarrow> (\<exists>rd. cur_req p = Some rd \<and>
    map_option h_Leader (bcr_Header (rd_req rd)) = Some (lcn_Leader (p_leaderCache p)) \<and>
    bcr_ConsensusTurn (rd_req rd) = lcn_ConsensusTurn (p_leaderCache p))"

text \<open>A header that passes the checks of its fields, and one that the execution of transactions
  reproduces.\<close>

definition header_checked :: "verify_env \<Rightarrow> 'x verify_view \<Rightarrow> u64 \<Rightarrow> Header \<Rightarrow> bool" where
  "header_checked e w n h \<longleftrightarrow> vw_VerifyHeader w h \<and> verifyElection (ve_rlpHash e) (vw_check w) n h = None \<and>
    verifyNetTopology (ve_rlpHash e) (vw_check w) n h = None"

definition reproduces :: "verify_env \<Rightarrow> 'x verify_view \<Rightarrow> Header \<Rightarrow> bool" where
  "reproduces e w h \<longleftrightarrow> (\<exists>txs lh rs st. vw_Execute w (h\<lparr>h_GasUsed := 0\<rparr>) txs = ExecDone lh rs st \<and>
    HashNoSignsAndNonce (ve_rlpHash e) lh = HashNoSignsAndNonce (ve_rlpHash e) h)"

text \<open>The time of a header lies in the turn of a leader. A process without a leader has leader 0: \<open>stopProcess\<close>
  clears the leader and the times of the turn, and keeps sending its vote.\<close>

definition in_window :: "LeaderChangeNotify \<Rightarrow> Header \<Rightarrow> bool" where
  "in_window lc h \<longleftrightarrow> lcn_TurnBeginTime lc \<le> i64 (int (h_Time h)) \<and> i64 (int (h_Time h)) \<le> lcn_TurnEndTime lc"

definition of_turn :: "LeaderChangeNotify \<Rightarrow> Header \<Rightarrow> bool" where
  "of_turn lc h \<longleftrightarrow> (lcn_Leader lc \<noteq> 0 \<longrightarrow> h_Leader h = lcn_Leader lc \<and> in_window lc h)"

definition checked_hash ::
  "verify_env \<Rightarrow> 'x verify_view set \<Rightarrow> u64 \<Rightarrow> LeaderChangeNotify \<Rightarrow> hash \<Rightarrow> bool" where
  "checked_hash e W n lc hs \<longleftrightarrow> (\<exists>h. HashNoSignsAndNonce (ve_rlpHash e) h = hs \<and> of_turn lc h \<and>
    (\<exists>w \<in> W. header_checked e w n h) \<and> (\<exists>w \<in> W. reproduces e w h))"

definition vote_backed ::
  "verify_env \<Rightarrow> 'x verify_view set \<Rightarrow> u64 \<Rightarrow> LeaderChangeNotify \<Rightarrow> 'x reqCache \<Rightarrow> hash \<Rightarrow> bool" where
  "vote_backed e W n lc rc hs \<longleftrightarrow>
    (\<exists>rd \<in> set (rc_heap rc). rd_localReq rd \<and> rd_hash rd = hs) \<or> checked_hash e W n lc hs"

lemma vote_backed_leader:
  "vote_backed e W n (lc\<lparr>lcn_ConsensusState := b\<rparr>) rc hs = vote_backed e W n lc rc hs"
  "vote_backed e W n lc rc hs \<Longrightarrow> lcn_Leader lc' = 0 \<Longrightarrow> vote_backed e W n lc' rc hs"
  by (auto simp: vote_backed_def checked_hash_def of_turn_def in_window_def)

text \<open>A header with signatures that some node accepts.\<close>

definition mine_backed :: "verify_env \<Rightarrow> 'x verify_view set \<Rightarrow> u64 \<Rightarrow> Header \<Rightarrow> bool" where
  "mine_backed e W n h \<longleftrightarrow> (\<exists>w \<in> W. \<exists>signs. VerifyHashWithVerifiedSignsAndNumber (ve_order e) (vw_reader w) signs n = Inr (h_Signatures h) \<and>
    (\<forall>s \<in> set signs. VerifySignWithValidate (ve_crypto e) (HashNoSignsAndNonce (ve_rlpHash e) h) (vs_Sign s) =
       SignOk (vs_Account s) (vs_Validate s)))"

definition base_ok :: "verify_env \<Rightarrow> 'x verify_view set \<Rightarrow> role_type \<Rightarrow> u64 \<Rightarrow> 'x pstate \<Rightarrow> bool" where
  "base_ok e W r n s \<longleftrightarrow> (case s of (vp, p) \<Rightarrow>
    vpool_ok e vp \<and> rc_ok (ve_rlpHash e) (p_reqCache p) \<and> p_number p = n \<and>
    (\<forall>i. p_curProcessReq p = Some i \<longrightarrow> i < length (rc_heap (p_reqCache p))) \<and>
    (\<forall>v. p_voteMsgSender p = Some v \<longrightarrow> cv_Round v = n \<and> vote_backed e W n (p_leaderCache p) (p_reqCache p) (cv_SignHash v)) \<and>
    (\<forall>h. p_mineReqMsgSender p = Some h \<longrightarrow> mine_backed e W n h))"

definition phase_ok :: "verify_env \<Rightarrow> 'x verify_view set \<Rightarrow> role_type \<Rightarrow> u64 \<Rightarrow> 'x Process \<Rightarrow> bool" where
  "phase_ok e W r n p \<longleftrightarrow> (1 \<le> state_code (p_state p) \<longrightarrow> p_role p = r) \<and> (p_role p = RoleNil \<or> p_role p = r) \<and>
    (2 \<le> state_code (p_state p) \<longrightarrow> p_curProcessReq p \<noteq> None) \<and>
    (r \<noteq> RoleBroadcast \<longrightarrow> (2 \<le> state_code (p_state p) \<longrightarrow> of_leader p) \<and>
      (p_state p = StateTxsVerify \<longrightarrow> (\<exists>w \<in> W. \<exists>rd. cur_req p = Some rd \<and> header_checked e w n (rd_header rd) \<and>
        in_window (p_leaderCache p) (rd_header rd))))"

definition proc_ok :: "verify_env \<Rightarrow> 'x verify_view set \<Rightarrow> role_type \<Rightarrow> u64 \<Rightarrow> 'x pstate \<Rightarrow> bool" where
  "proc_ok e W r n s \<longleftrightarrow> base_ok e W r n s \<and> phase_ok e W r n (snd s)"

lemma newProcess_ok: "vpool_ok e vp \<Longrightarrow> proc_ok e W r n (vp, newProcess n)"
  by (simp add: proc_ok_def base_ok_def phase_ok_def newProcess_def)

text \<open>A change of an object that keeps its request up to the signatures.\<close>

definition keeps_req :: "('x reqData \<Rightarrow> 'x reqData) \<Rightarrow> bool" where
  "keeps_req f \<longleftrightarrow> (\<forall>rd. rd_hash (f rd) = rd_hash rd \<and> rd_localReq (f rd) = rd_localReq rd \<and>
    bcr_ConsensusTurn (rd_req (f rd)) = bcr_ConsensusTurn (rd_req rd) \<and>
    (\<exists>sg. bcr_Header (rd_req (f rd)) = bcr_Header (rd_req rd) \<or>
      bcr_Header (rd_req (f rd)) = map_option (\<lambda>h. h\<lparr>h_Signatures := sg\<rparr>) (bcr_Header (rd_req rd))))"

lemma keeps_req_intros [simp, intro]:
  "keeps_req (\<lambda>rd. rd\<lparr>rd_localVerifyResult := lv\<rparr>)" "keeps_req (\<lambda>rd. rd\<lparr>rd_txs := t\<rparr>)"
  "keeps_req (\<lambda>rd. rd\<lparr>rd_receipts := x, rd_stateDB := y\<rparr>)" "keeps_req (set_signatures sg)"
  by (auto simp: keeps_req_def set_signatures_def)

lemma keeps_req_data_ok:
  assumes "keeps_req f" "data_ok r rd"
  shows "data_ok r (f rd)"
proof -
  obtain header where h: "bcr_Header (rd_req rd) = Some header" "rd_hash rd = HashNoSignsAndNonce r header"
    using assms(2) by (auto simp: data_ok_def)
  obtain sg where "bcr_Header (rd_req (f rd)) = Some header \<or> bcr_Header (rd_req (f rd)) = Some (header\<lparr>h_Signatures := sg\<rparr>)"
    "rd_hash (f rd) = rd_hash rd"
    using assms(1) h(1) unfolding keeps_req_def by (metis option.simps(9))
  then show ?thesis using h(2) by (auto simp: data_ok_def)
qed

lemma keeps_req_leader:
  assumes "keeps_req f"
  shows "map_option h_Leader (bcr_Header (rd_req (f rd))) = map_option h_Leader (bcr_Header (rd_req rd))"
proof -
  obtain sg where "bcr_Header (rd_req (f rd)) = bcr_Header (rd_req rd) \<or>
      bcr_Header (rd_req (f rd)) = map_option (\<lambda>h. h\<lparr>h_Signatures := sg\<rparr>) (bcr_Header (rd_req rd))"
    using assms unfolding keeps_req_def by blast
  then show ?thesis by (auto simp: option.map_comp comp_def)
qed

lemma update_rc_ok:
  assumes "rc_ok r rc" "keeps_req f"
  shows "rc_ok r (rc\<lparr>rc_heap := (rc_heap rc)[i := f (req_at rc i)]\<rparr>)"
proof (cases "i < length (rc_heap rc)")
  case True
  let ?rc = "rc\<lparr>rc_heap := (rc_heap rc)[i := f (req_at rc i)]\<rparr>"
  have k: "rd_localReq (f rd) = rd_localReq rd" "bcr_ConsensusTurn (rd_req (f rd)) = bcr_ConsensusTurn (rd_req rd)" for rd
    using assms(2) by (simp_all add: keeps_req_def)
  have same: "rd_localReq (req_at ?rc j) = rd_localReq (req_at rc j)" "turn_at ?rc j = turn_at rc j"
    "map_option h_Leader (bcr_Header (rd_req (req_at ?rc j))) = map_option h_Leader (bcr_Header (rd_req (req_at rc j)))"
    "rd_localReq (req_at ?rc j) = rd_localReq (req_at rc j)" for j
    using k keeps_req_leader [OF assms(2)] True by (cases "j = i"; simp add: nth_list_update)+
  have d: "data_ok r (req_at rc i)" using assms(1) True by (simp add: rc_ok_def)
  have h: "\<forall>rd \<in> set ((rc_heap rc)[i := f (req_at rc i)]). data_ok r rd"
    using assms(1) keeps_req_data_ok [OF assms(2) d] set_update_subset_insert by (fastforce simp: rc_ok_def)
  show ?thesis unfolding rc_ok_def same using assms(1) h by (auto simp: rc_ok_def)
next
  case False
  then have "(rc_heap rc)[i := f (req_at rc i)] = rc_heap rc" by (intro list_update_beyond) simp
  then show ?thesis using assms(1) by (cases rc) simp
qed

lemma set_req_frame [simp]:
  "p_leaderCache (set_req i f p) = p_leaderCache p"
  "p_number (set_req i f p) = p_number p"
  "p_role (set_req i f p) = p_role p"
  "p_state (set_req i f p) = p_state p"
  "p_curProcessReq (set_req i f p) = p_curProcessReq p"
  "p_voteMsgSender (set_req i f p) = p_voteMsgSender p"
  "p_mineReqMsgSender (set_req i f p) = p_mineReqMsgSender p"
  "p_reqCache (set_req i f p) = (p_reqCache p)\<lparr>rc_heap := (rc_heap (p_reqCache p))[i := f (req_at (p_reqCache p) i)]\<rparr>"
  by (simp_all add: set_req_def)

lemma set_cur_frame [simp]:
  "p_leaderCache (set_cur f p) = p_leaderCache p"
  "p_number (set_cur f p) = p_number p"
  "p_role (set_cur f p) = p_role p"
  "p_state (set_cur f p) = p_state p"
  "p_curProcessReq (set_cur f p) = p_curProcessReq p"
  "p_voteMsgSender (set_cur f p) = p_voteMsgSender p"
  "p_mineReqMsgSender (set_cur f p) = p_mineReqMsgSender p"
  "length (rc_heap (p_reqCache (set_cur f p))) = length (rc_heap (p_reqCache p))"
  by (simp_all add: set_cur_def split: option.splits)

lemma publish_frame [simp]:
  "p_leaderCache (publish m p) = p_leaderCache p"
  "p_number (publish m p) = p_number p"
  "p_role (publish m p) = p_role p"
  "p_state (publish m p) = p_state p"
  "p_curProcessReq (publish m p) = p_curProcessReq p"
  "p_voteMsgSender (publish m p) = p_voteMsgSender p"
  "p_mineReqMsgSender (publish m p) = p_mineReqMsgSender p"
  "p_reqCache (publish m p) = p_reqCache p"
  "cur_req (publish m p) = cur_req p"
  by (simp_all add: publish_def cur_req_def)

lemma sender_frame [simp]:
  "p_reqCache (startVoteMsgSender e v p) = p_reqCache p" "p_reqCache (startSendMineReq e h p) = p_reqCache p"
  "p_reqCache (startPosedReqSender e q p) = p_reqCache p" "p_reqCache (stopSender p) = p_reqCache p"
  "p_leaderCache (startVoteMsgSender e v p) = p_leaderCache p" "p_leaderCache (startSendMineReq e h p) = p_leaderCache p"
  "p_leaderCache (startPosedReqSender e q p) = p_leaderCache p" "p_leaderCache (stopSender p) = p_leaderCache p"
  "p_number (startVoteMsgSender e v p) = p_number p" "p_number (startSendMineReq e h p) = p_number p"
  "p_number (startPosedReqSender e q p) = p_number p" "p_number (stopSender p) = p_number p"
  "p_role (startVoteMsgSender e v p) = p_role p" "p_role (startSendMineReq e h p) = p_role p"
  "p_role (startPosedReqSender e q p) = p_role p" "p_role (stopSender p) = p_role p"
  "p_state (startVoteMsgSender e v p) = p_state p" "p_state (startSendMineReq e h p) = p_state p"
  "p_state (startPosedReqSender e q p) = p_state p" "p_state (stopSender p) = p_state p"
  "p_curProcessReq (startVoteMsgSender e v p) = p_curProcessReq p" "p_curProcessReq (startSendMineReq e h p) = p_curProcessReq p"
  "p_curProcessReq (startPosedReqSender e q p) = p_curProcessReq p" "p_curProcessReq (stopSender p) = p_curProcessReq p"
  "p_voteMsgSender (startVoteMsgSender e v p) = (if ve_NewResendMsgCtrl e BlkVoteSendInterval BlkVoteSendTimes then Some v else None)"
  "p_voteMsgSender (startSendMineReq e h p) = p_voteMsgSender p"
  "p_voteMsgSender (startPosedReqSender e q p) = p_voteMsgSender p" "p_voteMsgSender (stopSender p) = None"
  "p_mineReqMsgSender (startVoteMsgSender e v p) = p_mineReqMsgSender p"
  "p_mineReqMsgSender (startSendMineReq e h p) = (if ve_NewResendMsgCtrl e MinerReqSendInterval 0 then Some h else None)"
  "p_mineReqMsgSender (startPosedReqSender e q p) = p_mineReqMsgSender p" "p_mineReqMsgSender (stopSender p) = None"
  by (simp_all add: startVoteMsgSender_def startSendMineReq_def startPosedReqSender_def stopSender_def
      closeVoteMsgSender_def closeMineReqMsgSender_def closePosedReqSender_def Let_def)

lemma cur_req_frame [simp]:
  "cur_req (startVoteMsgSender e v p) = cur_req p" "cur_req (startSendMineReq e h p) = cur_req p"
  "cur_req (startPosedReqSender e q p) = cur_req p" "cur_req (p\<lparr>p_state := st\<rparr>) = cur_req p"
  by (simp_all add: cur_req_def)

lemma cur_req_set_cur:
  "\<forall>i. p_curProcessReq p = Some i \<longrightarrow> i < length (rc_heap (p_reqCache p)) \<Longrightarrow> cur_req (set_cur f p) = map_option f (cur_req p)"
  by (auto simp: cur_req_def set_cur_def split: option.splits)

lemma cur_req_data:
  assumes "base_ok e W r n (vp, p)" "cur_req p = Some rd"
  shows "rd \<in> set (rc_heap (p_reqCache p)) \<and> data_ok (ve_rlpHash e) rd"
  using assms by (auto simp: base_ok_def cur_req_def rc_ok_def)

lemma cur_req_header:
  assumes "base_ok e W r n (vp, p)" "cur_req p = Some rd"
  shows "bcr_Header (rd_req rd) = Some (rd_header rd) \<and> rd_hash rd = HashNoSignsAndNonce (ve_rlpHash e) (rd_header rd)"
  using cur_req_data [OF assms] by (auto simp: data_ok_def)

lemma vote_backed_mono:
  assumes "vote_backed e W n lc rc hs"
    and "\<forall>rd \<in> set (rc_heap rc). \<exists>rd' \<in> set (rc_heap rc'). rd_localReq rd' = rd_localReq rd \<and> rd_hash rd' = rd_hash rd"
  shows "vote_backed e W n lc rc' hs"
  using assms by (fastforce simp: vote_backed_def)

lemma heap_update_keeps:
  assumes "keeps_req f"
  shows "\<forall>rd \<in> set hp. \<exists>rd' \<in> set (hp[i := f (hp ! i)]). rd_localReq rd' = rd_localReq rd \<and> rd_hash rd' = rd_hash rd"
proof
  fix rd assume "rd \<in> set hp"
  then obtain j where j: "j < length hp" "rd = hp ! j" by (auto simp: in_set_conv_nth)
  then have "hp[i := f (hp ! i)] ! j \<in> set (hp[i := f (hp ! i)])" by simp
  moreover have "rd_localReq (hp[i := f (hp ! i)] ! j) = rd_localReq rd \<and> rd_hash (hp[i := f (hp ! i)] ! j) = rd_hash rd"
    using j assms by (cases "j = i") (simp_all add: keeps_req_def)
  ultimately show "\<exists>rd' \<in> set (hp[i := f (hp ! i)]). rd_localReq rd' = rd_localReq rd \<and> rd_hash rd' = rd_hash rd" by blast
qed

lemma vote_backed_update:
  "vote_backed e W n lc rc hs \<Longrightarrow> keeps_req f \<Longrightarrow> vote_backed e W n lc (rc\<lparr>rc_heap := (rc_heap rc)[i := f (req_at rc i)]\<rparr>) hs"
  by (erule vote_backed_mono) (simp add: heap_update_keeps)

lemma set_req_base:
  assumes "base_ok e W r n (vp, p)" "keeps_req f"
  shows "base_ok e W r n (vp, set_req i f p)"
  using assms(1) update_rc_ok [OF _ assms(2)]
  vote_backed_update [OF _ assms(2)] by (auto simp: base_ok_def)

lemma set_cur_base:
  "base_ok e W r n (vp, p) \<Longrightarrow> keeps_req f \<Longrightarrow> base_ok e W r n (vp, set_cur f p)"
  by (simp add: set_cur_def set_req_base split: option.splits)

lemma set_cur_phase:
  assumes "base_ok e W r n (vp, p)" "phase_ok e W r n p" "keeps_req f"
    and "p_state p = StateTxsVerify \<longrightarrow> (\<forall>rd. rd_req (f rd) = rd_req rd)"
  shows "phase_ok e W r n (set_cur f p)"
proof -
  have c: "cur_req (set_cur f p) = map_option f (cur_req p)"
    using assms(1) by (intro cur_req_set_cur) (auto simp: base_ok_def)
  have "of_leader p \<Longrightarrow> of_leader (set_cur f p)"
    using assms(3) keeps_req_leader [OF assms(3)] by (auto simp: of_leader_def c keeps_req_def simp del: map_option_eq_Some)
  then show ?thesis using assms(2,4) by (auto simp: phase_ok_def c)
qed

section \<open>Every operation keeps the invariant\<close>

lemma pool_add_ok:
  "vpool_ok e vp \<Longrightarrow> env_ok e \<Longrightarrow> pool_add e now vp h sign a vf = Some (vp', err) \<Longrightarrow> vpool_ok e vp'"
  using AddVote_keeps [of "ve_crypto e" vp "ve_voteRange e" now h sign a vf]
  by (auto simp: pool_add_def vpool_ok_def env_ok_def split: option.splits if_splits)

lemma DelVotes_ok: "vpool_ok e vp \<Longrightarrow> vpool_ok e (DelVotes vp h)"
  by (auto simp: vpool_ok_def DelVotes_keeps) (simp add: DelVotes_def)

lemma add_signs_ok:
  "env_ok e \<Longrightarrow> vpool_ok e vp \<Longrightarrow> add_signs e now h signs vp = Some vp' \<Longrightarrow> vpool_ok e vp'"
  by (induction signs arbitrary: vp) (auto split: option.splits dest: pool_add_ok)

lemma finishedProcess_ok:
  assumes "proc_ok e W r n (vp, p)" "mine_backed e W n (rd_header req)" "2 \<le> state_code (p_state p)"
  shows "proc_ok e W r n (finishedProcess e req (vp, p))"
proof -
  define p0 where "p0 = (if rd_localVerifyResult req = LocalVerifySuccess
     then publish (PubPOSFinished \<lparr>pfn_Number = p_number p, pfn_Header = bcr_Header (rd_req req),
            pfn_ConsensusTurn = bcr_ConsensusTurn (rd_req req), pfn_TxsCode = bcr_TxsCode (rd_req req)\<rparr>) p
     else p)"
  define p1 where "p1 = startPosedReqSender e (rd_req req) (startSendMineReq e (rd_header req) p0)"
  have f: "finishedProcess e req (vp, p) = (if rd_localVerifyResult req = LocalVerifyProcessing \<or>
      rd_localVerifyResult req = LocalVerifyStateFailed then (vp, p) else (DelVotes vp (rd_hash req), p1\<lparr>p_state := StateEnd\<rparr>))"
    by (simp add: finishedProcess_def p1_def p0_def Let_def)
  have p0: "p_reqCache p0 = p_reqCache p" "p_number p0 = p_number p" "p_role p0 = p_role p" "p_curProcessReq p0 = p_curProcessReq p"
    "p_voteMsgSender p0 = p_voteMsgSender p" "p_leaderCache p0 = p_leaderCache p" "cur_req p0 = cur_req p" by (simp_all add: p0_def)
  then have "base_ok e W r n (DelVotes vp (rd_hash req), p1\<lparr>p_state := StateEnd\<rparr>)"
    using assms(1,2) by (auto simp: proc_ok_def base_ok_def p1_def DelVotes_ok)
  moreover have "phase_ok e W r n (p1\<lparr>p_state := StateEnd\<rparr>)"
    using assms(1,3) p0 by (auto simp: proc_ok_def phase_ok_def p1_def of_leader_def)
  ultimately show ?thesis using assms(1) by (simp add: f proc_ok_def)
qed

lemma pool_signs_back:
  assumes "base_ok e W r n (vp, p)" "env_ok e" "w \<in> W" "cur_req p = Some req"
    and "VerifyHashWithVerifiedSignsAndNumber (ve_order e) (vw_reader w) (GetVotes (ve_poolRange e) vp (rd_hash req)) n = Inr signs"
  shows "mine_backed e W n (rd_header (set_signatures signs req))"
proof -
  obtain header where h: "bcr_Header (rd_req req) = Some header" "rd_hash req = HashNoSignsAndNonce (ve_rlpHash e) header"
    using cur_req_data [OF assms(1,4)] by (auto simp: data_ok_def)
  then have s: "rd_header (set_signatures signs req) = header\<lparr>h_Signatures := signs\<rparr>" by (simp add: set_signatures_def)
  have "\<forall>s \<in> set (GetVotes (ve_poolRange e) vp (rd_hash req)). VerifySignWithValidate (ve_crypto e) (rd_hash req) (vs_Sign s) =
      SignOk (vs_Account s) (vs_Validate s)"
    using GetVotes_facts assms(1,2) by (auto simp: base_ok_def vpool_ok_def env_ok_def)
  then show ?thesis using assms(3,5) h(2) by (auto simp: mine_backed_def s)
qed

lemma processDPOSOnce_ok:
  assumes "proc_ok e W r n (vp, p)" "env_ok e" "w \<in> W" "processDPOSOnce e w (vp, p) = Some s'"
  shows "proc_ok e W r n s'"
proof (cases "checkState StateDPOSVerify p")
  case False
  then show ?thesis using assms by (auto simp: processDPOSOnce_def)
next
  case True
  then obtain req where req: "cur_req p = Some req" using assms(4) by (auto simp: processDPOSOnce_def split: option.splits)
  have n: "p_number p = n" using assms(1) by (simp add: proc_ok_def base_ok_def)
  show ?thesis
  proof (cases "VerifyHashWithVerifiedSignsAndNumber (ve_order e) (vw_reader w) (GetVotes (ve_poolRange e) vp (rd_hash req)) n")
    case (Inl err)
    then show ?thesis using assms True req n by (auto simp: processDPOSOnce_def)
  next
    case (Inr signs)
    have s': "s' = finishedProcess e (set_signatures signs req) (vp, set_cur (set_signatures signs) p)"
      using assms(4) True req n Inr by (simp add: processDPOSOnce_def)
    have b: "base_ok e W r n (vp, p)" "phase_ok e W r n p" using assms(1) by (simp_all add: proc_ok_def)
    have st: "p_state p = StateDPOSVerify" using True by (simp add: checkState_def)
    have "proc_ok e W r n (vp, set_cur (set_signatures signs) p)"
      using set_cur_base [OF b(1)] set_cur_phase [OF b] st by (simp add: proc_ok_def)
    then show ?thesis unfolding s'
      using pool_signs_back [OF b(1) assms(2,3) req Inr] st by (intro finishedProcess_ok) simp_all
  qed
qed

text \<open>What has to hold before a process votes.\<close>

definition vote_ready :: "verify_env \<Rightarrow> 'x verify_view set \<Rightarrow> u64 \<Rightarrow> 'x Process \<Rightarrow> bool" where
  "vote_ready e W n p \<longleftrightarrow> (\<forall>rd. cur_req p = Some rd \<longrightarrow> rd_localReq rd \<or> checked_hash e W n (p_leaderCache p) (rd_hash rd))"

lemma sendVote_ok:
  assumes "proc_ok e W r n (vp, p)" "env_ok e" "vote_ready e W n p" "sendVote e now b (vp, p) = Some (vp', p')"
  shows "proc_ok e W r n (vp', p') \<and> p_state p' = p_state p"
proof -
  obtain req where req: "cur_req p = Some req" using assms(4) by (auto simp: sendVote_def split: option.splits)
  have b: "base_ok e W r n (vp, p)" "phase_ok e W r n p" using assms(1) by (simp_all add: proc_ok_def)
  have "vote_backed e W n (p_leaderCache p) (p_reqCache p) (rd_hash req)"
    using assms(3) req cur_req_data [OF b(1) req] by (auto simp: vote_ready_def vote_backed_def)
  then have "proc_ok e W r n (vp1, publish m (startVoteMsgSender e \<lparr>cv_SignHash = rd_hash req, cv_Round = p_number p, cv_Sign = sign, cv_From = 0\<rparr> p))"
    if "vpool_ok e vp1" for vp1 m sign
    using b that by (auto simp: proc_ok_def base_ok_def phase_ok_def of_leader_def split: if_splits)
  moreover have "vpool_ok e vp" using b(1) by (simp add: base_ok_def)
  ultimately show ?thesis using assms(1,2,4) req
    by (auto simp: sendVote_def Let_def split: option.splits dest: pool_add_ok)
qed

lemma bcFinishedProcess_ok:
  assumes "proc_ok e W RoleBroadcast n (vp, p)" "2 \<le> state_code (p_state p)" "bcFinishedProcess lv p = Some p'"
  shows "proc_ok e W RoleBroadcast n (vp, p')"
proof -
  let ?p = "set_cur (\<lambda>rd. rd\<lparr>rd_localVerifyResult := lv\<rparr>) p"
  have b: "base_ok e W RoleBroadcast n (vp, p)" "phase_ok e W RoleBroadcast n p" using assms(1) by (simp_all add: proc_ok_def)
  have ok: "base_ok e W RoleBroadcast n (vp, ?p)" "phase_ok e W RoleBroadcast n ?p"
    using set_cur_base [OF b(1)] set_cur_phase [OF b] by simp_all
  then have "proc_ok e W RoleBroadcast n (vp, q\<lparr>p_state := StateEnd\<rparr>)"
    if "q = ?p \<or> (\<exists>m. q = publish m ?p)" for q
    using that assms(2) by (auto simp: proc_ok_def base_ok_def phase_ok_def)
  then show ?thesis using assms(3) ok
    by (auto simp: bcFinishedProcess_def Let_def proc_ok_def split: option.splits if_splits)
qed

lemma startDPOSVerify_ok:
  assumes "proc_ok e W r n (vp, p)" "env_ok e" "w \<in> W" "2 \<le> state_code (p_state p)"
    and "lv = LocalVerifySuccess \<longrightarrow> p_role p \<noteq> RoleBroadcast \<longrightarrow> vote_ready e W n p"
    and "startDPOSVerify e w now lv (vp, p) = Some s'"
  shows "proc_ok e W r n s'"
proof -
  have role: "p_role p = r" using assms(1,4) by (simp add: proc_ok_def phase_ok_def)
  show ?thesis
  proof (cases "state_code (p_state p) \<ge> 4 \<or> p_role p = RoleBroadcast")
    case True
    then show ?thesis using assms role
      by (auto simp: startDPOSVerify_def split: if_splits intro: bcFinishedProcess_ok)
  next
    case False
    obtain vp1 p1 where v: "(if lv = LocalVerifySuccess then sendVote e now True (vp, p) else Some (vp, p)) = Some (vp1, p1)"
      "processDPOSOnce e w (vp1, (set_cur (\<lambda>rd. rd\<lparr>rd_localVerifyResult := lv\<rparr>) p1)\<lparr>p_state := StateDPOSVerify\<rparr>) = Some s'"
      using assms(6) False by (auto simp: startDPOSVerify_def simp del: if_split split: if_splits option.splits)
    then have p1: "proc_ok e W r n (vp1, p1)" "p_state p1 = p_state p"
      using assms(1,2,5) False by (auto split: if_splits dest: sendVote_ok)
    then have b: "base_ok e W r n (vp1, p1)" "phase_ok e W r n p1" by (simp_all add: proc_ok_def)
    let ?q = "set_cur (\<lambda>rd. rd\<lparr>rd_localVerifyResult := lv\<rparr>) p1"
    have "base_ok e W r n (vp1, ?q)" "phase_ok e W r n ?q"
      using set_cur_base [OF b(1)] set_cur_phase [OF b] by simp_all
    then have "proc_ok e W r n (vp1, ?q\<lparr>p_state := StateDPOSVerify\<rparr>)"
      using assms(4) p1(2) by (auto simp: proc_ok_def base_ok_def phase_ok_def of_leader_def)
    then show ?thesis using processDPOSOnce_ok [OF _ assms(2,3) v(2)] by simp
  qed
qed

lemma startTxsVerify_ok:
  assumes "proc_ok e W r n (vp, p)" "startTxsVerify p = Some p'"
    and "r \<noteq> RoleBroadcast \<longrightarrow> p_state p = StateReqVerify \<longrightarrow>
      (\<exists>w \<in> W. \<exists>rd. cur_req p = Some rd \<and> header_checked e w n (rd_header rd) \<and>
        in_window (p_leaderCache p) (rd_header rd))"
  shows "proc_ok e W r n (vp, p')"
proof (cases "checkState StateReqVerify p")
  case False
  then show ?thesis using assms(1,2) by (simp add: startTxsVerify_def)
next
  case True
  then have st: "p_state p = StateReqVerify" by (simp add: checkState_def)
  let ?q = "(p\<lparr>p_state := StateTxsVerify\<rparr>)\<lparr>p_txsAcquireSeq := p_txsAcquireSeq p + 1\<rparr>"
  have c: "cur_req ?q = cur_req p" by (simp add: cur_req_def)
  have "proc_ok e W r n (vp, publish m ?q)" for m
    using assms(1,3) st c by (auto simp: proc_ok_def base_ok_def phase_ok_def of_leader_def)
  then show ?thesis using assms(2) st
    by (auto simp: startTxsVerify_def checkState_def changeState_def Let_def split: option.splits)
qed

lemma bcProcessReqVerify_ok:
  assumes "proc_ok e W RoleBroadcast n (vp, p)" "bcProcessReqVerify w p = Some p'"
  shows "proc_ok e W RoleBroadcast n (vp, p')"
proof (cases "checkState StateReqVerify p")
  case True
  then have "2 \<le> state_code (p_state p)" by (simp add: checkState_def)
  then show ?thesis using assms True
    by (auto simp: bcProcessReqVerify_def split: option.splits if_splits intro: bcFinishedProcess_ok startTxsVerify_ok)
qed (use assms in \<open>simp add: bcProcessReqVerify_def\<close>)

lemma set_req_ok_broadcast:
  assumes "proc_ok e W RoleBroadcast n (vp, p)" "keeps_req f"
  shows "proc_ok e W RoleBroadcast n (vp, set_req i f p)"
  using assms set_req_base [OF _ assms(2)] by (auto simp: proc_ok_def phase_ok_def)

lemma bc_req_loop_ok:
  assumes "proc_ok e W RoleBroadcast n (vp, p)" "\<forall>i \<in> set reqs. i < length (rc_heap (p_reqCache p))"
    and "1 \<le> state_code (p_state p)" "bc_req_loop e w reqs p = Some p'"
  shows "proc_ok e W RoleBroadcast n (vp, p')"
  using assms
proof (induction reqs arbitrary: p)
  case (Cons i reqs)
  let ?req = "req_at (p_reqCache p) i"
  consider (seen) "rd_localVerifyResult ?req \<noteq> LocalVerifyProcessing" "bc_req_loop e w reqs p = Some p'"
    | (bad) "bc_req_loop e w reqs (set_req i (\<lambda>rd. rd\<lparr>rd_localVerifyResult := LocalVerifyStateFailed\<rparr>) p) = Some p'"
    | (good) "bcProcessReqVerify w (p\<lparr>p_curProcessReq := Some i, p_state := StateReqVerify\<rparr>) = Some p'"
    using Cons.prems(4) by (auto simp: Let_def split: if_splits option.splits)
  then show ?case
  proof cases
    case seen
    then show ?thesis using Cons.IH Cons.prems by simp
  next
    case bad
    show ?thesis by (rule Cons.IH [OF _ _ _ bad]) (use Cons.prems in \<open>auto intro: set_req_ok_broadcast\<close>)
  next
    case good
    have "proc_ok e W RoleBroadcast n (vp, p\<lparr>p_curProcessReq := Some i, p_state := StateReqVerify\<rparr>)"
      using Cons.prems(1-3) by (auto simp: proc_ok_def base_ok_def phase_ok_def)
    then show ?thesis by (rule bcProcessReqVerify_ok [OF _ good])
  qed
qed simp

lemma GetAllReq_valid:
  "rc_ok r rc \<Longrightarrow> range_order rng \<Longrightarrow> i \<in> set (GetAllReq rng rc) \<Longrightarrow> i < length (rc_heap rc)"
  by (auto simp: GetAllReq_def rc_ok_def gomap_ok_def)

lemma startReqVerifyBC_ok:
  assumes "proc_ok e W RoleBroadcast n (vp, p)" "env_ok e" "startReqVerifyBC e w p = Some p'"
  shows "proc_ok e W RoleBroadcast n (vp, p')"
proof (cases "checkState StateStart p \<or> checkState StateEnd p")
  case True
  then have "1 \<le> state_code (p_state p)" by (auto simp: checkState_def)
  moreover have "\<forall>i \<in> set (GetAllReq (ve_reqRange e) (p_reqCache p)). i < length (rc_heap (p_reqCache p))"
    using assms(1,2) GetAllReq_valid by (fastforce simp: proc_ok_def base_ok_def env_ok_def)
  ultimately show ?thesis using bc_req_loop_ok [OF assms(1)] assms(3) True by (auto simp: startReqVerifyBC_def)
qed (use assms in \<open>auto simp: startReqVerifyBC_def\<close>)

lemma processReqOnce_ok:
  assumes "proc_ok e W r n (vp, p)" "r \<noteq> RoleBroadcast" "env_ok e" "w \<in> W" "processReqOnce e w now (vp, p) = Some s'"
  shows "proc_ok e W r n s'"
proof (cases "checkState StateReqVerify p")
  case True
  then have st: "p_state p = StateReqVerify" "2 \<le> state_code (p_state p)" by (simp_all add: checkState_def)
  have n: "p_number p = n" using assms(1) by (simp add: proc_ok_def base_ok_def)
  obtain req where req: "cur_req p = Some req" using assms(5) True by (auto simp: processReqOnce_def split: option.splits)
  note dpos = startDPOSVerify_ok [OF assms(1,3,4) st(2)]
  consider (local_req) "rd_localReq req" "startDPOSVerify e w now LocalVerifySuccess (vp, p) = Some s'"
    | (failed) lv where "lv \<noteq> LocalVerifySuccess" "startDPOSVerify e w now lv (vp, p) = Some s'"
    | (txs) p' where "header_checked e w n (rd_header req)" "in_window (p_leaderCache p) (rd_header req)" "startTxsVerify p = Some p'" "s' = (vp, p')"
    using assms(5) True req n
    by (auto simp: processReqOnce_def Let_def header_checked_def in_window_def simp del: not_None_eq split: if_splits)
  then show ?thesis
  proof cases
    case local_req
    then show ?thesis using req by (intro dpos) (auto simp: vote_ready_def)
  next
    case failed
    then show ?thesis by (intro dpos) auto
  next
    case txs
    then show ?thesis using startTxsVerify_ok [OF assms(1)] assms(4) req by auto
  qed
qed (use assms in \<open>simp add: processReqOnce_def\<close>)

lemma startReqVerifyCommon_ok:
  assumes "proc_ok e W r n (vp, p)" "r \<noteq> RoleBroadcast" "env_ok e" "w \<in> W" "startReqVerifyCommon e w now (vp, p) = Some s'"
  shows "proc_ok e W r n s'"
proof (cases "checkState StateStart p \<and> lcn_ConsensusState (p_leaderCache p)")
  case True
  show ?thesis
  proof (cases "GetLeaderReq (p_reqCache p) (lcn_Leader (p_leaderCache p)) (lcn_ConsensusTurn (p_leaderCache p))")
    case (Inr i)
    let ?q = "p\<lparr>p_curProcessReq := Some i, p_state := StateReqVerify\<rparr>"
    have "i < length (rc_heap (p_reqCache p))"
      "map_option h_Leader (bcr_Header (rd_req (req_at (p_reqCache p) i))) = Some (lcn_Leader (p_leaderCache p))"
      "turn_at (p_reqCache p) i = lcn_ConsensusTurn (p_leaderCache p)"
      using Inr assms(1) unfolding GetLeaderReq_iff proc_ok_def base_ok_def rc_ok_def by blast+
    then have "proc_ok e W r n (vp, ?q)"
      using assms(1) True by (auto simp: proc_ok_def base_ok_def phase_ok_def of_leader_def cur_req_def checkState_def)
    then show ?thesis using processReqOnce_ok [OF _ assms(2-4)] assms(5) True Inr by (auto simp: startReqVerifyCommon_def)
  qed (use assms True in \<open>auto simp: startReqVerifyCommon_def\<close>)
qed (use assms in \<open>auto simp: startReqVerifyCommon_def split: if_splits\<close>)

lemma startReqVerify_ok:
  assumes "proc_ok e W r n (vp, p)" "env_ok e" "w \<in> W" "startReqVerify e w now (vp, p) = Some s'"
  shows "proc_ok e W r n s'"
proof -
  have r: "p_role p = RoleNil \<or> p_role p = r" using assms(1) by (simp add: proc_ok_def phase_ok_def)
  consider (bc) p' where "r = RoleBroadcast" "startReqVerifyBC e w p = Some p'" "s' = (vp, p')"
    | (val) "r \<noteq> RoleBroadcast" "startReqVerifyCommon e w now (vp, p) = Some s'" | (none) "s' = (vp, p)"
    using assms(4) r by (auto simp: startReqVerify_def role_defs split: if_splits)
  then show ?thesis
    using assms(1) startReqVerifyBC_ok [OF _ assms(2)] startReqVerifyCommon_ok [OF assms(1) _ assms(2,3)] by cases simp_all
qed

lemma VerifyTxs_ok:
  assumes "proc_ok e W r n (vp, p)" "env_ok e" "w \<in> W" "VerifyTxs e w now res (vp, p) = Some s'"
  shows "proc_ok e W r n s'"
proof (cases "checkState StateTxsVerify p \<and> rt_Resqe res = p_txsAcquireSeq p \<and> \<not> rt_Err res")
  case False
  then show ?thesis using assms startDPOSVerify_ok [OF assms(1-3), where s' = s']
    by (auto simp: VerifyTxs_def checkState_def split: if_splits)
next
  case True
  then have st: "p_state p = StateTxsVerify" by (simp add: checkState_def)
  obtain req where req: "cur_req p = Some req" using assms(4) True by (auto simp: VerifyTxs_def split: option.splits)
  have b: "base_ok e W r n (vp, p)" "phase_ok e W r n p" using assms(1) by (simp_all add: proc_ok_def)
  let ?q = "set_cur (\<lambda>rd. rd\<lparr>rd_txs := Some (rt_Rxs res)\<rparr>) p"
  have q: "base_ok e W r n (vp, ?q)" "phase_ok e W r n ?q"
    using set_cur_base [OF b(1)] set_cur_phase [OF b] by simp_all
  let ?q2 = "\<lambda>x y. set_cur (\<lambda>rd. rd\<lparr>rd_receipts := Some x, rd_stateDB := Some y\<rparr>) ?q"
  have q2: "proc_ok e W r n (vp, ?q2 x y)" for x y
    using set_cur_base [OF q(1)] set_cur_phase [OF q] by (simp add: proc_ok_def)
  have v: "\<forall>i. p_curProcessReq p = Some i \<longrightarrow> i < length (rc_heap (p_reqCache p))" using b(1) by (simp add: base_ok_def)
  then have c: "cur_req (?q2 x y) = Some (req\<lparr>rd_txs := Some (rt_Rxs res), rd_receipts := Some x, rd_stateDB := Some y\<rparr>)" for x y
    using req by (simp add: cur_req_set_cur)
  consider (failed) lv where "lv \<noteq> LocalVerifySuccess" "startDPOSVerify e w now lv (vp, ?q) = Some s'"
    | (success) lh x y where "vw_Execute w ((rd_header req)\<lparr>h_GasUsed := 0\<rparr>) (rt_Rxs res) = ExecDone lh x y"
      "HashNoSignsAndNonce (ve_rlpHash e) lh = rd_hash req" "startDPOSVerify e w now LocalVerifySuccess (vp, ?q2 x y) = Some s'"
    using assms(4) True req by (auto simp: VerifyTxs_def Let_def split: exec_result.splits if_splits)
  then show ?thesis
  proof cases
    case failed
    then show ?thesis using startDPOSVerify_ok [OF _ assms(2,3) _ _ failed(2)] q st by (simp add: proc_ok_def)
  next
    case success
    have h: "rd_hash req = HashNoSignsAndNonce (ve_rlpHash e) (rd_header req)" using cur_req_header [OF b(1) req] by simp
    have role: "p_role p = r" using b(2) st by (simp add: phase_ok_def)
    have "r \<noteq> RoleBroadcast \<Longrightarrow> (\<exists>w \<in> W. header_checked e w n (rd_header req)) \<and> of_turn (p_leaderCache p) (rd_header req)"
      using b(2) st req cur_req_header [OF b(1) req] by (auto simp: phase_ok_def of_turn_def of_leader_def)
    moreover have "reproduces e w (rd_header req)" using success(1,2) h by (auto simp: reproduces_def)
    ultimately have "r \<noteq> RoleBroadcast \<Longrightarrow> checked_hash e W n (p_leaderCache p) (rd_hash req)"
      using assms(3) h unfolding checked_hash_def by metis
    then have "r \<noteq> RoleBroadcast \<Longrightarrow> vote_ready e W n (?q2 x y)" by (simp add: vote_ready_def c)
    then show ?thesis using startDPOSVerify_ok [OF q2 assms(2,3) _ _ success(3)] st role by simp
  qed
qed

lemma cache_grows:
  assumes "proc_ok e W r n (vp, p)" "rc_ok (ve_rlpHash e) rc" "rc_heap rc = rc_heap (p_reqCache p) @ ys"
  shows "proc_ok e W r n (vp, p\<lparr>p_reqCache := rc\<rparr>)"
proof -
  have b: "base_ok e W r n (vp, p)" "phase_ok e W r n p" using assms(1) by (simp_all add: proc_ok_def)
  have "cur_req (p\<lparr>p_reqCache := rc\<rparr>) = cur_req p"
    using b(1) assms(3) by (cases "p_curProcessReq p") (auto simp: cur_req_def base_ok_def nth_append)
  then have "phase_ok e W r n (p\<lparr>p_reqCache := rc\<rparr>)" using b(2) by (auto simp: phase_ok_def of_leader_def)
  moreover have "vote_backed e W n (p_leaderCache p) (p_reqCache p) hs \<Longrightarrow> vote_backed e W n (p_leaderCache p) rc hs" for hs
    using assms(3) by (auto simp: vote_backed_def)
  then have "base_ok e W r n (vp, p\<lparr>p_reqCache := rc\<rparr>)" using b(1) assms(2,3) by (auto simp: base_ok_def)
  ultimately show ?thesis by (simp add: proc_ok_def)
qed

lemma p_AddReq_ok:
  assumes "proc_ok e W r n (vp, p)" "env_ok e" "w \<in> W" "p_AddReq e w now msg (vp, p) = Some s'"
  shows "proc_ok e W r n s'"
proof -
  obtain rc err where rc: "rc_AddReq (ve_rlpHash e) (p_reqCache p) msg = Some (rc, err)"
    using assms(4) by (auto simp: p_AddReq_def split: option.splits)
  have "rc_ok (ve_rlpHash e) (p_reqCache p)" using assms(1) by (simp add: proc_ok_def base_ok_def)
  then have "rc_ok (ve_rlpHash e) rc" by (rule rc_AddReq_ok [OF _ rc])
  moreover have "\<exists>ys. rc_heap rc = rc_heap (p_reqCache p) @ ys" using rc_AddReq_effect [OF rc] by auto
  ultimately have "proc_ok e W r n (vp, p\<lparr>p_reqCache := rc\<rparr>)" using cache_grows [OF assms(1)] by blast
  then show ?thesis using assms(4) rc startReqVerify_ok [OF _ assms(2,3), where s' = s']
    by (auto simp: p_AddReq_def split: option.splits if_splits)
qed

lemma p_AddLocalReq_ok:
  assumes "proc_ok e W r n (vp, p)" "env_ok e" "w \<in> W" "p_AddLocalReq e w now msg (vp, p) = Some s'"
  shows "proc_ok e W r n s'"
proof -
  obtain rc err where rc: "rc_AddLocalReq (ve_rlpHash e) (p_reqCache p) (Some msg) = Some (rc, err)"
    using assms(4) by (auto simp: p_AddLocalReq_def split: option.splits)
  have "rc_ok (ve_rlpHash e) (p_reqCache p)" using assms(1) by (simp add: proc_ok_def base_ok_def)
  then have "rc_ok (ve_rlpHash e) rc" by (rule rc_AddLocalReq_ok [OF _ rc])
  moreover have "\<exists>ys. rc_heap rc = rc_heap (p_reqCache p) @ ys" using rc by (auto simp: rc_simps split: option.splits)
  ultimately have "proc_ok e W r n (vp, p\<lparr>p_reqCache := rc\<rparr>)" using cache_grows [OF assms(1)] by blast
  then show ?thesis using assms(4) rc startReqVerify_ok [OF _ assms(2,3), where s' = s']
    by (auto simp: p_AddLocalReq_def split: option.splits if_splits)
qed

lemma ProcessRecoveryMsg_ok:
  assumes "proc_ok e W r n (vp, p)" "env_ok e" "w \<in> W" "ProcessRecoveryMsg e w now header (vp, p) = Some s'"
  shows "proc_ok e W r n s'"
proof -
  have pool: "proc_ok e W r n (vp', p)" if "vpool_ok e vp'" for vp'
    using assms(1) that by (simp add: proc_ok_def base_ok_def)
  have vp: "vpool_ok e (DelVotes vp h)" for h using assms(1) by (simp add: proc_ok_def base_ok_def DelVotes_ok)
  consider "s' = (vp, p)" | h signs vp' where "add_signs e now h signs (DelVotes vp h) = Some vp'" "processDPOSOnce e w (vp', p) = Some s'"
    using assms(4) by (auto simp: ProcessRecoveryMsg_def Let_def split: sum.splits if_splits option.splits)
  then show ?thesis
  proof cases
    case 2
    show ?thesis by (rule processDPOSOnce_ok [OF pool [OF add_signs_ok [OF assms(2) vp 2(1)]] assms(2,3) 2(2)])
  qed (use assms(1) in simp)
qed

lemma StartRunning_ok:
  assumes "proc_ok e W r n (vp, p)" "env_ok e" "w \<in> W" "StartRunning e w now r (vp, p) = Some s'"
  shows "proc_ok e W r n s'"
proof -
  have "proc_ok e W r n (vp, changeState StateStart (p\<lparr>p_role := r\<rparr>))"
    using assms(1) by (auto simp: proc_ok_def base_ok_def phase_ok_def changeState_def of_leader_def cur_req_def)
  then show ?thesis using startReqVerify_ok [OF _ assms(2,3), where s' = s'] assms(4) by (simp add: StartRunning_def)
qed

lemma SetLeaderInfo_ok:
  assumes "proc_ok e W r n (vp, p)" "env_ok e" "w \<in> W" "SetLeaderInfo e w now info (vp, p) = Some s'"
  shows "proc_ok e W r n s'"
proof -
  define p0 where "p0 = p\<lparr>p_leaderCache := (p_leaderCache p)\<lparr>lcn_ConsensusState := lcn_ConsensusState info\<rparr>\<rparr>"
  define p1 where "p1 = stopSender (p0\<lparr>p_leaderCache := (p_leaderCache p0)\<lparr>lcn_Leader := lcn_Leader info, lcn_NextLeader := lcn_NextLeader info,
     lcn_ConsensusTurn := lcn_ConsensusTurn info, lcn_ReelectTurn := lcn_ReelectTurn info,
     lcn_TurnBeginTime := lcn_TurnBeginTime info, lcn_TurnEndTime := lcn_TurnEndTime info\<rparr>, p_curProcessReq := None,
     p_reqCache := SetCurTurn (p_reqCache p) (lcn_ConsensusTurn info)\<rparr>)"
  have b: "base_ok e W r n (vp, p)" "phase_ok e W r n p" using assms(1) by (simp_all add: proc_ok_def)
  have p0: "proc_ok e W r n (vp, p0)"
    using b by (auto simp: proc_ok_def base_ok_def phase_ok_def of_leader_def in_window_def cur_req_def p0_def vote_backed_leader(1))
  have stop: "proc_ok e W r n (vp, stopProcess p0)"
    using p0 by (auto simp: stopProcess_def closeMineReqMsgSender_def proc_ok_def base_ok_def phase_ok_def Let_def
        elim!: vote_backed_leader(2))
  have p1: "proc_ok e W r n (vp, if 0 < state_code (p_state p1) then p1\<lparr>p_state := StateStart\<rparr> else p1)"
    using b SetCurTurn_ok by (auto simp: proc_ok_def base_ok_def phase_ok_def p1_def p0_def of_leader_def)
  have rn: "p_role p1 = RoleValidator \<Longrightarrow> r \<noteq> RoleBroadcast"
    using b(2) by (auto simp: phase_ok_def p1_def p0_def role_defs)
  have "s' = (vp, stopProcess p0) \<or> s' = (vp, p0) \<or> s' = (vp, if 0 < state_code (p_state p1) then p1\<lparr>p_state := StateStart\<rparr> else p1) \<or>
      p_role p1 = RoleValidator \<and> startReqVerifyCommon e w now (vp, p1\<lparr>p_state := StateStart\<rparr>) = Some s' \<and> 0 < state_code (p_state p1)"
    using assms(4) by (auto simp: SetLeaderInfo_def Let_def p1_def p0_def split: if_splits)
  then show ?thesis using p0 stop p1 rn startReqVerifyCommon_ok [OF _ _ assms(2,3), where s' = s'] by auto
qed

lemma proc_handle_ok:
  assumes "proc_ok e W r n s" "env_ok e" "w \<in> W" "\<forall>r'. ev = EvStart r' \<longrightarrow> r' = r" "proc_handle e w now ev s = Some s'"
  shows "proc_ok e W r n s'"
proof -
  obtain vp p where s: "s = (vp, p)" by fastforce
  have ok: "proc_ok e W r n (vp, p)" using assms(1) s by simp
  show ?thesis
  proof (cases ev)
    case (EvStart r0)
    then show ?thesis using StartRunning_ok [OF ok assms(2,3), where s' = s'] assms(4,5) by (simp add: s proc_handle_def)
  next
    case (EvLeader info)
    then show ?thesis using SetLeaderInfo_ok [OF ok assms(2,3), where s' = s'] assms(4,5) by (simp add: s proc_handle_def)
  next
    case (EvReq msg)
    then show ?thesis using p_AddReq_ok [OF ok assms(2,3), where s' = s'] assms(4,5) by (simp add: s proc_handle_def)
  next
    case (EvLocal msg)
    then show ?thesis using p_AddLocalReq_ok [OF ok assms(2,3), where s' = s'] assms(4,5) by (simp add: s proc_handle_def)
  next
    case EvDPOS
    then show ?thesis using processDPOSOnce_ok [OF ok assms(2,3), where s' = s'] assms(4,5) by (simp add: s proc_handle_def)
  next
    case (EvRecovery h)
    then show ?thesis using ProcessRecoveryMsg_ok [OF ok assms(2,3), where s' = s'] assms(4,5) by (simp add: s proc_handle_def)
  next
    case (EvTxs res)
    then show ?thesis using VerifyTxs_ok [OF ok assms(2,3), where s' = s'] assms(4,5) by (simp add: s proc_handle_def)
  next
    case (EvTxsTimeOut seq)
    then show ?thesis using assms(5) ok startDPOSVerify_ok [OF ok assms(2,3), where s' = s']
      by (auto simp: s proc_handle_def ProcessTxsAcquireTimeOut_def checkState_def split: if_splits)
  qed
qed

lemma proc_reachable_ok:
  assumes "proc_reachable e W r n s" "env_ok e"
  shows "proc_ok e W r n s"
  using assms(1)
proof induction
  case (step s w ev now s')
  then show ?case using proc_handle_ok [OF _ assms(2)] by blast
next
  case (pool vp p vp')
  then show ?case by (simp add: proc_ok_def base_ok_def)
qed (rule newProcess_ok)

end
