(* ===== verification/Blk_Verify.thy ===== *)
theory Blk_Verify
  imports Blk_Safety
begin

text \<open>
  What the verification of proposed blocks guarantees: for which blocks a process votes, for which it asks
  the miners, that it votes once per turn, that a quorum of votes ends it, that it does not panic, and a
  place where the process of a broadcast node gets stuck.
\<close>

section \<open>What votes and mining requests rest on\<close>

text \<open>C16: A validator votes only for blocks it made or verified itself. In every state a process can reach, the
  vote it is sending is for its own number and for the hash of a request made by this node, or of a header that
  passed every check of \<open>processReqOnce\<close> and \<open>VerifyTxs\<close>: the header check of the engine, the election, the
  topology, and the execution of transactions that reproduced the hash. While the process has a leader (address
  other than 0, the value \<open>stopProcess\<close> leaves), the header is that of the leader and its time lies between the
  begin and the end of the leader's turn.\<close>

theorem votes_only_verified:
  assumes "proc_reachable e W r n (vp, p)" "env_ok e" "p_voteMsgSender p = Some v"
  shows "cv_Round v = n \<and>
    ((\<exists>rd \<in> set (rc_heap (p_reqCache p)). rd_localReq rd \<and> rd_hash rd = cv_SignHash v) \<or>
     (\<exists>h. HashNoSignsAndNonce (ve_rlpHash e) h = cv_SignHash v \<and>
       (lcn_Leader (p_leaderCache p) \<noteq> 0 \<longrightarrow> h_Leader h = lcn_Leader (p_leaderCache p) \<and>
          lcn_TurnBeginTime (p_leaderCache p) \<le> i64 (int (h_Time h)) \<and>
          i64 (int (h_Time h)) \<le> lcn_TurnEndTime (p_leaderCache p)) \<and>
       (\<exists>w \<in> W. vw_VerifyHeader w h \<and> verifyElection (ve_rlpHash e) (vw_check w) n h = None \<and>
          verifyNetTopology (ve_rlpHash e) (vw_check w) n h = None) \<and>
       (\<exists>w \<in> W. \<exists>txs lh rs st. vw_Execute w (h\<lparr>h_GasUsed := 0\<rparr>) txs = ExecDone lh rs st \<and>
          HashNoSignsAndNonce (ve_rlpHash e) lh = cv_SignHash v)))"
proof -
  have "cv_Round v = n \<and> vote_backed e W n (p_leaderCache p) (p_reqCache p) (cv_SignHash v)"
    using proc_reachable_ok [OF assms(1,2)] assms(3) by (simp add: proc_ok_def base_ok_def)
  then show ?thesis
    unfolding vote_backed_def checked_hash_def header_checked_def reproduces_def of_turn_def in_window_def by metis
qed

text \<open>C17: The miners are asked only to mine blocks that a quorum of the validators signed: the signatures in the
  header of the request convince every node that knows the same validators.\<close>

theorem mining_request_has_quorum:
  assumes "proc_reachable e W r n (vp, p)" "env_ok e" "p_mineReqMsgSender p = Some h" "order_ok od"
    and "\<forall>w \<in> W. \<forall>stocks. getValidatorStocks (vw_reader w) n = Inr stocks \<longrightarrow> length stocks < 2 ^ 48"
  shows "\<exists>w \<in> W. \<exists>signs. VerifyHashWithNumber od (ve_crypto e) (vw_reader w)
    (HashNoSignsAndNonce (ve_rlpHash e) h) (h_Signatures h) n = Inr signs"
proof -
  let ?hs = "HashNoSignsAndNonce (ve_rlpHash e) h"
  obtain w vs where w: "w \<in> W" "VerifyHashWithVerifiedSignsAndNumber (ve_order e) (vw_reader w) vs n = Inr (h_Signatures h)"
    "\<forall>s \<in> set vs. VerifySignWithValidate (ve_crypto e) ?hs (vs_Sign s) = SignOk (vs_Account s) (vs_Validate s)"
    using proc_reachable_ok [OF assms(1,2)] assms(3) by (auto simp: proc_ok_def base_ok_def mine_backed_def)
  have "list_all2 (\<lambda>s v. VerifySignWithValidate (ve_crypto e) ?hs s = SignOk (vs_Account v) (vs_Validate v) \<and> vs_Sign v = s)
      (map vs_Sign vs) vs"
    using w(3) by (simp add: list_all2_conv_all_nth)
  from verified_signs_same [OF this, of "ve_order e" "vw_reader w" n]
  have v: "VerifyHashWithNumber (ve_order e) (ve_crypto e) (vw_reader w) ?hs (map vs_Sign vs) n = Inr (h_Signatures h)"
    using w(2) by simp
  then obtain stocks where st: "getValidatorStocks (vw_reader w) n = Inr stocks"
    "VerifyHashWithStocks (ve_order e) (ve_crypto e) ?hs (map vs_Sign vs) stocks = Inr (h_Signatures h)"
    by (auto simp: VerifyHashWithNumber_def split: sum.splits)
  have "\<exists>r'. VerifyHashWithStocks od (ve_crypto e) ?hs (h_Signatures h) stocks = Inr r'"
    using returned_signs_accepted [OF st(2) _ assms(4) getValidatorStocks_ok [OF st(1)]] assms(2,5) w(1) st(1)
    by (simp add: env_ok_def)
  then have "\<exists>signs. VerifyHashWithNumber od (ve_crypto e) (vw_reader w) ?hs (h_Signatures h) n = Inr signs"
    using st(1) by (simp add: VerifyHashWithNumber_def)
  then show ?thesis using w(1) by blast
qed

lemma quorum_finishes:
  assumes "proc_reachable e W r n (vp, p)" "env_ok e" "p_state p = StateDPOSVerify" "cur_req p = Some req"
    and "rd_localVerifyResult req = LocalVerifySuccess \<or> rd_localVerifyResult req = LocalVerifyFailedButCanRecover"
    and "getValidatorStocks (vw_reader w) n = Inr stocks" "3 \<le> length stocks" "length stocks < 2 ^ 48"
    and "dpos_quorum (length stocks) \<le> card {a. map_has stocks a \<and>
      (\<exists>v. lookup_vote (voteMap vp) a (rd_hash req) = Some v \<and> vs_Validate (vi_sign v))}"
    and "ve_NewResendMsgCtrl e MinerReqSendInterval 0"
  shows "\<exists>vp' p' h. proc_handle e w now EvDPOS (vp, p) = Some (vp', p') \<and> p_state p' = StateEnd \<and>
    p_mineReqMsgSender p' = Some h \<and> HashNoSignsAndNonce (ve_rlpHash e) h = rd_hash req"
proof -
  have ok: "base_ok e W r n (vp, p)" using proc_reachable_ok [OF assms(1,2)] by (simp add: proc_ok_def)
  then have vp: "pool_ok (ve_crypto e) vp" "p_number p = n" by (simp_all add: base_ok_def vpool_ok_def)
  let ?hs = "rd_hash req" and ?vs = "GetVotes (ve_poolRange e) vp (rd_hash req)"
  have rng: "range_order (ve_poolRange e)" "order_ok (ve_order e)" using assms(2) by (simp_all add: env_ok_def)
  have gv: "set ?vs = {vi_sign v | a v. lookup_vote (voteMap vp) a ?hs = Some v}"
    "\<forall>s \<in> set ?vs. VerifySignWithValidate (ve_crypto e) ?hs (vs_Sign s) = SignOk (vs_Account s) (vs_Validate s)"
    using GetVotes_facts [OF vp(1) rng(1), of ?hs] by auto
  have "vs_Account (vi_sign v) = a" if "lookup_vote (voteMap vp) a ?hs = Some v" for a v
    using vp(1) that by (auto simp: pool_ok_def vote_ok_def)
  then have sub: "{a. map_has stocks a \<and> (\<exists>v. lookup_vote (voteMap vp) a ?hs = Some v \<and> vs_Validate (vi_sign v))} \<subseteq>
      agreers (ve_crypto e) ?hs (map vs_Sign ?vs) stocks"
    using gv by (fastforce simp: agreers_def)
  have q: "dpos_quorum (length stocks) \<le> card (agreers (ve_crypto e) ?hs (map vs_Sign ?vs) stocks)"
    using card_mono [OF _ sub] assms(9) by simp
  have np: "\<forall>s \<in> set (map vs_Sign ?vs). VerifySignWithValidate (ve_crypto e) ?hs s \<noteq> SignPanic" using gv(2) by auto
  obtain signs where "VerifyHashWithStocks (ve_order e) (ve_crypto e) ?hs (map vs_Sign ?vs) stocks = Inr signs"
    using quorum_accepts [OF rng(2) getValidatorStocks_ok [OF assms(6)] assms(7,8) np q] by blast
  moreover have "list_all2 (\<lambda>s v. VerifySignWithValidate (ve_crypto e) ?hs s = SignOk (vs_Account v) (vs_Validate v) \<and> vs_Sign v = s)
      (map vs_Sign ?vs) ?vs"
    using gv(2) by (simp add: list_all2_conv_all_nth)
  ultimately have v: "VerifyHashWithVerifiedSignsAndNumber (ve_order e) (vw_reader w) ?vs n = Inr signs"
    using verified_signs_same assms(6) by (simp add: VerifyHashWithNumber_def)
  obtain header where h: "bcr_Header (rd_req req) = Some header" "?hs = HashNoSignsAndNonce (ve_rlpHash e) header"
    using cur_req_data [OF ok assms(4)] by (auto simp: data_ok_def)
  let ?req = "set_signatures signs req"
  have r: "rd_header ?req = header\<lparr>h_Signatures := signs\<rparr>" "rd_localVerifyResult ?req = rd_localVerifyResult req"
    by (simp_all add: set_signatures_def h(1))
  have f: "proc_handle e w now EvDPOS (vp, p) = Some (finishedProcess e ?req (vp, set_cur (set_signatures signs) p))"
    using assms(3,4) v vp(2) by (simp add: proc_handle_def processDPOSOnce_def checkState_def)
  obtain vp' p' where p': "finishedProcess e ?req (vp, set_cur (set_signatures signs) p) = (vp', p')" by fastforce
  then have "p_state p' = StateEnd" "p_mineReqMsgSender p' = Some (header\<lparr>h_Signatures := signs\<rparr>)"
    using assms(5,10) r by (auto simp: finishedProcess_def Let_def split: if_splits)
  then show ?thesis using f p' h(2) by auto
qed

text \<open>C18: A quorum of votes starts the mining. When the pool holds agreeing votes of a quorum of the validators
  for the block a process works on, and the process could verify the block or can take it over from the
  others, its next look at the pool ends the verification and sends the block to the miners.\<close>

theorem quorum_starts_mining:
  assumes "proc_reachable e W r n (vp, p)" "env_ok e" "p_state p = StateDPOSVerify" "cur_req p = Some req"
    and "rd_localVerifyResult req = LocalVerifySuccess \<or> rd_localVerifyResult req = LocalVerifyFailedButCanRecover"
    and "getValidatorStocks (vw_reader w) n = Inr stocks" "3 \<le> length stocks" "length stocks < 2 ^ 48"
    and "dpos_quorum (length stocks) \<le> card {a. map_has stocks a \<and>
      (\<exists>v. lookup_vote (voteMap vp) a (rd_hash req) = Some v \<and> vs_Validate (vi_sign v))}"
    and "ve_NewResendMsgCtrl e MinerReqSendInterval 0"
  shows "\<exists>vp' p' h. proc_handle e w now EvDPOS (vp, p) = Some (vp', p') \<and> p_state p' = StateEnd \<and>
    p_mineReqMsgSender p' = Some h \<and> HashNoSignsAndNonce (ve_rlpHash e) h = rd_hash req"
  using assms by (rule quorum_finishes)

section \<open>One vote per turn\<close>

text \<open>What can happen to the process of a validator while no change of the leader is announced.\<close>

inductive in_turn :: "verify_env \<Rightarrow> 'x pstate \<Rightarrow> 'x pstate \<Rightarrow> bool" for e s where
  refl: "in_turn e s s"
| step: "in_turn e s s1 \<Longrightarrow> (\<forall>info. ev \<noteq> EvLeader info) \<Longrightarrow> (\<forall>r. ev = EvStart r \<longrightarrow> r = RoleValidator) \<Longrightarrow>
    proc_handle e w now ev s1 = Some s2 \<Longrightarrow> in_turn e s s2"
| pool: "in_turn e s (vp, p) \<Longrightarrow> in_turn e s (vp', p)"

text \<open>The part of a process that a vote fixes.\<close>

definition settled :: "'x Process \<Rightarrow> 'x Process \<Rightarrow> bool" where
  "settled p p' \<longleftrightarrow> p_role p' = RoleValidator \<and> 4 \<le> state_code (p_state p') \<and> p_voteMsgSender p' = p_voteMsgSender p \<and>
    p_curProcessReq p' = p_curProcessReq p \<and> p_leaderCache p' = p_leaderCache p"

lemma settled_refl: "p_role p = RoleValidator \<Longrightarrow> 4 \<le> state_code (p_state p) \<Longrightarrow> settled p p"
  by (simp add: settled_def)

lemma finishedProcess_settled:
  "settled p q \<Longrightarrow> settled p (snd (finishedProcess e req (vp, q)))"
  by (simp add: settled_def finishedProcess_def Let_def)

lemma processDPOSOnce_settled:
  assumes "settled p q" "processDPOSOnce e w (vp, q) = Some (vp', p')"
  shows "settled p p'"
proof (cases "checkState StateDPOSVerify q")
  case True
  have "settled p (set_cur f q)" for f using assms(1) by (simp add: settled_def)
  then have "settled p (snd (finishedProcess e req (vp, set_cur f q)))" for f req by (rule finishedProcess_settled)
  then show ?thesis using assms True
    by (auto simp: processDPOSOnce_def split: option.splits sum.splits) (metis snd_conv)
qed (use assms in \<open>simp add: processDPOSOnce_def\<close>)

lemma startReqVerify_settled:
  assumes "settled p q" "startReqVerify e w now (vp, q) = Some (vp', p')"
  shows "p' = q"
proof -
  have "\<not> checkState StateStart q" using assms(1) by (auto simp: settled_def checkState_def)
  then show ?thesis using assms by (auto simp: settled_def startReqVerify_def startReqVerifyCommon_def role_defs)
qed

lemma proc_handle_settled:
  assumes "settled p q" "\<forall>info. ev \<noteq> EvLeader info" "\<forall>r. ev = EvStart r \<longrightarrow> r = RoleValidator"
    and "proc_handle e w now ev (vp, q) = Some (vp', p')"
  shows "settled p p'"
proof (cases ev)
  case (EvStart r)
  have "settled p (changeState StateStart (q\<lparr>p_role := RoleValidator\<rparr>))" using assms(1) by (auto simp: settled_def changeState_def)
  then show ?thesis using assms EvStart startReqVerify_settled by (fastforce simp: proc_handle_def StartRunning_def)
next
  case (EvReq msg)
  have "settled p (q\<lparr>p_reqCache := rc\<rparr>)" for rc using assms(1) by (simp add: settled_def)
  then show ?thesis using assms(4) EvReq startReqVerify_settled
    by (fastforce simp: proc_handle_def p_AddReq_def split: option.splits prod.splits if_splits)
next
  case (EvLocal msg)
  have "settled p (q\<lparr>p_reqCache := rc\<rparr>)" for rc using assms(1) by (simp add: settled_def)
  then show ?thesis using assms(4) EvLocal startReqVerify_settled
    by (fastforce simp: proc_handle_def p_AddLocalReq_def split: option.splits prod.splits)
next
  case EvDPOS
  then show ?thesis using assms(1,4) processDPOSOnce_settled by (fastforce simp: proc_handle_def)
next
  case (EvRecovery h)
  then show ?thesis using assms(1,4) processDPOSOnce_settled
    by (fastforce simp: proc_handle_def ProcessRecoveryMsg_def Let_def split: sum.splits if_splits option.splits)
next
  case (EvTxs res)
  have "\<not> checkState StateTxsVerify q" using assms(1) by (auto simp: settled_def checkState_def)
  then show ?thesis using assms(1,4) EvTxs by (simp add: proc_handle_def VerifyTxs_def)
next
  case (EvTxsTimeOut seq)
  have "\<not> checkState StateTxsVerify q" using assms(1) by (auto simp: settled_def checkState_def)
  then show ?thesis using assms(1,4) EvTxsTimeOut by (auto simp: proc_handle_def ProcessTxsAcquireTimeOut_def split: if_splits)
qed (use assms in simp)

text \<open>C19: A validator does not vote twice in a turn. Once its process has come to the collection of votes, no
  request, transactions, time-out, recovery or vote that arrives makes it vote again or turn to another
  request, until a new leader or turn is announced.\<close>

theorem vote_is_final:
  assumes "in_turn e (vp, p) (vp', p')" "p_role p = RoleValidator" "4 \<le> state_code (p_state p)"
  shows "p_voteMsgSender p' = p_voteMsgSender p \<and> p_curProcessReq p' = p_curProcessReq p \<and> p_leaderCache p' = p_leaderCache p \<and>
    4 \<le> state_code (p_state p')"
proof -
  have "settled p (snd s')" if "in_turn e (vp, p) s'" for s'
    using that
  proof induction
    case (step s1 ev w now s2)
    then show ?case using proc_handle_settled [of p "snd s1" ev e w now "fst s1" "fst s2" "snd s2"] by simp
  qed (use settled_refl [OF assms(2,3)] in simp_all)
  from this [OF assms(1)] show ?thesis by (simp add: settled_def)
qed

section \<open>Panics\<close>

definition quiet :: "verify_env \<Rightarrow> bool" where
  "quiet e \<longleftrightarrow> (\<forall>h s. VerifySignWithValidate (ve_crypto e) (HashNoSignsAndNonce (ve_rlpHash e) h) s \<noteq> SignPanic) \<and>
    (\<forall>h. SignHashWithValidate (ve_signHelper e) h True \<noteq> None)"

lemma pool_add_returns:
  assumes "vpool_ok e vp" "env_ok e" "\<forall>s. VerifySignWithValidate (ve_crypto e) h s \<noteq> SignPanic"
  shows "\<exists>vp' err. pool_add e now vp h sign a vf = Some (vp', err)"
proof -
  obtain vp' err where "AddVote (ve_crypto e) (ve_voteRange e) now vp h sign a vf = Some (vp', err)"
    using AddVote_keeps assms(1,2) by (auto simp: vpool_ok_def env_ok_def) blast
  moreover have "err \<noteq> Some VotePanic"
    using calculation assms(3) by (auto simp: AddVote_def Let_def addVoteToMap_def split: if_splits sign_outcome.splits option.splits prod.splits)
  ultimately show ?thesis by (simp add: pool_add_def)
qed

lemma cur_hash_quiet:
  assumes "base_ok e W r n (vp, p)" "cur_req p = Some rd" "quiet e"
  shows "VerifySignWithValidate (ve_crypto e) (rd_hash rd) s \<noteq> SignPanic"
  using cur_req_header [OF assms(1,2)] assms(3) by (auto simp: quiet_def)

lemma cur_req_present: "p_curProcessReq p \<noteq> None \<Longrightarrow> \<exists>rd. cur_req p = Some rd"
  by (auto simp: cur_req_def)

lemma processDPOSOnce_returns:
  assumes "p_state p = StateDPOSVerify \<longrightarrow> p_curProcessReq p \<noteq> None"
  shows "processDPOSOnce e w (vp, p) \<noteq> None"
proof (cases "checkState StateDPOSVerify p")
  case True
  then obtain rd where "cur_req p = Some rd" using assms cur_req_present by (auto simp: checkState_def)
  then show ?thesis by (simp add: processDPOSOnce_def split: sum.splits)
qed (simp add: processDPOSOnce_def)

lemma sendVote_returns:
  assumes "base_ok e W r n (vp, p)" "p_curProcessReq p \<noteq> None" "env_ok e" "quiet e"
  shows "\<exists>vp' p'. sendVote e now True (vp, p) = Some (vp', p') \<and> p_curProcessReq p' = p_curProcessReq p"
proof -
  obtain rd where rd: "cur_req p = Some rd" using cur_req_present [OF assms(2)] by blast
  have "\<exists>vp' err. pool_add e now vp (rd_hash rd) sign 0 False = Some (vp', err)" for sign
    using assms pool_add_returns cur_hash_quiet [OF assms(1) rd assms(4)] by (simp add: base_ok_def)
  moreover obtain r where "SignHashWithValidate (ve_signHelper e) (rd_hash rd) True = Some r"
    using assms(4) by (force simp: quiet_def)
  ultimately show ?thesis by (cases r) (fastforce simp: sendVote_def rd Let_def split: option.splits)+
qed

lemma bcFinishedProcess_returns: "p_curProcessReq p \<noteq> None \<Longrightarrow> bcFinishedProcess lv p \<noteq> None"
  using cur_req_present [of "set_cur (\<lambda>rd. rd\<lparr>rd_localVerifyResult := lv\<rparr>) p"]
  by (auto simp: bcFinishedProcess_def Let_def)

lemma startDPOSVerify_returns:
  assumes "base_ok e W r n (vp, p)" "p_curProcessReq p \<noteq> None" "env_ok e" "quiet e"
  shows "startDPOSVerify e w now lv (vp, p) \<noteq> None"
proof -
  obtain vp1 p1 where v: "(if lv = LocalVerifySuccess then sendVote e now True (vp, p) else Some (vp, p)) = Some (vp1, p1)"
    "p_curProcessReq p1 = p_curProcessReq p"
    using sendVote_returns [OF assms, of now] by (cases "lv = LocalVerifySuccess") auto
  have "processDPOSOnce e w (vp1, (set_cur (\<lambda>rd. rd\<lparr>rd_localVerifyResult := lv\<rparr>) p1)\<lparr>p_state := StateDPOSVerify\<rparr>) \<noteq> None"
    using v(2) assms(2) by (intro processDPOSOnce_returns) simp
  then show ?thesis using v assms(2) bcFinishedProcess_returns [OF assms(2)] by (auto simp: startDPOSVerify_def simp del: if_split)
qed

lemma startTxsVerify_returns: "p_curProcessReq p \<noteq> None \<Longrightarrow> startTxsVerify p \<noteq> None"
  by (auto simp: startTxsVerify_def Let_def cur_req_def changeState_def)

lemma bcProcessReqVerify_returns: "p_curProcessReq p \<noteq> None \<Longrightarrow> bcProcessReqVerify w p \<noteq> None"
  using cur_req_present [of p] startTxsVerify_returns [of p] bcFinishedProcess_returns [of p]
  by (auto simp: bcProcessReqVerify_def)

lemma bc_req_loop_returns:
  assumes "quiet e"
  shows "bc_req_loop e w reqs p \<noteq> None"
proof (induction reqs arbitrary: p)
  case (Cons i reqs)
  have "VerifyBlock (ve_order e) (ve_crypto e) (ve_rlpHash e) (ve_BroadCastNodes e) (vw_reader w) h \<noteq> Some DposPanic" for h
    using VerifyBlock_panic assms unfolding quiet_def by blast
  moreover have "bcProcessReqVerify w (p\<lparr>p_curProcessReq := Some i, p_state := StateReqVerify\<rparr>) \<noteq> None" for p :: "'a Process"
    by (rule bcProcessReqVerify_returns) simp
  ultimately show ?case using Cons
    by (auto simp: Let_def simp del: not_None_eq split: option.splits)
qed simp

lemma processReqOnce_returns:
  assumes "base_ok e W r n (vp, p)" "p_curProcessReq p \<noteq> None" "env_ok e" "quiet e"
  shows "processReqOnce e w now (vp, p) \<noteq> None"
proof -
  obtain rd where "cur_req p = Some rd" using cur_req_present [OF assms(2)] by blast
  then show ?thesis using startDPOSVerify_returns [OF assms] startTxsVerify_returns [OF assms(2)]
    by (auto simp: processReqOnce_def Let_def simp del: not_None_eq)
qed

lemma startReqVerify_returns:
  assumes "base_ok e W r n (vp, p)" "env_ok e" "quiet e"
  shows "startReqVerifyCommon e w now (vp, p) \<noteq> None" "startReqVerify e w now (vp, p) \<noteq> None"
proof -
  have "processReqOnce e w now (vp, p\<lparr>p_curProcessReq := Some i, p_state := StateReqVerify\<rparr>) \<noteq> None"
    if "GetLeaderReq (p_reqCache p) a t = Inr i" for a t i
  proof (rule processReqOnce_returns [OF _ _ assms(2,3)])
    have "i < length (rc_heap (p_reqCache p))"
      using that assms(1) unfolding GetLeaderReq_iff base_ok_def rc_ok_def by blast
    then show "base_ok e W r n (vp, p\<lparr>p_curProcessReq := Some i, p_state := StateReqVerify\<rparr>)"
      using assms(1) by (auto simp: base_ok_def)
  qed simp
  then show c: "startReqVerifyCommon e w now (vp, p) \<noteq> None"
    by (auto simp: startReqVerifyCommon_def simp del: not_None_eq split: sum.splits)
  show "startReqVerify e w now (vp, p) \<noteq> None"
    using c bc_req_loop_returns [OF assms(3)] by (auto simp: startReqVerify_def startReqVerifyBC_def simp del: not_None_eq)
qed

text \<open>Messages whose pointers are set, as the handlers of the service check.\<close>

fun event_complete :: "'x proc_event \<Rightarrow> bool" where
  "event_complete (EvReq msg) = (Option.bind msg bcr_Header \<noteq> None)"
| "event_complete (EvLocal msg) = (bcr_Header (lr_BlkVerifyConsensusReq msg) \<noteq> None)"
| "event_complete ev = True"

lemma add_signs_returns:
  assumes "env_ok e" "\<forall>s. VerifySignWithValidate (ve_crypto e) h s \<noteq> SignPanic"
  shows "vpool_ok e vp \<Longrightarrow> add_signs e now h signs vp \<noteq> None"
proof (induction signs arbitrary: vp)
  case (Cons s signs)
  obtain vp' err where "pool_add e now vp h s 0 False = Some (vp', err)"
    using pool_add_returns [OF Cons.prems assms] by blast
  then show ?case using Cons.IH [OF pool_add_ok [OF Cons.prems assms(1)]] by simp
qed simp

lemma SetLeaderInfo_returns:
  assumes "proc_ok e W r n (vp, p)" "env_ok e" "quiet e"
  shows "SetLeaderInfo e w now info (vp, p) \<noteq> None"
proof -
  have "base_ok e W r n (vp, stopSender (p\<lparr>p_leaderCache := l, p_curProcessReq := None,
      p_reqCache := SetCurTurn (p_reqCache p) t\<rparr>)\<lparr>p_state := StateStart\<rparr>)" for l t
    using assms(1) SetCurTurn_ok by (auto simp: proc_ok_def base_ok_def)
  from startReqVerify_returns(1) [OF this assms(2,3)] show ?thesis
    by (auto simp: SetLeaderInfo_def Let_def simp del: not_None_eq)
qed

lemma grown_returns:
  assumes "proc_ok e W r n (vp, p)" "env_ok e" "quiet e" "rc_ok (ve_rlpHash e) rc" "rc_heap rc = rc_heap (p_reqCache p) @ ys"
  shows "startReqVerify e w now (vp, p\<lparr>p_reqCache := rc\<rparr>) \<noteq> None"
proof -
  have "base_ok e W r n (vp, p\<lparr>p_reqCache := rc\<rparr>)" using cache_grows [OF assms(1,4,5)] by (simp add: proc_ok_def)
  then show ?thesis by (rule startReqVerify_returns(2) [OF _ assms(2,3)])
qed

lemma p_AddReq_returns:
  assumes "proc_ok e W r n (vp, p)" "env_ok e" "quiet e" "bcr_Header m = Some h"
  shows "p_AddReq e w now (Some m) (vp, p) \<noteq> None"
proof -
  have rc: "rc_ok (ve_rlpHash e) (p_reqCache p)" using assms(1) by (simp add: proc_ok_def base_ok_def)
  obtain rc err where a: "rc_AddReq (ve_rlpHash e) (p_reqCache p) (Some m) = Some (rc, err)"
    using assms(4) by (cases "rc_AddReq (ve_rlpHash e) (p_reqCache p) (Some m)") (auto simp: rc_simps split: if_splits)
  obtain ys where "rc_heap rc = rc_heap (p_reqCache p) @ ys" using rc_AddReq_effect [OF a] by auto
  from grown_returns [OF assms(1-3) rc_AddReq_ok [OF rc a] this] show ?thesis using a
    by (cases err) (auto simp: p_AddReq_def simp del: not_None_eq)
qed

lemma p_AddLocalReq_returns:
  assumes "proc_ok e W r n (vp, p)" "env_ok e" "quiet e" "bcr_Header (lr_BlkVerifyConsensusReq m) = Some h"
  shows "p_AddLocalReq e w now m (vp, p) \<noteq> None"
proof -
  have rc: "rc_ok (ve_rlpHash e) (p_reqCache p)" using assms(1) by (simp add: proc_ok_def base_ok_def)
  obtain rc err where a: "rc_AddLocalReq (ve_rlpHash e) (p_reqCache p) (Some m) = Some (rc, err)"
    using assms(4) by (simp add: rc_simps)
  obtain ys where "rc_heap rc = rc_heap (p_reqCache p) @ ys" using a assms(4) by (auto simp: rc_simps)
  from grown_returns [OF assms(1-3) rc_AddLocalReq_ok [OF rc a] this] show ?thesis using a
    by (cases err) (auto simp: p_AddLocalReq_def simp del: not_None_eq)
qed

lemma ProcessRecoveryMsg_returns:
  assumes "base_ok e W r n (vp, p)" "env_ok e" "quiet e" "2 \<le> state_code (p_state p) \<longrightarrow> p_curProcessReq p \<noteq> None"
  shows "ProcessRecoveryMsg e w now header (vp, p) \<noteq> None"
proof -
  have dp: "processDPOSOnce e w (vp', p) \<noteq> None" for vp' by (rule processDPOSOnce_returns) (use assms(4) in simp)
  have "add_signs e now (HashNoSignsAndNonce (ve_rlpHash e) header) signs (DelVotes vp h) \<noteq> None" for signs h
    using assms(1-3) by (intro add_signs_returns DelVotes_ok) (auto simp: base_ok_def quiet_def)
  then show ?thesis using dp
    by (auto simp: ProcessRecoveryMsg_def Let_def simp del: not_None_eq split: sum.splits option.splits)
qed

lemma VerifyTxs_returns:
  assumes "base_ok e W r n (vp, p)" "env_ok e" "quiet e" "2 \<le> state_code (p_state p) \<longrightarrow> p_curProcessReq p \<noteq> None"
  shows "VerifyTxs e w now res (vp, p) \<noteq> None"
proof (cases "checkState StateTxsVerify p")
  case True
  then have c: "p_curProcessReq p \<noteq> None" using assms(4) by (simp add: checkState_def)
  then obtain rd where rd: "cur_req p = Some rd" using cur_req_present by blast
  have q1: "base_ok e W r n (vp, set_cur (\<lambda>rd. rd\<lparr>rd_txs := t\<rparr>) p)" for t by (rule set_cur_base [OF assms(1)]) simp
  have q2: "base_ok e W r n (vp, set_cur (\<lambda>rd. rd\<lparr>rd_receipts := x, rd_stateDB := y\<rparr>) (set_cur (\<lambda>rd. rd\<lparr>rd_txs := t\<rparr>) p))" for t x y
    by (rule set_cur_base [OF q1]) simp
  show ?thesis
    using startDPOSVerify_returns [OF q1 _ assms(2,3)] startDPOSVerify_returns [OF q2 _ assms(2,3)]
      startDPOSVerify_returns [OF assms(1) c assms(2,3)] c True rd
    by (auto simp: VerifyTxs_def Let_def simp del: not_None_eq split: exec_result.splits)
qed (simp add: VerifyTxs_def)

lemma proc_handle_returns:
  assumes "proc_reachable e W r n s" "env_ok e" "event_complete ev" "quiet e"
  shows "proc_handle e w now ev s \<noteq> None"
proof -
  obtain vp p where s: "s = (vp, p)" by fastforce
  have ok: "proc_ok e W r n (vp, p)" using proc_reachable_ok [OF assms(1,2)] s by simp
  then have b: "base_ok e W r n (vp, p)" "phase_ok e W r n p" by (simp_all add: proc_ok_def)
  note q = assms(4)
  have cur: "2 \<le> state_code (p_state p) \<longrightarrow> p_curProcessReq p \<noteq> None" using b(2) by (simp add: phase_ok_def)
  show ?thesis
  proof (cases ev)
    case (EvStart role)
    have "base_ok e W r n (vp, changeState StateStart (p\<lparr>p_role := role\<rparr>))" using b(1) by (auto simp: base_ok_def changeState_def)
    from startReqVerify_returns(2) [OF this assms(2) q] show ?thesis using EvStart by (simp add: s proc_handle_def StartRunning_def)
  next
    case (EvLeader info)
    then show ?thesis using SetLeaderInfo_returns [OF ok assms(2) q] by (simp add: s proc_handle_def)
  next
    case (EvReq msg)
    then show ?thesis using assms(3) p_AddReq_returns [OF ok assms(2) q] by (auto simp: s proc_handle_def bind_eq_Some_conv)
  next
    case (EvLocal msg)
    then show ?thesis using assms(3) p_AddLocalReq_returns [OF ok assms(2) q] by (auto simp: s proc_handle_def)
  next
    case EvDPOS
    then show ?thesis using processDPOSOnce_returns [of p e w vp] cur by (simp add: s proc_handle_def)
  next
    case (EvRecovery header)
    then show ?thesis using ProcessRecoveryMsg_returns [OF b(1) assms(2) q cur] by (simp add: s proc_handle_def)
  next
    case (EvTxs res)
    then show ?thesis using VerifyTxs_returns [OF b(1) assms(2) q cur] by (simp add: s proc_handle_def)
  next
    case (EvTxsTimeOut seq)
    then show ?thesis using startDPOSVerify_returns [OF b(1) _ assms(2) q] cur
      by (auto simp: s proc_handle_def ProcessTxsAcquireTimeOut_def checkState_def simp del: not_None_eq)
  qed
qed

text \<open>C20: A process does not crash. In every reachable state every event whose message has no nil pointer
  inside is handled to its end, if signing does not panic and no header hash is so short that the check of
  a signature panics.\<close>

theorem process_no_panic:
  assumes "proc_reachable e W r n s" "env_ok e" "event_complete ev"
    and "\<forall>h s. VerifySignWithValidate (ve_crypto e) (HashNoSignsAndNonce (ve_rlpHash e) h) s \<noteq> SignPanic"
    and "\<forall>h. SignHashWithValidate (ve_signHelper e) h True \<noteq> None"
  shows "proc_handle e w now ev s \<noteq> None"
  by (rule proc_handle_returns [OF assms(1-3)]) (use assms(4,5) in \<open>simp add: quiet_def\<close>)

section \<open>A broadcast node that gives up\<close>

text \<open>A broadcast node whose check of a header fails, although the signatures of the block are right, leaves
  its process in the verification of that request: every request that arrives later is stored but not
  looked at, until a new leader or turn is announced.\<close>

theorem broadcast_failure_blocks:
  assumes "p_role p = RoleBroadcast" "p_state p = StateStart \<or> p_state p = StateEnd"
    and "GetAllReq (ve_reqRange e) (p_reqCache p) = i # rest" "i < length (rc_heap (p_reqCache p))"
    and "rd_localVerifyResult (req_at (p_reqCache p) i) = LocalVerifyProcessing"
    and "VerifyBlock (ve_order e) (ve_crypto e) (ve_rlpHash e) (ve_BroadCastNodes e) (vw_reader w) (rd_header (req_at (p_reqCache p) i)) = None"
    and "\<not> vw_VerifyHeader w (rd_header (req_at (p_reqCache p) i))"
  shows "\<exists>p'. startReqVerify e w now (vp, p) = Some (vp, p') \<and> p_state p' = StateReqVerify \<and> p_curProcessReq p' = Some i \<and>
    (\<forall>e w now vp m vp' p''. p_AddReq e w now m (vp, p') = Some (vp', p'') \<longrightarrow> vp' = vp \<and>
       p_state p'' = StateReqVerify \<and> p_curProcessReq p'' = Some i \<and> p_out p'' = p_out p')"
proof -
  let ?q = "p\<lparr>p_curProcessReq := Some i, p_state := StateReqVerify\<rparr>"
  let ?p' = "set_cur (\<lambda>rd. rd\<lparr>rd_localVerifyResult := LocalVerifyStateFailed\<rparr>) ?q"
  have "bcProcessReqVerify w ?q = Some ?p'"
    using assms(4,7) by (simp add: bcProcessReqVerify_def checkState_def cur_req_def bcFinishedProcess_def set_cur_def Let_def)
  then have s: "startReqVerify e w now (vp, p) = Some (vp, ?p')"
    using assms(1-3,5,6) by (auto simp: startReqVerify_def startReqVerifyBC_def checkState_def)
  have "vp' = vp \<and> p_state p'' = StateReqVerify \<and> p_curProcessReq p'' = Some i \<and> p_out p'' = p_out ?p'"
    if "p_AddReq e w now m (vp, ?p') = Some (vp', p'')" for e w now vp m vp' p''
    using that assms(1) by (auto simp: p_AddReq_def startReqVerify_def startReqVerifyBC_def checkState_def split: option.splits prod.splits if_splits)
  then show ?thesis using s by (intro exI [of _ ?p']) (simp del: split_paired_All)
qed

section \<open>Witnesses\<close>

text \<open>A validator with signing key 1 that verifies the request of leader 3 in turn 1 of block 41.\<close>

definition demo_hash :: hash where "demo_hash = 2 ^ 255"

definition demo_venv :: verify_env where
  "demo_venv = \<lparr>ve_crypto = open_crypto, ve_rlpHash = \<lambda>_. demo_hash, ve_order = demo_order, ve_voteRange = rev, ve_poolRange = rev,
    ve_reqRange = rev, ve_BroadCastNodes = [], ve_signHelper = \<lparr>sh_testMode = True, sh_testKey = \<lambda>h. Some 0x100, sh_signWallet = None\<rparr>,
    ve_NewResendMsgCtrl = \<lambda>_ _. True\<rparr>"

definition demo_vview :: "nat verify_view" where
  "demo_vview = \<lparr>vw_reader = demo_reader, vw_VerifyHeader = \<lambda>_. True,
    vw_check = demo_view\<lparr>cv_GetElection := \<lambda>_. Some no_elect, cv_GetNetTopologyAll := \<lambda>_. Some no_elect\<rparr>, vw_Execute = \<lambda>h txs. ExecDone h txs txs\<rparr>"

definition demo_lead :: LeaderChangeNotify where
  "demo_lead = \<lparr>lcn_ConsensusState = True, lcn_Leader = 3, lcn_NextLeader = 1, lcn_Number = 41, lcn_ConsensusTurn = 1,
    lcn_ReelectTurn = 0, lcn_TurnBeginTime = 0, lcn_TurnEndTime = 100\<rparr>"

lemma demo_venv_ok: "env_ok demo_venv" "vpool_ok demo_venv (NewVotePool RoleValidator)"
  using demo_order_ok new_pool_ok(1) by (simp_all add: env_ok_def demo_venv_def vpool_ok_def NewVotePool_def VotePoolCountLimit_def)

definition demo_proc1 :: "nat Process" where
  "demo_proc1 = (newProcess 41)\<lparr>p_role := RoleValidator, p_state := StateStart\<rparr>"

definition demo_proc2 :: "nat Process" where
  "demo_proc2 = demo_proc1\<lparr>p_leaderCache := demo_lead, p_reqCache := newReqCache\<lparr>rc_curTurn := 1\<rparr>\<rparr>"

lemma demo_step1: "proc_handle demo_venv demo_vview 0 (EvStart RoleValidator) (vp, newProcess 41) = Some (vp, demo_proc1)"
  by (simp add: proc_handle_def StartRunning_def changeState_def newProcess_def startReqVerify_def startReqVerifyCommon_def
      checkState_def demo_proc1_def role_defs)

lemma demo_step2: "proc_handle demo_venv demo_vview 0 (EvLeader demo_lead) (vp, demo_proc1) = Some (vp, demo_proc2)"
  by (simp add: proc_handle_def SetLeaderInfo_def demo_lead_def demo_proc1_def demo_proc2_def newProcess_def Let_def stopSender_def
      closeVoteMsgSender_def closePosedReqSender_def closeMineReqMsgSender_def startReqVerifyCommon_def checkState_def
      SetCurTurn_def newReqCache_def GetLeaderReq_def)

definition demo_data :: "nat reqData" where
  "demo_data = the (newReqData (\<lambda>_. demo_hash) (demo_req 3 3 1))"

definition demo_proc3 :: "nat reqData \<Rightarrow> proc_state \<Rightarrow> nat Process" where
  "demo_proc3 rd st = demo_proc2\<lparr>p_reqCache := newReqCache\<lparr>rc_curTurn := 1, rc_leaderReqCache := [(3, 0)], rc_heap := [rd]\<rparr>,
    p_curProcessReq := Some 0, p_state := st, p_txsAcquireSeq := 1, p_out := [AskTxs [] 1 3]\<rparr>"

lemma demo_step3: "proc_handle demo_venv demo_vview 0 (EvReq (Some (demo_req 3 3 1))) (vp, demo_proc2) = Some (vp, demo_proc3 demo_data StateTxsVerify)"
  by (simp add: proc_handle_def p_AddReq_def demo_req_def rc_simps demo_proc1_def demo_proc2_def newReqCache_def newProcess_def
      startReqVerify_def startReqVerifyCommon_def checkState_def demo_lead_def GetLeaderReq_def processReqOnce_def cur_req_def
      demo_vview_def demo_view_def verifyElection_def verifyNetTopology_def verifyChgNetTopology_def TransferToElectionStu_def
      elect_order_def no_elect_def zero_header_def topo_const_defs startTxsVerify_def changeState_def publish_def demo_proc3_def
      demo_data_def demo_venv_def role_defs i64_def verifyAllNetTopology_def same_topology_def TransferToNetTopologyAllStu_def)

lemma demo_hash_of: "HashNoSignsAndNonce (\<lambda>_. demo_hash) h = demo_hash"
  by (simp add: HashNoSignsAndNonce_def)

definition demo_sign :: "address \<Rightarrow> signature \<Rightarrow> voteInfo" where
  "demo_sign a s = \<lparr>vi_time = 0, vi_sign = \<lparr>vs_Sign = s, vs_Account = a, vs_Validate = True, vs_Stock = 0\<rparr>, vi_fromAccount = a,
    vi_signHash = demo_hash\<rparr>"

definition demo_pool :: "(address \<times> signature) list \<Rightarrow> VotePool" where
  "demo_pool xs = (NewVotePool RoleValidator)\<lparr>voteMap := map (\<lambda>(a, s). (a, [(demo_hash, demo_sign a s)])) xs,
    timeIndex := map (\<lambda>(a, s). demo_sign a s) xs\<rparr>"

lemma demo_pool_add: "pool_add demo_venv 0 (NewVotePool RoleValidator) demo_hash 0x100 0 False = Some (demo_pool [(1, 0x100)], None)"
  by (simp add: pool_add_def demo_venv_def AddVote_def open_verify sig64_def addVoteToMap_def fixPoolByTimeout_def fixPoolByCountLimit_def
      NewVotePool_def VotePoolTimeout_def VotePoolCountLimit_def demo_pool_def demo_sign_def count_loop.simps i64_def Let_def demo_hash_def)

definition demo_data4 :: "nat reqData" where
  "demo_data4 = demo_data\<lparr>rd_txs := Some 0, rd_receipts := Some 0, rd_stateDB := Some 0, rd_localVerifyResult := LocalVerifySuccess\<rparr>"

definition demo_proc4 :: "nat Process" where
  "demo_proc4 = (demo_proc3 demo_data4 StateDPOSVerify)\<lparr>p_voteMsgSender := Some \<lparr>cv_SignHash = demo_hash, cv_Round = 41, cv_Sign = 0x100, cv_From = 0\<rparr>,
    p_out := [AskTxs [] 1 3, PubVerifyConsensusOK (rd_header demo_data) demo_hash (Some 0) (Some 0) (Some 0)]\<rparr>"

lemma demo_data_simps:
  "rd_hash demo_data = demo_hash" "bcr_Header (rd_req demo_data) = Some (zero_header\<lparr>h_Leader := 3\<rparr>)" "rd_localReq demo_data = False"
  by (simp_all add: demo_data_def newReqData_def demo_req_def demo_hash_of)

lemma demo_sign_hash: "SignHashWithValidate (ve_signHelper demo_venv) h True = Some (Some 0x100)"
  by (simp add: SignHashWithValidate_def demo_venv_def SignWithValidate_def vote_hash_def)

lemma demo_resend: "ve_NewResendMsgCtrl demo_venv a b"
  by (simp add: demo_venv_def)

lemma demo_step4: "proc_handle demo_venv demo_vview 0 (EvTxs \<lparr>rt_Rxs = 0, rt_Err = False, rt_Resqe = 1\<rparr>)
    (NewVotePool RoleValidator, demo_proc3 demo_data StateTxsVerify) = Some (demo_pool [(1, 0x100)], demo_proc4)"
proof -
  let ?p = "demo_proc3 (demo_data\<lparr>rd_txs := Some 0, rd_receipts := Some 0, rd_stateDB := Some 0\<rparr>) StateTxsVerify"
  have v: "VerifyHashWithVerifiedSignsAndNumber (ve_order demo_venv) (vw_reader demo_vview)
      (GetVotes (ve_poolRange demo_venv) (demo_pool [(1, 0x100)]) demo_hash) 41 = Inl ErrSignCountErr"
    by (simp add: VerifyHashWithVerifiedSignsAndNumber_def demo_reader_stocks demo_vview_def demo_venv_def demo_order_def
        calculateDPOSTarget_def DPOSMinStockCount_def DPOSFullSignThreshold_def GetVotes_def demo_pool_def demo_sign_def
        NewVotePool_def demo_hash_def Let_def)
  have "VerifyTxs demo_venv demo_vview 0 \<lparr>rt_Rxs = 0, rt_Err = False, rt_Resqe = 1\<rparr>
      (NewVotePool RoleValidator, demo_proc3 demo_data StateTxsVerify) =
    startDPOSVerify demo_venv demo_vview 0 LocalVerifySuccess (NewVotePool RoleValidator, ?p)"
    by (simp add: VerifyTxs_def demo_proc3_def demo_proc2_def demo_proc1_def newProcess_def checkState_def cur_req_def set_cur_def set_req_def demo_vview_def demo_venv_def
        demo_hash_of demo_data_simps Let_def)
  also have "\<dots> = Some (demo_pool [(1, 0x100)], demo_proc4)"
  proof -
    let ?out = "[AskTxs [] 1 3, PubVerifyConsensusOK (rd_header demo_data) demo_hash (Some 0) (Some 0) (Some 0)]"
    let ?p1 = "?p\<lparr>p_voteMsgSender := Some \<lparr>cv_SignHash = demo_hash, cv_Round = 41, cv_Sign = 0x100, cv_From = 0\<rparr>, p_out := ?out\<rparr>"
    note p = demo_proc3_def demo_proc2_def demo_proc1_def newProcess_def
    have c: "cur_req ?p = Some (demo_data\<lparr>rd_txs := Some 0, rd_receipts := Some 0, rd_stateDB := Some 0\<rparr>)"
      by (simp add: cur_req_def demo_proc3_def)
    have n: "p_number ?p = 41" "p_role ?p = RoleValidator" "p_state ?p = StateTxsVerify" by (simp_all add: p)
    have "startVoteMsgSender demo_venv v ?p = ?p\<lparr>p_voteMsgSender := Some v\<rparr>" for v
      by (simp add: startVoteMsgSender_def closeVoteMsgSender_def demo_resend Let_def p)
    then have sv: "sendVote demo_venv 0 True (NewVotePool RoleValidator, ?p) = Some (demo_pool [(1, 0x100)], ?p1)"
      by (simp add: sendVote_def c demo_data_simps demo_sign_hash n demo_pool_add Let_def publish_def) (simp add: p demo_data_simps)
    have q: "(set_cur (\<lambda>rd. rd\<lparr>rd_localVerifyResult := LocalVerifySuccess\<rparr>) ?p1)\<lparr>p_state := StateDPOSVerify\<rparr> = demo_proc4"
      by (simp add: set_cur_def set_req_def p demo_proc4_def demo_data4_def)
    have c4: "cur_req demo_proc4 = Some demo_data4" "p_state demo_proc4 = StateDPOSVerify" "p_number demo_proc4 = 41" "rd_hash demo_data4 = demo_hash"
      by (simp_all add: cur_req_def demo_proc4_def demo_data4_def demo_data_simps p)
    have "processDPOSOnce demo_venv demo_vview (demo_pool [(1, 0x100)], demo_proc4) = Some (demo_pool [(1, 0x100)], demo_proc4)"
      by (simp add: processDPOSOnce_def checkState_def c4 v)
    moreover have "p_curProcessReq ?p1 = Some 0" by (simp add: p)
    moreover have "RoleValidator \<noteq> RoleBroadcast" by (simp add: role_defs)
    ultimately show ?thesis using n by (simp add: startDPOSVerify_def sv q)
  qed
  finally show ?thesis by (simp add: proc_handle_def)
qed

lemma demo_proc4_simps:
  "cur_req demo_proc4 = Some demo_data4" "p_state demo_proc4 = StateDPOSVerify" "p_role demo_proc4 = RoleValidator"
  "rd_hash demo_data4 = demo_hash" "rd_localVerifyResult demo_data4 = LocalVerifySuccess" "rd_localReq demo_data4 = False"
  "p_voteMsgSender demo_proc4 = Some \<lparr>cv_SignHash = demo_hash, cv_Round = 41, cv_Sign = 0x100, cv_From = 0\<rparr>"
  "rc_heap (p_reqCache demo_proc4) = [demo_data4]"
  "lcn_Leader (p_leaderCache demo_proc4) = 3" "lcn_TurnBeginTime (p_leaderCache demo_proc4) = 0"
  "lcn_TurnEndTime (p_leaderCache demo_proc4) = 100"
  by (simp_all add: cur_req_def demo_proc4_def demo_data4_def demo_data_simps demo_proc3_def demo_proc2_def demo_proc1_def newProcess_def
    demo_lead_def)

lemma demo_proc4_reachable:
  "proc_reachable demo_venv {demo_vview} RoleValidator 41 (demo_pool [(1, 0x100)], demo_proc4)"
proof -
  note step = proc_reachable.step [where w = demo_vview and W = "{demo_vview}" and r = RoleValidator]
  have "proc_reachable demo_venv {demo_vview} RoleValidator 41 (NewVotePool RoleValidator, demo_proc1)"
    by (rule step [OF proc_reachable.start [OF demo_venv_ok(2)] _ _ demo_step1]) simp_all
  then have "proc_reachable demo_venv {demo_vview} RoleValidator 41 (NewVotePool RoleValidator, demo_proc2)"
    by (rule step [OF _ _ _ demo_step2]) simp_all
  then have "proc_reachable demo_venv {demo_vview} RoleValidator 41 (NewVotePool RoleValidator, demo_proc3 demo_data StateTxsVerify)"
    by (rule step [OF _ _ _ demo_step3]) simp_all
  then show ?thesis by (rule step [OF _ _ _ demo_step4]) simp_all
qed

lemma demo_quorum_pool: "vpool_ok demo_venv (demo_pool [(1, 0x100), (2, 0x200), (3, 0x300)])"
  by (auto simp: vpool_ok_def pool_ok_def maps_ok_def gomap_ok_def demo_pool_def demo_sign_def lookup_vote_def vote_ok_def
      open_verify sig64_def demo_venv_def NewVotePool_def VotePoolCountLimit_def split: if_splits)

lemma demo_quorum_reachable:
  "proc_reachable demo_venv {demo_vview} RoleValidator 41 (demo_pool [(1, 0x100), (2, 0x200), (3, 0x300)], demo_proc4)"
  using demo_proc4_reachable demo_quorum_pool by (rule proc_reachable.pool)

theorem votes_only_verified_witness:
  "\<exists>h. HashNoSignsAndNonce (ve_rlpHash demo_venv) h = demo_hash \<and> vw_VerifyHeader demo_vview h \<and> h_Leader h = 3 \<and>
    0 \<le> i64 (int (h_Time h)) \<and> i64 (int (h_Time h)) \<le> 100"
  using votes_only_verified [OF demo_proc4_reachable demo_venv_ok(1) demo_proc4_simps(7)]
  by (auto simp: demo_proc4_simps)

theorem process_no_panic_witness:
  "proc_handle demo_venv demo_vview 0 (EvReq (Some (demo_req 3 3 1))) (demo_pool [(1, 0x100)], demo_proc4) \<noteq> None"
proof (rule process_no_panic [OF demo_proc4_reachable demo_venv_ok(1)])
  show "\<forall>h s. VerifySignWithValidate (ve_crypto demo_venv) (HashNoSignsAndNonce (ve_rlpHash demo_venv) h) s \<noteq> SignPanic"
    by (simp add: verify_panic_iff demo_venv_def demo_hash_of) (simp add: demo_hash_def)
qed (simp_all add: demo_req_def demo_sign_hash)

lemma demo_quorum:
  "{a. map_has [(1 :: address, 1 :: u16), (2, 1), (3, 1)] a \<and>
    (\<exists>v. lookup_vote (voteMap (demo_pool [(1, 0x100), (2, 0x200), (3, 0x300)])) a demo_hash = Some v \<and> vs_Validate (vi_sign v))} = {1, 2, 3}"
  by (auto simp: map_has_def demo_pool_def demo_sign_def lookup_vote_def NewVotePool_def split: if_splits)

theorem quorum_starts_mining_witness:
  "\<exists>vp' p' h. proc_handle demo_venv demo_vview 0 EvDPOS (demo_pool [(1, 0x100), (2, 0x200), (3, 0x300)], demo_proc4) = Some (vp', p') \<and>
    p_state p' = StateEnd \<and> p_mineReqMsgSender p' = Some h \<and> HashNoSignsAndNonce (ve_rlpHash demo_venv) h = demo_hash"
  using quorum_starts_mining [OF demo_quorum_reachable demo_venv_ok(1) demo_proc4_simps(2,1), of demo_vview "[(1, 1), (2, 1), (3, 1)]" 0]
    demo_quorum demo_reader_stocks
  by (simp add: demo_proc4_simps full_quorum demo_vview_def demo_resend)

theorem mining_request_has_quorum_witness:
  "\<exists>h signs. HashNoSignsAndNonce (ve_rlpHash demo_venv) h = demo_hash \<and>
    VerifyHashWithNumber demo_order open_crypto demo_reader demo_hash (h_Signatures h) 41 = Inr signs"
proof -
  obtain vp' p' h where p': "proc_handle demo_venv demo_vview 0 EvDPOS (demo_pool [(1, 0x100), (2, 0x200), (3, 0x300)], demo_proc4) = Some (vp', p')"
    "p_mineReqMsgSender p' = Some h" "HashNoSignsAndNonce (ve_rlpHash demo_venv) h = demo_hash"
    using quorum_finishes [OF demo_quorum_reachable demo_venv_ok(1) demo_proc4_simps(2,1), of demo_vview "[(1, 1), (2, 1), (3, 1)]" 0]
      demo_quorum demo_reader_stocks by (auto simp: demo_proc4_simps full_quorum demo_vview_def demo_resend)
  have "proc_reachable demo_venv {demo_vview} RoleValidator 41 (vp', p')"
    by (rule proc_reachable.step [OF demo_quorum_reachable _ _ p'(1)]) simp_all
  from mining_request_has_quorum [OF this demo_venv_ok(1) p'(2) demo_order_ok] show ?thesis
    using p'(3) demo_reader_stocks by (auto simp: demo_vview_def) (auto simp: demo_venv_def)
qed

theorem vote_is_final_witness:
  "\<exists>vp' p'. proc_handle demo_venv demo_vview 7 (EvReq (Some (demo_req 3 3 2))) (demo_pool [(1, 0x100)], demo_proc4) = Some (vp', p') \<and>
    length (rc_heap (p_reqCache p')) = 2 \<and> p_voteMsgSender p' = p_voteMsgSender demo_proc4"
proof -
  have "case rc_AddReq (ve_rlpHash demo_venv) (p_reqCache demo_proc4) (Some (demo_req 3 3 2)) of
      Some (rc, None) \<Rightarrow> length (rc_heap rc) = 2 | _ \<Rightarrow> False"
    by (simp add: demo_venv_def demo_req_def rc_simps demo_proc4_def demo_proc3_def newReqCache_def demo_data4_def demo_data_def word_le_nat_alt)
  then obtain rc where rc: "rc_AddReq (ve_rlpHash demo_venv) (p_reqCache demo_proc4) (Some (demo_req 3 3 2)) = Some (rc, None)" "length (rc_heap rc) = 2"
    by (auto split: option.splits prod.splits)
  have "startReqVerify demo_venv demo_vview 7 (vp, demo_proc4\<lparr>p_reqCache := rc\<rparr>) = Some (vp, demo_proc4\<lparr>p_reqCache := rc\<rparr>)" for vp
    by (simp add: startReqVerify_def startReqVerifyCommon_def checkState_def demo_proc4_simps role_defs)
  then obtain vp' p' where p': "proc_handle demo_venv demo_vview 7 (EvReq (Some (demo_req 3 3 2))) (demo_pool [(1, 0x100)], demo_proc4) = Some (vp', p')"
    "length (rc_heap (p_reqCache p')) = 2"
    using rc by (simp add: proc_handle_def p_AddReq_def)
  have "in_turn demo_venv (demo_pool [(1, 0x100)], demo_proc4) (vp', p')" by (rule in_turn.step [OF in_turn.refl _ _ p'(1)]) simp_all
  from vote_is_final [OF this] show ?thesis using p' by (simp add: demo_proc4_simps)
qed

theorem broadcast_failure_blocks_witness:
  "\<exists>(p :: nat Process) p'. p_state p = StateStart \<and>
    startReqVerify (demo_venv\<lparr>ve_BroadCastNodes := [1]\<rparr>) (demo_vview\<lparr>vw_VerifyHeader := \<lambda>_. False\<rparr>) 0 (NewVotePool RoleBroadcast, p) =
      Some (NewVotePool RoleBroadcast, p') \<and> p_state p' = StateReqVerify"
proof -
  let ?h = "zero_header\<lparr>h_Signatures := [0x100]\<rparr>"
  let ?rd = "the (newReqData (\<lambda>_. demo_hash) ((demo_req 3 3 1)\<lparr>bcr_Header := Some ?h\<rparr>)) :: nat reqData"
  let ?p = "(newProcess 20)\<lparr>p_role := RoleBroadcast, p_state := StateStart, p_reqCache := newReqCache\<lparr>rc_otherReqCache := [0], rc_heap := [?rd]\<rparr>\<rparr> :: nat Process"
  let ?e = "demo_venv\<lparr>ve_BroadCastNodes := [1]\<rparr>" and ?w = "demo_vview\<lparr>vw_VerifyHeader := \<lambda>_. False\<rparr>"
  have rd: "rd_header ?rd = ?h" "rd_localVerifyResult ?rd = LocalVerifyProcessing" by (simp_all add: newReqData_def demo_req_def)
  have v: "VerifyBlock (ve_order ?e) (ve_crypto ?e) (ve_rlpHash ?e) (ve_BroadCastNodes ?e) (vw_reader ?w) ?h = None"
    by (simp add: VerifyBlock_def verifyBroadcastBlock_def IsBroadcastNumber_def zero_header_def demo_venv_def open_verify sig64_def isBroadcastRole_def header_number_def broadcastInterval_def)
  have p: "p_role ?p = RoleBroadcast" "p_state ?p = StateStart \<or> p_state ?p = StateEnd" "0 < length (rc_heap (p_reqCache ?p))"
    "GetAllReq (ve_reqRange ?e) (p_reqCache ?p) = [0]"
    by (simp_all add: GetAllReq_def newReqCache_def demo_venv_def)
  have r: "rd_localVerifyResult (req_at (p_reqCache ?p) 0) = LocalVerifyProcessing" "\<not> vw_VerifyHeader ?w (rd_header (req_at (p_reqCache ?p) 0))"
    "VerifyBlock (ve_order ?e) (ve_crypto ?e) (ve_rlpHash ?e) (ve_BroadCastNodes ?e) (vw_reader ?w) (rd_header (req_at (p_reqCache ?p) 0)) = None"
    using rd v by simp_all
  have "p_state ?p = StateStart" by simp
  then show ?thesis using broadcast_failure_blocks [OF p(1,2,4,3) r(1,3,2), of 0 "NewVotePool RoleBroadcast"] by blast
qed

end
