(* ===== verification/Blk_Service.thy ===== *)
theory Blk_Service
  imports Blk_Verify Number_Window
begin

text \<open>
  The processes of all block numbers and the service that passes messages to them,
  \<open>blkconsensus/blkverify/process_manage.go\<close> and \<open>block_verify.go\<close>.

  A handler is one step. The code takes the mutex of the table in \<open>SetCurNumber\<close>, again in \<open>GetCurrentProcess\<close>, and
  then that of the process, so two role messages that interleave there, with the role of one and the number of the
  other, are not among the steps.

  A process that leaves the table is closed (\<open>p_Close\<close>); it is idle then and takes no further part. The
  operations return \<^const>\<open>None\<close> when the code panics.
\<close>

section \<open>blkconsensus/blkverify/process_manage.go\<close>

record 'x ProcessManage =
  pm_curNumber :: u64
  pm_processMap :: "(u64, 'x Process) gomap"
  pm_votePool :: VotePool

definition NewProcessManage :: "'x ProcessManage" where
  "NewProcessManage = \<lparr>pm_curNumber = 0, pm_processMap = [], pm_votePool = NewVotePool RoleValidator\<rparr>"

definition fixProcessMap :: "'x ProcessManage \<Rightarrow> 'x ProcessManage" where
  "fixProcessMap pm =
    (if pm_processMap pm = [] then pm
     else pm\<lparr>pm_processMap := drop_below (pm_curNumber pm) (pm_processMap pm)\<rparr>)"

definition SetCurNumber :: "'x ProcessManage \<Rightarrow> u64 \<Rightarrow> 'x ProcessManage" where
  "SetCurNumber pm number = fixProcessMap (pm\<lparr>pm_curNumber := number\<rparr>)"

definition getProcess :: "'x ProcessManage \<Rightarrow> u64 \<Rightarrow> 'x ProcessManage \<times> 'x Process" where
  "getProcess pm number =
    (case map_of (pm_processMap pm) number of
       Some process \<Rightarrow> (pm, process)
     | None \<Rightarrow> (let process = newProcess number
                in (pm\<lparr>pm_processMap := map_put number process (pm_processMap pm)\<rparr>, process)))"

definition GetCurrentProcess :: "'x ProcessManage \<Rightarrow> 'x ProcessManage \<times> 'x Process" where
  "GetCurrentProcess pm = getProcess pm (pm_curNumber pm)"

definition pm_isLegalNumber :: "'x ProcessManage \<Rightarrow> u64 \<Rightarrow> number_error option" where
  "pm_isLegalNumber pm number =
    (if number < pm_curNumber pm then Some (ErrNumberLess number (pm_curNumber pm))
     else if number > pm_curNumber pm + 2 then Some (ErrNumberTooBig number (pm_curNumber pm))
     else None)"

definition GetProcess :: "'x ProcessManage \<Rightarrow> u64 \<Rightarrow> number_error + 'x ProcessManage \<times> 'x Process" where
  "GetProcess pm number =
    (case pm_isLegalNumber pm number of
       Some err \<Rightarrow> Inl err
     | None \<Rightarrow> Inr (getProcess pm number))"

definition AddVoteToPool ::
  "verify_env \<Rightarrow> int \<Rightarrow> 'x ProcessManage \<Rightarrow> hash \<Rightarrow> signature \<Rightarrow> address \<Rightarrow> ('x ProcessManage \<times> vote_error option) option" where
  "AddVoteToPool e now pm signHash sign from =
    map_option (\<lambda>(vp, err). (pm\<lparr>pm_votePool := vp\<rparr>, err)) (pool_add e now (pm_votePool pm) signHash sign from True)"

section \<open>blkconsensus/blkverify/block_verify.go\<close>

text \<open>A call of a method of a process: it works on the pool and the process, both of which are shared.\<close>

definition call_process ::
  "('x pstate \<Rightarrow> 'x pstate option) \<Rightarrow> u64 \<Rightarrow> 'x ProcessManage \<times> 'x Process \<Rightarrow> 'x ProcessManage option" where
  "call_process f number pp =
    (case pp of (pm, p) \<Rightarrow>
       (case f (pm_votePool pm, p) of
          None \<Rightarrow> None
        | Some (vp, p') \<Rightarrow> Some (pm\<lparr>pm_votePool := vp, pm_processMap := map_put number p' (pm_processMap pm)\<rparr>)))"

text \<open>A message is \<^const>\<open>None\<close> for a nil pointer, and for a recovery message with a nil header, which the code
  treats alike. In a local request the pointer to the request is an
  option of its own.\<close>

datatype 'x blk_msg =
    RoleMsg "RoleUpdatedMsg option"
  | LeaderMsg "LeaderChangeNotify option"
  | RequestMsg "HD_BlkConsensusReqMsg option"
  | LocalRequestMsg "'x LocalBlockVerifyConsensusReq option option"
  | VoteMsg "HD_ConsensusVote option"
  | RecoveryMsg "RecoveryStateMsg option"

definition handleRoleUpdatedMsg ::
  "verify_env \<Rightarrow> 'x verify_view \<Rightarrow> int \<Rightarrow> 'x ProcessManage \<Rightarrow> RoleUpdatedMsg option \<Rightarrow> 'x ProcessManage option" where
  "handleRoleUpdatedMsg e w now pm msg =
    (case msg of
       None \<Rightarrow> None
     | Some roleMsg \<Rightarrow>
         (let curNumber = ru_BlockNum roleMsg + 1;
              pm = SetCurNumber pm curNumber
          in if ru_Role roleMsg = RoleValidator \<or> ru_Role roleMsg = RoleBroadcast
             then call_process (StartRunning e w now (ru_Role roleMsg)) (pm_curNumber pm) (GetCurrentProcess pm)
             else Some pm))"

definition handleLeaderChangeNotify ::
  "verify_env \<Rightarrow> 'x verify_view \<Rightarrow> int \<Rightarrow> 'x ProcessManage \<Rightarrow> LeaderChangeNotify option \<Rightarrow> 'x ProcessManage option" where
  "handleLeaderChangeNotify e w now pm msg =
    (case msg of
       None \<Rightarrow> Some pm
     | Some leaderMsg \<Rightarrow>
         (case GetProcess pm (lcn_Number leaderMsg) of
            Inl err \<Rightarrow> Some pm
          | Inr process \<Rightarrow> call_process (SetLeaderInfo e w now leaderMsg) (lcn_Number leaderMsg) process))"

definition handleRequestMsg ::
  "verify_env \<Rightarrow> 'x verify_view \<Rightarrow> int \<Rightarrow> 'x ProcessManage \<Rightarrow> HD_BlkConsensusReqMsg option \<Rightarrow> 'x ProcessManage option" where
  "handleRequestMsg e w now pm msg =
    (case Option.bind msg bcr_Header of
       None \<Rightarrow> Some pm
     | Some header \<Rightarrow>
         if h_Leader header = 0 then Some pm
         else
           (case GetProcess pm (header_number header) of
              Inl err \<Rightarrow> Some pm
            | Inr process \<Rightarrow> call_process (p_AddReq e w now msg) (header_number header) process))"

definition handleLocalRequestMsg ::
  "verify_env \<Rightarrow> 'x verify_view \<Rightarrow> int \<Rightarrow> 'x ProcessManage \<Rightarrow> 'x LocalBlockVerifyConsensusReq option option \<Rightarrow> 'x ProcessManage option" where
  "handleLocalRequestMsg e w now pm msg =
    (case msg of
       Some (Some localReq) \<Rightarrow>
         (case bcr_Header (lr_BlkVerifyConsensusReq localReq) of
            None \<Rightarrow> None
          | Some header \<Rightarrow>
              if h_Leader header = 0 then Some pm
              else
                (case GetProcess pm (header_number header) of
                   Inl err \<Rightarrow> Some pm
                 | Inr process \<Rightarrow> call_process (p_AddLocalReq e w now localReq) (header_number header) process))
     | _ \<Rightarrow> Some pm)"

definition handleVoteMsg ::
  "verify_env \<Rightarrow> 'x verify_view \<Rightarrow> int \<Rightarrow> 'x ProcessManage \<Rightarrow> HD_ConsensusVote option \<Rightarrow> 'x ProcessManage option" where
  "handleVoteMsg e w now pm msg =
    (case msg of
       None \<Rightarrow> Some pm
     | Some voteMsg \<Rightarrow>
         (case AddVoteToPool e now pm (cv_SignHash voteMsg) (cv_Sign voteMsg) (cv_From voteMsg) of
            None \<Rightarrow> None
          | Some (pm, Some err) \<Rightarrow> Some pm
          | Some (pm, None) \<Rightarrow> call_process (processDPOSOnce e w) (pm_curNumber pm) (GetCurrentProcess pm)))"

definition handleRecoveryMsg ::
  "verify_env \<Rightarrow> 'x verify_view \<Rightarrow> int \<Rightarrow> 'x ProcessManage \<Rightarrow> RecoveryStateMsg option \<Rightarrow> 'x ProcessManage option" where
  "handleRecoveryMsg e w now pm msg =
    (case map_option rs_Header msg of
       None \<Rightarrow> Some pm
     | Some header \<Rightarrow>
         (let curProcess = GetCurrentProcess pm
          in if p_number (snd curProcess) \<noteq> header_number header then Some (fst curProcess)
             else call_process (ProcessRecoveryMsg e w now header) (pm_curNumber pm) curProcess))"

definition service_handle ::
  "verify_env \<Rightarrow> 'x verify_view \<Rightarrow> int \<Rightarrow> 'x ProcessManage \<Rightarrow> 'x blk_msg \<Rightarrow> 'x ProcessManage option" where
  "service_handle e w now pm msg =
    (case msg of
       RoleMsg m \<Rightarrow> handleRoleUpdatedMsg e w now pm m
     | LeaderMsg m \<Rightarrow> handleLeaderChangeNotify e w now pm m
     | RequestMsg m \<Rightarrow> handleRequestMsg e w now pm m
     | LocalRequestMsg m \<Rightarrow> handleLocalRequestMsg e w now pm m
     | VoteMsg m \<Rightarrow> handleVoteMsg e w now pm m
     | RecoveryMsg m \<Rightarrow> handleRecoveryMsg e w now pm m)"

section \<open>The table of processes is a worker table\<close>

interpretation ptab: worker_table pm_curNumber pm_processMap newProcess "\<lambda>n. n" getProcess SetCurNumber
  "\<lambda>pm n. pm_isLegalNumber pm n = None"
  by unfold_locales
    (auto simp: getProcess_def SetCurNumber_def fixProcessMap_def pm_isLegalNumber_def map_has_def drop_below_filter Let_def
      split: option.splits)

section \<open>Steps of the service\<close>

text \<open>Besides the messages, the transactions a process asked for arrive at it, or do not arrive in time. The
  role of the node for a block, \<open>rl\<close>, does not depend on when it is asked for. When \<open>up\<close> is set, the chain
  only grows: no role message is for a number below the current one.\<close>

definition role_msg_ok :: "(u64 \<Rightarrow> role_type) \<Rightarrow> bool \<Rightarrow> 'x ProcessManage \<Rightarrow> RoleUpdatedMsg \<Rightarrow> bool" where
  "role_msg_ok rl up pm m \<longleftrightarrow> ru_Role m = rl (ru_BlockNum m + 1) \<and> (up \<longrightarrow> pm_curNumber pm \<le> ru_BlockNum m + 1)"

inductive service_step :: "verify_env \<Rightarrow> 'x verify_view set \<Rightarrow> (u64 \<Rightarrow> role_type) \<Rightarrow> bool \<Rightarrow> 'x ProcessManage \<Rightarrow> 'x ProcessManage \<Rightarrow> bool"
  for e W rl up where
  message: "w \<in> W \<Longrightarrow> (\<forall>m. msg = RoleMsg (Some m) \<longrightarrow> role_msg_ok rl up pm m) \<Longrightarrow>
    service_handle e w now pm msg = Some pm' \<Longrightarrow> service_step e W rl up pm pm'"
| txs: "w \<in> W \<Longrightarrow> map_of (pm_processMap pm) n = Some p \<Longrightarrow> call_process (VerifyTxs e w now res) n (pm, p) = Some pm' \<Longrightarrow>
    service_step e W rl up pm pm'"
| txs_timeout: "w \<in> W \<Longrightarrow> map_of (pm_processMap pm) n = Some p \<Longrightarrow>
    call_process (ProcessTxsAcquireTimeOut e w now seq) n (pm, p) = Some pm' \<Longrightarrow> service_step e W rl up pm pm'"

inductive service_reachable :: "verify_env \<Rightarrow> 'x verify_view set \<Rightarrow> (u64 \<Rightarrow> role_type) \<Rightarrow> bool \<Rightarrow> 'x ProcessManage \<Rightarrow> bool" for e W rl up where
  start: "service_reachable e W rl up NewProcessManage"
| step: "service_reachable e W rl up pm \<Longrightarrow> service_step e W rl up pm pm' \<Longrightarrow> service_reachable e W rl up pm'"

text \<open>Every process of the table is one that its own number could reach by itself.\<close>

definition service_ok :: "verify_env \<Rightarrow> 'x verify_view set \<Rightarrow> (u64 \<Rightarrow> role_type) \<Rightarrow> bool \<Rightarrow> 'x ProcessManage \<Rightarrow> bool" where
  "service_ok e W rl up pm \<longleftrightarrow> gomap_ok (pm_processMap pm) \<and> vpool_ok e (pm_votePool pm) \<and>
    (\<forall>n p. map_of (pm_processMap pm) n = Some p \<longrightarrow> pm_curNumber pm \<le> n \<and> proc_reachable e W (rl n) n (pm_votePool pm, p)) \<and>
    (up \<longrightarrow> ptab.windowed pm)"

lemma new_vpool_ok [simp]: "vpool_ok e (NewVotePool r)"
  using new_pool_ok(1) by (simp add: vpool_ok_def NewVotePool_def VotePoolCountLimit_def)

lemma NewProcessManage_ok: "service_ok e W rl up NewProcessManage"
  by (simp add: service_ok_def NewProcessManage_def ptab.windowed_def map_has_def)

lemma getProcess_ok:
  assumes "service_ok e W rl up pm" "pm_isLegalNumber pm n = None \<or> n = pm_curNumber pm" "getProcess pm n = (pm', p)"
  shows "service_ok e W rl up pm' \<and> map_of (pm_processMap pm') n = Some p \<and> pm_curNumber pm' = pm_curNumber pm"
proof -
  have n: "pm_curNumber pm \<le> n" using assms(2) by (auto simp: pm_isLegalNumber_def not_less split: if_splits)
  have "up \<longrightarrow> ptab.windowed pm'" using assms ptab.get_windowed [of pm n] by (simp add: service_ok_def)
  then show ?thesis using assms(1,3) n proc_reachable.start [of e "pm_votePool pm" W "rl n" n]
    by (auto simp: getProcess_def service_ok_def Let_def split: option.splits if_splits)
qed

lemma call_process_ok:
  assumes "service_ok e W rl up pm" "env_ok e" "map_of (pm_processMap pm) n = Some p" "call_process f n (pm, p) = Some pm'"
    and "\<And>s'. f (pm_votePool pm, p) = Some s' \<Longrightarrow> \<exists>w \<in> W. \<exists>ev now. (\<forall>r'. ev = EvStart r' \<longrightarrow> r' = rl n) \<and> proc_handle e w now ev (pm_votePool pm, p) = Some s'"
  shows "service_ok e W rl up pm' \<and> pm_curNumber pm' = pm_curNumber pm"
proof -
  obtain vp p' where f: "f (pm_votePool pm, p) = Some (vp, p')"
    "pm' = pm\<lparr>pm_votePool := vp, pm_processMap := map_put n p' (pm_processMap pm)\<rparr>"
    using assms(4) by (auto simp: call_process_def split: option.splits)
  have r: "pm_curNumber pm \<le> n" "proc_reachable e W (rl n) n (pm_votePool pm, p)" using assms(1,3) by (auto simp: service_ok_def)
  then have n: "proc_reachable e W (rl n) n (vp, p')" using assms(5) [OF f(1)] proc_reachable.step by blast
  then have vp: "vpool_ok e vp" using proc_reachable_ok [OF n assms(2)] by (simp add: proc_ok_def base_ok_def)
  have "proc_reachable e W (rl m) m (vp, q)" if "map_of (pm_processMap pm) m = Some q" for m q
    by (rule proc_reachable.pool [OF _ vp, where vp = "pm_votePool pm"]) (use assms(1) that in \<open>simp add: service_ok_def\<close>)
  moreover have "up \<longrightarrow> ptab.windowed pm'"
    using assms(1,3) f(2) by (auto simp: service_ok_def ptab.windowed_def map_has_def)
  ultimately show ?thesis using assms(1) f(2) r n vp by (auto simp: service_ok_def)
qed

lemma SetCurNumber_ok:
  assumes "service_ok e W rl up pm" "up \<longrightarrow> pm_curNumber pm \<le> n"
  shows "service_ok e W rl up (SetCurNumber pm n)"
proof -
  have "up \<longrightarrow> ptab.windowed (SetCurNumber pm n)" using assms ptab.move_windowed by (auto simp: service_ok_def)
  then show ?thesis using assms(1) ptab.move_map [of pm n] ptab.move_law [of pm n]
    by (auto simp: service_ok_def SetCurNumber_def fixProcessMap_def not_less split: if_splits)
qed

lemma GetProcess_ok:
  assumes "service_ok e W rl up pm" "GetProcess pm n = Inr (pm', p)"
  shows "service_ok e W rl up pm' \<and> map_of (pm_processMap pm') n = Some p \<and> pm_curNumber pm' = pm_curNumber pm"
proof -
  have "getProcess pm n = (pm', p)" "pm_isLegalNumber pm n = None"
    using assms(2) by (auto simp: GetProcess_def split: option.splits)
  then show ?thesis using getProcess_ok [OF assms(1)] by blast
qed

lemma GetCurrentProcess_ok:
  assumes "service_ok e W rl up pm" "GetCurrentProcess pm = (pm', p)"
  shows "service_ok e W rl up pm' \<and> map_of (pm_processMap pm') (pm_curNumber pm) = Some p \<and> pm_curNumber pm' = pm_curNumber pm"
  using getProcess_ok [OF assms(1), of "pm_curNumber pm" pm' p] assms(2) by (simp add: GetCurrentProcess_def)

text \<open>A method of a process that is the handler of an event.\<close>

lemma call_handler_ok:
  assumes "service_ok e W rl up pm" "env_ok e" "map_of (pm_processMap pm) n = Some p"
    and "call_process (proc_handle e w now ev) n (pm, p) = Some pm'" "w \<in> W" "\<forall>r'. ev = EvStart r' \<longrightarrow> r' = rl n"
  shows "service_ok e W rl up pm' \<and> pm_curNumber pm' = pm_curNumber pm"
  using call_process_ok [OF assms(1-4)] assms(5,6) by blast

lemma proc_handle_methods:
  "StartRunning e w now r = proc_handle e w now (EvStart r)" "SetLeaderInfo e w now info = proc_handle e w now (EvLeader info)"
  "p_AddReq e w now m = proc_handle e w now (EvReq m)" "p_AddLocalReq e w now l = proc_handle e w now (EvLocal l)"
  "processDPOSOnce e w = proc_handle e w now EvDPOS" "ProcessRecoveryMsg e w now h = proc_handle e w now (EvRecovery h)"
  "VerifyTxs e w now res = proc_handle e w now (EvTxs res)" "ProcessTxsAcquireTimeOut e w now seq = proc_handle e w now (EvTxsTimeOut seq)"
  by (simp_all add: proc_handle_def fun_eq_iff)

lemma pool_swap_ok:
  assumes "service_ok e W rl up pm" "vpool_ok e vp"
  shows "service_ok e W rl up (pm\<lparr>pm_votePool := vp\<rparr>)"
proof -
  have "ptab.windowed (pm\<lparr>pm_votePool := vp\<rparr>) = ptab.windowed pm" by (simp add: ptab.windowed_def)
  moreover have "proc_reachable e W (rl n) n (vp, p)" if "map_of (pm_processMap pm) n = Some p" for n p
    by (rule proc_reachable.pool [OF _ assms(2), where vp = "pm_votePool pm"]) (use assms(1) that in \<open>simp add: service_ok_def\<close>)
  ultimately show ?thesis using assms by (simp add: service_ok_def)
qed

lemma AddVoteToPool_ok:
  assumes "service_ok e W rl up pm" "env_ok e" "AddVoteToPool e now pm h s a = Some (pm', err)"
  shows "service_ok e W rl up pm' \<and> pm_curNumber pm' = pm_curNumber pm"
proof -
  obtain vp where vp: "pool_add e now (pm_votePool pm) h s a True = Some (vp, err)" "pm' = pm\<lparr>pm_votePool := vp\<rparr>"
    using assms(3) by (auto simp: AddVoteToPool_def)
  have "vpool_ok e vp" using pool_add_ok [OF _ assms(2) vp(1)] assms(1) by (simp add: service_ok_def)
  then show ?thesis using pool_swap_ok [OF assms(1)] vp(2) by simp
qed

lemma service_handle_ok:
  assumes "service_ok e W rl up pm" "env_ok e" "w \<in> W" "service_handle e w now pm msg = Some pm'"
    and "\<forall>m. msg = RoleMsg (Some m) \<longrightarrow> role_msg_ok rl up pm m"
  shows "service_ok e W rl up pm'"
proof -
  have called: "service_ok e W rl up pm'"
    if "service_ok e W rl up pm1 \<and> map_of (pm_processMap pm1) n = Some p \<and> c" "call_process (proc_handle e w now ev) n (pm1, p) = Some pm'"
      "\<forall>r'. ev = EvStart r' \<longrightarrow> r' = rl n" for pm1 n p ev c
    using that call_handler_ok [of e W rl up pm1 n p w now ev pm'] assms(2,3) by blast
  show ?thesis
  proof (cases msg)
    case (RoleMsg m)
    then obtain rm where m: "m = Some rm" using assms(4) by (auto simp: service_handle_def handleRoleUpdatedMsg_def split: option.splits)
    let ?pm = "SetCurNumber pm (ru_BlockNum rm + 1)"
    have ok: "service_ok e W rl up ?pm"
      by (rule SetCurNumber_ok [OF assms(1)]) (use assms(5) in \<open>simp add: RoleMsg m role_msg_ok_def\<close>)
    have c: "pm_curNumber ?pm = ru_BlockNum rm + 1" using ptab.move_law by blast
    obtain pm1 p where g: "GetCurrentProcess ?pm = (pm1, p)" by fastforce
    show ?thesis using assms(4,5) ok called [OF GetCurrentProcess_ok [OF ok g], of "EvStart (ru_Role rm)"] c
      by (auto simp: RoleMsg m role_msg_ok_def service_handle_def handleRoleUpdatedMsg_def g proc_handle_methods(1) Let_def split: if_splits)
  next
    case (LeaderMsg m)
    show ?thesis
    proof (cases m)
      case (Some lm)
      show ?thesis
      proof (cases "GetProcess pm (lcn_Number lm)")
        case (Inr pp)
        obtain pm1 p where pp: "pp = (pm1, p)" by fastforce
        show ?thesis using assms(4) called [OF GetProcess_ok [OF assms(1)], of "lcn_Number lm" pm1 p "EvLeader lm"]
          by (simp add: LeaderMsg Some Inr pp service_handle_def handleLeaderChangeNotify_def proc_handle_methods(2))
      qed (use assms in \<open>simp add: LeaderMsg Some service_handle_def handleLeaderChangeNotify_def\<close>)
    qed (use assms in \<open>simp add: LeaderMsg service_handle_def handleLeaderChangeNotify_def\<close>)
  next
    case (RequestMsg m)
    then consider "pm' = pm" | n pm1 p where "GetProcess pm n = Inr (pm1, p)" "call_process (p_AddReq e w now m) n (pm1, p) = Some pm'"
      using assms(4) by (auto simp: service_handle_def handleRequestMsg_def split: option.splits sum.splits if_splits)
    then show ?thesis
      by cases (use assms(1) called [OF GetProcess_ok [OF assms(1)], of _ _ _ "EvReq m"] in \<open>auto simp: proc_handle_methods(3)\<close>)
  next
    case (LocalRequestMsg m)
    then consider "pm' = pm" | n l pm1 p where "GetProcess pm n = Inr (pm1, p)" "call_process (p_AddLocalReq e w now l) n (pm1, p) = Some pm'"
      using assms(4) by (auto simp: service_handle_def handleLocalRequestMsg_def split: option.splits sum.splits if_splits)
    then show ?thesis
    proof cases
      case 2
      then show ?thesis using called [OF GetProcess_ok [OF assms(1) 2(1)], of "EvLocal l"] by (simp add: proc_handle_methods(4))
    qed (use assms(1) in simp)
  next
    case (VoteMsg m)
    consider "pm' = pm" | h s a err pm1 where "AddVoteToPool e now pm h s a = Some (pm1, err)"
        "pm' = pm1 \<or> call_process (processDPOSOnce e w) (pm_curNumber pm1) (GetCurrentProcess pm1) = Some pm'"
      using assms(4) VoteMsg by (auto simp: service_handle_def handleVoteMsg_def split: option.splits)
    then show ?thesis
    proof cases
      case 2
      have ok: "service_ok e W rl up pm1" using AddVoteToPool_ok [OF assms(1,2) 2(1)] by simp
      obtain pm2 p where g: "GetCurrentProcess pm1 = (pm2, p)" by fastforce
      show ?thesis using 2(2) ok called [OF GetCurrentProcess_ok [OF ok g], of EvDPOS] by (auto simp: g proc_handle_methods(5) [of e w now])
    qed (use assms(1) in simp)
  next
    case (RecoveryMsg m)
    obtain pm1 p where g: "GetCurrentProcess pm = (pm1, p)" by fastforce
    have "pm' = pm \<or> pm' = pm1 \<or> (\<exists>h. call_process (ProcessRecoveryMsg e w now h) (pm_curNumber pm) (pm1, p) = Some pm')"
      using assms(4) RecoveryMsg by (auto simp: service_handle_def handleRecoveryMsg_def g Let_def split: option.splits if_splits)
    then show ?thesis using assms(1) GetCurrentProcess_ok [OF assms(1) g] called [OF GetCurrentProcess_ok [OF assms(1) g], of "EvRecovery h" for h]
      by (auto simp: proc_handle_methods(6))
  qed
qed

lemma service_step_ok:
  assumes "service_ok e W rl up pm" "env_ok e" "service_step e W rl up pm pm'"
  shows "service_ok e W rl up pm'"
  using assms(3)
proof cases
  case (message w msg now)
  then show ?thesis using service_handle_ok [OF assms(1,2)] by blast
next
  case (txs w n p now res)
  then show ?thesis using call_handler_ok [OF assms(1,2), of n p w now "EvTxs res"] by (simp add: proc_handle_methods)
next
  case (txs_timeout w n p now seq)
  then show ?thesis using call_handler_ok [OF assms(1,2), of n p w now "EvTxsTimeOut seq"] by (simp add: proc_handle_methods)
qed

lemma service_reachable_ok: "service_reachable e W rl up pm \<Longrightarrow> env_ok e \<Longrightarrow> service_ok e W rl up pm"
  by (induction rule: service_reachable.induct) (auto intro: NewProcessManage_ok service_step_ok)

section \<open>Properties\<close>

text \<open>C21: The service is made of independent processes. However messages, transactions and time-outs interleave,
  the table holds at most one process per number and none below the current number, the votes in the shared
  pool are consistent, and every process is in a state that a process of its number reaches by itself. So
  whatever holds of every reachable process holds of all processes of the service.\<close>

theorem service_refines_processes:
  assumes "service_reachable e W rl up pm" "env_ok e"
  shows "gomap_ok (pm_processMap pm) \<and> pool_ok (ve_crypto e) (pm_votePool pm) \<and>
    (\<forall>n p. map_of (pm_processMap pm) n = Some p \<longrightarrow> pm_curNumber pm \<le> n \<and> p_number p = n \<and>
       proc_reachable e W (rl n) n (pm_votePool pm, p))"
proof -
  have ok: "service_ok e W rl up pm" by (rule service_reachable_ok [OF assms])
  have "p_number p = n" if "proc_reachable e W (rl n) n (pm_votePool pm, p)" for n p
    using proc_reachable_ok [OF that assms(2)] by (simp add: proc_ok_def base_ok_def)
  then show ?thesis using ok by (auto simp: service_ok_def vpool_ok_def)
qed

section \<open>Crashes\<close>

lemma call_process_None: "call_process f n (pm, p) = None \<longleftrightarrow> f (pm_votePool pm, p) = None"
  by (auto simp: call_process_def split: option.splits)

lemma call_handler_returns:
  assumes "service_ok e W rl up pm \<and> map_of (pm_processMap pm) n = Some p \<and> c" "env_ok e" "quiet e" "event_complete ev"
  shows "call_process (proc_handle e w now ev) n (pm, p) \<noteq> None"
proof -
  have "proc_reachable e W (rl n) n (pm_votePool pm, p)" using assms(1) by (simp add: service_ok_def)
  then show ?thesis unfolding call_process_None by (rule proc_handle_returns [OF _ assms(2,4,3)])
qed

lemma AddVoteToPool_None:
  assumes "vpool_ok e (pm_votePool pm)" "env_ok e"
  shows "AddVoteToPool e now pm h s a = None \<longleftrightarrow> VerifySignWithValidate (ve_crypto e) h s = SignPanic"
proof -
  obtain vp' err where v: "AddVote (ve_crypto e) (ve_voteRange e) now (pm_votePool pm) h s a True = Some (vp', err)"
    using AddVote_keeps [of "ve_crypto e" "pm_votePool pm" "ve_voteRange e"] assms by (auto simp: vpool_ok_def env_ok_def) blast
  have "err = Some VotePanic \<longleftrightarrow> VerifySignWithValidate (ve_crypto e) h s = SignPanic"
    using v by (auto simp: AddVote_def Let_def addVoteToMap_def split: if_splits sign_outcome.splits option.splits prod.splits)
  then show ?thesis using v by (simp add: AddVoteToPool_def pool_add_def)
qed

text \<open>Which messages crash the node. In every reachable state of the service, if no header hash is so short
  that the signature check panics and signing does not panic, exactly these messages make a handler panic: a
  nil role message, a local request without a header, and a vote of the network whose hash, plus one, has
  less than 32 bytes and whose last signature byte is at least 2. The last can be sent by any peer.\<close>

theorem service_crash_iff:
  assumes "service_reachable e W rl up pm" "env_ok e"
    and "\<forall>h s. VerifySignWithValidate (ve_crypto e) (HashNoSignsAndNonce (ve_rlpHash e) h) s \<noteq> SignPanic"
    and "\<forall>h. SignHashWithValidate (ve_signHelper e) h True \<noteq> None"
  shows "service_handle e w now pm msg = None \<longleftrightarrow> msg = RoleMsg None \<or>
    (\<exists>l. msg = LocalRequestMsg (Some (Some l)) \<and> bcr_Header (lr_BlkVerifyConsensusReq l) = None) \<or>
    (\<exists>v. msg = VoteMsg (Some v) \<and> unat (cv_SignHash v) + 1 < 2 ^ 248 \<and> 2 \<le> sig64 (cv_Sign v))"
proof -
  have ok: "service_ok e W rl False pm" using service_reachable_ok [OF assms(1,2)] by (simp add: service_ok_def)
  have q: "quiet e" using assms(3,4) by (simp add: quiet_def)
  note ret = call_handler_returns [OF _ assms(2) q]
  have proc: "call_process (proc_handle e w now ev) n process \<noteq> None"
    if "GetProcess pm n = Inr process" "event_complete ev" for n process ev
    using ret [OF GetProcess_ok [OF ok]] that by (cases process) auto
  have cur: "call_process (proc_handle e w now ev) (pm_curNumber pm1) (GetCurrentProcess pm1) \<noteq> None"
    if "service_ok e W rl False pm1" "event_complete ev" for pm1 ev
    using ret [OF GetCurrentProcess_ok [OF that(1)] that(2)] by (cases "GetCurrentProcess pm1") auto
  show ?thesis
  proof (cases msg)
    case (RoleMsg m)
    show ?thesis
    proof (cases m)
      case (Some rm)
      show ?thesis using cur [OF SetCurNumber_ok [OF ok, of "ru_BlockNum rm + 1"], of "EvStart (ru_Role rm)"]
        by (auto simp: RoleMsg Some service_handle_def handleRoleUpdatedMsg_def proc_handle_methods(1) Let_def)
    qed (simp add: RoleMsg service_handle_def handleRoleUpdatedMsg_def)
  next
    case (LeaderMsg m)
    then show ?thesis using proc
      by (auto simp: service_handle_def handleLeaderChangeNotify_def proc_handle_methods(2) split: option.splits sum.splits)
  next
    case (RequestMsg m)
    then show ?thesis using proc [of _ _ "EvReq m"]
      by (auto simp: service_handle_def handleRequestMsg_def proc_handle_methods(3) split: option.splits sum.splits)
  next
    case (LocalRequestMsg m)
    have "call_process (p_AddLocalReq e w now l) n process \<noteq> None"
      if "GetProcess pm n = Inr process" "bcr_Header (lr_BlkVerifyConsensusReq l) \<noteq> None" for n process l
      using proc [OF that(1), of "EvLocal l"] that(2) by (simp add: proc_handle_methods(4))
    then show ?thesis using LocalRequestMsg
      by (auto simp: service_handle_def handleLocalRequestMsg_def split: option.splits sum.splits)
  next
    case (VoteMsg m)
    have vp: "vpool_ok e (pm_votePool pm)" using ok by (simp add: service_ok_def)
    show ?thesis
    proof (cases m)
      case (Some v)
      have "service_handle e w now pm msg = None \<longleftrightarrow> AddVoteToPool e now pm (cv_SignHash v) (cv_Sign v) (cv_From v) = None"
      proof (cases "AddVoteToPool e now pm (cv_SignHash v) (cv_Sign v) (cv_From v)")
        case (Some r)
        obtain pm1 err where r: "r = (pm1, err)" by fastforce
        have "service_ok e W rl False pm1" using AddVoteToPool_ok [OF ok assms(2)] Some r by blast
        from cur [OF this, of EvDPOS] show ?thesis
          by (cases err) (simp_all add: VoteMsg \<open>m = Some v\<close> service_handle_def handleVoteMsg_def proc_handle_methods(5) [of e w now] Some r)
      qed (simp add: VoteMsg Some service_handle_def handleVoteMsg_def)
      then show ?thesis by (simp add: AddVoteToPool_None [OF vp assms(2)] verify_panic_iff VoteMsg Some) blast
    qed (simp add: VoteMsg service_handle_def handleVoteMsg_def)
  next
    case (RecoveryMsg m)
    then show ?thesis using cur [OF ok]
      by (auto simp: service_handle_def handleRecoveryMsg_def proc_handle_methods(6) Let_def split: option.splits)
  qed
qed

text \<open>While the chain grows, the service works on at most three blocks at a time, the current number and
  the two after it.\<close>

theorem service_window:
  assumes "service_reachable e W rl True pm" "env_ok e"
  shows "length (pm_processMap pm) \<le> 3 \<and>
    (\<forall>n p. map_of (pm_processMap pm) n = Some p \<longrightarrow> unat (pm_curNumber pm) \<le> unat n \<and> unat n \<le> unat (pm_curNumber pm) + 2)"
proof -
  have ok: "ptab.windowed pm" using service_reachable_ok [OF assms] by (simp add: service_ok_def)
  then show ?thesis using ptab.windowed_size [OF ok] by (auto simp: ptab.windowed_def map_has_def word_le_nat_alt)
qed

section \<open>Witnesses\<close>

definition demo_service :: "nat ProcessManage" where
  "demo_service = \<lparr>pm_curNumber = 41, pm_processMap = [(41, demo_proc1)], pm_votePool = NewVotePool RoleValidator\<rparr>"

lemma demo_service_reachable: "service_reachable demo_venv {demo_vview} (\<lambda>_. RoleValidator) True demo_service"
proof -
  let ?m = "RoleMsg (Some \<lparr>ru_Role = RoleValidator, ru_BlockNum = 40, ru_BlockHash = 7, ru_Leader = 2\<rparr>) :: nat blk_msg"
  have "service_handle demo_venv demo_vview 0 NewProcessManage ?m = Some demo_service"
    by (simp add: service_handle_def handleRoleUpdatedMsg_def SetCurNumber_def fixProcessMap_def NewProcessManage_def GetCurrentProcess_def
        getProcess_def call_process_def proc_handle_methods(1) demo_step1 demo_service_def Let_def)
  then show ?thesis
    by (intro service_reachable.step [OF service_reachable.start] service_step.message) (auto simp: role_msg_ok_def NewProcessManage_def)
qed

theorem service_refines_processes_witness:
  "map_of (pm_processMap demo_service) 41 = Some demo_proc1 \<and>
   proc_reachable demo_venv {demo_vview} RoleValidator 41 (pm_votePool demo_service, demo_proc1)"
  using service_refines_processes [OF demo_service_reachable demo_venv_ok(1)] by (simp add: demo_service_def)

theorem service_window_witness: "length (pm_processMap demo_service) \<le> 3 \<and> pm_curNumber demo_service = 41"
  using service_window [OF demo_service_reachable demo_venv_ok(1)] by (simp add: demo_service_def)

theorem service_crash_iff_witness:
  "service_handle demo_venv demo_vview 0 demo_service (VoteMsg (Some \<lparr>cv_SignHash = 5, cv_Round = 41, cv_Sign = 2, cv_From = 1\<rparr>)) = None"
proof -
  have "\<forall>h s. VerifySignWithValidate (ve_crypto demo_venv) (HashNoSignsAndNonce (ve_rlpHash demo_venv) h) s \<noteq> SignPanic"
    by (simp add: verify_panic_iff demo_venv_def demo_hash_of) (simp add: demo_hash_def)
  from service_crash_iff [OF demo_service_reachable demo_venv_ok(1) this] show ?thesis
    by (simp add: demo_sign_hash sig64_def)
qed

end
