(* ===== verification/Gen_Pool.thy ===== *)
theory Gen_Pool
  imports Vote_Pool
begin

text \<open>
  What a block generator keeps for a number: the mining results by block, difficulty and sender
  (\<open>blockgenor/pow_pool.go\<close>) and the blocks that were verified or are ready to be inserted
  (\<open>blockgenor/blockCache.go\<close>).

  The order in which \<open>range\<close> visits a map is an argument. The transactions, receipts and state of a block are
  values of a type \<open>'x\<close> that this code only passes on.
\<close>

section \<open>blockgenor/pow_pool.go\<close>

record HD_MiningRspMsg =
  mr_From :: address
  mr_Number :: u64
  mr_BlockHash :: hash
  mr_Difficulty :: int
  mr_Nonce :: u64
  mr_Coinbase :: address
  mr_MixDigest :: hash
  mr_Signatures :: "signature list"

datatype pow_error = ErrPowExist | ErrTooMuchResults | ErrNoResultByDiff | ErrNoResultByHash

record blockPowCache =
  bpc_resultMap :: "(hash, (address, HD_MiningRspMsg) gomap) gomap"
  bpc_blockHash :: hash

definition newBlockPowCache :: "hash \<Rightarrow> blockPowCache" where
  "newBlockPowCache blockHash = \<lparr>bpc_resultMap = [], bpc_blockHash = blockHash\<rparr>"

text \<open>\<open>common.BytesToHash(diff.Bytes())\<close>: the absolute value, of which the lower 32 bytes are kept.\<close>

definition diffHash :: "int \<Rightarrow> hash" where
  "diffHash diff = word_of_int \<bar>diff\<bar>"

definition addPow :: "blockPowCache \<Rightarrow> int \<Rightarrow> HD_MiningRspMsg \<Rightarrow> blockPowCache \<times> pow_error option" where
  "addPow bpc diff minerResult =
    (let fromMap = (case map_of (bpc_resultMap bpc) (diffHash diff) of None \<Rightarrow> [] | Some m \<Rightarrow> m)
     in if map_has fromMap (mr_From minerResult)
        then (bpc\<lparr>bpc_resultMap := map_put (diffHash diff) fromMap (bpc_resultMap bpc)\<rparr>, Some ErrPowExist)
        else (bpc\<lparr>bpc_resultMap := map_put (diffHash diff) (map_put (mr_From minerResult) minerResult fromMap) (bpc_resultMap bpc)\<rparr>, None))"

definition delPow :: "blockPowCache \<Rightarrow> int \<Rightarrow> address \<Rightarrow> blockPowCache \<times> bool" where
  "delPow bpc diff from =
    (case map_of (bpc_resultMap bpc) (diffHash diff) of
       None \<Rightarrow> (bpc, False)
     | Some fromMap \<Rightarrow>
         (let fromMap' = map_del from fromMap
          in (bpc\<lparr>bpc_resultMap := map_put (diffHash diff) fromMap' (bpc_resultMap bpc)\<rparr>, length fromMap \<noteq> length fromMap')))"

type_synonym result_range = "(address \<times> HD_MiningRspMsg) list \<Rightarrow> (address \<times> HD_MiningRspMsg) list"

definition getPow :: "result_range \<Rightarrow> blockPowCache \<Rightarrow> int \<Rightarrow> pow_error + HD_MiningRspMsg list" where
  "getPow rng bpc diff =
    (case map_of (bpc_resultMap bpc) (diffHash diff) of
       None \<Rightarrow> Inl ErrNoResultByDiff
     | Some fromMap \<Rightarrow> if length fromMap = 0 then Inl ErrNoResultByDiff else Inr (map snd (rng fromMap)))"

record PowPool =
  pp_powMap :: "(hash, blockPowCache) gomap"
  pp_countMap :: "(address, int) gomap"
  pp_countLimit :: int

definition NewPowPool :: PowPool where
  "NewPowPool = \<lparr>pp_powMap = [], pp_countMap = [], pp_countLimit = int VotePoolCountLimit\<rparr>"

definition getFromCount :: "PowPool \<Rightarrow> address \<Rightarrow> int" where
  "getFromCount self address = (case map_of (pp_countMap self) address of Some cnt \<Rightarrow> cnt | None \<Rightarrow> 0)"

definition plusFromCount :: "PowPool \<Rightarrow> address \<Rightarrow> PowPool" where
  "plusFromCount self address =
    (case map_of (pp_countMap self) address of
       None \<Rightarrow> self\<lparr>pp_countMap := map_put address 1 (pp_countMap self)\<rparr>
     | Some cnt \<Rightarrow> self\<lparr>pp_countMap := map_put address (cnt + 1) (pp_countMap self)\<rparr>)"

definition minusFromCount :: "PowPool \<Rightarrow> address \<Rightarrow> PowPool" where
  "minusFromCount self address =
    (case map_of (pp_countMap self) address of
       None \<Rightarrow> self
     | Some cnt \<Rightarrow>
         self\<lparr>pp_countMap := map_put address (if cnt > 0 then cnt - 1 else 0) (pp_countMap self)\<rparr>)"

definition AddMinerResult :: "PowPool \<Rightarrow> hash \<Rightarrow> int \<Rightarrow> HD_MiningRspMsg \<Rightarrow> PowPool \<times> pow_error option" where
  "AddMinerResult self blockHash diff minerResult =
    (if getFromCount self (mr_From minerResult) \<ge> pp_countLimit self then (self, Some ErrTooMuchResults)
     else
       (let blockCache = (case map_of (pp_powMap self) blockHash of None \<Rightarrow> newBlockPowCache blockHash | Some c \<Rightarrow> c)
        in case addPow blockCache diff minerResult of
             (c, Some err) \<Rightarrow> (self\<lparr>pp_powMap := map_put blockHash c (pp_powMap self)\<rparr>, Some err)
           | (c, None) \<Rightarrow>
               (plusFromCount (self\<lparr>pp_powMap := map_put blockHash c (pp_powMap self)\<rparr>) (mr_From minerResult), None)))"

definition DelOneResult :: "PowPool \<Rightarrow> hash \<Rightarrow> int \<Rightarrow> address \<Rightarrow> PowPool" where
  "DelOneResult self blockHash diff from =
    (case map_of (pp_powMap self) blockHash of
       None \<Rightarrow> self
     | Some blockCache \<Rightarrow>
         (case delPow blockCache diff from of (c, success) \<Rightarrow>
            (let self = self\<lparr>pp_powMap := map_put blockHash c (pp_powMap self)\<rparr>
             in if success then minusFromCount self from else self)))"

definition GetMinerResults :: "result_range \<Rightarrow> PowPool \<Rightarrow> hash \<Rightarrow> int \<Rightarrow> pow_error + HD_MiningRspMsg list" where
  "GetMinerResults rng self blockHash diff =
    (case map_of (pp_powMap self) blockHash of
       None \<Rightarrow> Inl ErrNoResultByHash
     | Some blockCache \<Rightarrow> getPow rng blockCache diff)"

section \<open>blockgenor/blockCache.go\<close>

datatype blockState = blockStateLocalVerified | blockStateReady

record 'x BlockLocalVerifyOK =
  lo_Header :: Header
  lo_BlockHash :: hash
  lo_Txs :: "'x option"
  lo_Receipts :: "'x option"
  lo_State :: "'x option"

record 'x blockCacheData =
  bd_block :: "'x BlockLocalVerifyOK"
  bd_state :: blockState

type_synonym 'x blockCache = "(address, 'x blockCacheData) gomap"

definition newBlockCache :: "'x blockCache" where
  "newBlockCache = []"

definition SaveVerifiedBlock :: "'x blockCache \<Rightarrow> 'x BlockLocalVerifyOK \<Rightarrow> 'x blockCache" where
  "SaveVerifiedBlock self block =
    (if map_has self (h_Leader (lo_Header block)) then self
     else map_put (h_Leader (lo_Header block)) \<lparr>bd_block = block, bd_state = blockStateLocalVerified\<rparr> self)"

definition SaveReadyBlock :: "'x blockCache \<Rightarrow> 'x BlockLocalVerifyOK \<Rightarrow> 'x blockCache" where
  "SaveReadyBlock self block = map_put (h_Leader (lo_Header block)) \<lparr>bd_block = block, bd_state = blockStateReady\<rparr> self"

text \<open>The code returns a pointer to the data and writes through it, so the getters of the model return the
  key with the data.\<close>

definition GetBlockData :: "'x blockCache \<Rightarrow> address \<Rightarrow> (address \<times> 'x blockCacheData) option" where
  "GetBlockData self leader = map_option (\<lambda>d. (leader, d)) (map_of self leader)"

definition block_time :: "'x blockCacheData \<Rightarrow> int" where
  "block_time d = i64 (int (h_Time (lo_Header (bd_block d))))"

fun last_block_loop ::
  "(address \<times> 'x blockCacheData) option \<Rightarrow> int \<Rightarrow> (address \<times> 'x blockCacheData) list \<Rightarrow> (address \<times> 'x blockCacheData) option" where
  "last_block_loop blockData lastTime [] = blockData"
| "last_block_loop blockData lastTime ((a, v) # vs) =
    (if block_time v > lastTime then last_block_loop (Some (a, v)) (block_time v) vs
     else last_block_loop blockData lastTime vs)"

type_synonym 'x cache_range = "(address \<times> 'x blockCacheData) list \<Rightarrow> (address \<times> 'x blockCacheData) list"

definition GetLastBlockData :: "'x cache_range \<Rightarrow> 'x blockCache \<Rightarrow> (address \<times> 'x blockCacheData) option" where
  "GetLastBlockData rng self = last_block_loop None 0 (rng self)"

definition GetBlockDataByBlockHash :: "'x cache_range \<Rightarrow> 'x blockCache \<Rightarrow> hash \<Rightarrow> (address \<times> 'x blockCacheData) option" where
  "GetBlockDataByBlockHash rng self h = find (\<lambda>av. h = lo_BlockHash (bd_block (snd av))) (rng self)"

section \<open>The pool of mining results\<close>

definition lookup_pow :: "PowPool \<Rightarrow> hash \<Rightarrow> hash \<Rightarrow> address \<Rightarrow> HD_MiningRspMsg option" where
  "lookup_pow pool h d a =
    Option.bind (map_of (pp_powMap pool) h) (\<lambda>c. Option.bind (map_of (bpc_resultMap c) d) (\<lambda>m. map_of m a))"

text \<open>The places at which the pool holds a result of an account.\<close>

definition held_by :: "PowPool \<Rightarrow> address \<Rightarrow> (hash \<times> hash) set" where
  "held_by pool a = {(h, d). lookup_pow pool h d a \<noteq> None}"

definition pow_maps_ok :: "PowPool \<Rightarrow> bool" where
  "pow_maps_ok pool \<longleftrightarrow> gomap_ok (pp_powMap pool) \<and> gomap_ok (pp_countMap pool) \<and>
    (\<forall>h c. map_of (pp_powMap pool) h = Some c \<longrightarrow> gomap_ok (bpc_resultMap c) \<and>
      (\<forall>d m. map_of (bpc_resultMap c) d = Some m \<longrightarrow> gomap_ok m))"

definition powpool_ok :: "PowPool \<Rightarrow> bool" where
  "powpool_ok pool \<longleftrightarrow> pow_maps_ok pool \<and> pp_countLimit pool = int VotePoolCountLimit \<and>
    (\<forall>a. finite (held_by pool a) \<and> getFromCount pool a = int (card (held_by pool a)) \<and> card (held_by pool a) \<le> VotePoolCountLimit) \<and>
    (\<forall>h d a r. lookup_pow pool h d a = Some r \<longrightarrow> mr_From r = a)"

lemma NewPowPool_ok: "powpool_ok NewPowPool"
  by (simp add: powpool_ok_def pow_maps_ok_def NewPowPool_def held_by_def lookup_pow_def getFromCount_def VotePoolCountLimit_def)

lemma plusFromCount_simps [simp]:
  "pp_powMap (plusFromCount pool a) = pp_powMap pool" "pp_countLimit (plusFromCount pool a) = pp_countLimit pool"
  "getFromCount (plusFromCount pool a) b = getFromCount pool b + (if a = b then 1 else 0)"
  "gomap_ok (pp_countMap pool) \<Longrightarrow> gomap_ok (pp_countMap (plusFromCount pool a))"
  by (simp_all add: plusFromCount_def getFromCount_def split: option.splits)

lemma minusFromCount_simps [simp]:
  "pp_powMap (minusFromCount pool a) = pp_powMap pool" "pp_countLimit (minusFromCount pool a) = pp_countLimit pool"
  "0 < getFromCount pool a \<Longrightarrow> getFromCount (minusFromCount pool a) b = getFromCount pool b - (if a = b then 1 else 0)"
  "gomap_ok (pp_countMap pool) \<Longrightarrow> gomap_ok (pp_countMap (minusFromCount pool a))"
  by (simp_all add: minusFromCount_def getFromCount_def split: option.splits)

lemma lookup_pow_frame [simp]: "lookup_pow (plusFromCount pool x) h d a = lookup_pow pool h d a"
  "lookup_pow (minusFromCount pool x) h d a = lookup_pow pool h d a"
  by (simp_all add: lookup_pow_def)

text \<open>What a write into the maps does to a lookup.\<close>

lemma lookup_pow_put:
  "lookup_pow (pool\<lparr>pp_powMap := map_put h (c\<lparr>bpc_resultMap := map_put d m (bpc_resultMap c)\<rparr>) (pp_powMap pool)\<rparr>) h' d' a =
    (if h' \<noteq> h then lookup_pow pool h' d' a else if d' \<noteq> d then Option.bind (map_of (bpc_resultMap c) d') (\<lambda>m. map_of m a) else map_of m a)"
  by (simp add: lookup_pow_def)

definition the_cache :: "PowPool \<Rightarrow> hash \<Rightarrow> blockPowCache" where
  "the_cache pool h = (case map_of (pp_powMap pool) h of None \<Rightarrow> newBlockPowCache h | Some c \<Rightarrow> c)"

definition the_results :: "PowPool \<Rightarrow> hash \<Rightarrow> hash \<Rightarrow> (address, HD_MiningRspMsg) gomap" where
  "the_results pool h d = (case map_of (bpc_resultMap (the_cache pool h)) d of None \<Rightarrow> [] | Some m \<Rightarrow> m)"

definition put_results :: "PowPool \<Rightarrow> hash \<Rightarrow> hash \<Rightarrow> (address, HD_MiningRspMsg) gomap \<Rightarrow> PowPool" where
  "put_results pool h d m = pool\<lparr>pp_powMap := map_put h ((the_cache pool h)\<lparr>bpc_resultMap := map_put d m (bpc_resultMap (the_cache pool h))\<rparr>) (pp_powMap pool)\<rparr>"

lemma the_results_lookup: "map_of (the_results pool h d) a = lookup_pow pool h d a"
  by (auto simp: the_results_def the_cache_def lookup_pow_def newBlockPowCache_def split: option.splits)

lemma put_results_lookup: "lookup_pow (put_results pool h d m) h' d' a = (if h' = h \<and> d' = d then map_of m a else lookup_pow pool h' d' a)"
  by (auto simp: put_results_def lookup_pow_put lookup_pow_def the_cache_def newBlockPowCache_def split: option.splits)

lemma put_results_maps:
  assumes "pow_maps_ok pool" "gomap_ok m"
  shows "pow_maps_ok (put_results pool h d m)"
proof -
  have "gomap_ok (bpc_resultMap (the_cache pool h)) \<and> (\<forall>d m. map_of (bpc_resultMap (the_cache pool h)) d = Some m \<longrightarrow> gomap_ok m)"
    using assms(1) by (auto simp: the_cache_def pow_maps_ok_def newBlockPowCache_def split: option.splits)
  then show ?thesis using assms by (auto simp: pow_maps_ok_def put_results_def split: if_splits)
qed

lemma the_results_ok: "pow_maps_ok pool \<Longrightarrow> gomap_ok (the_results pool h d)"
  by (auto simp: the_results_def the_cache_def pow_maps_ok_def newBlockPowCache_def split: option.splits)

lemma AddMinerResult_eq:
  "AddMinerResult pool h diff r =
    (if getFromCount pool (mr_From r) \<ge> pp_countLimit pool then (pool, Some ErrTooMuchResults)
     else if lookup_pow pool h (diffHash diff) (mr_From r) \<noteq> None
     then (put_results pool h (diffHash diff) (the_results pool h (diffHash diff)), Some ErrPowExist)
     else (plusFromCount (put_results pool h (diffHash diff) (map_put (mr_From r) r (the_results pool h (diffHash diff)))) (mr_From r), None))"
  by (simp add: AddMinerResult_def addPow_def Let_def put_results_def map_has_def
      flip: the_cache_def the_results_def the_results_lookup)

lemma map_put_same: "map_of m k = Some v \<Longrightarrow> map_put k v m = m"
  by (induction m) (auto simp: map_put_Cons split: if_splits)

lemma DelOneResult_cases:
  assumes "pow_maps_ok pool"
  shows "lookup_pow pool h (diffHash diff) a = None \<and> DelOneResult pool h diff a = pool \<or>
    DelOneResult pool h diff a =
      (let pool' = put_results pool h (diffHash diff) (map_del a (the_results pool h (diffHash diff)))
       in if lookup_pow pool h (diffHash diff) a \<noteq> None then minusFromCount pool' a else pool')"
proof -
  have l: "length (the_results pool h d) \<noteq> length (map_del a (the_results pool h d)) \<longleftrightarrow> lookup_pow pool h d a \<noteq> None" for d
    using length_map_del_present [OF the_results_ok [OF assms, of h d], of a] map_del_absent [of "the_results pool h d" a]
    by (cases "map_has (the_results pool h d) a") (auto simp: map_has_def the_results_lookup)
  show ?thesis
  proof (cases "map_of (pp_powMap pool) h = None \<or> map_of (bpc_resultMap (the_cache pool h)) (diffHash diff) = None")
    case True
    then show ?thesis by (auto simp: DelOneResult_def delPow_def lookup_pow_def the_cache_def map_put_same split: option.splits)
  next
    case False
    then show ?thesis using l [of "diffHash diff"]
      by (auto simp: DelOneResult_def delPow_def Let_def put_results_def the_cache_def the_results_def split: option.splits)
  qed
qed

lemma held_by_put:
  "held_by (put_results pool h d m) a = {x \<in> held_by pool a. x \<noteq> (h, d)} \<union> (if map_of m a \<noteq> None then {(h, d)} else {})"
  by (auto simp: held_by_def put_results_lookup split: if_splits)

lemma held_by_frame [simp]:
  "held_by (plusFromCount pool x) a = held_by pool a" "held_by (minusFromCount pool x) a = held_by pool a"
  by (simp_all add: held_by_def)

lemma put_results_simps [simp]:
  "pp_countMap (put_results pool h d m) = pp_countMap pool" "pp_countLimit (put_results pool h d m) = pp_countLimit pool"
  "getFromCount (put_results pool h d m) a = getFromCount pool a"
  by (simp_all add: put_results_def getFromCount_def)

lemma pow_maps_frame [simp]:
  "pow_maps_ok pool \<Longrightarrow> pow_maps_ok (plusFromCount pool a)" "pow_maps_ok pool \<Longrightarrow> pow_maps_ok (minusFromCount pool a)"
  by (simp_all add: pow_maps_ok_def)

lemma AddMinerResult_ok:
  assumes "powpool_ok pool"
  shows "powpool_ok (fst (AddMinerResult pool h diff r))"
proof -
  let ?d = "diffHash diff" and ?a = "mr_From r"
  have ok: "pow_maps_ok pool" using assms by (simp add: powpool_ok_def)
  consider "fst (AddMinerResult pool h diff r) = pool"
    | "fst (AddMinerResult pool h diff r) = put_results pool h ?d (the_results pool h ?d)"
    | "lookup_pow pool h ?d ?a = None" "getFromCount pool ?a < pp_countLimit pool"
      "fst (AddMinerResult pool h diff r) = plusFromCount (put_results pool h ?d (map_put ?a r (the_results pool h ?d))) ?a"
    by (cases "getFromCount pool ?a \<ge> pp_countLimit pool"; cases "lookup_pow pool h ?d ?a") (simp_all add: AddMinerResult_eq)
  then show ?thesis
  proof cases
    case 2
    have "held_by (put_results pool h ?d (the_results pool h ?d)) b = held_by pool b" for b
      by (auto simp: held_by_def put_results_lookup the_results_lookup)
    then show ?thesis using assms put_results_maps [OF ok the_results_ok [OF ok]]
      by (simp add: 2 powpool_ok_def put_results_lookup the_results_lookup)
  next
    case 3
    let ?m = "map_put ?a r (the_results pool h ?d)"
    have m: "map_of ?m = (map_of (the_results pool h ?d))(?a \<mapsto> r)" by (simp add: fun_eq_iff)
    have "(h, ?d) \<notin> held_by pool ?a" using 3(1) by (simp add: held_by_def)
    then have "held_by (put_results pool h ?d ?m) b = (if b = ?a then insert (h, ?d) (held_by pool b) else held_by pool b)" for b
      by (auto simp: held_by_put the_results_lookup) (auto simp: held_by_def)
    then show ?thesis using assms 3 put_results_maps [OF ok gomap_ok_put [OF the_results_ok [OF ok]]] \<open>(h, ?d) \<notin> held_by pool ?a\<close>
      by (auto simp: powpool_ok_def put_results_lookup the_results_lookup split: if_splits)
  qed (use assms in simp)
qed

lemma DelOneResult_ok:
  assumes "powpool_ok pool"
  shows "powpool_ok (DelOneResult pool h diff a)"
proof -
  let ?d = "diffHash diff"
  have ok: "pow_maps_ok pool" using assms by (simp add: powpool_ok_def)
  let ?p = "put_results pool h ?d (map_del a (the_results pool h ?d))"
  have pm: "pow_maps_ok ?p" using put_results_maps [OF ok gomap_ok_del [OF the_results_ok [OF ok]]] .
  have held: "held_by ?p b = held_by pool b - (if b = a then {(h, ?d)} else {})" for b
    by (auto simp: held_by_put the_results_lookup) (auto simp: held_by_def)
  have lk: "mr_From r = b" if "lookup_pow ?p h' d' b = Some r" for h' d' b r
    using that assms by (auto simp: powpool_ok_def put_results_lookup the_results_lookup split: if_splits)
  have cnt: "finite (held_by pool b)" "getFromCount pool b = int (card (held_by pool b))" "card (held_by pool b) \<le> VotePoolCountLimit" for b
    using assms by (auto simp: powpool_ok_def)
  from DelOneResult_cases [OF ok, of h diff a]
  consider "DelOneResult pool h diff a = pool" | "lookup_pow pool h ?d a = None" "DelOneResult pool h diff a = ?p"
    | "lookup_pow pool h ?d a \<noteq> None" "DelOneResult pool h diff a = minusFromCount ?p a"
    by (auto simp: Let_def split: if_splits)
  then show ?thesis
  proof cases
    case 2
    then have "(h, ?d) \<notin> held_by pool a" by (simp add: held_by_def)
    then show ?thesis using 2 assms pm held lk by (auto simp: powpool_ok_def)
  next
    case 3
    then have h: "(h, ?d) \<in> held_by pool a" by (auto simp: held_by_def)
    then have c: "card (held_by pool a - {(h, ?d)}) = card (held_by pool a) - 1" "0 < card (held_by pool a)"
      using cnt(1) [of a] by (auto simp: card_gt_0_iff)
    moreover have "card (held_by pool a) - 1 \<le> VotePoolCountLimit" using cnt(3) [of a] by simp
    moreover have "0 < getFromCount ?p a" using c(2) cnt(2) [of a] by simp
    ultimately show ?thesis using 3 assms pm held lk cnt by (auto simp: powpool_ok_def)
  qed (use assms in simp)
qed

text \<open>Any sequence of calls of the two writing operations.\<close>

datatype pow_op = PowAdd hash int HD_MiningRspMsg | PowDel hash int address

fun pow_run :: "PowPool \<Rightarrow> pow_op list \<Rightarrow> PowPool" where
  "pow_run pool [] = pool"
| "pow_run pool (PowAdd h diff r # ops) = pow_run (fst (AddMinerResult pool h diff r)) ops"
| "pow_run pool (PowDel h diff a # ops) = pow_run (DelOneResult pool h diff a) ops"

lemma pow_run_ok: "powpool_ok pool \<Longrightarrow> powpool_ok (pow_run pool ops)"
  by (induction pool ops rule: pow_run.induct) (simp_all add: AddMinerResult_ok DelOneResult_ok)

text \<open>The counters of the pool of mining results are exact: after any sequence of insertions and deletions the
  counter of an account is the number of results of that account which the pool holds, it never exceeds the
  limit, and a result whose deletion was asked for is gone, so that the account can be admitted again.\<close>

theorem powpool_counts:
  "getFromCount (pow_run NewPowPool ops) a = int (card (held_by (pow_run NewPowPool ops) a)) \<and>
   card (held_by (pow_run NewPowPool ops) a) \<le> VotePoolCountLimit \<and>
   lookup_pow (DelOneResult (pow_run NewPowPool ops) h diff a) h (diffHash diff) a = None"
proof -
  have ok: "powpool_ok (pow_run NewPowPool ops)" by (rule pow_run_ok [OF NewPowPool_ok])
  then have "pow_maps_ok (pow_run NewPowPool ops)" by (simp add: powpool_ok_def)
  from DelOneResult_cases [OF this, of h diff a]
  have "lookup_pow (DelOneResult (pow_run NewPowPool ops) h diff a) h (diffHash diff) a = None"
    by (auto simp: Let_def put_results_lookup)
  then show ?thesis using ok by (simp add: powpool_ok_def)
qed

text \<open>A result that the pool admits is among the results that are read for its block and difficulty.\<close>

lemma added_result_read:
  assumes "pow_maps_ok pool" "\<And>m. set (rng m) = set m" "AddMinerResult pool h diff r = (pool', None)"
  shows "\<exists>rs. GetMinerResults rng pool' h diff = Inr rs \<and> r \<in> set rs"
proof -
  let ?m = "map_put (mr_From r) r (the_results pool h (diffHash diff))"
  have p: "pool' = plusFromCount (put_results pool h (diffHash diff) ?m) (mr_From r)"
    using assms(3) by (simp add: AddMinerResult_eq split: if_splits)
  have "map_of ?m (mr_From r) = Some r" by simp
  then have "(mr_From r, r) \<in> set ?m" by (rule map_of_SomeD)
  then have "?m \<noteq> []" "r \<in> set (map snd (rng ?m))" using assms(2) by force+
  then show ?thesis by (simp add: p GetMinerResults_def getPow_def put_results_def)
qed

end
