(* ===== verification/Gen_Process.thy ===== *)
theory Gen_Process
  imports Blk_Process Gen_Pool
begin

text \<open>
  The generation of the block of one number by a leader or broadcast node, and the insertion of the finished
  block by every node: \<open>blockgenor/process.go\<close>, \<open>process_header.go\<close>, \<open>process_block.go\<close>,
  \<open>process_broadcast.go\<close> and \<open>gen_election_topology.go\<close>.

  A function takes and returns the process; \<^const>\<open>None\<close> is a panic. Messages that are sent, events that are
  published and blocks that are written are appended to the field \<open>g_out\<close>. What stays the same is the record
  \<open>gen_env\<close>, what the chain, the engine and the services answer during a call is the record \<open>gen_view\<close>, the
  clock is the argument \<open>now\<close>. The handlers read the header of a message before they pass it on, so the headers
  that come in here are not nil. Names that the verification process also has carry the suffix \<open>_gen\<close>.
\<close>

section \<open>Environment and state\<close>

record 'x gen_env =
  ge_crypto :: crypto_env
  ge_rlpHash :: "rlp_val \<Rightarrow> hash"
  ge_order :: dpos_order
  ge_BroadCastNodes :: "address list"
  ge_self :: address
  ge_signHelper :: SignHelper
  ge_NewResendMsgCtrl :: "nat \<Rightarrow> nat \<Rightarrow> bool"
  ge_resultRange :: result_range
  ge_cacheRange :: "'x cache_range"
  ge_DeriveSha :: "'x option \<Rightarrow> hash"
  ge_TargetGasLimit :: u64

text \<open>Three runs of transactions are parameters: of the pool when a header is made, with the finished header,
  the codes, the transactions, the receipts and the state; of the transactions of a received block; and of
  the transactions of a broadcast block, which writes into the header of the received block.\<close>

datatype 'x gen_exec = GenNoWork | GenFailed | GenDone Header "u32 list" 'x 'x 'x

datatype 'x bc_exec = BcNoWork | BcFailed Header | BcDone Header 'x 'x

datatype write_result = WriteFailed | WriteCanon | WriteSide

record 'x gen_view =
  gw_reader :: ValidatorReader
  gw_VerifySeal :: "Header \<Rightarrow> bool"
  gw_VerifyHeader :: "Header \<Rightarrow> bool"
  gw_GetHeaderByNumber :: "u64 \<Rightarrow> Header option"
  gw_GetBlockByHash :: "hash \<Rightarrow> Header option"
  gw_Genesis :: Header
  gw_OriginalRole :: "address \<Rightarrow> u64 \<Rightarrow> role_type"
  gw_check :: check_view
  gw_Prepare :: "Header \<Rightarrow> Header option"
  gw_RunPool :: "Header \<Rightarrow> 'x gen_exec"
  gw_RunSpecial :: "Header \<Rightarrow> 'x gen_exec"
  gw_Execute :: "Header \<Rightarrow> 'x option \<Rightarrow> 'x exec_result"
  gw_ExecuteBroadcast :: "Header \<Rightarrow> 'x option \<Rightarrow> 'x bc_exec"
  gw_WriteBlock :: "Header \<Rightarrow> 'x option \<Rightarrow> 'x option \<Rightarrow> 'x option \<Rightarrow> write_result option"

datatype gen_state =
    GenIdle | GenBlockBroadcast | GenHeaderGen | GenMinerResultVerify | GenBlockInsert | GenEnd

fun gen_code :: "gen_state \<Rightarrow> nat" where
  "gen_code GenIdle = 0"
| "gen_code GenBlockBroadcast = 1"
| "gen_code GenHeaderGen = 2"
| "gen_code GenMinerResultVerify = 3"
| "gen_code GenBlockInsert = 4"
| "gen_code GenEnd = 5"

record 'x BlockData =
  bk_Header :: Header
  bk_Txs :: "'x option"

record HD_FullBlockReqMsg =
  fq_HeaderHash :: hash
  fq_Number :: u64
  fq_From :: address

record 'x HD_FullBlockRspMsg =
  fr_Header :: Header
  fr_Txs :: "'x option"
  fr_From :: address

datatype 'x gen_out =
    SendNewBlockInsert "Header option"
  | SendFullBlockReq HD_FullBlockReqMsg address
  | SendFullBlockRsp "'x HD_FullBlockRspMsg" address
  | PubNewBlockReady Header
  | PubHeaderVerifyReq "'x LocalBlockVerifyConsensusReq"
  | PubBroadcastMiningReq "'x BlockData"
  | MakeStruck "'x option" hash u64
  | InsertBlock Header "'x option" "'x option" "'x option"
  | PubMinedBlock Header
  | PubChainHead Header
  | PubHeaderGenerateReq u64
  | FetcherNotify hash u64

record 'x Process_gen =
  g_curLeader :: address
  g_nextLeader :: address
  g_consensusTurn :: u32
  g_preBlockHash :: hash
  g_number :: u64
  g_role :: role_type
  g_state :: gen_state
  g_powPool :: PowPool
  g_broadcastRstCache :: "'x BlockData list"
  g_blockCache :: "'x blockCache"
  g_insertBlockHash :: "hash list"
  g_FullBlockReqCache :: "HD_FullBlockReqMsg ReuseMsgController"
  g_consensusReqSender :: "HD_BlkConsensusReqMsg option"
  g_out :: "'x gen_out list"

definition newProcess_gen :: "u64 \<Rightarrow> 'x Process_gen" where
  "newProcess_gen number = \<lparr>g_curLeader = 0, g_nextLeader = 0, g_consensusTurn = 0, g_preBlockHash = 0, g_number = number,
    g_role = RoleNil, g_state = GenIdle, g_powPool = NewPowPool, g_broadcastRstCache = [], g_blockCache = newBlockCache,
    g_insertBlockHash = [], g_FullBlockReqCache = NewReuseMsgController 3, g_consensusReqSender = None, g_out = []\<rparr>"

definition emit :: "'x gen_out \<Rightarrow> 'x Process_gen \<Rightarrow> 'x Process_gen" where
  "emit m p = p\<lparr>g_out := g_out p @ [m]\<rparr>"

definition checkState_gen :: "gen_state \<Rightarrow> 'x Process_gen \<Rightarrow> bool" where
  "checkState_gen state p \<longleftrightarrow> g_state p = state"

definition changeState_gen :: "gen_state \<Rightarrow> 'x Process_gen \<Rightarrow> 'x Process_gen" where
  "changeState_gen targetState p =
    (if gen_code (g_state p) + 1 = gen_code targetState then p\<lparr>g_state := targetState\<rparr> else p)"

text \<open>The hash of a header that may be nil: a nil pointer is encoded as the empty list.\<close>

definition Header_ptr_Hash :: "(rlp_val \<Rightarrow> hash) \<Rightarrow> Header option \<Rightarrow> hash" where
  "Header_ptr_Hash rlpHash h = rlpHash (rlp_ptr rlp_Header h)"

section \<open>core/block_validator.go, core/types/block.go\<close>

definition GasLimitBoundDivisor :: u64 where "GasLimitBoundDivisor = 1024"
definition MinGasLimit :: u64 where "MinGasLimit = 5000"

definition CalcGasLimit :: "u64 \<Rightarrow> Header \<Rightarrow> u64" where
  "CalcGasLimit targetGasLimit parent =
    (let contrib = (h_GasUsed parent + h_GasUsed parent div 2) div GasLimitBoundDivisor;
         decay = h_GasLimit parent div GasLimitBoundDivisor - 1;
         limit = h_GasLimit parent - decay + contrib;
         limit = (if limit < MinGasLimit then MinGasLimit else limit)
     in if limit < targetGasLimit
        then (let limit = h_GasLimit parent + decay in if limit > targetGasLimit then targetGasLimit else limit)
        else limit)"

text \<open>The header of \<open>NewBlockWithTxs\<close>; \<open>EmptyRootHash\<close> is the value of \<open>DeriveSha\<close> on the empty list.\<close>

definition NewBlockWithTxs :: "('x option \<Rightarrow> hash) \<Rightarrow> Header \<Rightarrow> 'x option \<Rightarrow> Header" where
  "NewBlockWithTxs DeriveSha header txs = header\<lparr>h_TxHash := DeriveSha txs\<rparr>"

section \<open>blockgenor/gen_election_topology.go\<close>

definition genElection :: "check_view \<Rightarrow> u64 \<Rightarrow> Elect list" where
  "genElection w num = (case cv_GetElection w num of None \<Rightarrow> [] | Some info \<Rightarrow> TransferToElectionStu info)"

definition genAllNetTopology :: "check_view \<Rightarrow> u64 \<Rightarrow> NetTopology option" where
  "genAllNetTopology w num = map_option TransferToNetTopologyAllStu (cv_GetNetTopologyAll w num)"

definition getPrevTopology :: "check_view \<Rightarrow> u64 \<Rightarrow> TopologyGraph option" where
  "getPrevTopology w num =
    cv_GetTopologyByNumber w (RoleValidator OR RoleBackupValidator OR RoleMiner OR RoleBackupMiner) (num - 1)"

definition parseOnlineState_gen :: "NetTopology \<Rightarrow> TopologyGraph \<Rightarrow> address list \<times> address list \<times> address list" where
  "parseOnlineState_gen currentNetTopology prevTopology =
    (let (onlinePrimaryNods, offlinePrimaryNodes) = ParsePrimaryTopNodeState currentNetTopology
     in (ParseTopNodeOffline currentNetTopology prevTopology, onlinePrimaryNods, offlinePrimaryNodes))"

definition genChgNetTopology :: "check_view \<Rightarrow> NetTopology \<Rightarrow> u64 \<Rightarrow> NetTopology option" where
  "genChgNetTopology w currentNetTopology num =
    (case getPrevTopology w num of
       None \<Rightarrow> None
     | Some prevTopology \<Rightarrow>
         (case parseOnlineState_gen currentNetTopology prevTopology of (offlineTopNodes, onlinePrimaryNods, offlinePrimaryNodes) \<Rightarrow>
            (case GetTopoChange num offlineTopNodes of
               Inl err \<Rightarrow> None
             | Inr alterInfo \<Rightarrow> Some (TransferToNetTopologyChgStu alterInfo onlinePrimaryNods offlinePrimaryNodes))))"

definition getNetTopology :: "check_view \<Rightarrow> NetTopology \<Rightarrow> u64 \<Rightarrow> NetTopology option" where
  "getNetTopology w currentNetTopology num =
    (if IsReElectionNumber (num + 1) then genAllNetTopology w num else genChgNetTopology w currentNetTopology num)"

section \<open>Inserting blocks (process_block.go)\<close>

datatype gen_error =
    MinerResultError
  | HaveNotOKResultError
  | HaveNoGenBlockError
  | HashNoSignNotMatchError
  | WriteBlockError
  | DposError dpos_error
  | SealError

definition copyHeader :: "Header \<Rightarrow> HD_MiningRspMsg \<Rightarrow> Header" where
  "copyHeader header minerResult = header\<lparr>h_Nonce := mr_Nonce minerResult, h_Coinbase := mr_Coinbase minerResult,
    h_MixDigest := mr_MixDigest minerResult, h_Signatures := mr_Signatures minerResult\<rparr>"

definition dpos_VerifyBlock :: "'x gen_env \<Rightarrow> 'x gen_view \<Rightarrow> Header \<Rightarrow> dpos_error option" where
  "dpos_VerifyBlock e w header =
    VerifyBlock (ge_order e) (ge_crypto e) (ge_rlpHash e) (ge_BroadCastNodes e) (gw_reader w) header"

definition cur_block :: "'x gen_env \<Rightarrow> address \<Rightarrow> 'x Process_gen \<Rightarrow> (address \<times> 'x blockCacheData) option" where
  "cur_block e leader p =
    (if g_role p = RoleBroadcast then GetLastBlockData (ge_cacheRange e) (g_blockCache p) else GetBlockData (g_blockCache p) leader)"

definition insertAndBcBlock ::
  "'x gen_env \<Rightarrow> 'x gen_view \<Rightarrow> Header option \<Rightarrow> 'x Process_gen \<Rightarrow> ('x Process_gen \<times> (gen_error + hash)) option" where
  "insertAndBcBlock e w header p =
    (case cur_block e (g_curLeader p) p of
       None \<Rightarrow> Some (p, Inl HaveNoGenBlockError)
     | Some (_, blockData) \<Rightarrow>
         if bd_state blockData \<noteq> blockStateReady then Some (p, Inl HaveNoGenBlockError)
         else
           (let hashOf = HashNoSignsAndNonce (ge_rlpHash e); own = lo_Header (bd_block blockData)
            in if (case header of None \<Rightarrow> False | Some h \<Rightarrow> hashOf h \<noteq> hashOf own) then Some (p, Inl HashNoSignNotMatchError)
               else
                 (let insertHeader = (case header of None \<Rightarrow> own | Some h \<Rightarrow> h);
                      txs = lo_Txs (bd_block blockData);
                      receipts = lo_Receipts (bd_block blockData);
                      state = lo_State (bd_block blockData);
                      block = NewBlockWithTxs (ge_DeriveSha e) insertHeader txs
                  in case gw_WriteBlock w block txs receipts state of
                       None \<Rightarrow> None
                     | Some WriteFailed \<Rightarrow> Some (p, Inl WriteBlockError)
                     | Some stat \<Rightarrow>
                         if state = None then None
                         else
                           (let p = emit (PubMinedBlock block) (emit (InsertBlock block txs receipts state) p);
                                p = (if stat = WriteCanon then emit (PubChainHead block) p else p)
                            in Some (emit (PubHeaderGenerateReq (g_number p + 1)) p,
                                     Inr (Header_Hash (ge_rlpHash e) block))))))"

definition processBlockInsert :: "'x gen_env \<Rightarrow> 'x gen_view \<Rightarrow> 'x Process_gen \<Rightarrow> 'x Process_gen option" where
  "processBlockInsert e w p =
    (if gen_code (g_state p) < gen_code GenBlockInsert then Some p
     else if IsBroadcastNumber (g_number p + 1) \<and> g_role p \<noteq> RoleBroadcast then Some p
     else if \<not> IsBroadcastNumber (g_number p + 1) \<and>
       (g_role p \<noteq> RoleValidator \<or> g_nextLeader p = 0 \<or> g_nextLeader p \<noteq> ge_self e) then Some p
     else
       (case insertAndBcBlock e w None p of
          None \<Rightarrow> None
        | Some (p, Inl err) \<Rightarrow> Some p
        | Some (p, Inr h) \<Rightarrow> Some (p\<lparr>g_state := GenEnd\<rparr>)))"

section \<open>Mining results (process_block.go, process_broadcast.go)\<close>

definition verifyOneResult :: "'x gen_env \<Rightarrow> 'x gen_view \<Rightarrow> Header \<Rightarrow> HD_MiningRspMsg \<Rightarrow> gen_error option" where
  "verifyOneResult e w rawHeader result =
    (let header = copyHeader rawHeader result
     in if HashNoSignsAndNonce (ge_rlpHash e) header \<noteq> mr_BlockHash result then Some MinerResultError
        else
          (case dpos_VerifyBlock e w header of
             Some err \<Rightarrow> Some (DposError err)
           | None \<Rightarrow> if gw_VerifySeal w header then None else Some SealError))"

fun pickSatisfyMinerResults :: "'x gen_env \<Rightarrow> 'x gen_view \<Rightarrow> Header \<Rightarrow> HD_MiningRspMsg list \<Rightarrow> PowPool \<Rightarrow>
    (PowPool \<times> (gen_error + HD_MiningRspMsg)) option" where
  "pickSatisfyMinerResults e w header [] pool = Some (pool, Inl HaveNotOKResultError)"
| "pickSatisfyMinerResults e w header (result # results) pool =
    (case verifyOneResult e w header result of
       None \<Rightarrow> Some (pool, Inr result)
     | Some err \<Rightarrow>
         if err = DposError DposPanic then None
         else pickSatisfyMinerResults e w header results
           (DelOneResult pool (mr_BlockHash result) (mr_Difficulty result) (mr_From result)))"

definition dealMinerResultVerifyCommon ::
  "'x gen_env \<Rightarrow> 'x gen_view \<Rightarrow> address \<Rightarrow> 'x Process_gen \<Rightarrow> 'x Process_gen option" where
  "dealMinerResultVerifyCommon e w leader p =
    (let ready = (\<lambda>header p. processBlockInsert e w ((emit (PubNewBlockReady header) p)\<lparr>g_state := GenBlockInsert\<rparr>))
     in case cur_block e leader p of
          None \<Rightarrow> Some p
        | Some (a, blockData) \<Rightarrow>
            if bd_state blockData = blockStateLocalVerified then
              (let rawHeader = lo_Header (bd_block blockData); diff = i64 (int (h_Difficulty rawHeader))
               in case GetMinerResults (ge_resultRange e) (g_powPool p) (lo_BlockHash (bd_block blockData)) diff of
                    Inl err \<Rightarrow> Some p
                  | Inr results \<Rightarrow>
                      (case pickSatisfyMinerResults e w rawHeader results (g_powPool p) of
                         None \<Rightarrow> None
                       | Some (pool, Inl err) \<Rightarrow> Some (p\<lparr>g_powPool := pool\<rparr>)
                       | Some (pool, Inr satisfyResult) \<Rightarrow>
                           (let header = copyHeader rawHeader satisfyResult;
                                blockData = blockData\<lparr>bd_block := (bd_block blockData)\<lparr>lo_Header := header\<rparr>, bd_state := blockStateReady\<rparr>
                            in ready header (p\<lparr>g_powPool := pool, g_blockCache := map_put a blockData (g_blockCache p)\<rparr>))))
            else ready (lo_Header (bd_block blockData)) p)"

text \<open>The loop over the broadcast blocks that came in; the run of the transactions writes into the header of
  the cached block.\<close>

fun broadcast_loop :: "'x gen_env \<Rightarrow> 'x gen_view \<Rightarrow> nat \<Rightarrow> 'x BlockData list \<Rightarrow> 'x Process_gen \<Rightarrow> 'x Process_gen option" where
  "broadcast_loop e w i [] p = Some p"
| "broadcast_loop e w i (result # results) p =
    (if gw_GetBlockByHash w (h_ParentHash (bk_Header result)) = None then broadcast_loop e w (i + 1) results p
     else
       (case gw_ExecuteBroadcast w (bk_Header result) (bk_Txs result) of
          BcNoWork \<Rightarrow> broadcast_loop e w (i + 1) results p
        | BcFailed header \<Rightarrow>
            broadcast_loop e w (i + 1) results
              (p\<lparr>g_broadcastRstCache := (g_broadcastRstCache p)[i := result\<lparr>bk_Header := header\<rparr>]\<rparr>)
        | BcDone header receipts state \<Rightarrow>
            (let p = p\<lparr>g_broadcastRstCache := (g_broadcastRstCache p)[i := result\<lparr>bk_Header := header\<rparr>],
                       g_blockCache := SaveReadyBlock (g_blockCache p) \<lparr>lo_Header = header, lo_BlockHash = 0, lo_Txs = bk_Txs result,
                         lo_Receipts = Some receipts, lo_State = Some state\<rparr>\<rparr>
             in processBlockInsert e w (changeState_gen GenBlockInsert (emit (PubNewBlockReady header) p)))))"

definition dealMinerResultVerifyBroadcast :: "'x gen_env \<Rightarrow> 'x gen_view \<Rightarrow> 'x Process_gen \<Rightarrow> 'x Process_gen option" where
  "dealMinerResultVerifyBroadcast e w p = broadcast_loop e w 0 (g_broadcastRstCache p) p"

definition processMinerResultVerify ::
  "'x gen_env \<Rightarrow> 'x gen_view \<Rightarrow> address \<Rightarrow> bool \<Rightarrow> 'x Process_gen \<Rightarrow> 'x Process_gen option" where
  "processMinerResultVerify e w leader check p =
    (if check \<and> \<not> checkState_gen GenMinerResultVerify p then Some p
     else if IsBroadcastNumber (g_number p) then dealMinerResultVerifyBroadcast e w p
     else dealMinerResultVerifyCommon e w leader p)"

definition AddMinerResult_gen :: "'x gen_env \<Rightarrow> 'x gen_view \<Rightarrow> HD_MiningRspMsg \<Rightarrow> 'x Process_gen \<Rightarrow> 'x Process_gen option" where
  "AddMinerResult_gen e w minerResult p =
    (case AddMinerResult (g_powPool p) (mr_BlockHash minerResult) (mr_Difficulty minerResult) minerResult of
       (pool, Some err) \<Rightarrow> Some (p\<lparr>g_powPool := pool\<rparr>)
     | (pool, None) \<Rightarrow> processMinerResultVerify e w (g_curLeader p) True (p\<lparr>g_powPool := pool\<rparr>))"

definition AddConsensusBlock :: "'x gen_env \<Rightarrow> 'x gen_view \<Rightarrow> 'x BlockLocalVerifyOK \<Rightarrow> 'x Process_gen \<Rightarrow> 'x Process_gen option" where
  "AddConsensusBlock e w block p =
    processMinerResultVerify e w (g_curLeader p) True (p\<lparr>g_blockCache := SaveVerifiedBlock (g_blockCache p) block\<rparr>)"

definition preVerifyBroadcastMinerResult :: "'x gen_env \<Rightarrow> 'x gen_view \<Rightarrow> 'x BlockData \<Rightarrow> bool option" where
  "preVerifyBroadcastMinerResult e w result =
    (let header = bk_Header result
     in if gw_OriginalRole w (h_Leader header) (header_number header) \<noteq> RoleBroadcast then Some False
        else if length (h_Signatures header) \<noteq> 1 then Some False
        else if \<not> IsBroadcastNumber (header_number header) then Some False
        else
          (case VerifySignWithValidate (ge_crypto e) (HashNoSignsAndNonce (ge_rlpHash e) header) (h_Signatures header ! 0) of
             SignPanic \<Rightarrow> None
           | SignErr err validate \<Rightarrow> Some False
           | SignOk from validate \<Rightarrow> Some (from = h_Leader header \<and> validate)))"

text \<open>The call of \<open>processMinerResultVerify\<close> at the end of \<open>AddBroadcastMinerResult\<close> does not say whether the
  state is checked; this is the argument \<open>check\<close>.\<close>

definition AddBroadcastMinerResult ::
  "'x gen_env \<Rightarrow> 'x gen_view \<Rightarrow> bool \<Rightarrow> 'x BlockData \<Rightarrow> 'x Process_gen \<Rightarrow> 'x Process_gen option" where
  "AddBroadcastMinerResult e w check result p =
    (case preVerifyBroadcastMinerResult e w result of
       None \<Rightarrow> None
     | Some False \<Rightarrow> Some p
     | Some True \<Rightarrow>
         processMinerResultVerify e w (g_curLeader p) check
           (p\<lparr>g_broadcastRstCache := g_broadcastRstCache p @ [result]\<rparr>))"

section \<open>Making a header (process_header.go)\<close>

definition BlkPosReqSendInterval :: nat where "BlkPosReqSendInterval = 5"
definition BlkPosReqSendTimes :: nat where "BlkPosReqSendTimes = 6"

definition closeConsensusReqSender :: "'x Process_gen \<Rightarrow> 'x Process_gen" where
  "closeConsensusReqSender p = p\<lparr>g_consensusReqSender := None\<rparr>"

definition startConsensusReqSender :: "'x gen_env \<Rightarrow> HD_BlkConsensusReqMsg \<Rightarrow> 'x Process_gen \<Rightarrow> 'x Process_gen" where
  "startConsensusReqSender e req p =
    (let p = closeConsensusReqSender p
     in if ge_NewResendMsgCtrl e BlkPosReqSendInterval BlkPosReqSendTimes then p\<lparr>g_consensusReqSender := Some req\<rparr> else p)"

definition getParentBlock :: "'x gen_view \<Rightarrow> 'x Process_gen \<Rightarrow> Header option" where
  "getParentBlock w p =
    (if g_number p = 1 then Some (gw_Genesis w)
     else if g_preBlockHash p = 0 then None
     else gw_GetBlockByHash w (g_preBlockHash p))"

text \<open>The header before the engine prepares it. A topology that cannot be made is replaced by an empty change.
  The time is that of the clock, or one second after the parent where the clock is not later. It is a natural
  number in the model, so a negative time stamp, which \<open>big.NewInt\<close> would keep, becomes 0; that needs a clock before
  1970 or a parent time of \<open>2 ^ 63 - 1\<close>.\<close>

definition gen_header :: "'x gen_env \<Rightarrow> 'x gen_view \<Rightarrow> int \<Rightarrow> u64 \<Rightarrow> Header \<Rightarrow> Header" where
  "gen_header e w now number parent =
    (let netTopology = (case getNetTopology (gw_check w) (h_NetTopology parent) number of
                          None \<Rightarrow> \<lparr>nt_Type = NetTopoTypeChange, nt_Data = []\<rparr>
                        | Some t \<Rightarrow> t);
         elect = genElection (gw_check w) number;
         tstamp = (if int (h_Time parent) \<ge> now then i64 (int (h_Time parent) + 1) else now)
     in \<lparr>h_ParentHash = Header_Hash (ge_rlpHash e) parent, h_UncleHash = 0, h_Leader = ge_self e, h_Coinbase = 0, h_Root = 0,
         h_TxHash = 0, h_ReceiptHash = 0, h_Bloom = 0, h_Difficulty = 0, h_Number = unat number,
         h_GasLimit = CalcGasLimit (ge_TargetGasLimit e) parent, h_GasUsed = 0, h_Time = nat tstamp, h_Elect = elect,
         h_NetTopology = netTopology, h_Signatures = [], h_Extra = [], h_MixDigest = 0, h_Nonce = 0,
         h_Version = h_Version parent\<rparr>)"

text \<open>The result is the process and whether no error was returned.\<close>

definition processHeaderGen :: "'x gen_env \<Rightarrow> 'x gen_view \<Rightarrow> int \<Rightarrow> 'x Process_gen \<Rightarrow> ('x Process_gen \<times> bool) option" where
  "processHeaderGen e w now p =
    (case getParentBlock w p of
       None \<Rightarrow> Some (p, False)
     | Some parent \<Rightarrow>
         (case gw_Prepare w (gen_header e w now (g_number p) parent) of
            None \<Rightarrow> Some (p, False)
          | Some header \<Rightarrow>
              if IsBroadcastNumber (header_number header) then
                (case gw_RunSpecial w header of
                   GenNoWork \<Rightarrow> Some (p, False)
                 | GenFailed \<Rightarrow> Some (p, False)
                 | GenDone header _ txs _ _ \<Rightarrow>
                     (case SignHashWithValidate (ge_signHelper e) (HashNoSignsAndNonce (ge_rlpHash e) header) True of
                        None \<Rightarrow> None
                      | Some None \<Rightarrow> Some (p, False)
                      | Some (Some sign) \<Rightarrow>
                          Some (emit (PubBroadcastMiningReq \<lparr>bk_Header = header\<lparr>h_Signatures := [sign]\<rparr>, bk_Txs = Some txs\<rparr>) p, True)))
              else
                (case gw_RunPool w header of
                   GenNoWork \<Rightarrow> Some (p, False)
                 | GenFailed \<Rightarrow> Some (p, False)
                 | GenDone header txsCode txs receipts state \<Rightarrow>
                     (let p2pBlock = \<lparr>bcr_From = ge_self e, bcr_Header = Some header, bcr_ConsensusTurn = g_consensusTurn p,
                            bcr_TxsCode = txsCode\<rparr>;
                          localBlock = \<lparr>lr_BlkVerifyConsensusReq = p2pBlock, lr_Txs = Some txs, lr_Receipts = Some receipts,
                            lr_State = Some state\<rparr>;
                          p = emit (MakeStruck (Some txs) (HashNoSignsAndNonce (ge_rlpHash e) header) (g_number p)) p;
                          p = emit (PubHeaderVerifyReq localBlock) p
                      in Some (startConsensusReqSender e p2pBlock p, True)))))"

section \<open>blockgenor/process.go\<close>

text \<open>\<open>canGenHeader\<close> moves on to the mining results when this node does not make the block; the result is the
  process and whether it makes the block.\<close>

definition canGenHeader :: "'x gen_env \<Rightarrow> 'x gen_view \<Rightarrow> 'x Process_gen \<Rightarrow> ('x Process_gen \<times> bool) option" where
  "canGenHeader e w p =
    (let wait = map_option (\<lambda>p. (p, False)) (processMinerResultVerify e w (g_curLeader p) True (p\<lparr>g_state := GenMinerResultVerify\<rparr>))
     in if g_role p = RoleBroadcast then (if \<not> IsBroadcastNumber (g_number p) then wait else Some (p, True))
        else if g_role p = RoleValidator then
          (if IsBroadcastNumber (g_number p) then wait
           else if g_curLeader p = 0 then Some (p, False)
           else if g_curLeader p \<noteq> ge_self e then wait
           else Some (p, True))
        else Some (p, False))"

definition startHeaderGen :: "'x gen_env \<Rightarrow> 'x gen_view \<Rightarrow> int \<Rightarrow> 'x Process_gen \<Rightarrow> 'x Process_gen option" where
  "startHeaderGen e w now p =
    (if \<not> checkState_gen GenHeaderGen p then Some p
     else
       (case canGenHeader e w p of
          None \<Rightarrow> None
        | Some (p, False) \<Rightarrow> Some p
        | Some (p, True) \<Rightarrow>
            (case processHeaderGen e w now p of
               None \<Rightarrow> None
             | Some (p, False) \<Rightarrow> Some p
             | Some (p, True) \<Rightarrow> processMinerResultVerify e w (g_curLeader p) True (p\<lparr>g_state := GenMinerResultVerify\<rparr>))))"

definition canBcBlock :: "'x Process_gen \<Rightarrow> bool" where
  "canBcBlock p \<longleftrightarrow> g_role p = RoleBroadcast \<or> g_role p = RoleValidator \<and> g_curLeader p \<noteq> 0"

definition startBcBlock :: "'x gen_env \<Rightarrow> 'x gen_view \<Rightarrow> int \<Rightarrow> 'x Process_gen \<Rightarrow> 'x Process_gen option" where
  "startBcBlock e w now p =
    (if \<not> checkState_gen GenBlockBroadcast p then Some p
     else if \<not> canBcBlock p then Some p
     else
       (let header = gw_GetHeaderByNumber w (g_number p - 1);
            p = (if g_number p \<noteq> 1 then emit (SendNewBlockInsert header) p else p)
        in startHeaderGen e w now (p\<lparr>g_preBlockHash := Header_ptr_Hash (ge_rlpHash e) header, g_state := GenHeaderGen\<rparr>)))"

definition StartRunning_gen :: "'x gen_env \<Rightarrow> 'x gen_view \<Rightarrow> int \<Rightarrow> role_type \<Rightarrow> 'x Process_gen \<Rightarrow> 'x Process_gen option" where
  "StartRunning_gen e w now role p = startBcBlock e w now (changeState_gen GenBlockBroadcast (p\<lparr>g_role := role\<rparr>))"

definition Close_gen :: "'x Process_gen \<Rightarrow> 'x Process_gen" where
  "Close_gen p = closeConsensusReqSender (p\<lparr>g_state := GenIdle, g_curLeader := 0, g_nextLeader := 0, g_consensusTurn := 0,
    g_preBlockHash := 0\<rparr>)"

definition ReInit :: "'x Process_gen \<Rightarrow> 'x Process_gen" where
  "ReInit p =
    (if checkState_gen GenIdle p then p
     else closeConsensusReqSender (p\<lparr>g_state := GenBlockBroadcast, g_curLeader := 0, g_nextLeader := 0, g_consensusTurn := 0,
       g_preBlockHash := 0\<rparr>))"

definition ReInitNextLeader :: "'x Process_gen \<Rightarrow> 'x Process_gen" where
  "ReInitNextLeader p = p\<lparr>g_nextLeader := 0\<rparr>"

definition SetCurLeader ::
  "'x gen_env \<Rightarrow> 'x gen_view \<Rightarrow> int \<Rightarrow> address \<Rightarrow> u32 \<Rightarrow> 'x Process_gen \<Rightarrow> 'x Process_gen option" where
  "SetCurLeader e w now leader consensusTurn p =
    (if g_curLeader p = leader \<and> g_consensusTurn p = consensusTurn then Some p
     else
       (let p = closeConsensusReqSender (p\<lparr>g_curLeader := leader, g_consensusTurn := consensusTurn\<rparr>)
        in if checkState_gen GenIdle p then Some p
           else startBcBlock e w now (p\<lparr>g_state := GenBlockBroadcast, g_nextLeader := 0, g_preBlockHash := 0\<rparr>)))"

definition SetNextLeader :: "'x gen_env \<Rightarrow> 'x gen_view \<Rightarrow> address \<Rightarrow> 'x Process_gen \<Rightarrow> 'x Process_gen option" where
  "SetNextLeader e w leader p =
    (if g_nextLeader p = leader then Some p
     else
       (let p = p\<lparr>g_nextLeader := leader\<rparr>
        in if gen_code (g_state p) < gen_code GenBlockInsert then Some p else processBlockInsert e w p))"

definition checkRepeatInsert :: "hash \<Rightarrow> 'x Process_gen \<Rightarrow> bool" where
  "checkRepeatInsert blockHash p \<longleftrightarrow> blockHash \<in> set (g_insertBlockHash p)"

definition saveInsertedBlockHash :: "hash \<Rightarrow> 'x Process_gen \<Rightarrow> 'x Process_gen" where
  "saveInsertedBlockHash blockHash p = p\<lparr>g_insertBlockHash := g_insertBlockHash p @ [blockHash]\<rparr>"

text \<open>The checks of \<open>startBlockInsert\<close>: \<^term>\<open>Some True\<close> goes on to the insertion.\<close>

definition insert_checks :: "'x gen_env \<Rightarrow> 'x gen_view \<Rightarrow> u64 \<Rightarrow> Header \<Rightarrow> bool option" where
  "insert_checks e w number header =
    (if IsBroadcastNumber number then
       (case h_Signatures header of
          [] \<Rightarrow> None
        | sign # _ \<Rightarrow>
            (case VerifySignWithValidate (ge_crypto e) (HashNoSignsAndNonce (ge_rlpHash e) header) sign of
               SignPanic \<Rightarrow> None
             | SignErr err validate \<Rightarrow> Some False
             | SignOk signAccount validate \<Rightarrow>
                 Some (signAccount = h_Leader header \<and> gw_OriginalRole w signAccount (number - 1) = RoleBroadcast)))
     else
       (case dpos_VerifyBlock e w header of
          Some err \<Rightarrow> if err = DposPanic then None else Some False
        | None \<Rightarrow> Some (gw_VerifySeal w header)))"

definition startBlockInsert :: "'x gen_env \<Rightarrow> 'x gen_view \<Rightarrow> Header \<Rightarrow> 'x Process_gen \<Rightarrow> 'x Process_gen option" where
  "startBlockInsert e w header p =
    (let blockHash = Header_Hash (ge_rlpHash e) header
     in if checkRepeatInsert blockHash p then Some p
        else
          (case insert_checks e w (g_number p) header of
             None \<Rightarrow> None
           | Some False \<Rightarrow> Some p
           | Some True \<Rightarrow>
               (case insertAndBcBlock e w (Some header) p of
                  None \<Rightarrow> None
                | Some (p, Inl err) \<Rightarrow> Some (saveInsertedBlockHash blockHash (emit (FetcherNotify blockHash (g_number p)) p))
                | Some (p, Inr h) \<Rightarrow> Some (saveInsertedBlockHash blockHash p))))"

definition AddInsertBlockInfo :: "'x gen_env \<Rightarrow> 'x gen_view \<Rightarrow> Header \<Rightarrow> 'x Process_gen \<Rightarrow> 'x Process_gen option" where
  "AddInsertBlockInfo e w header p = startBlockInsert e w header p"

section \<open>Recovery (process_block.go)\<close>

definition recovery_result :: "'x gen_env \<Rightarrow> Header \<Rightarrow> HD_MiningRspMsg" where
  "recovery_result e header = \<lparr>mr_From = h_Coinbase header, mr_Number = header_number header,
    mr_BlockHash = HashNoSignsAndNonce (ge_rlpHash e) header, mr_Difficulty = int (h_Difficulty header),
    mr_Nonce = h_Nonce header, mr_Coinbase = h_Coinbase header, mr_MixDigest = h_MixDigest header,
    mr_Signatures = h_Signatures header\<rparr>"

definition ask_full_block :: "'x gen_env \<Rightarrow> int \<Rightarrow> Header \<Rightarrow> address \<Rightarrow> 'x Process_gen \<Rightarrow> 'x Process_gen" where
  "ask_full_block e now header from p =
    (let headerHash = HashNoSignsAndNonce (ge_rlpHash e) header
     in if IsExistMsg (g_FullBlockReqCache p) headerHash then
          (case ReUseMsg now (g_FullBlockReqCache p) headerHash of
             (c, Inl err) \<Rightarrow> p\<lparr>g_FullBlockReqCache := c\<rparr>
           | (c, Inr reqMsg) \<Rightarrow> emit (SendFullBlockReq reqMsg from) (p\<lparr>g_FullBlockReqCache := c\<rparr>))
        else
          (let reqMsg = \<lparr>fq_HeaderHash = headerHash, fq_Number = header_number header, fq_From = 0\<rparr>
           in emit (SendFullBlockReq reqMsg from)
                (p\<lparr>g_FullBlockReqCache := fst (AddMsg (g_FullBlockReqCache p) headerHash reqMsg now)\<rparr>)))"

definition ProcessRecoveryMsg_gen ::
  "'x gen_env \<Rightarrow> 'x gen_view \<Rightarrow> int \<Rightarrow> RecoveryStateMsg \<Rightarrow> 'x Process_gen \<Rightarrow> 'x Process_gen option" where
  "ProcessRecoveryMsg_gen e w now msg p =
    (let header = rs_Header msg; minerResult = recovery_result e header;
         pool = fst (AddMinerResult (g_powPool p) (mr_BlockHash minerResult) (mr_Difficulty minerResult) minerResult)
     in case processMinerResultVerify e w (h_Leader header) False (p\<lparr>g_powPool := pool\<rparr>) of
          None \<Rightarrow> None
        | Some p \<Rightarrow> if g_state p \<noteq> GenEnd then Some (ask_full_block e now header (rs_From msg) p) else Some p)"

definition ProcessFullBlockReq :: "'x gen_env \<Rightarrow> HD_FullBlockReqMsg \<Rightarrow> 'x Process_gen \<Rightarrow> 'x Process_gen" where
  "ProcessFullBlockReq e req p =
    (case GetBlockDataByBlockHash (ge_cacheRange e) (g_blockCache p) (fq_HeaderHash req) of
       None \<Rightarrow> p
     | Some (_, blockData) \<Rightarrow>
         if bd_state blockData \<noteq> blockStateReady then p
         else emit (SendFullBlockRsp \<lparr>fr_Header = lo_Header (bd_block blockData), fr_Txs = lo_Txs (bd_block blockData), fr_From = 0\<rparr>
                (fq_From req)) p)"

definition runTxs :: "'x gen_env \<Rightarrow> 'x gen_view \<Rightarrow> Header \<Rightarrow> hash \<Rightarrow> 'x option \<Rightarrow> ('x \<times> 'x) option" where
  "runTxs e w header headerHash txs =
    (if gw_GetBlockByHash w (h_ParentHash header) = None then None
     else
       (case gw_Execute w (header\<lparr>h_GasUsed := 0\<rparr>) txs of
          ExecDone localHeader receipts state \<Rightarrow>
            if HashNoSignsAndNonce (ge_rlpHash e) localHeader \<noteq> headerHash then None else Some (receipts, state)
        | _ \<Rightarrow> None))"

definition ProcessFullBlockRsp ::
  "'x gen_env \<Rightarrow> 'x gen_view \<Rightarrow> 'x HD_FullBlockRspMsg \<Rightarrow> 'x Process_gen \<Rightarrow> 'x Process_gen option" where
  "ProcessFullBlockRsp e w rsp p =
    (let header = fr_Header rsp; headerHash = HashNoSignsAndNonce (ge_rlpHash e) header
     in if GetBlockDataByBlockHash (ge_cacheRange e) (g_blockCache p) headerHash \<noteq> None then Some p
        else if \<not> gw_VerifyHeader w header then Some p
        else
          (case dpos_VerifyBlock e w header of
             Some err \<Rightarrow> if err = DposPanic then None else Some p
           | None \<Rightarrow>
               (case runTxs e w header headerHash (fr_Txs rsp) of
                  None \<Rightarrow> Some p
                | Some (receipts, state) \<Rightarrow>
                    (let p = p\<lparr>g_blockCache := SaveReadyBlock (g_blockCache p) \<lparr>lo_Header = header, lo_BlockHash = 0,
                               lo_Txs = fr_Txs rsp, lo_Receipts = Some receipts, lo_State = Some state\<rparr>\<rparr>
                     in processBlockInsert e w ((emit (PubNewBlockReady header) p)\<lparr>g_state := GenBlockInsert\<rparr>)))))"

end
