(* ===== verification/Gen_Safety.thy ===== *)
theory Gen_Safety
  imports Gen_Process
begin

text \<open>
  What a block generator keeps true in every state it can reach, and which blocks it writes to the chain.
\<close>

section \<open>Events and reachable states\<close>

datatype 'x gen_event =
    GStart role_type
  | GClose
  | GReInit
  | GReInitNext
  | GCurLeader address u32
  | GNextLeader address
  | GInsert Header
  | GMiner HD_MiningRspMsg
  | GBroadcastMiner bool "'x BlockData"
  | GConsensusBlock "'x BlockLocalVerifyOK"
  | GRecovery RecoveryStateMsg
  | GFullReq HD_FullBlockReqMsg
  | GFullRsp "'x HD_FullBlockRspMsg"

definition gen_handle :: "'x gen_env \<Rightarrow> 'x gen_view \<Rightarrow> int \<Rightarrow> 'x gen_event \<Rightarrow> 'x Process_gen \<Rightarrow> 'x Process_gen option" where
  "gen_handle e w now ev p =
    (case ev of
       GStart role \<Rightarrow> StartRunning_gen e w now role p
     | GClose \<Rightarrow> Some (Close_gen p)
     | GReInit \<Rightarrow> Some (ReInit p)
     | GReInitNext \<Rightarrow> Some (ReInitNextLeader p)
     | GCurLeader leader turn \<Rightarrow> SetCurLeader e w now leader turn p
     | GNextLeader leader \<Rightarrow> SetNextLeader e w leader p
     | GInsert header \<Rightarrow> AddInsertBlockInfo e w header p
     | GMiner result \<Rightarrow> AddMinerResult_gen e w result p
     | GBroadcastMiner check result \<Rightarrow> AddBroadcastMinerResult e w check result p
     | GConsensusBlock block \<Rightarrow> AddConsensusBlock e w block p
     | GRecovery msg \<Rightarrow> ProcessRecoveryMsg_gen e w now msg p
     | GFullReq req \<Rightarrow> Some (ProcessFullBlockReq e req p)
     | GFullRsp rsp \<Rightarrow> ProcessFullBlockRsp e w rsp p)"

text \<open>The service passes a block only to the process of its number.\<close>

definition event_for :: "u64 \<Rightarrow> 'x gen_event \<Rightarrow> bool" where
  "event_for n ev \<longleftrightarrow>
    (case ev of
       GInsert header \<Rightarrow> header_number header = n
     | GConsensusBlock block \<Rightarrow> header_number (lo_Header block) = n
     | GFullRsp rsp \<Rightarrow> header_number (fr_Header rsp) = n
     | _ \<Rightarrow> True)"

inductive gen_reachable :: "'x gen_env \<Rightarrow> 'x gen_view set \<Rightarrow> u64 \<Rightarrow> 'x Process_gen \<Rightarrow> bool" for e W n where
  start: "gen_reachable e W n (newProcess_gen n)"
| step: "gen_reachable e W n p \<Longrightarrow> w \<in> W \<Longrightarrow> event_for n ev \<Longrightarrow> gen_handle e w now ev p = Some p' \<Longrightarrow> gen_reachable e W n p'"

section \<open>Blocks that may be written\<close>

text \<open>A header that the DPOS engine accepted and whose mining result was verified.\<close>

definition block_checked :: "'x gen_env \<Rightarrow> 'x gen_view set \<Rightarrow> Header \<Rightarrow> bool" where
  "block_checked e W h \<longleftrightarrow> (\<exists>w \<in> W. dpos_VerifyBlock e w h = None \<and> (gw_VerifySeal w h \<or> gw_VerifyHeader w h))"

text \<open>A broadcast block that passed the first check, with its header as the runs of its transactions leave it.\<close>

inductive bc_lineage :: "'x gen_env \<Rightarrow> 'x gen_view set \<Rightarrow> Header \<Rightarrow> bool" for e W where
  accepted: "w \<in> W \<Longrightarrow> preVerifyBroadcastMinerResult e w result = Some True \<Longrightarrow> bc_lineage e W (bk_Header result)"
| failed: "bc_lineage e W h \<Longrightarrow> w \<in> W \<Longrightarrow> gw_ExecuteBroadcast w h txs = BcFailed h' \<Longrightarrow> bc_lineage e W h'"
| run: "bc_lineage e W h \<Longrightarrow> w \<in> W \<Longrightarrow> gw_ExecuteBroadcast w h txs = BcDone h' rc st \<Longrightarrow> bc_lineage e W h'"

definition insertable :: "'x gen_env \<Rightarrow> 'x gen_view set \<Rightarrow> u64 \<Rightarrow> Header \<Rightarrow> bool" where
  "insertable e W n h \<longleftrightarrow> block_checked e W h \<or>
    IsBroadcastNumber n \<and> (bc_lineage e W h \<or> (\<exists>w \<in> W. insert_checks e w n h = Some True))"

lemma insert_checks_insertable: "w \<in> W \<Longrightarrow> insert_checks e w n h = Some True \<Longrightarrow> insertable e W n h"
  by (auto simp: insertable_def block_checked_def insert_checks_def split: if_splits option.splits)

section \<open>The invariant\<close>

definition of_number :: "u64 \<Rightarrow> Header \<Rightarrow> bool" where
  "of_number n h \<longleftrightarrow> IsBroadcastNumber n \<or> header_number h = n"

definition entry_fine :: "'x gen_env \<Rightarrow> 'x gen_view set \<Rightarrow> u64 \<Rightarrow> address \<Rightarrow> 'x blockCacheData \<Rightarrow> bool" where
  "entry_fine e W n a d \<longleftrightarrow> h_Leader (lo_Header (bd_block d)) = a \<and> of_number n (lo_Header (bd_block d)) \<and>
    (bd_state d = blockStateReady \<longrightarrow> insertable e W n (lo_Header (bd_block d)))"

definition out_fine :: "'x gen_env \<Rightarrow> 'x gen_view set \<Rightarrow> u64 \<Rightarrow> 'x gen_out \<Rightarrow> bool" where
  "out_fine e W n m \<longleftrightarrow> (case m of
     InsertBlock b txs rc st \<Rightarrow> \<exists>h. b = NewBlockWithTxs (ge_DeriveSha e) h txs \<and> of_number n h \<and> insertable e W n h
   | _ \<Rightarrow> True)"

definition gen_ok :: "'x gen_env \<Rightarrow> 'x gen_view set \<Rightarrow> u64 \<Rightarrow> 'x Process_gen \<Rightarrow> bool" where
  "gen_ok e W n p \<longleftrightarrow> g_number p = n \<and> powpool_ok (g_powPool p) \<and> gomap_ok (g_blockCache p) \<and>
    (\<forall>a d. map_of (g_blockCache p) a = Some d \<longrightarrow> entry_fine e W n a d) \<and>
    (\<forall>r \<in> set (g_broadcastRstCache p). bc_lineage e W (bk_Header r)) \<and>
    (\<forall>m \<in> set (g_out p). out_fine e W n m)"

lemma newProcess_gen_ok: "gen_ok e W n (newProcess_gen n)"
  by (simp add: gen_ok_def newProcess_gen_def NewPowPool_ok newBlockCache_def gomap_ok_def)

lemma gen_ok_emit [simp]: "gen_ok e W n (emit m p) \<longleftrightarrow> gen_ok e W n p \<and> out_fine e W n m"
  by (auto simp: gen_ok_def emit_def)

lemma out_fine_simps [simp]:
  "out_fine e W n (SendNewBlockInsert h)" "out_fine e W n (SendFullBlockReq q a)" "out_fine e W n (SendFullBlockRsp rsp a)"
  "out_fine e W n (PubNewBlockReady h2)" "out_fine e W n (PubHeaderVerifyReq lr)" "out_fine e W n (PubBroadcastMiningReq bk)"
  "out_fine e W n (MakeStruck t hs nn)" "out_fine e W n (PubMinedBlock h2)" "out_fine e W n (PubChainHead h2)"
  "out_fine e W n (PubHeaderGenerateReq nn)" "out_fine e W n (FetcherNotify hs nn)"
  by (simp_all add: out_fine_def)

lemma gen_ok_frame [simp]:
  "gen_ok e W n (p\<lparr>g_state := s\<rparr>) = gen_ok e W n p" "gen_ok e W n (p\<lparr>g_role := r\<rparr>) = gen_ok e W n p"
  "gen_ok e W n (p\<lparr>g_curLeader := a\<rparr>) = gen_ok e W n p" "gen_ok e W n (p\<lparr>g_nextLeader := a\<rparr>) = gen_ok e W n p"
  "gen_ok e W n (p\<lparr>g_consensusTurn := t\<rparr>) = gen_ok e W n p" "gen_ok e W n (p\<lparr>g_preBlockHash := h\<rparr>) = gen_ok e W n p"
  "gen_ok e W n (p\<lparr>g_insertBlockHash := hs\<rparr>) = gen_ok e W n p" "gen_ok e W n (p\<lparr>g_FullBlockReqCache := c\<rparr>) = gen_ok e W n p"
  "gen_ok e W n (p\<lparr>g_consensusReqSender := q\<rparr>) = gen_ok e W n p"
  by (simp_all add: gen_ok_def)

lemma gen_ok_pool [simp]: "gen_ok e W n p \<Longrightarrow> powpool_ok pool \<Longrightarrow> gen_ok e W n (p\<lparr>g_powPool := pool\<rparr>)"
  by (simp add: gen_ok_def)

lemma gen_ok_cache: "gen_ok e W n p \<Longrightarrow> entry_fine e W n a d \<Longrightarrow> gen_ok e W n (p\<lparr>g_blockCache := map_put a d (g_blockCache p)\<rparr>)"
  by (simp add: gen_ok_def)

lemma changeState_gen_ok [simp]: "gen_ok e W n (changeState_gen s p) = gen_ok e W n p"
  by (simp add: changeState_gen_def)

lemma close_ok [simp]: "gen_ok e W n (closeConsensusReqSender p) = gen_ok e W n p"
  by (simp add: closeConsensusReqSender_def)

lemma start_sender_ok [simp]: "gen_ok e W n (startConsensusReqSender e' req p) = gen_ok e W n p"
  by (simp add: startConsensusReqSender_def Let_def)

section \<open>The operations keep it\<close>

lemma last_block_in:
  "last_block_loop b t l = Some x \<Longrightarrow> b = Some x \<or> x \<in> set l"
  by (induction b t l rule: last_block_loop.induct) (auto split: if_splits)

lemma cur_block_entry:
  assumes "cur_block e leader p = Some (a, d)" "range_order (ge_cacheRange e)" "gomap_ok (g_blockCache p)"
  shows "map_of (g_blockCache p) a = Some d"
proof (cases "g_role p = RoleBroadcast")
  case True
  then have "(a, d) \<in> set (g_blockCache p)"
    using assms(1,2) by (auto simp: cur_block_def GetLastBlockData_def range_order_def dest!: last_block_in)
  then show ?thesis using assms(3) by (simp add: gomap_ok_def)
next
  case False
  then show ?thesis using assms(1) by (auto simp: cur_block_def GetBlockData_def)
qed

lemma cur_block_fine:
  assumes "cur_block e leader p = Some (a, d)" "range_order (ge_cacheRange e)" "gen_ok e W n p"
  shows "entry_fine e W n a d"
  using cur_block_entry [OF assms(1,2)] assms(3) by (auto simp: gen_ok_def)

lemma insertAndBcBlock_ok:
  assumes "insertAndBcBlock e w header p = Some (p', r)" "gen_ok e W n p" "range_order (ge_cacheRange e)"
    and "\<And>h. header = Some h \<Longrightarrow> of_number n h \<and> insertable e W n h"
  shows "gen_ok e W n p'"
proof (cases "cur_block e (g_curLeader p) p")
  case None
  then show ?thesis using assms(1,2) by (simp add: insertAndBcBlock_def)
next
  case (Some ad)
  obtain a d where ad: "ad = (a, d)" by fastforce
  have fine: "entry_fine e W n a d" using Some ad assms(2,3) by (intro cur_block_fine) auto
  let ?b = "\<lambda>h. NewBlockWithTxs (ge_DeriveSha e) h (lo_Txs (bd_block d))"
  have done_ok: "out_fine e W n (InsertBlock (?b h) (lo_Txs (bd_block d)) rc st)"
    if "of_number n h" "insertable e W n h" for h rc st
    using that by (auto simp: out_fine_def)
  show ?thesis
  proof (cases "bd_state d = blockStateReady")
    case True
    then have own: "of_number n (lo_Header (bd_block d))" "insertable e W n (lo_Header (bd_block d))"
      using fine by (auto simp: entry_fine_def)
    show ?thesis
    proof (cases header)
      case None
      with assms(1,2) True show ?thesis
        by (auto simp: insertAndBcBlock_def Let_def \<open>cur_block e _ p = _\<close> ad own done_ok
            split: if_splits option.splits write_result.splits)
    next
      case (Some h)
      then have h: "of_number n h" "insertable e W n h" using assms(4) by auto
      from assms(1,2) True Some show ?thesis
        by (auto simp: insertAndBcBlock_def Let_def \<open>cur_block e _ p = _\<close> ad h done_ok
            split: if_splits option.splits write_result.splits)
    qed
  next
    case False
    then show ?thesis using assms(1,2) Some ad by (simp add: insertAndBcBlock_def)
  qed
qed

lemma processBlockInsert_ok:
  assumes "processBlockInsert e w p = Some p'" "gen_ok e W n p" "range_order (ge_cacheRange e)"
  shows "gen_ok e W n p'"
proof -
  consider "p' = p" | q r where "insertAndBcBlock e w None p = Some (q, r)" "p' = q \<or> p' = q\<lparr>g_state := GenEnd\<rparr>"
    using assms(1) by (auto simp: processBlockInsert_def split: if_splits option.splits sum.splits)
  then show ?thesis
  proof cases
    case (2 q r)
    then have "gen_ok e W n q" using assms by (intro insertAndBcBlock_ok [OF 2(1)]) auto
    then show ?thesis using 2(2) by auto
  qed (use assms in simp)
qed

lemma pick_ok:
  assumes "pickSatisfyMinerResults e w header results pool = Some (pool', r)" "powpool_ok pool"
  shows "powpool_ok pool' \<and> (\<forall>result. r = Inr result \<longrightarrow> verifyOneResult e w header result = None)"
  using assms
  by (induction e w header results pool rule: pickSatisfyMinerResults.induct)
    (auto simp: DelOneResult_ok split: option.splits if_splits)

lemma verifyOneResult_checked:
  "verifyOneResult e w header result = None \<Longrightarrow> w \<in> W \<Longrightarrow> block_checked e W (copyHeader header result)"
  by (auto simp: verifyOneResult_def block_checked_def Let_def split: if_splits option.splits)

lemma copyHeader_simps [simp]:
  "h_Leader (copyHeader h r) = h_Leader h" "header_number (copyHeader h r) = header_number h" "of_number n (copyHeader h r) = of_number n h"
  by (simp_all add: copyHeader_def header_number_def of_number_def)

lemma dealMinerResultVerifyCommon_ok:
  assumes "dealMinerResultVerifyCommon e w leader p = Some p'" "gen_ok e W n p" "w \<in> W" "range_order (ge_cacheRange e)"
  shows "gen_ok e W n p'"
proof (cases "cur_block e leader p")
  case None
  then show ?thesis using assms(1,2) by (simp add: dealMinerResultVerifyCommon_def)
next
  case (Some ad)
  obtain a d where ad: "ad = (a, d)" by fastforce
  have fine: "entry_fine e W n a d" using Some ad assms by (intro cur_block_fine) auto
  let ?h = "lo_Header (bd_block d)"
  show ?thesis
  proof (cases "bd_state d")
    case blockStateLocalVerified
    note unf = dealMinerResultVerifyCommon_def Let_def Some ad blockStateLocalVerified
    let ?R = "GetMinerResults (ge_resultRange e) (g_powPool p) (lo_BlockHash (bd_block d)) (i64 (int (h_Difficulty ?h)))"
    show ?thesis
    proof (cases ?R)
      case (Inl err)
      then show ?thesis using assms(1,2) by (simp add: unf)
    next
      case (Inr results)
      then obtain pool r where pick: "pickSatisfyMinerResults e w ?h results (g_powPool p) = Some (pool, r)"
        using assms(1) by (cases "pickSatisfyMinerResults e w ?h results (g_powPool p)") (auto simp: unf)
      have pk: "powpool_ok pool" "\<And>result. r = Inr result \<Longrightarrow> verifyOneResult e w ?h result = None"
        using pick_ok [OF pick] assms(2) by (auto simp: gen_ok_def)
      show ?thesis
      proof (cases r)
        case (Inl err)
        then show ?thesis using assms(1,2) Inr pick pk(1) by (auto simp: unf)
      next
        case res: (Inr result)
        let ?d = "d\<lparr>bd_block := (bd_block d)\<lparr>lo_Header := copyHeader ?h result\<rparr>, bd_state := blockStateReady\<rparr>"
        let ?p = "p\<lparr>g_powPool := pool, g_blockCache := map_put a ?d (g_blockCache p)\<rparr>"
        have "entry_fine e W n a ?d"
          using fine verifyOneResult_checked [OF pk(2) [OF res] assms(3)] by (simp add: entry_fine_def insertable_def)
        then have ok: "gen_ok e W n ?p" using gen_ok_cache [OF gen_ok_pool [OF assms(2) pk(1)]] by simp
        have ins: "processBlockInsert e w ((emit (PubNewBlockReady (copyHeader ?h result)) ?p)\<lparr>g_state := GenBlockInsert\<rparr>) = Some p'"
          using assms(1) Inr pick res by (simp add: unf)
        show ?thesis by (rule processBlockInsert_ok [OF ins _ assms(4)]) (simp add: ok)
      qed
    qed
  next
    case blockStateReady
    then have ins: "processBlockInsert e w ((emit (PubNewBlockReady ?h) p)\<lparr>g_state := GenBlockInsert\<rparr>) = Some p'"
      using assms(1) Some ad by (simp add: dealMinerResultVerifyCommon_def)
    show ?thesis by (rule processBlockInsert_ok [OF ins _ assms(4)]) (simp add: assms(2))
  qed
qed

lemma gen_ok_rst:
  "gen_ok e W n p \<Longrightarrow> bc_lineage e W (bk_Header r) \<Longrightarrow> gen_ok e W n (p\<lparr>g_broadcastRstCache := (g_broadcastRstCache p)[i := r]\<rparr>)"
  by (auto simp: gen_ok_def dest!: subsetD [OF set_update_subset_insert])

lemma broadcast_loop_ok:
  assumes "broadcast_loop e w i results p = Some p'" "gen_ok e W n p" "IsBroadcastNumber n" "w \<in> W" "range_order (ge_cacheRange e)"
    and "\<forall>r \<in> set results. bc_lineage e W (bk_Header r)"
  shows "gen_ok e W n p'"
  using assms
proof (induction e w i results p rule: broadcast_loop.induct)
  case (2 e w i result results p)
  have lin: "bc_lineage e W (bk_Header result)" using 2 by simp
  show ?case
  proof (cases "gw_GetBlockByHash w (h_ParentHash (bk_Header result)) = None")
    case False
    show ?thesis
    proof (cases "gw_ExecuteBroadcast w (bk_Header result) (bk_Txs result)")
      case (BcFailed h)
      have "gen_ok e W n (p\<lparr>g_broadcastRstCache := (g_broadcastRstCache p)[i := result\<lparr>bk_Header := h\<rparr>]\<rparr>)"
        using bc_lineage.failed [OF lin "2.prems"(4) BcFailed] "2.prems"(2) by (intro gen_ok_rst) simp_all
      then show ?thesis using 2 False BcFailed by simp
    next
      case (BcDone h rc st)
      have h: "bc_lineage e W h" by (rule bc_lineage.run [OF lin "2.prems"(4) BcDone])
      let ?p = "p\<lparr>g_broadcastRstCache := (g_broadcastRstCache p)[i := result\<lparr>bk_Header := h\<rparr>]\<rparr>"
      let ?b = "\<lparr>lo_Header = h, lo_BlockHash = 0, lo_Txs = bk_Txs result, lo_Receipts = Some rc, lo_State = Some st\<rparr>"
      have "gen_ok e W n ?p" using h "2.prems"(2) by (intro gen_ok_rst) simp_all
      then have ok: "gen_ok e W n (?p\<lparr>g_blockCache := map_put (h_Leader h) \<lparr>bd_block = ?b, bd_state = blockStateReady\<rparr> (g_blockCache ?p)\<rparr>)"
        using h "2.prems"(3) by (intro gen_ok_cache) (simp_all add: entry_fine_def of_number_def insertable_def)
      have ins: "processBlockInsert e w (changeState_gen GenBlockInsert (emit (PubNewBlockReady h)
          (?p\<lparr>g_blockCache := map_put (h_Leader h) \<lparr>bd_block = ?b, bd_state = blockStateReady\<rparr> (g_blockCache ?p)\<rparr>))) = Some p'"
        using "2.prems"(1) False BcDone by (simp add: SaveReadyBlock_def)
      show ?thesis by (rule processBlockInsert_ok [OF ins _ "2.prems"(5)]) (simp only: changeState_gen_ok gen_ok_emit ok out_fine_simps simp_thms)
    qed (use 2 False in simp)
  qed (use 2 in simp)
qed simp

lemma processMinerResultVerify_ok:
  assumes "processMinerResultVerify e w leader check p = Some p'" "gen_ok e W n p" "w \<in> W" "range_order (ge_cacheRange e)"
  shows "gen_ok e W n p'"
proof (cases "check \<and> \<not> checkState_gen GenMinerResultVerify p")
  case False
  have n: "g_number p = n" "\<forall>r \<in> set (g_broadcastRstCache p). bc_lineage e W (bk_Header r)" using assms(2) by (auto simp: gen_ok_def)
  show ?thesis
  proof (cases "IsBroadcastNumber n")
    case True
    then have "broadcast_loop e w 0 (g_broadcastRstCache p) p = Some p'"
      using assms(1) False n by (auto simp: processMinerResultVerify_def dealMinerResultVerifyBroadcast_def split: if_splits)
    then show ?thesis by (rule broadcast_loop_ok [OF _ assms(2) True assms(3,4) n(2)])
  next
    case nb: False
    then have "dealMinerResultVerifyCommon e w leader p = Some p'"
      using assms(1) False n by (auto simp: processMinerResultVerify_def split: if_splits)
    then show ?thesis by (rule dealMinerResultVerifyCommon_ok [OF _ assms(2-4)])
  qed
qed (use assms in \<open>simp add: processMinerResultVerify_def\<close>)

lemma processHeaderGen_ok:
  "processHeaderGen e w now p = Some (p', b) \<Longrightarrow> gen_ok e' W n p \<Longrightarrow> gen_ok e' W n p'"
  by (auto simp: processHeaderGen_def Let_def split: option.splits if_splits gen_exec.splits)

lemma canGenHeader_ok:
  assumes "canGenHeader e w p = Some (p', b)" "gen_ok e W n p" "w \<in> W" "range_order (ge_cacheRange e)"
  shows "gen_ok e W n p'"
proof -
  have "p' = p \<or> processMinerResultVerify e w (g_curLeader p) True (p\<lparr>g_state := GenMinerResultVerify\<rparr>) = Some p'"
    using assms(1) by (auto simp: canGenHeader_def Let_def split: if_splits)
  then show ?thesis using assms(2) processMinerResultVerify_ok [OF _ _ assms(3,4)] by (metis gen_ok_frame(1))
qed

lemma startHeaderGen_ok:
  assumes "startHeaderGen e w now p = Some p'" "gen_ok e W n p" "w \<in> W" "range_order (ge_cacheRange e)"
  shows "gen_ok e W n p'"
proof (cases "checkState_gen GenHeaderGen p")
  case True
  then obtain q b where q: "canGenHeader e w p = Some (q, b)"
    using assms(1) by (auto simp: startHeaderGen_def split: option.splits)
  note okq = canGenHeader_ok [OF q assms(2-4)]
  show ?thesis
  proof (cases b)
    case b: True
    then obtain q' b' where q': "processHeaderGen e w now q = Some (q', b')"
      using assms(1) True q by (auto simp: startHeaderGen_def split: option.splits)
    note okq' = processHeaderGen_ok [OF q' okq]
    show ?thesis
    proof (cases b')
      case b': True
      have "processMinerResultVerify e w (g_curLeader q') True (q'\<lparr>g_state := GenMinerResultVerify\<rparr>) = Some p'"
        using assms(1) True q b q' b' by (simp add: startHeaderGen_def)
      then show ?thesis by (rule processMinerResultVerify_ok [OF _ _ assms(3,4)]) (simp add: okq')
    qed (use assms(1) True q b q' okq' in \<open>auto simp: startHeaderGen_def\<close>)
  qed (use assms(1) True q okq in \<open>auto simp: startHeaderGen_def\<close>)
qed (use assms in \<open>simp add: startHeaderGen_def\<close>)

lemma startBcBlock_ok:
  assumes "startBcBlock e w now p = Some p'" "gen_ok e W n p" "w \<in> W" "range_order (ge_cacheRange e)"
  shows "gen_ok e W n p'"
proof -
  let ?p = "if g_number p \<noteq> 1 then emit (SendNewBlockInsert (gw_GetHeaderByNumber w (g_number p - 1))) p else p"
  consider "p' = p"
    | "startHeaderGen e w now (?p\<lparr>g_preBlockHash := Header_ptr_Hash (ge_rlpHash e) (gw_GetHeaderByNumber w (g_number p - 1)),
        g_state := GenHeaderGen\<rparr>) = Some p'"
    using assms(1) unfolding startBcBlock_def Let_def by (metis option.inject)
  then show ?thesis
  proof cases
    case 2
    have "gen_ok e W n ?p" using assms(2) by simp
    then show ?thesis by (intro startHeaderGen_ok [OF 2 _ assms(3,4)]) (simp only: gen_ok_frame)
  qed (use assms in simp)
qed

lemma startBlockInsert_ok:
  assumes "startBlockInsert e w header p = Some p'" "gen_ok e W n p" "w \<in> W" "range_order (ge_cacheRange e)" "header_number header = n"
  shows "gen_ok e W n p'"
proof -
  have n: "g_number p = n" using assms(2) by (simp add: gen_ok_def)
  consider "p' = p"
    | q r where "insert_checks e w n header = Some True" "insertAndBcBlock e w (Some header) p = Some (q, r)"
      "p' = saveInsertedBlockHash (Header_Hash (ge_rlpHash e) header) q \<or>
       p' = saveInsertedBlockHash (Header_Hash (ge_rlpHash e) header) (emit (FetcherNotify (Header_Hash (ge_rlpHash e) header) (g_number q)) q)"
    using assms(1) n by (auto simp: startBlockInsert_def Let_def split: if_splits option.splits sum.splits bool.splits)
  then show ?thesis
  proof cases
    case (2 q r)
    have "gen_ok e W n q"
      by (rule insertAndBcBlock_ok [OF 2(2) assms(2,4)])
        (use insert_checks_insertable [OF assms(3) 2(1)] assms(5) in \<open>auto simp: of_number_def\<close>)
    then show ?thesis using 2(3) by (auto simp: saveInsertedBlockHash_def)
  qed (use assms in simp)
qed

lemma ask_full_block_ok:
  assumes "gen_ok e W n p"
  shows "gen_ok e W n (ask_full_block e' now header from p)"
proof -
  obtain c r where r: "ReUseMsg now (g_FullBlockReqCache p) (HashNoSignsAndNonce (ge_rlpHash e') header) = (c, r)" by fastforce
  have ok: "gen_ok e W n (p\<lparr>g_FullBlockReqCache := c\<rparr>)" for c using assms by (simp only: gen_ok_frame)
  show ?thesis unfolding ask_full_block_def Let_def r
    by (cases r; simp only: sum.case prod.case if_split; unfold gen_ok_emit; intro conjI impI ok out_fine_simps)
qed

lemma ProcessFullBlockRsp_ok:
  assumes "ProcessFullBlockRsp e w rsp p = Some p'" "gen_ok e W n p" "w \<in> W" "range_order (ge_cacheRange e)"
    and "header_number (fr_Header rsp) = n"
  shows "gen_ok e W n p'"
proof -
  let ?h = "fr_Header rsp"
  let ?d = "\<lambda>rc st. \<lparr>bd_block = \<lparr>lo_Header = ?h, lo_BlockHash = 0, lo_Txs = fr_Txs rsp, lo_Receipts = Some rc, lo_State = Some st\<rparr>,
    bd_state = blockStateReady\<rparr>"
  show ?thesis
  proof (cases "GetBlockDataByBlockHash (ge_cacheRange e) (g_blockCache p) (HashNoSignsAndNonce (ge_rlpHash e) ?h) \<noteq> None \<or>
      \<not> gw_VerifyHeader w ?h \<or> dpos_VerifyBlock e w ?h \<noteq> None \<or>
      runTxs e w ?h (HashNoSignsAndNonce (ge_rlpHash e) ?h) (fr_Txs rsp) = None")
    case True
    then have "p' = p" using assms(1) by (auto simp: ProcessFullBlockRsp_def Let_def split: if_splits option.splits)
    then show ?thesis using assms(2) by simp
  next
    case False
    then obtain rc st where r: "runTxs e w ?h (HashNoSignsAndNonce (ge_rlpHash e) ?h) (fr_Txs rsp) = Some (rc, st)" by auto
    have ins: "processBlockInsert e w ((emit (PubNewBlockReady ?h) (p\<lparr>g_blockCache := map_put (h_Leader ?h) (?d rc st) (g_blockCache p)\<rparr>))
        \<lparr>g_state := GenBlockInsert\<rparr>) = Some p'"
      using assms(1) False r by (simp add: ProcessFullBlockRsp_def Let_def SaveReadyBlock_def)
    have "entry_fine e W n (h_Leader ?h) (?d rc st)"
      using False assms(3,5) by (auto simp: entry_fine_def of_number_def insertable_def block_checked_def)
    then have "gen_ok e W n (p\<lparr>g_blockCache := map_put (h_Leader ?h) (?d rc st) (g_blockCache p)\<rparr>)"
      by (rule gen_ok_cache [OF assms(2)])
    then show ?thesis by (intro processBlockInsert_ok [OF ins _ assms(4)]) (simp only: gen_ok_frame gen_ok_emit out_fine_simps simp_thms)
  qed
qed

lemma SaveVerifiedBlock_ok:
  assumes "gen_ok e W n p" "header_number (lo_Header block) = n"
  shows "gen_ok e W n (p\<lparr>g_blockCache := SaveVerifiedBlock (g_blockCache p) block\<rparr>)"
  using gen_ok_cache [OF assms(1), of "h_Leader (lo_Header block)" "\<lparr>bd_block = block, bd_state = blockStateLocalVerified\<rparr>"] assms
  by (cases "map_has (g_blockCache p) (h_Leader (lo_Header block))")
    (simp_all add: SaveVerifiedBlock_def entry_fine_def of_number_def)

lemma gen_ok_add:
  "gen_ok e W n p \<Longrightarrow> bc_lineage e W (bk_Header r) \<Longrightarrow> gen_ok e W n (p\<lparr>g_broadcastRstCache := g_broadcastRstCache p @ [r]\<rparr>)"
  by (auto simp: gen_ok_def)

lemma AddMinerResult_pool_ok:
  "gen_ok e W n p \<Longrightarrow> AddMinerResult (g_powPool p) h diff r = (pool, err) \<Longrightarrow> powpool_ok pool"
  using AddMinerResult_ok [of "g_powPool p" h diff r] by (simp add: gen_ok_def)

lemma gen_handle_ok:
  assumes "gen_handle e w now ev p = Some p'" "gen_ok e W n p" "w \<in> W" "range_order (ge_cacheRange e)" "event_for n ev"
  shows "gen_ok e W n p'"
proof (cases ev)
  case (GStart role)
  then have "startBcBlock e w now (changeState_gen GenBlockBroadcast (p\<lparr>g_role := role\<rparr>)) = Some p'"
    using assms(1) by (simp add: gen_handle_def StartRunning_gen_def)
  then show ?thesis by (rule startBcBlock_ok [OF _ _ assms(3,4)]) (simp add: assms(2))
next
  case (GCurLeader leader turn)
  then consider "p' = p" | "gen_ok e W n p'"
    | "startBcBlock e w now ((closeConsensusReqSender (p\<lparr>g_curLeader := leader, g_consensusTurn := turn\<rparr>))
        \<lparr>g_state := GenBlockBroadcast, g_nextLeader := 0, g_preBlockHash := 0\<rparr>) = Some p'"
    using assms(1,2) by (auto simp: gen_handle_def SetCurLeader_def Let_def split: if_splits)
  then show ?thesis
  proof cases
    case 3
    then show ?thesis by (rule startBcBlock_ok [OF _ _ assms(3,4)]) (simp add: assms(2))
  qed (use assms in simp_all)
next
  case (GNextLeader leader)
  then consider "p' = p \<or> p' = p\<lparr>g_nextLeader := leader\<rparr>" | "processBlockInsert e w (p\<lparr>g_nextLeader := leader\<rparr>) = Some p'"
    using assms(1) by (auto simp: gen_handle_def SetNextLeader_def Let_def split: if_splits)
  then show ?thesis
  proof cases
    case 2
    then show ?thesis by (rule processBlockInsert_ok [OF _ _ assms(4)]) (simp add: assms(2))
  qed (use assms in auto)
next
  case (GInsert header)
  then show ?thesis using assms
    by (intro startBlockInsert_ok [of e w header p p' W n]) (simp_all add: gen_handle_def AddInsertBlockInfo_def event_for_def)
next
  case (GMiner result)
  obtain pool err where a: "AddMinerResult (g_powPool p) (mr_BlockHash result) (mr_Difficulty result) result = (pool, err)" by fastforce
  have ok: "gen_ok e W n (p\<lparr>g_powPool := pool\<rparr>)" using AddMinerResult_pool_ok [OF assms(2) a] assms(2) by simp
  show ?thesis
  proof (cases err)
    case None
    then have "processMinerResultVerify e w (g_curLeader p) True (p\<lparr>g_powPool := pool\<rparr>) = Some p'"
      using assms(1) GMiner a by (simp add: gen_handle_def AddMinerResult_gen_def)
    then show ?thesis by (rule processMinerResultVerify_ok [OF _ ok assms(3,4)])
  qed (use assms(1) GMiner a ok in \<open>auto simp: gen_handle_def AddMinerResult_gen_def\<close>)
next
  case (GBroadcastMiner check result)
  then consider "p' = p"
    | "preVerifyBroadcastMinerResult e w result = Some True"
      "processMinerResultVerify e w (g_curLeader p) check (p\<lparr>g_broadcastRstCache := g_broadcastRstCache p @ [result]\<rparr>) = Some p'"
    using assms(1) by (auto simp: gen_handle_def AddBroadcastMinerResult_def split: option.splits bool.splits)
  then show ?thesis
  proof cases
    case 2
    then show ?thesis
      by (intro processMinerResultVerify_ok [OF 2(2) gen_ok_add [OF assms(2)] assms(3,4)] bc_lineage.accepted [OF assms(3)])
  qed (use assms in simp)
next
  case (GConsensusBlock block)
  then have "processMinerResultVerify e w (g_curLeader p) True (p\<lparr>g_blockCache := SaveVerifiedBlock (g_blockCache p) block\<rparr>) = Some p'"
    "header_number (lo_Header block) = n" using assms(1,5) by (simp_all add: gen_handle_def AddConsensusBlock_def event_for_def)
  then show ?thesis using processMinerResultVerify_ok [OF _ SaveVerifiedBlock_ok [OF assms(2)] assms(3,4)] by blast
next
  case (GRecovery msg)
  let ?r = "recovery_result e (rs_Header msg)"
  obtain pool err where a: "AddMinerResult (g_powPool p) (mr_BlockHash ?r) (mr_Difficulty ?r) ?r = (pool, err)" by fastforce
  have ok: "gen_ok e W n (p\<lparr>g_powPool := pool\<rparr>)" using AddMinerResult_pool_ok [OF assms(2) a] assms(2) by simp
  obtain q where q: "processMinerResultVerify e w (h_Leader (rs_Header msg)) False (p\<lparr>g_powPool := pool\<rparr>) = Some q"
    "p' = q \<or> p' = ask_full_block e now (rs_Header msg) (rs_From msg) q"
    using assms(1) GRecovery a by (auto simp: gen_handle_def ProcessRecoveryMsg_gen_def Let_def split: option.splits if_splits)
  have "gen_ok e W n q" by (rule processMinerResultVerify_ok [OF q(1) ok assms(3,4)])
  then show ?thesis using q(2) ask_full_block_ok by blast
next
  case (GFullRsp rsp)
  then show ?thesis using assms
    by (intro ProcessFullBlockRsp_ok [of e w rsp p p' W n]) (simp_all add: gen_handle_def event_for_def)
qed (use assms in \<open>auto simp: gen_handle_def Close_gen_def ReInit_def ReInitNextLeader_def ProcessFullBlockReq_def split: option.splits if_splits\<close>)

lemma gen_reachable_ok:
  assumes "gen_reachable e W n p" "range_order (ge_cacheRange e)"
  shows "gen_ok e W n p"
  using assms by (induction rule: gen_reachable.induct) (auto simp: newProcess_gen_ok intro: gen_handle_ok)

section \<open>Only verified blocks are written, and nodes write the same\<close>

lemma inserted_checked:
  assumes "gen_reachable e W n p" "range_order (ge_cacheRange e)" "\<not> IsBroadcastNumber n"
    and "InsertBlock b txs rc st \<in> set (g_out p)"
  shows "\<exists>h. b = NewBlockWithTxs (ge_DeriveSha e) h txs \<and> header_number h = n \<and> block_checked e W h"
proof -
  have "out_fine e W n (InsertBlock b txs rc st)" using gen_reachable_ok [OF assms(1,2)] assms(4) by (auto simp: gen_ok_def)
  then show ?thesis using assms(3) by (auto simp: out_fine_def insertable_def of_number_def)
qed

text \<open>C5: Every block of an ordinary number that a generator writes to the chain, its own or one announced by
  another node, is made of a header of that number that the DPOS engine accepted and whose mining result or
  header was verified, whatever messages the generator received and in which order. The written header \<open>b\<close>
  differs from the accepted one at most in the transaction root, which \<open>NewBlockWithTxs\<close> computes anew of the
  transactions that are written with it; it is the accepted header itself exactly if that root is the one the
  validators signed, and nothing in the generator compares the two.\<close>

theorem inserted_blocks_verified:
  assumes "gen_reachable e W n p" "range_order (ge_cacheRange e)" "\<not> IsBroadcastNumber n"
    and "InsertBlock b txs rc st \<in> set (g_out p)"
  shows "\<exists>h. \<exists>w \<in> W. b = h\<lparr>h_TxHash := ge_DeriveSha e txs\<rparr> \<and> (b = h \<longleftrightarrow> ge_DeriveSha e txs = h_TxHash h) \<and>
    header_number b = n \<and> dpos_VerifyBlock e w h = None \<and> (gw_VerifySeal w h \<or> gw_VerifyHeader w h)"
proof -
  obtain h where h: "b = NewBlockWithTxs (ge_DeriveSha e) h txs" "header_number h = n" "block_checked e W h"
    using inserted_checked [OF assms] by blast
  have "b = h \<longleftrightarrow> ge_DeriveSha e txs = h_TxHash h" by (cases h) (auto simp: h(1) NewBlockWithTxs_def)
  moreover have "header_number b = n" using h(1,2) by (simp add: NewBlockWithTxs_def header_number_def)
  ultimately show ?thesis using h(1,3) by (auto simp: block_checked_def NewBlockWithTxs_def)
qed

text \<open>C27: The transactions of a fetched block are not those the validators signed. A leader of the next block takes
  from a full block reply whatever transactions reproduce the header when they are executed: the execution
  starts from a copy of the header, its transaction root included, so that root is never compared with the
  transactions. The process writes the block at once with the root of the transactions it was sent. If that is
  another root, for instance of the same transactions in another order with the same effect, the header it
  writes is not the one the validators signed: its signed fields differ.\<close>

theorem fetched_txs_unchecked:
  assumes "g_role p = RoleValidator" "g_nextLeader p = ge_self e" "ge_self e \<noteq> 0" "g_curLeader p = h_Leader h"
    and "\<not> IsBroadcastNumber (g_number p + 1)"
    and "GetBlockDataByBlockHash (ge_cacheRange e) (g_blockCache p) (HashNoSignsAndNonce (ge_rlpHash e) h) = None"
    and "gw_VerifyHeader w h" "dpos_VerifyBlock e w h = None"
    and "gw_GetBlockByHash w (h_ParentHash h) \<noteq> None" "gw_Execute w (h\<lparr>h_GasUsed := 0\<rparr>) txs = ExecDone lh rc st"
    and "HashNoSignsAndNonce (ge_rlpHash e) lh = HashNoSignsAndNonce (ge_rlpHash e) h"
    and "gw_WriteBlock w (h\<lparr>h_TxHash := ge_DeriveSha e txs\<rparr>) txs (Some rc) (Some st) = Some WriteCanon"
    and "ge_DeriveSha e txs \<noteq> h_TxHash h"
  shows "\<exists>p'. ProcessFullBlockRsp e w \<lparr>fr_Header = h, fr_Txs = txs, fr_From = a\<rparr> p = Some p' \<and>
    InsertBlock (h\<lparr>h_TxHash := ge_DeriveSha e txs\<rparr>) txs (Some rc) (Some st) \<in> set (g_out p') \<and>
    sign_fields (h\<lparr>h_TxHash := ge_DeriveSha e txs\<rparr>) \<noteq> sign_fields h"
proof -
  have run: "runTxs e w h (HashNoSignsAndNonce (ge_rlpHash e) h) txs = Some (rc, st)"
    using assms(9-11) by (simp add: runTxs_def)
  have "\<exists>p'. ProcessFullBlockRsp e w \<lparr>fr_Header = h, fr_Txs = txs, fr_From = a\<rparr> p = Some p' \<and>
      InsertBlock (h\<lparr>h_TxHash := ge_DeriveSha e txs\<rparr>) txs (Some rc) (Some st) \<in> set (g_out p')"
    using assms(1-8,12) run
    by (simp add: ProcessFullBlockRsp_def processBlockInsert_def insertAndBcBlock_def cur_block_def GetBlockData_def
        SaveReadyBlock_def NewBlockWithTxs_def emit_def role_defs Let_def)
  moreover have "sign_fields (h\<lparr>h_TxHash := ge_DeriveSha e txs\<rparr>) \<noteq> sign_fields h"
    using assms(13) by (simp add: sign_fields_def)
  ultimately show ?thesis by blast
qed

lemma checked_accepts:
  assumes "block_checked e W h" "\<not> IsBroadcastNumber (header_number h)"
    and "\<forall>w \<in> W. getValidatorStocks (gw_reader w) (header_number h) = Inr stocks"
  shows "\<exists>r. VerifyHashWithStocks (ge_order e) (ge_crypto e) (HashNoSignsAndNonce (ge_rlpHash e) h) (h_Signatures h) stocks = Inr r"
  using assms by (auto simp: block_checked_def dpos_VerifyBlock_def VerifyBlock_def split: sum.splits)

text \<open>The validators outside \<open>F\<close> agree to at most one header of the number.\<close>

definition agrees_once :: "crypto_env \<Rightarrow> (rlp_val \<Rightarrow> hash) \<Rightarrow> u64 \<Rightarrow> address set \<Rightarrow> bool" where
  "agrees_once ec rlpHash n F \<longleftrightarrow> (\<forall>a h h' s s'. a \<notin> F \<longrightarrow> header_number h = n \<longrightarrow> header_number h' = n \<longrightarrow>
    VerifySignWithValidate ec (HashNoSignsAndNonce rlpHash h) s = SignOk a True \<longrightarrow>
    VerifySignWithValidate ec (HashNoSignsAndNonce rlpHash h') s' = SignOk a True \<longrightarrow>
    HashNoSignsAndNonce rlpHash h = HashNoSignsAndNonce rlpHash h')"

text \<open>Two headers that differ at most in what the validators do not sign and in the transaction root.\<close>

definition same_but_root :: "Header \<Rightarrow> Header \<Rightarrow> bool" where
  "same_but_root b b' \<longleftrightarrow>
    b\<lparr>h_TxHash := 0, h_Signatures := [], h_Coinbase := 0, h_MixDigest := 0, h_Nonce := 0\<rparr> =
    b'\<lparr>h_TxHash := 0, h_Signatures := [], h_Coinbase := 0, h_MixDigest := 0, h_Nonce := 0\<rparr>"

lemma sign_fields_root:
  "sign_fields h = sign_fields h' \<Longrightarrow> same_but_root (h\<lparr>h_TxHash := t\<rparr>) (h'\<lparr>h_TxHash := t'\<rparr>)"
  by (cases h; cases h')
     (simp add: same_but_root_def sign_fields_def unat_inj_iff map_rlp_Elect_inj rlp_NetTopology_inj)

text \<open>What two generators, on different nodes and with whatever they received, write for the same ordinary number
  if both see the same validators, at most a third of which are faulty, and every other validator agrees to at
  most one header of the number.\<close>

lemma inserted_agree:
  assumes "gen_reachable e W n p" "gen_reachable e' W' n p'" "\<not> IsBroadcastNumber n"
    and "range_order (ge_cacheRange e)" "range_order (ge_cacheRange e')" "order_ok (ge_order e)" "order_ok (ge_order e')"
    and "ge_crypto e' = ge_crypto e" "ge_rlpHash e' = ge_rlpHash e"
    and "\<forall>w \<in> W \<union> W'. getValidatorStocks (gw_reader w) n = Inr stocks" "gomap_ok stocks" "length stocks < 2 ^ 53"
    and "3 * card (F \<inter> fst ` set stocks) \<le> length stocks"
    and "agrees_once (ge_crypto e) (ge_rlpHash e) n F"
    and "InsertBlock b txs rc st \<in> set (g_out p)" "InsertBlock b' txs' rc' st' \<in> set (g_out p')"
  shows "\<exists>h h'. b = h\<lparr>h_TxHash := ge_DeriveSha e txs\<rparr> \<and> b' = h'\<lparr>h_TxHash := ge_DeriveSha e' txs'\<rparr> \<and>
    block_checked e W h \<and> block_checked e' W' h' \<and>
    HashNoSignsAndNonce (ge_rlpHash e) h = HashNoSignsAndNonce (ge_rlpHash e) h'"
proof -
  obtain h where h: "b = NewBlockWithTxs (ge_DeriveSha e) h txs" "header_number h = n" "block_checked e W h"
    using inserted_checked [OF assms(1,4,3,15)] by blast
  obtain h' where h': "b' = NewBlockWithTxs (ge_DeriveSha e') h' txs'" "header_number h' = n" "block_checked e' W' h'"
    using inserted_checked [OF assms(2,5,3,16)] by blast
  obtain r where r: "VerifyHashWithStocks (ge_order e) (ge_crypto e) (HashNoSignsAndNonce (ge_rlpHash e) h) (h_Signatures h) stocks = Inr r"
    using checked_accepts [OF h(3)] assms(3,10) h(2) by auto
  obtain r' where r': "VerifyHashWithStocks (ge_order e') (ge_crypto e) (HashNoSignsAndNonce (ge_rlpHash e) h') (h_Signatures h') stocks = Inr r'"
    using checked_accepts [OF h'(3)] assms(3,8-10) h'(2) by auto
  show ?thesis using accepted_overlap [OF assms(6,7,11,12) r r' assms(13)] assms(14) h h'
    unfolding agrees_once_def NewBlockWithTxs_def by blast
qed

section \<open>Witnesses\<close>

definition demo_genv :: "nat gen_env" where
  "demo_genv = \<lparr>ge_crypto = demo_crypto, ge_rlpHash = \<lambda>v. 5, ge_order = demo_order, ge_BroadCastNodes = [], ge_self = 9,
    ge_signHelper = \<lparr>sh_testMode = False, sh_testKey = \<lambda>h. None, sh_signWallet = None\<rparr>, ge_NewResendMsgCtrl = \<lambda>i t. True,
    ge_resultRange = id, ge_cacheRange = id, ge_DeriveSha = \<lambda>t. 0, ge_TargetGasLimit = 4712388\<rparr>"

definition demo_gview :: "nat gen_view" where
  "demo_gview = \<lparr>gw_reader = demo_reader, gw_VerifySeal = \<lambda>h. True, gw_VerifyHeader = \<lambda>h. True, gw_GetHeaderByNumber = \<lambda>n. Some zero_header,
    gw_GetBlockByHash = \<lambda>h. Some zero_header, gw_Genesis = zero_header, gw_OriginalRole = \<lambda>a n. RoleValidator, gw_check = demo_view,
    gw_Prepare = Some, gw_RunPool = \<lambda>h. GenDone h [] 0 0 0, gw_RunSpecial = \<lambda>h. GenDone h [] 0 0 0,
    gw_Execute = \<lambda>h t. ExecDone h 0 0, gw_ExecuteBroadcast = \<lambda>h t. BcDone h 0 0,
    gw_WriteBlock = \<lambda>h t r s. Some WriteCanon\<rparr>"

definition demo_gheader :: Header where
  "demo_gheader = zero_header\<lparr>h_Number := 41, h_Leader := 2, h_Signatures := [0x100, 0x300, 0x200]\<rparr>"

lemma demo_gheader_accepted: "dpos_VerifyBlock demo_genv demo_gview demo_gheader = None"
  by (simp add: dpos_VerifyBlock_def VerifyBlock_def demo_genv_def demo_gview_def demo_gheader_def header_number_def schedule_defs
      demo_reader_stocks VerifyHashWithStocks_def calculateDPOSTarget_def demo_order_def DPOSMinStockCount_def DPOSFullSignThreshold_def
      verifySigns_def verifyDPOS_def demo_verify sig64_def merge_sign_def HashNoSignsAndNonce_def Let_def)

text \<open>A node that learned the leader, fetched the block from another node and then received the announcement of
  the block.\<close>

definition demo_gproc :: "nat Process_gen" where
  "demo_gproc = (newProcess_gen 41)\<lparr>g_curLeader := 2, g_state := GenBlockInsert,
    g_blockCache := [(2, \<lparr>bd_block = \<lparr>lo_Header = demo_gheader, lo_BlockHash = 0, lo_Txs = Some 7, lo_Receipts = Some 0, lo_State = Some 0\<rparr>,
      bd_state = blockStateReady\<rparr>)], g_out := [PubNewBlockReady demo_gheader]\<rparr>"

lemma demo_fetch:
  "ProcessFullBlockRsp demo_genv demo_gview \<lparr>fr_Header = demo_gheader, fr_Txs = Some 7, fr_From = 0\<rparr> ((newProcess_gen 41)\<lparr>g_curLeader := 2\<rparr>) =
    Some demo_gproc"
proof -
  have v: "gw_VerifyHeader demo_gview demo_gheader" by (simp add: demo_gview_def)
  have r: "runTxs demo_genv demo_gview demo_gheader (HashNoSignsAndNonce (ge_rlpHash demo_genv) demo_gheader) (Some 7) = Some (0, 0)"
    by (simp add: runTxs_def demo_gview_def demo_genv_def HashNoSignsAndNonce_def)
  have c: "GetBlockDataByBlockHash (ge_cacheRange demo_genv) [] h = None" for h
    by (simp add: GetBlockDataByBlockHash_def demo_genv_def)
  have leader: "h_Leader demo_gheader = 2" by (simp add: demo_gheader_def)
  show ?thesis using v r
    by (simp add: ProcessFullBlockRsp_def demo_gheader_accepted newProcess_gen_def newBlockCache_def c
        SaveReadyBlock_def processBlockInsert_def emit_def demo_gproc_def role_defs Let_def schedule_defs leader)
qed

lemma demo_gproc_reachable: "gen_reachable demo_genv {demo_gview} 41 demo_gproc"
proof -
  let ?p1 = "(newProcess_gen 41 :: nat Process_gen)\<lparr>g_curLeader := 2\<rparr>"
  have 1: "gen_handle demo_genv demo_gview 0 (GCurLeader 2 0) (newProcess_gen 41) = Some ?p1"
    by (simp add: gen_handle_def SetCurLeader_def newProcess_gen_def closeConsensusReqSender_def checkState_gen_def Let_def)
  have 2: "gen_handle demo_genv demo_gview 0 (GFullRsp \<lparr>fr_Header = demo_gheader, fr_Txs = Some 7, fr_From = 0\<rparr>) ?p1 = Some demo_gproc"
    by (simp add: gen_handle_def demo_fetch)
  have "gen_reachable demo_genv {demo_gview} 41 ?p1"
    by (rule gen_reachable.step [OF gen_reachable.start _ _ 1]) (simp_all add: event_for_def)
  then show ?thesis
    by (rule gen_reachable.step [OF _ _ _ 2]) (simp_all add: event_for_def demo_gheader_def header_number_def)
qed

abbreviation demo_block :: Header where
  "demo_block \<equiv> NewBlockWithTxs (\<lambda>t :: nat option. 0) demo_gheader (Some 7)"

definition demo_gend :: "nat Process_gen" where
  "demo_gend = demo_gproc\<lparr>g_out := [PubNewBlockReady demo_gheader, InsertBlock demo_block (Some 7) (Some 0) (Some 0), PubMinedBlock demo_block,
    PubChainHead demo_block, PubHeaderGenerateReq 42], g_insertBlockHash := [5]\<rparr>"

lemma demo_insert: "AddInsertBlockInfo demo_genv demo_gview demo_gheader demo_gproc = Some demo_gend"
proof -
  let ?p = "demo_gproc\<lparr>g_out := [PubNewBlockReady demo_gheader, InsertBlock demo_block (Some 7) (Some 0) (Some 0), PubMinedBlock demo_block,
    PubChainHead demo_block, PubHeaderGenerateReq 42]\<rparr>"
  have i: "insertAndBcBlock demo_genv demo_gview (Some demo_gheader) demo_gproc = Some (?p, Inr 5)"
    by (simp add: insertAndBcBlock_def cur_block_def demo_gproc_def newProcess_gen_def GetBlockData_def role_defs emit_def Let_def)
      (simp add: demo_genv_def demo_gview_def Header_Hash_def emit_def Let_def)
  have s: "insert_checks demo_genv demo_gview 41 demo_gheader = Some True"
    using demo_gheader_accepted by (simp add: insert_checks_def schedule_defs) (simp add: demo_gview_def)
  have n: "g_number demo_gproc = 41" "g_insertBlockHash demo_gproc = []" by (simp_all add: demo_gproc_def newProcess_gen_def)
  have h: "Header_Hash (ge_rlpHash demo_genv) demo_gheader = 5" by (simp add: Header_Hash_def demo_genv_def)
  show ?thesis
    by (simp add: AddInsertBlockInfo_def startBlockInsert_def checkRepeatInsert_def saveInsertedBlockHash_def n s i h demo_gend_def Let_def)
qed

lemma demo_gend_reachable:
  "gen_reachable demo_genv {demo_gview} 41 demo_gend" "InsertBlock demo_block (Some 7) (Some 0) (Some 0) \<in> set (g_out demo_gend)"
proof -
  have "gen_handle demo_genv demo_gview 0 (GInsert demo_gheader) demo_gproc = Some demo_gend" by (simp add: gen_handle_def demo_insert)
  then show "gen_reachable demo_genv {demo_gview} 41 demo_gend"
    by (rule gen_reachable.step [OF demo_gproc_reachable, rotated 2]) (simp_all add: event_for_def demo_gheader_def header_number_def)
qed (simp add: demo_gend_def)

lemma demo_genv_simps:
  "range_order (ge_cacheRange demo_genv)" "order_ok (ge_order demo_genv)" "ge_DeriveSha demo_genv = (\<lambda>t. 0)" "\<not> IsBroadcastNumber 41"
  by (simp_all add: demo_genv_def demo_order_ok schedule_defs range_order_def)

theorem inserted_blocks_verified_witness:
  "\<exists>h. demo_block = h\<lparr>h_TxHash := 0\<rparr> \<and> header_number demo_block = 41 \<and> dpos_VerifyBlock demo_genv demo_gview h = None"
  using inserted_blocks_verified [OF demo_gend_reachable(1) demo_genv_simps(1,4) demo_gend_reachable(2)] by (auto simp: demo_genv_simps(3))

text \<open>The next leader is sent the block with other transactions, whose root is 8.\<close>

theorem fetched_txs_unchecked_witness:
  "\<exists>p'. ProcessFullBlockRsp (demo_genv\<lparr>ge_DeriveSha := \<lambda>t. 8\<rparr>) demo_gview \<lparr>fr_Header = demo_gheader, fr_Txs = Some 7, fr_From = 3\<rparr>
      ((newProcess_gen 41)\<lparr>g_role := RoleValidator, g_nextLeader := 9, g_curLeader := 2\<rparr>) = Some p' \<and>
    InsertBlock (demo_gheader\<lparr>h_TxHash := 8\<rparr>) (Some 7) (Some 0) (Some 0) \<in> set (g_out p') \<and> h_TxHash demo_gheader = 0"
proof -
  let ?e = "demo_genv\<lparr>ge_DeriveSha := \<lambda>t. 8\<rparr>"
  let ?p = "(newProcess_gen 41)\<lparr>g_role := RoleValidator, g_nextLeader := 9, g_curLeader := 2\<rparr> :: nat Process_gen"
  have acc: "dpos_VerifyBlock ?e demo_gview demo_gheader = None"
    using demo_gheader_accepted by (simp add: dpos_VerifyBlock_def)
  have h: "h_Leader demo_gheader = 2" "h_TxHash demo_gheader = 0" by (simp_all add: demo_gheader_def zero_header_def)
  have c: "GetBlockDataByBlockHash (ge_cacheRange ?e) (g_blockCache ?p) hs = None" for hs
    by (simp add: GetBlockDataByBlockHash_def demo_genv_def newProcess_gen_def newBlockCache_def)
  have w: "gw_VerifyHeader demo_gview demo_gheader" "gw_GetBlockByHash demo_gview (h_ParentHash demo_gheader) \<noteq> None"
    "gw_Execute demo_gview (demo_gheader\<lparr>h_GasUsed := 0\<rparr>) (Some 7) = ExecDone (demo_gheader\<lparr>h_GasUsed := 0\<rparr>) 0 0"
    "gw_WriteBlock demo_gview (demo_gheader\<lparr>h_TxHash := ge_DeriveSha ?e (Some 7)\<rparr>) (Some 7) (Some 0) (Some 0) = Some WriteCanon"
    by (simp_all add: demo_gview_def)
  have e: "ge_self ?e = 9" "HashNoSignsAndNonce (ge_rlpHash ?e) x = HashNoSignsAndNonce (ge_rlpHash ?e) y" for x y
    by (simp_all add: demo_genv_def HashNoSignsAndNonce_def)
  from fetched_txs_unchecked [OF _ _ _ _ _ c w(1) acc w(2,3) e(2) w(4), of 3] h e(1)
  show ?thesis by (auto simp: newProcess_gen_def schedule_defs)
qed

end
