(* ===== verification/Gen_Request.thy ===== *)
theory Gen_Request
  imports Gen_Safety
begin

text \<open>
  The requests a leader makes: what the verifiers say to the fields the leader computed, and that the request that
  is being sent is always that of the current leader and turn.
\<close>

section \<open>The fields of a generated header\<close>

definition engine_keeps :: "'x gen_view \<Rightarrow> bool" where
  "engine_keeps w \<longleftrightarrow>
    (\<forall>h h'. gw_Prepare w h = Some h' \<longrightarrow> h_Number h' = h_Number h \<and> h_Elect h' = h_Elect h \<and> h_NetTopology h' = h_NetTopology h) \<and>
    (\<forall>h h' c t r s. gw_RunPool w h = GenDone h' c t r s \<longrightarrow>
       h_Number h' = h_Number h \<and> h_Elect h' = h_Elect h \<and> h_NetTopology h' = h_NetTopology h)"

lemma gen_header_simps [simp]:
  "h_Number (gen_header e w now n parent) = unat n" "h_Elect (gen_header e w now n parent) = genElection (gw_check w) n"
  "h_NetTopology (gen_header e w now n parent) = (case getNetTopology (gw_check w) (h_NetTopology parent) n of
     None \<Rightarrow> \<lparr>nt_Type = NetTopoTypeChange, nt_Data = []\<rparr> | Some t \<Rightarrow> t)"
  by (simp_all add: gen_header_def Let_def)

lemma processHeaderGen_request:
  assumes "processHeaderGen e w now p = Some (p', True)" "\<not> IsBroadcastNumber (g_number p)" "engine_keeps w"
  obtains parent header codes txs rc st where "getParentBlock w p = Some parent" "h_Number header = unat (g_number p)"
    "h_Elect header = genElection (gw_check w) (g_number p)"
    "h_NetTopology header = h_NetTopology (gen_header e w now (g_number p) parent)"
    "p' = startConsensusReqSender e \<lparr>bcr_From = ge_self e, bcr_Header = Some header, bcr_ConsensusTurn = g_consensusTurn p, bcr_TxsCode = codes\<rparr>
       (emit (PubHeaderVerifyReq \<lparr>lr_BlkVerifyConsensusReq = \<lparr>bcr_From = ge_self e, bcr_Header = Some header, bcr_ConsensusTurn = g_consensusTurn p,
         bcr_TxsCode = codes\<rparr>, lr_Txs = Some txs, lr_Receipts = Some rc, lr_State = Some st\<rparr>)
        (emit (MakeStruck (Some txs) (HashNoSignsAndNonce (ge_rlpHash e) header) (g_number p)) p))"
proof -
  obtain parent where pa: "getParentBlock w p = Some parent"
    using assms(1) by (cases "getParentBlock w p") (auto simp: processHeaderGen_def)
  obtain h1 where h1: "gw_Prepare w (gen_header e w now (g_number p) parent) = Some h1"
    using assms(1) pa by (cases "gw_Prepare w (gen_header e w now (g_number p) parent)") (auto simp: processHeaderGen_def)
  have k1: "h_Number h1 = unat (g_number p)" "h_Elect h1 = genElection (gw_check w) (g_number p)"
    "h_NetTopology h1 = h_NetTopology (gen_header e w now (g_number p) parent)"
    using assms(3) h1 unfolding engine_keeps_def by (metis gen_header_simps(1), metis gen_header_simps(2), metis)
  then have nb: "\<not> IsBroadcastNumber (header_number h1)" using assms(2) by (simp add: header_number_def)
  then obtain h2 codes txs rc st where h2: "gw_RunPool w h1 = GenDone h2 codes txs rc st"
    using assms(1) pa h1 by (cases "gw_RunPool w h1") (auto simp: processHeaderGen_def)
  have k2: "h_Number h2 = h_Number h1" "h_Elect h2 = h_Elect h1" "h_NetTopology h2 = h_NetTopology h1"
    using assms(3) h2 unfolding engine_keeps_def by metis+
  show ?thesis
    by (rule that [of parent h2 codes txs rc st]) (use assms(1) pa h1 nb h2 k1 k2 in \<open>simp_all add: processHeaderGen_def Let_def\<close>)
qed

lemma primary_loop_marks:
  "primary_loop (map (\<lambda>a. \<lparr>nd_Account = a, nd_Position = PosOnline\<rparr>) on @ map (\<lambda>a. \<lparr>nd_Account = a, nd_Position = PosOffline\<rparr>) off) = (on, off)"
proof (induction on)
  case Nil
  show ?case by (induction off) (auto simp: topo_const_defs)
qed (auto simp: topo_const_defs)

lemma change_marks:
  "ParsePrimaryTopNodeState (TransferToNetTopologyChgStu [] on off) = (on, off)"
  "ParseTopNodeOffline (TransferToNetTopologyChgStu [] on off) prev = []"
proof -
  show "ParsePrimaryTopNodeState (TransferToNetTopologyChgStu [] on off) = (on, off)"
    by (simp add: ParsePrimaryTopNodeState_def TransferToNetTopologyChgStu_def primary_loop_marks)
  have "top_offline_loop t prev (map (\<lambda>a. \<lparr>nd_Account = a, nd_Position = PosOnline\<rparr>) on @ map (\<lambda>a. \<lparr>nd_Account = a, nd_Position = PosOffline\<rparr>) off) = []" for t
  proof (induction on)
    case Nil
    show ?case by (induction off) auto
  qed auto
  then show "ParseTopNodeOffline (TransferToNetTopologyChgStu [] on off) prev = []"
    by (simp add: ParseTopNodeOffline_def TransferToNetTopologyChgStu_def)
qed

lemma same_topology_refl [simp]: "same_topology r t t = None"
  by (simp add: same_topology_def)

lemma verifyElection_own:
  "cv_GetElection cw n = Some info \<Longrightarrow> h_Elect header = genElection cw n \<Longrightarrow> verifyElection r cw n header = None"
  by (simp add: verifyElection_def genElection_def Let_def)

lemma verifyNetTopology_own:
  assumes "h_NetTopology header = (case getNetTopology cw t n of None \<Rightarrow> \<lparr>nt_Type = NetTopoTypeChange, nt_Data = []\<rparr> | Some t \<Rightarrow> t)"
    and "header_number header = n"
  shows "verifyNetTopology r cw n header = None \<longleftrightarrow>
    IsReElectionNumber (n + 1) \<or> getPrevTopology cw n = None \<or>
    (case ParsePrimaryTopNodeState t of (on, off) \<Rightarrow> checkStateByConsensus off on (cv_PrimaryNodeState cw))"
proof (cases "IsReElectionNumber (n + 1)")
  case True
  then show ?thesis using assms
    by (cases "cv_GetNetTopologyAll cw n")
      (auto simp: getNetTopology_def genAllNetTopology_def verifyNetTopology_def verifyAllNetTopology_def verifyChgNetTopology_def
        TransferToNetTopologyAllStu_def topo_const_defs)
next
  case False
  obtain on off where p: "ParsePrimaryTopNodeState t = (on, off)" by fastforce
  show ?thesis
  proof (cases "getPrevTopology cw n")
    case None
    then show ?thesis using assms False
      by (simp add: getNetTopology_def genChgNetTopology_def verifyNetTopology_def verifyChgNetTopology_def topo_const_defs)
  next
    case (Some prev)
    then have t: "h_NetTopology header = TransferToNetTopologyChgStu [] on off"
      using assms(1) False p by (simp add: getNetTopology_def genChgNetTopology_def parseOnlineState_gen_def GetTopoChange_def)
    have ty: "nt_Type (TransferToNetTopologyChgStu [] on off) \<noteq> NetTopoTypeAll"
      by (simp add: TransferToNetTopologyChgStu_def topo_const_defs)
    have em: "nt_Data (TransferToNetTopologyChgStu [] on off) = [] \<longleftrightarrow> on = [] \<and> off = []"
      by (auto simp: TransferToNetTopologyChgStu_def)
    show ?thesis using Some False p ty
      by (auto simp: verifyNetTopology_def verifyChgNetTopology_def t em parseOnlineState_def change_marks GetTopoChange_def
          checkStateByConsensus_def getPrevTopology_def)
  qed
qed

text \<open>C23: A verifier with the same election data and the same view of the nodes accepts the election list of every request a
  leader makes, and accepts its topology exactly when the marks that the leader repeats from the parent block
  are still what the verifier knows of those nodes; a full topology is always accepted.\<close>

theorem generated_fields_accepted:
  assumes "processHeaderGen e w now p = Some (p', True)" "\<not> IsBroadcastNumber (g_number p)" "engine_keeps w"
    and "cv_GetElection (gw_check w) (g_number p) = Some info" "getParentBlock w p = Some parent"
  shows "\<exists>req header. PubHeaderVerifyReq req \<in> set (g_out p') \<and> bcr_Header (lr_BlkVerifyConsensusReq req) = Some header \<and>
    header_number header = g_number p \<and> bcr_ConsensusTurn (lr_BlkVerifyConsensusReq req) = g_consensusTurn p \<and>
    verifyElection r (gw_check w) (g_number p) header = None \<and>
    (verifyNetTopology r (gw_check w) (g_number p) header = None \<longleftrightarrow>
      IsReElectionNumber (g_number p + 1) \<or> getPrevTopology (gw_check w) (g_number p) = None \<or>
      (case ParsePrimaryTopNodeState (h_NetTopology parent) of (on, off) \<Rightarrow>
         checkStateByConsensus off on (cv_PrimaryNodeState (gw_check w))))"
proof -
  obtain header codes txs rc st where h: "h_Number header = unat (g_number p)" "h_Elect header = genElection (gw_check w) (g_number p)"
    "h_NetTopology header = h_NetTopology (gen_header e w now (g_number p) parent)"
    and p': "p' = startConsensusReqSender e \<lparr>bcr_From = ge_self e, bcr_Header = Some header, bcr_ConsensusTurn = g_consensusTurn p, bcr_TxsCode = codes\<rparr>
       (emit (PubHeaderVerifyReq \<lparr>lr_BlkVerifyConsensusReq = \<lparr>bcr_From = ge_self e, bcr_Header = Some header, bcr_ConsensusTurn = g_consensusTurn p,
         bcr_TxsCode = codes\<rparr>, lr_Txs = Some txs, lr_Receipts = Some rc, lr_State = Some st\<rparr>)
        (emit (MakeStruck (Some txs) (HashNoSignsAndNonce (ge_rlpHash e) header) (g_number p)) p))"
    using processHeaderGen_request [OF assms(1-3)] assms(5) by (metis option.inject)
  have n: "header_number header = g_number p" using h(1) by (simp add: header_number_def)
  have o: "set (g_out (startConsensusReqSender e req q)) = set (g_out q)" for req q
    by (simp add: startConsensusReqSender_def closeConsensusReqSender_def Let_def)
  show ?thesis
    using verifyElection_own [OF assms(4) h(2)] verifyNetTopology_own [OF h(3) [unfolded gen_header_simps] n] n
    by (intro exI [of _ "\<lparr>lr_BlkVerifyConsensusReq = \<lparr>bcr_From = ge_self e, bcr_Header = Some header, bcr_ConsensusTurn = g_consensusTurn p,
         bcr_TxsCode = codes\<rparr>, lr_Txs = Some txs, lr_Receipts = Some rc, lr_State = Some st\<rparr>"] exI [of _ header])
      (simp add: p' o emit_def)
qed

text \<open>The check looks at the kind of topology the header names, not at the number: an empty change is accepted
  also where the topology of a new period is due, so that a leader can keep the old validators.\<close>

theorem skipped_topology_accepted:
  "nt_Type (h_NetTopology header) \<noteq> NetTopoTypeAll \<and> nt_Data (h_NetTopology header) = [] \<longrightarrow>
    verifyNetTopology r cw n header = None"
  by (simp add: verifyNetTopology_def verifyChgNetTopology_def)

section \<open>The request that is being sent\<close>

text \<open>What the handling of mining results and the insertion of blocks leave alone.\<close>

definition same_turn :: "'x Process_gen \<Rightarrow> 'x Process_gen \<Rightarrow> bool" where
  "same_turn p p' \<longleftrightarrow> g_consensusReqSender p' = g_consensusReqSender p \<and> g_curLeader p' = g_curLeader p \<and>
    g_consensusTurn p' = g_consensusTurn p \<and> g_number p' = g_number p"

lemma same_turn_refl [simp]: "same_turn p p" by (simp add: same_turn_def)

lemma same_turn_trans: "same_turn p q \<Longrightarrow> same_turn q r \<Longrightarrow> same_turn p r" by (simp add: same_turn_def)

lemma same_turn_simps [simp]:
  "same_turn p (emit m q) = same_turn p q" "same_turn p (q\<lparr>g_state := s\<rparr>) = same_turn p q" "same_turn (q\<lparr>g_state := s\<rparr>) p = same_turn q p"
  "same_turn p (q\<lparr>g_powPool := pl\<rparr>) = same_turn p q" "same_turn (q\<lparr>g_powPool := pl\<rparr>) p = same_turn q p" "same_turn p (q\<lparr>g_blockCache := c\<rparr>) = same_turn p q"
  "same_turn (emit m q) p = same_turn q p" "same_turn (q\<lparr>g_blockCache := c\<rparr>) p = same_turn q p"
  "same_turn p (q\<lparr>g_broadcastRstCache := bs\<rparr>) = same_turn p q" "same_turn (q\<lparr>g_broadcastRstCache := bs\<rparr>) p = same_turn q p"
  "same_turn (changeState_gen st q) p = same_turn q p" "same_turn (q\<lparr>g_nextLeader := a\<rparr>) p = same_turn q p"
  by (simp_all add: same_turn_def emit_def changeState_gen_def)

lemma insertAndBcBlock_turn: "insertAndBcBlock e w header p = Some (p', r) \<Longrightarrow> same_turn p p'"
  by (auto simp: insertAndBcBlock_def Let_def split: option.splits if_splits write_result.splits)

lemma processBlockInsert_turn: "processBlockInsert e w p = Some p' \<Longrightarrow> same_turn p p'"
  by (auto simp: processBlockInsert_def split: if_splits option.splits sum.splits dest!: insertAndBcBlock_turn)

lemma dealMinerResultVerifyCommon_turn:
  assumes "dealMinerResultVerifyCommon e w leader p = Some p'"
  shows "same_turn p p'"
proof -
  obtain pool c m where "p' = p \<or> p' = p\<lparr>g_powPool := pool\<rparr> \<or>
      processBlockInsert e w ((emit m (p\<lparr>g_powPool := pool, g_blockCache := c\<rparr>))\<lparr>g_state := GenBlockInsert\<rparr>) = Some p' \<or>
      processBlockInsert e w ((emit m p)\<lparr>g_state := GenBlockInsert\<rparr>) = Some p'"
    using assms by (simp only: dealMinerResultVerifyCommon_def Let_def split: option.splits prod.splits sum.splits if_splits) blast+
  then show ?thesis by (auto dest!: processBlockInsert_turn)
qed

lemma broadcast_loop_turn: "broadcast_loop e w i results p = Some p' \<Longrightarrow> same_turn p p'"
  by (induction e w i results p rule: broadcast_loop.induct)
    (auto simp: Let_def split: if_splits bc_exec.splits dest!: processBlockInsert_turn)

lemma processMinerResultVerify_turn: "processMinerResultVerify e w leader check p = Some p' \<Longrightarrow> same_turn p p'"
  by (auto simp: processMinerResultVerify_def dealMinerResultVerifyBroadcast_def split: if_splits
      dest!: broadcast_loop_turn dealMinerResultVerifyCommon_turn)

definition sender_ok :: "'x gen_env \<Rightarrow> u64 \<Rightarrow> 'x Process_gen \<Rightarrow> bool" where
  "sender_ok e n p \<longleftrightarrow> g_number p = n \<and>
    (\<forall>req. g_consensusReqSender p = Some req \<longrightarrow> bcr_From req = ge_self e \<and> g_curLeader p = ge_self e \<and>
      bcr_ConsensusTurn req = g_consensusTurn p \<and> (\<exists>h. bcr_Header req = Some h \<and> header_number h = n))"

lemma sender_ok_turn: "same_turn p p' \<Longrightarrow> sender_ok e n p' = sender_ok e n p"
  by (simp add: same_turn_def sender_ok_def)

lemma canGenHeader_sender:
  assumes "canGenHeader e w p = Some (p', b)"
  shows "same_turn p p' \<and> (b \<longrightarrow> p' = p \<and> (IsBroadcastNumber (g_number p) \<or> g_curLeader p = ge_self e))"
  using assms by (auto simp: canGenHeader_def Let_def split: if_splits dest!: processMinerResultVerify_turn)

lemma processHeaderGen_broadcast:
  assumes "processHeaderGen e w now p = Some (p', b)" "IsBroadcastNumber (g_number p)" "engine_keeps w"
  shows "same_turn p p'"
proof -
  have "IsBroadcastNumber (header_number h)" if "gw_Prepare w (gen_header e w now (g_number p) parent) = Some h" for h parent
  proof -
    have "h_Number h = unat (g_number p)" using assms(3) that unfolding engine_keeps_def by (metis gen_header_simps(1))
    then show ?thesis using assms(2) by (simp add: header_number_def)
  qed
  then show ?thesis using assms(1) by (auto simp: processHeaderGen_def split: option.splits gen_exec.splits if_splits)
qed

lemma processHeaderGen_failed: "processHeaderGen e w now p = Some (p', False) \<Longrightarrow> p' = p"
  by (auto simp: processHeaderGen_def Let_def split: option.splits gen_exec.splits if_splits)

lemma startHeaderGen_sender:
  assumes "startHeaderGen e w now p = Some p'" "sender_ok e n p" "engine_keeps w"
  shows "sender_ok e n p'"
proof (cases "checkState_gen GenHeaderGen p")
  case True
  then obtain q b where q: "canGenHeader e w p = Some (q, b)"
    using assms(1) by (cases "canGenHeader e w p") (auto simp: startHeaderGen_def)
  note t = canGenHeader_sender [OF q]
  show ?thesis
  proof (cases b)
    case b: True
    then have qp: "q = p" "IsBroadcastNumber n \<or> g_curLeader p = ge_self e" using t assms(2) by (auto simp: sender_ok_def)
    obtain q' b' where q': "processHeaderGen e w now p = Some (q', b')"
      using assms(1) True q b qp by (cases "processHeaderGen e w now p") (auto simp: startHeaderGen_def)
    have ok: "sender_ok e n q'"
    proof (cases "b' \<and> \<not> IsBroadcastNumber n")
      case b': True
      have "\<not> IsBroadcastNumber (g_number p)" "processHeaderGen e w now p = Some (q', True)"
        using assms(2) b' q' by (auto simp: sender_ok_def)
      from processHeaderGen_request [OF this(2,1) assms(3)] obtain header codes q0 where
        "q' = startConsensusReqSender e \<lparr>bcr_From = ge_self e, bcr_Header = Some header, bcr_ConsensusTurn = g_consensusTurn p, bcr_TxsCode = codes\<rparr> q0"
        "same_turn p q0" "h_Number header = unat (g_number p)" by (metis same_turn_refl same_turn_simps(1))
      then show ?thesis using assms(2) b' qp(2)
        by (auto simp: sender_ok_def same_turn_def startConsensusReqSender_def closeConsensusReqSender_def Let_def header_number_def)
    next
      case False
      then show ?thesis using assms(2,3) q' processHeaderGen_failed [of e w now p q'] processHeaderGen_broadcast [OF q' _ assms(3)] sender_ok_turn
        by (cases b') (auto simp: sender_ok_def same_turn_def)
    qed
    show ?thesis
    proof (cases b')
      case b': True
      then have "processMinerResultVerify e w (g_curLeader q') True (q'\<lparr>g_state := GenMinerResultVerify\<rparr>) = Some p'"
        using assms(1) True q b qp q' by (simp add: startHeaderGen_def)
      then show ?thesis using ok sender_ok_turn [of q' p'] processMinerResultVerify_turn by force
    qed (use assms(1) True q b qp q' ok in \<open>auto simp: startHeaderGen_def\<close>)
  qed (use assms(1,2) True q t sender_ok_turn in \<open>auto simp: startHeaderGen_def\<close>)
qed (use assms in \<open>simp add: startHeaderGen_def\<close>)

lemma startBcBlock_sender:
  assumes "startBcBlock e w now p = Some p'" "sender_ok e n p" "engine_keeps w"
  shows "sender_ok e n p'"
proof -
  let ?p = "if g_number p \<noteq> 1 then emit (SendNewBlockInsert (gw_GetHeaderByNumber w (g_number p - 1))) p else p"
  consider "p' = p"
    | "startHeaderGen e w now (?p\<lparr>g_preBlockHash := Header_ptr_Hash (ge_rlpHash e) (gw_GetHeaderByNumber w (g_number p - 1)),
        g_state := GenHeaderGen\<rparr>) = Some p'"
    using assms(1) unfolding startBcBlock_def Let_def by (metis option.inject)
  then show ?thesis
  proof cases
    case 2
    show ?thesis by (rule startHeaderGen_sender [OF 2 _ assms(3)]) (use assms(2) in \<open>auto simp: sender_ok_def emit_def\<close>)
  qed (use assms in simp)
qed

lemma closed_sender_ok: "g_number p = n \<Longrightarrow> sender_ok e n (closeConsensusReqSender p)"
  by (simp add: sender_ok_def closeConsensusReqSender_def)

lemma gen_handle_sender:
  assumes "gen_handle e w now ev p = Some p'" "sender_ok e n p" "engine_keeps w"
  shows "sender_ok e n p'"
proof -
  have n: "g_number p = n" using assms(2) by (simp add: sender_ok_def)
  have mining: "sender_ok e n q'" if "processMinerResultVerify e w leader check q = Some q'" "same_turn p q" for q q' leader check
    using sender_ok_turn [OF same_turn_trans [OF that(2) processMinerResultVerify_turn [OF that(1)]]] assms(2) by simp
  show ?thesis
  proof (cases ev)
    case (GStart role)
    then have "startBcBlock e w now (changeState_gen GenBlockBroadcast (p\<lparr>g_role := role\<rparr>)) = Some p'"
      using assms(1) by (simp add: gen_handle_def StartRunning_gen_def)
    then show ?thesis
      by (rule startBcBlock_sender [OF _ _ assms(3)]) (use assms(2) in \<open>simp add: sender_ok_def changeState_gen_def\<close>)
  next
    case (GCurLeader leader turn)
    let ?q = "closeConsensusReqSender (p\<lparr>g_curLeader := leader, g_consensusTurn := turn\<rparr>)"
    have q: "sender_ok e n ?q" by (rule closed_sender_ok) (simp add: n)
    have "p' = p \<or> p' = ?q \<or> startBcBlock e w now (?q\<lparr>g_state := GenBlockBroadcast, g_nextLeader := 0, g_preBlockHash := 0\<rparr>) = Some p'"
      using assms(1) unfolding GCurLeader gen_handle_def gen_event.case SetCurLeader_def Let_def by (metis option.inject)
    then show ?thesis
    proof (elim disjE)
      assume "startBcBlock e w now (?q\<lparr>g_state := GenBlockBroadcast, g_nextLeader := 0, g_preBlockHash := 0\<rparr>) = Some p'"
      then show ?thesis by (rule startBcBlock_sender [OF _ _ assms(3)]) (use q in \<open>simp add: sender_ok_def\<close>)
    qed (use assms(2) q in simp_all)
  next
    case (GNextLeader leader)
    have "sender_ok e n (p\<lparr>g_nextLeader := leader\<rparr>)" using assms(2) by (simp add: sender_ok_def)
    then show ?thesis using assms(1,2) GNextLeader processBlockInsert_turn sender_ok_turn
      by (fastforce simp: gen_handle_def SetNextLeader_def Let_def split: if_splits)
  next
    case (GInsert header)
    then have "same_turn p p'" using assms(1)
      by (auto simp: gen_handle_def AddInsertBlockInfo_def startBlockInsert_def Let_def saveInsertedBlockHash_def same_turn_def emit_def
          split: if_splits option.splits bool.splits sum.splits dest!: insertAndBcBlock_turn)
    then show ?thesis using sender_ok_turn assms(2) by blast
  next
    case (GMiner result)
    then obtain pool where "p' = p\<lparr>g_powPool := pool\<rparr> \<or>
        processMinerResultVerify e w (g_curLeader p) True (p\<lparr>g_powPool := pool\<rparr>) = Some p'"
      using assms(1) by (auto simp: gen_handle_def AddMinerResult_gen_def split: prod.splits option.splits)
    then show ?thesis using mining assms(2) by (auto simp: sender_ok_def)
  next
    case (GBroadcastMiner check result)
    then show ?thesis using assms(1,2) mining
      by (auto simp: gen_handle_def AddBroadcastMinerResult_def split: option.splits bool.splits)
  next
    case (GConsensusBlock block)
    then show ?thesis using assms(1) mining by (auto simp: gen_handle_def AddConsensusBlock_def)
  next
    case (GRecovery msg)
    have a: "same_turn q (ask_full_block e now (rs_Header msg) (rs_From msg) q)" for q
      by (cases "ReUseMsg now (g_FullBlockReqCache q) (HashNoSignsAndNonce (ge_rlpHash e) (rs_Header msg))")
        (auto simp: ask_full_block_def same_turn_def emit_def Let_def split: sum.split)
    obtain pool q where "processMinerResultVerify e w (h_Leader (rs_Header msg)) False (p\<lparr>g_powPool := pool\<rparr>) = Some q"
      "p' = q \<or> p' = ask_full_block e now (rs_Header msg) (rs_From msg) q"
      using assms(1) GRecovery by (auto simp: gen_handle_def ProcessRecoveryMsg_gen_def Let_def split: option.splits if_splits)
    then show ?thesis using mining a sender_ok_turn by (metis same_turn_refl same_turn_simps(4))
  next
    case (GFullRsp rsp)
    obtain m c where "p' = p \<or> processBlockInsert e w ((emit m (p\<lparr>g_blockCache := c\<rparr>))\<lparr>g_state := GenBlockInsert\<rparr>) = Some p'"
      using assms(1) GFullRsp
      by (simp only: gen_handle_def gen_event.case ProcessFullBlockRsp_def Let_def split: option.splits prod.splits if_splits) blast+
    then show ?thesis using assms(2) sender_ok_turn [of p p'] by (auto dest!: processBlockInsert_turn)
  qed (use assms(1,2) n in \<open>auto simp: gen_handle_def Close_gen_def ReInit_def ReInitNextLeader_def ProcessFullBlockReq_def closed_sender_ok
         sender_ok_def emit_def closeConsensusReqSender_def split: option.splits if_splits\<close>)
qed

text \<open>C24: The consensus request that a generator keeps sending is always its own request for its number, for the turn
  it is in, and the node is the leader of that turn; a change of the leader or of the turn stops the sending.\<close>

theorem request_is_current:
  assumes "gen_reachable e W n p" "\<forall>w \<in> W. engine_keeps w" "g_consensusReqSender p = Some req"
  shows "bcr_From req = ge_self e \<and> g_curLeader p = ge_self e \<and> bcr_ConsensusTurn req = g_consensusTurn p \<and>
    (\<exists>h. bcr_Header req = Some h \<and> header_number h = n)"
proof -
  have "sender_ok e n p" using assms(1)
  proof (induction rule: gen_reachable.induct)
    case start
    show ?case by (simp add: sender_ok_def newProcess_gen_def)
  next
    case (step p w ev now p')
    then show ?case using assms(2) gen_handle_sender by blast
  qed
  then show ?thesis using assms(3) by (simp add: sender_ok_def)
qed

section \<open>Witnesses\<close>

lemma demo_engine: "engine_keeps demo_gview"
  by (simp add: engine_keeps_def demo_gview_def)

definition demo_leader :: "nat Process_gen" where
  "demo_leader = (newProcess_gen 41)\<lparr>g_curLeader := 9, g_role := RoleValidator, g_preBlockHash := 5, g_state := GenHeaderGen,
    g_out := [SendNewBlockInsert (Some zero_header)]\<rparr>"

definition demo_req :: HD_BlkConsensusReqMsg where
  "demo_req = \<lparr>bcr_From = 9, bcr_Header = Some (gen_header demo_genv demo_gview 0 41 zero_header), bcr_ConsensusTurn = 0, bcr_TxsCode = []\<rparr>"

definition demo_leading :: "nat Process_gen" where
  "demo_leading = demo_leader\<lparr>g_consensusReqSender := Some demo_req, g_out := [SendNewBlockInsert (Some zero_header), MakeStruck (Some 0) 5 41,
    PubHeaderVerifyReq \<lparr>lr_BlkVerifyConsensusReq = demo_req, lr_Txs = Some 0, lr_Receipts = Some 0, lr_State = Some 0\<rparr>]\<rparr>"

lemma demo_parent: "getParentBlock demo_gview demo_leader = Some zero_header"
  by (simp add: getParentBlock_def demo_gview_def demo_leader_def newProcess_gen_def)

lemma demo_generates: "processHeaderGen demo_genv demo_gview 0 demo_leader = Some (demo_leading, True)"
proof -
  let ?h = "gen_header demo_genv demo_gview 0 41 zero_header"
  have v: "gw_Prepare demo_gview h = Some h" "gw_RunPool demo_gview h = GenDone h [] 0 0 0" for h by (simp_all add: demo_gview_def)
  have n: "header_number ?h = 41" by (simp add: header_number_def)
  have e: "ge_self demo_genv = 9" "HashNoSignsAndNonce (ge_rlpHash demo_genv) h = 5" "ge_NewResendMsgCtrl demo_genv i t" for h i t
    by (simp_all add: demo_genv_def HashNoSignsAndNonce_def)
  have l: "g_number demo_leader = 41" "g_consensusTurn demo_leader = 0" "g_out demo_leader = [SendNewBlockInsert (Some zero_header)]"
    by (simp_all add: demo_leader_def newProcess_gen_def)
  show ?thesis
    by (simp add: processHeaderGen_def demo_parent v l n demo_genv_simps(4) startConsensusReqSender_def closeConsensusReqSender_def e emit_def
        demo_leading_def demo_req_def Let_def)
qed

theorem generated_fields_accepted_witness:
  "\<exists>req header. PubHeaderVerifyReq req \<in> set (g_out demo_leading) \<and> bcr_Header (lr_BlkVerifyConsensusReq req) = Some header \<and>
     verifyElection (\<lambda>v. 7) demo_view 41 header = None \<and> verifyNetTopology (\<lambda>v. 7) demo_view 41 header = None"
proof -
  have n: "g_number demo_leader = 41" by (simp add: demo_leader_def newProcess_gen_def)
  have c: "gw_check demo_gview = demo_view" by (simp add: demo_gview_def)
  have "cv_GetElection (gw_check demo_gview) (g_number demo_leader) = Some (no_elect\<lparr>er_MasterMiner := [demo_node 3]\<rparr>)"
    by (simp add: c demo_view_def)
  from generated_fields_accepted [OF demo_generates _ demo_engine this demo_parent, of "\<lambda>v. 7"] demo_genv_simps(4)
  show ?thesis
    by (auto simp: n c zero_header_def ParsePrimaryTopNodeState_def topo_const_defs checkStateByConsensus_def)
qed

lemma demo_leading_reachable:
  "gen_reachable demo_genv {demo_gview} 41 (demo_leading\<lparr>g_state := GenMinerResultVerify\<rparr>)"
proof -
  let ?p1 = "(newProcess_gen 41 :: nat Process_gen)\<lparr>g_curLeader := 9\<rparr>"
  have 1: "gen_handle demo_genv demo_gview 0 (GCurLeader 9 0) (newProcess_gen 41) = Some ?p1"
    by (simp add: gen_handle_def SetCurLeader_def newProcess_gen_def closeConsensusReqSender_def checkState_gen_def Let_def)
  have h: "gw_GetHeaderByNumber demo_gview k = Some zero_header" "Header_ptr_Hash (ge_rlpHash demo_genv) x = 5" for k x
    by (simp_all add: demo_gview_def demo_genv_def Header_ptr_Hash_def)
  have c: "canGenHeader demo_genv demo_gview demo_leader = Some (demo_leader, True)"
    by (simp add: canGenHeader_def demo_leader_def newProcess_gen_def demo_genv_simps(4) role_defs Let_def) (simp add: demo_genv_def)
  have m: "processMinerResultVerify demo_genv demo_gview (g_curLeader demo_leading) True (demo_leading\<lparr>g_state := GenMinerResultVerify\<rparr>) =
      Some (demo_leading\<lparr>g_state := GenMinerResultVerify\<rparr>)"
    by (simp add: processMinerResultVerify_def checkState_gen_def demo_leading_def demo_leader_def newProcess_gen_def demo_genv_simps(4)
        dealMinerResultVerifyCommon_def cur_block_def role_defs GetBlockData_def newBlockCache_def)
  have s: "startHeaderGen demo_genv demo_gview 0 demo_leader = Some (demo_leading\<lparr>g_state := GenMinerResultVerify\<rparr>)"
    using m by (simp add: startHeaderGen_def c demo_generates) (simp add: checkState_gen_def demo_leader_def)
  have "startBcBlock demo_genv demo_gview 0 (changeState_gen GenBlockBroadcast (?p1\<lparr>g_role := RoleValidator\<rparr>)) =
      startHeaderGen demo_genv demo_gview 0 demo_leader"
    by (simp add: startBcBlock_def changeState_gen_def newProcess_gen_def checkState_gen_def canBcBlock_def h emit_def Let_def demo_leader_def)
  then have 2: "gen_handle demo_genv demo_gview 0 (GStart RoleValidator) ?p1 = Some (demo_leading\<lparr>g_state := GenMinerResultVerify\<rparr>)"
    by (simp add: gen_handle_def StartRunning_gen_def s)
  have "gen_reachable demo_genv {demo_gview} 41 ?p1"
    by (rule gen_reachable.step [OF gen_reachable.start _ _ 1]) (simp_all add: event_for_def)
  then show ?thesis by (rule gen_reachable.step [OF _ _ _ 2]) (simp_all add: event_for_def)
qed

theorem request_is_current_witness:
  "gen_reachable demo_genv {demo_gview} 41 (demo_leading\<lparr>g_state := GenMinerResultVerify\<rparr>) \<and>
   g_consensusReqSender demo_leading = Some demo_req \<and> bcr_From demo_req = ge_self demo_genv \<and> (\<exists>h. bcr_Header demo_req = Some h \<and> header_number h = 41)"
proof -
  have s: "g_consensusReqSender (demo_leading\<lparr>g_state := GenMinerResultVerify\<rparr>) = Some demo_req" by (simp add: demo_leading_def)
  from request_is_current [OF demo_leading_reachable _ s] demo_engine demo_leading_reachable s show ?thesis by simp
qed

end
