(* ===== verification/Gen_Service.thy ===== *)
theory Gen_Service
  imports Gen_Request Number_Window
begin

text \<open>
  The block generation processes of all numbers and the service that passes messages to them,
  \<open>blockgenor/process_manage.go\<close> and \<open>blockgenor.go\<close>. A handler returns \<^const>\<open>None\<close> when the code panics. The
  process a handler works on is the entry of the table, which the code points to.
\<close>

section \<open>blockgenor/process_manage.go\<close>

record 'x ProcessManage_gen =
  gm_curNumber :: u64
  gm_processMap :: "(u64, 'x Process_gen) gomap"
  gm_fetch :: "(hash \<times> u64) list"

definition NewProcessManage_gen :: "'x ProcessManage_gen" where
  "NewProcessManage_gen = \<lparr>gm_curNumber = 0, gm_processMap = [], gm_fetch = []\<rparr>"

definition fixProcessMap_gen :: "'x ProcessManage_gen \<Rightarrow> 'x ProcessManage_gen" where
  "fixProcessMap_gen pm =
    (if gm_curNumber pm = 0 then pm
     else if gm_processMap pm = [] then pm
     else pm\<lparr>gm_processMap := drop_below (gm_curNumber pm - 1) (gm_processMap pm)\<rparr>)"

definition SetCurNumber_gen :: "'x ProcessManage_gen \<Rightarrow> u64 \<Rightarrow> 'x ProcessManage_gen" where
  "SetCurNumber_gen pm number = fixProcessMap_gen (pm\<lparr>gm_curNumber := number\<rparr>)"

definition getProcess_gen :: "'x ProcessManage_gen \<Rightarrow> u64 \<Rightarrow> 'x ProcessManage_gen \<times> 'x Process_gen" where
  "getProcess_gen pm number =
    (case map_of (gm_processMap pm) number of
       Some process \<Rightarrow> (pm, process)
     | None \<Rightarrow> (let process = newProcess_gen number
                in (pm\<lparr>gm_processMap := map_put number process (gm_processMap pm)\<rparr>, process)))"

definition GetCurrentProcess_gen :: "'x ProcessManage_gen \<Rightarrow> 'x ProcessManage_gen \<times> 'x Process_gen" where
  "GetCurrentProcess_gen pm = getProcess_gen pm (gm_curNumber pm)"

definition isLegalNumber_gen :: "'x ProcessManage_gen \<Rightarrow> u64 \<Rightarrow> number_error option" where
  "isLegalNumber_gen pm number =
    (let minNumber = (if gm_curNumber pm < 1 then 0 else gm_curNumber pm - 1)
     in if number < minNumber then Some (ErrNumberLess number (gm_curNumber pm))
        else if number > gm_curNumber pm + 2 then Some (ErrNumberTooBig number (gm_curNumber pm))
        else None)"

definition GetProcess_gen :: "'x ProcessManage_gen \<Rightarrow> u64 \<Rightarrow> number_error + 'x ProcessManage_gen \<times> 'x Process_gen" where
  "GetProcess_gen pm number =
    (case isLegalNumber_gen pm number of
       Some err \<Rightarrow> Inl err
     | None \<Rightarrow> Inr (getProcess_gen pm number))"

text \<open>The second process is \<^const>\<open>None\<close> for the nil pointer that is returned for number 0. The number before the
  legal one is not checked.\<close>

definition GetProcessAndPreProcess :: "'x ProcessManage_gen \<Rightarrow> u64 \<Rightarrow>
    number_error + 'x ProcessManage_gen \<times> 'x Process_gen \<times> 'x Process_gen option" where
  "GetProcessAndPreProcess pm number =
    (case isLegalNumber_gen pm number of
       Some err \<Rightarrow> Inl err
     | None \<Rightarrow>
         (case getProcess_gen pm number of (pm, process) \<Rightarrow>
            if number = 0 then Inr (pm, process, None)
            else (case getProcess_gen pm (number - 1) of (pm, preProcess) \<Rightarrow> Inr (pm, process, Some preProcess))))"

section \<open>blockgenor/blockgenor.go\<close>

text \<open>A call of a method of the process of a number, which is in the table.\<close>

definition call_gen ::
  "('x Process_gen \<Rightarrow> 'x Process_gen option) \<Rightarrow> u64 \<Rightarrow> 'x ProcessManage_gen \<Rightarrow> 'x ProcessManage_gen option" where
  "call_gen f number pm =
    (case map_of (gm_processMap pm) number of
       None \<Rightarrow> Some pm
     | Some p \<Rightarrow> map_option (\<lambda>p'. pm\<lparr>gm_processMap := map_put number p' (gm_processMap pm)\<rparr>) (f p))"

definition roleUpdatedMsgHandle ::
  "'x gen_env \<Rightarrow> 'x gen_view \<Rightarrow> int \<Rightarrow> 'x ProcessManage_gen \<Rightarrow> RoleUpdatedMsg option \<Rightarrow> 'x ProcessManage_gen option" where
  "roleUpdatedMsgHandle e w now pm msg =
    (case msg of
       None \<Rightarrow> None
     | Some roleMsg \<Rightarrow>
         (let pm = SetCurNumber_gen pm (ru_BlockNum roleMsg + 1)
          in if ru_Role roleMsg = RoleValidator \<or> ru_Role roleMsg = RoleBroadcast
             then call_gen (StartRunning_gen e w now (ru_Role roleMsg)) (gm_curNumber pm) (fst (GetCurrentProcess_gen pm))
             else Some pm))"

text \<open>What is done with the process of the number and the one before it, where there is one.\<close>

definition leader_change ::
  "'x gen_env \<Rightarrow> 'x gen_view \<Rightarrow> int \<Rightarrow> LeaderChangeNotify \<Rightarrow> bool \<Rightarrow> 'x ProcessManage_gen \<Rightarrow> 'x ProcessManage_gen option" where
  "leader_change e w now m pre pm =
    (let number = lcn_Number m
     in if lcn_ConsensusState m then
          Option.bind (call_gen (SetCurLeader e w now (lcn_Leader m) (lcn_ConsensusTurn m)) number pm) (\<lambda>pm.
          Option.bind (call_gen (SetNextLeader e w (lcn_NextLeader m)) number pm) (\<lambda>pm.
          Option.bind (if pre then call_gen (SetNextLeader e w (lcn_Leader m)) (number - 1) pm else Some pm) (\<lambda>pm.
            (case GetProcess_gen pm (number + 1) of
               Inl err \<Rightarrow> Some pm
             | Inr (pm, _) \<Rightarrow> call_gen (SetCurLeader e w now (lcn_NextLeader m) 0) (number + 1) pm))))
        else
          Option.bind (call_gen (\<lambda>p. Some (ReInit p)) number pm) (\<lambda>pm.
            if pre then call_gen (\<lambda>p. Some (ReInitNextLeader p)) (number - 1) pm else Some pm))"

definition leaderChangeNotifyHandle ::
  "'x gen_env \<Rightarrow> 'x gen_view \<Rightarrow> int \<Rightarrow> 'x ProcessManage_gen \<Rightarrow> LeaderChangeNotify option \<Rightarrow> 'x ProcessManage_gen option" where
  "leaderChangeNotifyHandle e w now pm msg =
    (case msg of
       None \<Rightarrow> None
     | Some leaderMsg \<Rightarrow>
         if lcn_Number leaderMsg = 1 then
           (case GetProcess_gen pm 1 of
              Inl err \<Rightarrow> Some pm
            | Inr (pm, process) \<Rightarrow> leader_change e w now leaderMsg False pm)
         else
           (case GetProcessAndPreProcess pm (lcn_Number leaderMsg) of
              Inl err \<Rightarrow> Some pm
            | Inr (pm, process, preProcess) \<Rightarrow> leader_change e w now leaderMsg (preProcess \<noteq> None) pm))"

text \<open>A message for the process of its number; the message is dropped when the number is not legal.\<close>

definition to_process ::
  "('x Process_gen \<Rightarrow> 'x Process_gen option) \<Rightarrow> u64 \<Rightarrow> 'x ProcessManage_gen \<Rightarrow> 'x ProcessManage_gen option" where
  "to_process f number pm =
    (case GetProcess_gen pm number of
       Inl err \<Rightarrow> Some pm
     | Inr (pm, _) \<Rightarrow> call_gen f number pm)"

text \<open>Messages are \<^const>\<open>None\<close> where a pointer that the handler follows first is nil: the message, its header, its
  difficulty or its block.\<close>

definition minerResultHandle ::
  "'x gen_env \<Rightarrow> 'x gen_view \<Rightarrow> 'x ProcessManage_gen \<Rightarrow> HD_MiningRspMsg option \<Rightarrow> 'x ProcessManage_gen option" where
  "minerResultHandle e w pm msg =
    (case msg of
       None \<Rightarrow> None
     | Some minerResult \<Rightarrow> to_process (AddMinerResult_gen e w minerResult) (mr_Number minerResult) pm)"

definition broadcastMinerResultHandle ::
  "'x gen_env \<Rightarrow> 'x gen_view \<Rightarrow> bool \<Rightarrow> 'x ProcessManage_gen \<Rightarrow> 'x BlockData option \<Rightarrow> 'x ProcessManage_gen option" where
  "broadcastMinerResultHandle e w check pm msg =
    (case msg of
       None \<Rightarrow> None
     | Some result \<Rightarrow> to_process (AddBroadcastMinerResult e w check result) (header_number (bk_Header result)) pm)"

definition consensusBlockMsgHandle ::
  "'x gen_env \<Rightarrow> 'x gen_view \<Rightarrow> 'x ProcessManage_gen \<Rightarrow> 'x BlockLocalVerifyOK option \<Rightarrow> 'x ProcessManage_gen option" where
  "consensusBlockMsgHandle e w pm msg =
    (case msg of
       None \<Rightarrow> None
     | Some data \<Rightarrow> to_process (AddConsensusBlock e w data) (header_number (lo_Header data)) pm)"

definition blockInsertMsgHandle ::
  "'x gen_env \<Rightarrow> 'x gen_view \<Rightarrow> 'x ProcessManage_gen \<Rightarrow> Header option \<Rightarrow> 'x ProcessManage_gen option" where
  "blockInsertMsgHandle e w pm msg =
    (case msg of
       None \<Rightarrow> None
     | Some header \<Rightarrow>
         if header_number header > gm_curNumber pm
         then Some (pm\<lparr>gm_fetch := gm_fetch pm @ [(Header_Hash (ge_rlpHash e) header, header_number header)]\<rparr>)
         else to_process (AddInsertBlockInfo e w header) (header_number header) pm)"

definition handleRecoveryMsg_gen ::
  "'x gen_env \<Rightarrow> 'x gen_view \<Rightarrow> int \<Rightarrow> 'x ProcessManage_gen \<Rightarrow> RecoveryStateMsg option \<Rightarrow> 'x ProcessManage_gen option" where
  "handleRecoveryMsg_gen e w now pm msg =
    (case msg of
       None \<Rightarrow> Some pm
     | Some m \<Rightarrow>
         if rs_Type m \<noteq> RecoveryTypeFullHeader then Some pm
         else to_process (ProcessRecoveryMsg_gen e w now m) (header_number (rs_Header m)) pm)"

definition handleNewBlockReqMsg ::
  "'x gen_env \<Rightarrow> 'x ProcessManage_gen \<Rightarrow> HD_FullBlockReqMsg option \<Rightarrow> 'x ProcessManage_gen option" where
  "handleNewBlockReqMsg e pm msg =
    (case msg of
       None \<Rightarrow> Some pm
     | Some req \<Rightarrow> to_process (\<lambda>p. Some (ProcessFullBlockReq e req p)) (fq_Number req) pm)"

definition handleNewBlockRspMsg ::
  "'x gen_env \<Rightarrow> 'x gen_view \<Rightarrow> 'x ProcessManage_gen \<Rightarrow> 'x HD_FullBlockRspMsg option \<Rightarrow> 'x ProcessManage_gen option" where
  "handleNewBlockRspMsg e w pm msg =
    (case msg of
       None \<Rightarrow> Some pm
     | Some rsp \<Rightarrow> to_process (ProcessFullBlockRsp e w rsp) (header_number (fr_Header rsp)) pm)"

datatype 'x gen_msg =
    RoleUpdated "RoleUpdatedMsg option"
  | LeaderChange "LeaderChangeNotify option"
  | MinerResult "HD_MiningRspMsg option"
  | BroadcastMinerResult bool "'x BlockData option"
  | ConsensusBlock "'x BlockLocalVerifyOK option"
  | BlockInsertMsg "Header option"
  | RecoveryState "RecoveryStateMsg option"
  | FullBlockReq "HD_FullBlockReqMsg option"
  | FullBlockRsp "'x HD_FullBlockRspMsg option"

text \<open>The cases of \<open>update\<close>; every message is handled in a goroutine of its own, in any order.\<close>

definition genor_update ::
  "'x gen_env \<Rightarrow> 'x gen_view \<Rightarrow> int \<Rightarrow> 'x ProcessManage_gen \<Rightarrow> 'x gen_msg \<Rightarrow> 'x ProcessManage_gen option" where
  "genor_update e w now pm msg =
    (case msg of
       RoleUpdated m \<Rightarrow> roleUpdatedMsgHandle e w now pm m
     | LeaderChange m \<Rightarrow> leaderChangeNotifyHandle e w now pm m
     | MinerResult m \<Rightarrow> minerResultHandle e w pm m
     | BroadcastMinerResult check m \<Rightarrow> broadcastMinerResultHandle e w check pm m
     | ConsensusBlock m \<Rightarrow> consensusBlockMsgHandle e w pm m
     | BlockInsertMsg m \<Rightarrow> blockInsertMsgHandle e w pm m
     | RecoveryState m \<Rightarrow> handleRecoveryMsg_gen e w now pm m
     | FullBlockReq m \<Rightarrow> handleNewBlockReqMsg e pm m
     | FullBlockRsp m \<Rightarrow> handleNewBlockRspMsg e w pm m)"

section \<open>The table of processes is a worker table\<close>

definition gen_low :: "u64 \<Rightarrow> u64" where
  "gen_low n = (if n = 0 then 0 else n - 1)"

lemma unat_gen_low: "unat (gen_low n) = unat n - 1"
proof (cases "n = 0")
  case False
  then have "1 \<le> unat n" by (simp add: Suc_leI unat_gt_0)
  then show ?thesis using False by (simp add: gen_low_def unat_sub_if')
qed (simp add: gen_low_def)

interpretation gtab: worker_table gm_curNumber gm_processMap newProcess_gen gen_low getProcess_gen SetCurNumber_gen
  "\<lambda>pm n. isLegalNumber_gen pm n = None"
proof unfold_locales
  show "isLegalNumber_gen s n = None \<longleftrightarrow> gen_low (gm_curNumber s) \<le> n \<and> n \<le> gm_curNumber s + 2" for s :: "'x ProcessManage_gen" and n
    by (auto simp: isLegalNumber_gen_def gen_low_def Let_def not_less word_less_1)
  show "gen_low n \<le> n" "m \<le> n \<Longrightarrow> gen_low m \<le> gen_low n" for m n by (simp_all add: word_le_nat_alt unat_gen_low)
qed (auto simp: getProcess_gen_def SetCurNumber_gen_def fixProcessMap_gen_def gen_low_def map_has_def drop_below_filter Let_def
      split: option.splits)

section \<open>Steps of the service\<close>

text \<open>When \<open>up\<close> is set, the chain only grows: no role message is for a number below the current one.\<close>

inductive genor_reachable :: "'x gen_env \<Rightarrow> 'x gen_view set \<Rightarrow> bool \<Rightarrow> 'x ProcessManage_gen \<Rightarrow> bool" for e W up where
  start: "genor_reachable e W up NewProcessManage_gen"
| step: "genor_reachable e W up pm \<Longrightarrow> w \<in> W \<Longrightarrow>
    (\<forall>m. msg = RoleUpdated (Some m) \<longrightarrow> up \<longrightarrow> gm_curNumber pm \<le> ru_BlockNum m + 1) \<Longrightarrow>
    genor_update e w now pm msg = Some pm' \<Longrightarrow> genor_reachable e W up pm'"

definition near :: "u64 \<Rightarrow> u64 \<Rightarrow> bool" where
  "near c n \<longleftrightarrow> unat c \<le> unat n + 2 \<and> unat n \<le> unat c + 2"

definition genor_ok :: "'x gen_env \<Rightarrow> 'x gen_view set \<Rightarrow> bool \<Rightarrow> 'x ProcessManage_gen \<Rightarrow> bool" where
  "genor_ok e W up pm \<longleftrightarrow> gomap_ok (gm_processMap pm) \<and>
    (\<forall>n p. map_of (gm_processMap pm) n = Some p \<longrightarrow> gen_reachable e W n p \<and> (up \<longrightarrow> near (gm_curNumber pm) n))"

lemma genor_ok_new: "genor_ok e W up NewProcessManage_gen"
  by (simp add: genor_ok_def NewProcessManage_gen_def)

lemma getProcess_gen_ok:
  assumes "genor_ok e W up pm" "near (gm_curNumber pm) n"
  shows "genor_ok e W up (fst (getProcess_gen pm n)) \<and> gm_curNumber (fst (getProcess_gen pm n)) = gm_curNumber pm"
  using assms gen_reachable.start [of e W n]
  by (auto simp: genor_ok_def getProcess_gen_def Let_def split: option.splits)

lemma legal_near:
  assumes "isLegalNumber_gen pm n = None"
  shows "near (gm_curNumber pm) n" "n \<noteq> 0 \<Longrightarrow> near (gm_curNumber pm) (n - 1)"
proof -
  have n: "unat (gm_curNumber pm) - 1 \<le> unat n" "unat n \<le> unat (gm_curNumber pm) + 2"
    using assms gtab.legal_law [of pm n] gtab.legal_unat [of pm n] by (auto simp: word_le_nat_alt unat_gen_low)
  then show "near (gm_curNumber pm) n" by (auto simp: near_def)
  assume "n \<noteq> 0"
  then have "unat (n - 1) = unat n - 1" "1 \<le> unat n" by (simp_all add: unat_minus_one Suc_leI unat_gt_0)
  then show "near (gm_curNumber pm) (n - 1)" using n by (auto simp: near_def)
qed

lemma near_refl [simp]: "near n n" by (simp add: near_def)

lemma call_gen_ok:
  assumes "genor_ok e W up pm" "w \<in> W" "event_for n ev" "call_gen (gen_handle e w now ev) n pm = Some pm'"
  shows "genor_ok e W up pm' \<and> gm_curNumber pm' = gm_curNumber pm"
proof (cases "map_of (gm_processMap pm) n")
  case (Some p)
  then obtain p' where p': "gen_handle e w now ev p = Some p'" "pm' = pm\<lparr>gm_processMap := map_put n p' (gm_processMap pm)\<rparr>"
    using assms(4) by (auto simp: call_gen_def)
  have "gen_reachable e W n p'"
    using gen_reachable.step [OF _ assms(2,3) p'(1)] assms(1) Some by (auto simp: genor_ok_def)
  then show ?thesis using assms(1) Some by (auto simp: genor_ok_def p'(2))
qed (use assms in \<open>simp add: call_gen_def\<close>)

lemma gen_methods:
  "StartRunning_gen e w now r = gen_handle e w now (GStart r)" "SetCurLeader e w now a t = gen_handle e w now (GCurLeader a t)"
  "SetNextLeader e w a = gen_handle e w now (GNextLeader a)" "(\<lambda>p. Some (ReInit p)) = gen_handle e w now GReInit"
  "(\<lambda>p. Some (ReInitNextLeader p)) = gen_handle e w now GReInitNext" "AddMinerResult_gen e w r' = gen_handle e w now (GMiner r')"
  "AddBroadcastMinerResult e w c bk = gen_handle e w now (GBroadcastMiner c bk)" "AddConsensusBlock e w lo = gen_handle e w now (GConsensusBlock lo)"
  "AddInsertBlockInfo e w h = gen_handle e w now (GInsert h)" "ProcessRecoveryMsg_gen e w now m = gen_handle e w now (GRecovery m)"
  "(\<lambda>p. Some (ProcessFullBlockReq e q p)) = gen_handle e w now (GFullReq q)" "ProcessFullBlockRsp e w rsp = gen_handle e w now (GFullRsp rsp)"
  by (simp_all add: gen_handle_def fun_eq_iff)

lemma to_process_ok:
  assumes "genor_ok e W up pm" "w \<in> W" "event_for n ev" "to_process (gen_handle e w now ev) n pm = Some pm'"
  shows "genor_ok e W up pm' \<and> gm_curNumber pm' = gm_curNumber pm"
proof (cases "isLegalNumber_gen pm n")
  case None
  then have "call_gen (gen_handle e w now ev) n (fst (getProcess_gen pm n)) = Some pm'"
    using assms(4) by (auto simp: to_process_def GetProcess_gen_def split: prod.splits)
  then show ?thesis using call_gen_ok [OF _ assms(2,3)] getProcess_gen_ok [OF assms(1) legal_near(1) [OF None]] by fastforce
qed (use assms in \<open>simp add: to_process_def GetProcess_gen_def\<close>)

lemma SetCurNumber_gen_ok:
  assumes "genor_ok e W up pm" "up \<longrightarrow> gm_curNumber pm \<le> n"
  shows "genor_ok e W up (SetCurNumber_gen pm n)"
proof -
  have c: "gm_curNumber (SetCurNumber_gen pm n) = n" "gm_processMap (SetCurNumber_gen pm n) = drop_below (gen_low n) (gm_processMap pm)"
    using gtab.move_law by blast+
  have "near n k" if "near (gm_curNumber pm) k" "gm_curNumber pm \<le> n" "\<not> k < gen_low n" for k
    using that by (auto simp: near_def word_le_nat_alt word_less_nat_alt unat_gen_low)
  then show ?thesis using assms by (auto simp: genor_ok_def c split: if_splits)
qed

lemma leader_change_ok:
  assumes "genor_ok e W up pm" "w \<in> W" "leader_change e w now m pre pm = Some pm'"
  shows "genor_ok e W up pm' \<and> gm_curNumber pm' = gm_curNumber pm"
proof -
  note call = call_gen_ok [OF _ assms(2)]
  note lc = assms(3) [unfolded leader_change_def Let_def gen_methods(2) gen_methods(3) [of e w _ now] gen_methods(4) [of e w now]
      gen_methods(5) [of e w now]]
  show ?thesis
  proof (cases "lcn_ConsensusState m")
    case True
    obtain p1 p2 p3 where p1: "call_gen (gen_handle e w now (GCurLeader (lcn_Leader m) (lcn_ConsensusTurn m))) (lcn_Number m) pm = Some p1"
      and p2: "call_gen (gen_handle e w now (GNextLeader (lcn_NextLeader m))) (lcn_Number m) p1 = Some p2"
      and p3: "(if pre then call_gen (gen_handle e w now (GNextLeader (lcn_Leader m))) (lcn_Number m - 1) p2 else Some p2) = Some p3"
      and p4: "to_process (gen_handle e w now (GCurLeader (lcn_NextLeader m) 0)) (lcn_Number m + 1) p3 = Some pm'"
      using lc True by (auto simp: bind_eq_Some_conv to_process_def)
    have 1: "genor_ok e W up p1 \<and> gm_curNumber p1 = gm_curNumber pm" by (rule call [OF assms(1) _ p1]) (simp add: event_for_def)
    then have 2: "genor_ok e W up p2 \<and> gm_curNumber p2 = gm_curNumber pm" using call [OF _ _ p2, of up] by (simp add: event_for_def)
    then have 3: "genor_ok e W up p3 \<and> gm_curNumber p3 = gm_curNumber pm"
      using p3 call [of e up p2 "lcn_Number m - 1" "GNextLeader (lcn_Leader m)" now p3] by (auto simp: event_for_def split: if_splits)
    then show ?thesis using to_process_ok [OF _ assms(2) _ p4, of up] by (simp add: event_for_def)
  next
    case False
    obtain p1 where p1: "call_gen (gen_handle e w now GReInit) (lcn_Number m) pm = Some p1"
      "(if pre then call_gen (gen_handle e w now GReInitNext) (lcn_Number m - 1) p1 else Some p1) = Some pm'"
      using lc False by (auto simp: bind_eq_Some_conv)
    then show ?thesis using call [OF assms(1) _ p1(1)] call [of e up p1 "lcn_Number m - 1" GReInitNext now pm']
      by (auto simp: event_for_def split: if_splits)
  qed
qed

lemma leaderChangeNotifyHandle_ok:
  assumes "genor_ok e W up pm" "w \<in> W" "leaderChangeNotifyHandle e w now pm msg = Some pm'"
  shows "genor_ok e W up pm'"
proof -
  obtain m where m: "msg = Some m" using assms(3) by (auto simp: leaderChangeNotifyHandle_def split: option.splits)
  let ?n = "lcn_Number m"
  show ?thesis
  proof (cases "isLegalNumber_gen pm ?n")
    case None
    note near = legal_near [OF None]
    have 1: "genor_ok e W up (fst (getProcess_gen pm ?n)) \<and> gm_curNumber (fst (getProcess_gen pm ?n)) = gm_curNumber pm"
      by (rule getProcess_gen_ok [OF assms(1) near(1)])
    let ?pm2 = "fst (getProcess_gen (fst (getProcess_gen pm ?n)) (?n - 1))"
    have 2: "genor_ok e W up ?pm2" if "?n \<noteq> 0"
      using getProcess_gen_ok [of e W up "fst (getProcess_gen pm ?n)" "?n - 1"] 1 near(2) [OF that] by simp
    have "(\<exists>pre. leader_change e w now m pre (fst (getProcess_gen pm ?n)) = Some pm') \<or>
      ?n \<noteq> 0 \<and> (\<exists>pre. leader_change e w now m pre ?pm2 = Some pm')"
      using assms(3) m None
      by (auto simp: leaderChangeNotifyHandle_def GetProcess_gen_def GetProcessAndPreProcess_def split: prod.splits if_splits)
    then show ?thesis using leader_change_ok [OF _ assms(2)] 1 2 by blast
  qed (use assms m in \<open>auto simp: leaderChangeNotifyHandle_def GetProcess_gen_def GetProcessAndPreProcess_def split: if_splits\<close>)
qed

lemma genor_update_ok:
  assumes "genor_ok e W up pm" "w \<in> W" "genor_update e w now pm msg = Some pm'"
    and "\<forall>m. msg = RoleUpdated (Some m) \<longrightarrow> up \<longrightarrow> gm_curNumber pm \<le> ru_BlockNum m + 1"
  shows "genor_ok e W up pm'"
proof -
  have proc: "genor_ok e W up pm'" if "to_process (gen_handle e w now ev) n pm = Some pm'" "event_for n ev" for n ev
    using to_process_ok [OF assms(1,2) that(2,1)] by simp
  show ?thesis
  proof (cases msg)
    case (RoleUpdated m)
    then obtain rm where m: "m = Some rm" using assms(3) by (auto simp: genor_update_def roleUpdatedMsgHandle_def split: option.splits)
    let ?pm = "SetCurNumber_gen pm (ru_BlockNum rm + 1)"
    have ok: "genor_ok e W up ?pm" by (rule SetCurNumber_gen_ok [OF assms(1)]) (use assms(4) RoleUpdated m in simp)
    have cur: "genor_ok e W up (fst (GetCurrentProcess_gen ?pm))"
      using getProcess_gen_ok [OF ok, of "gm_curNumber ?pm"] by (simp add: GetCurrentProcess_gen_def)
    have "pm' = ?pm \<or> call_gen (gen_handle e w now (GStart (ru_Role rm))) (gm_curNumber ?pm) (fst (GetCurrentProcess_gen ?pm)) = Some pm'"
      using assms(3) by (auto simp: RoleUpdated m genor_update_def roleUpdatedMsgHandle_def gen_methods(1) Let_def split: if_splits)
    then show ?thesis using ok call_gen_ok [OF cur assms(2), of _ "GStart (ru_Role rm)" now pm'] by (auto simp: event_for_def)
  next
    case (LeaderChange m)
    then show ?thesis using assms(3) leaderChangeNotifyHandle_ok [OF assms(1,2)] by (simp add: genor_update_def)
  next
    case (MinerResult m)
    then show ?thesis using assms(3) proc
      by (auto simp: genor_update_def minerResultHandle_def gen_methods(6) [of e w _ now] event_for_def split: option.splits)
  next
    case (BroadcastMinerResult c m)
    then show ?thesis using assms(3) proc
      by (auto simp: genor_update_def broadcastMinerResultHandle_def gen_methods(7) [of e w _ _ now] event_for_def split: option.splits)
  next
    case (ConsensusBlock m)
    then show ?thesis using assms(3) proc
      by (auto simp: genor_update_def consensusBlockMsgHandle_def gen_methods(8) [of e w _ now] event_for_def split: option.splits)
  next
    case (BlockInsertMsg m)
    then show ?thesis using assms(1,3) proc
      by (auto simp: genor_update_def blockInsertMsgHandle_def gen_methods(9) [of e w _ now] event_for_def genor_ok_def split: option.splits if_splits)
  next
    case (RecoveryState m)
    then show ?thesis using assms(1,3) proc
      by (auto simp: genor_update_def handleRecoveryMsg_gen_def gen_methods(10) event_for_def split: option.splits if_splits)
  next
    case (FullBlockReq m)
    then show ?thesis using assms(1,3) proc
      by (auto simp: genor_update_def handleNewBlockReqMsg_def gen_methods(11) [of e _ w now] event_for_def split: option.splits)
  next
    case (FullBlockRsp m)
    then show ?thesis using assms(1,3) proc
      by (auto simp: genor_update_def handleNewBlockRspMsg_def gen_methods(12) [of e w _ now] event_for_def split: option.splits)
  qed
qed

lemma genor_reachable_ok: "genor_reachable e W up pm \<Longrightarrow> genor_ok e W up pm"
  by (induction rule: genor_reachable.induct) (auto intro: genor_ok_new genor_update_ok)

section \<open>Properties\<close>

text \<open>C22: The block generation service is made of independent processes: however its messages interleave, every process
  in its table is in a state that a process of its number reaches by itself, and while the chain grows the table
  has at most five processes, none further than two numbers away from the current one.\<close>

theorem genor_refines_processes:
  assumes "genor_reachable e W up pm" "range_order (ge_cacheRange e)"
  shows "gomap_ok (gm_processMap pm) \<and>
    (\<forall>n p. map_of (gm_processMap pm) n = Some p \<longrightarrow> gen_reachable e W n p \<and> g_number p = n) \<and>
    (up \<longrightarrow> length (gm_processMap pm) \<le> 5)"
proof -
  have ok: "genor_ok e W up pm" by (rule genor_reachable_ok [OF assms(1)])
  have n: "g_number p = n" if "gen_reachable e W n p" for n p
    using gen_reachable_ok [OF that assms(2)] by (simp add: gen_ok_def)
  have "length (gm_processMap pm) \<le> 5" if up
  proof -
    let ?c = "unat (gm_curNumber pm)" and ?K = "fst ` set (gm_processMap pm)"
    have g: "gomap_ok (gm_processMap pm)" using ok by (simp add: genor_ok_def)
    have "unat k \<in> {?c - 2 .. ?c + 2}" if k: "k \<in> ?K" for k
    proof -
      obtain p where "map_of (gm_processMap pm) k = Some p" using k g by (force simp: gomap_ok_map_of)
      then have "near (gm_curNumber pm) k" using ok \<open>up\<close> by (simp add: genor_ok_def)
      then show ?thesis by (auto simp: near_def)
    qed
    then have "unat ` ?K \<subseteq> {?c - 2 .. ?c + 2}" by blast
    then have "card (unat ` ?K) \<le> card {?c - 2 .. ?c + 2}" by (intro card_mono) simp_all
    moreover have "card (unat ` ?K) = card ?K" by (rule card_image) (auto intro!: inj_onI simp: word_unat_eq_iff)
    ultimately show ?thesis using gomap_length [OF g] by simp
  qed
  then show ?thesis using ok n by (auto simp: genor_ok_def)
qed


section \<open>Witnesses\<close>

text \<open>A node that follows the chain: the number becomes 41, the leader of 41 is announced, the block of another node is
  fetched and then announced.\<close>

definition demo_gm :: "nat Process_gen \<Rightarrow> nat ProcessManage_gen" where
  "demo_gm p = \<lparr>gm_curNumber = 41, gm_processMap = [(41, p), (40, (newProcess_gen 40)\<lparr>g_nextLeader := 2\<rparr>), (42, newProcess_gen 42)], gm_fetch = []\<rparr>"

lemma demo_genor_reachable: "genor_reachable demo_genv {demo_gview} True (demo_gm demo_gend)"
proof -
  let ?upd = "genor_update demo_genv demo_gview 0"
  let ?pm1 = "\<lparr>gm_curNumber = 41, gm_processMap = [], gm_fetch = []\<rparr> :: nat ProcessManage_gen"
  let ?lm = "\<lparr>lcn_ConsensusState = True, lcn_Leader = 2, lcn_NextLeader = 0, lcn_Number = 41, lcn_ConsensusTurn = 0, lcn_ReelectTurn = 0,
    lcn_TurnBeginTime = 0, lcn_TurnEndTime = 0\<rparr> :: LeaderChangeNotify"
  have 1: "?upd NewProcessManage_gen (RoleUpdated (Some \<lparr>ru_Role = RoleMiner, ru_BlockNum = 40, ru_BlockHash = 7, ru_Leader = 2\<rparr>)) = Some ?pm1"
    by (simp add: genor_update_def roleUpdatedMsgHandle_def SetCurNumber_gen_def fixProcessMap_gen_def NewProcessManage_gen_def role_defs Let_def)
  have legal: "isLegalNumber_gen (demo_gm p) 41 = None" "isLegalNumber_gen (demo_gm p) 42 = None" "isLegalNumber_gen ?pm1 41 = None" for p
    by (simp_all add: isLegalNumber_gen_def demo_gm_def)
  have 2: "?upd ?pm1 (LeaderChange (Some ?lm)) = Some (demo_gm ((newProcess_gen 41)\<lparr>g_curLeader := 2\<rparr>))"
    using legal
    by (simp add: genor_update_def leaderChangeNotifyHandle_def GetProcessAndPreProcess_def getProcess_gen_def leader_change_def call_gen_def
        SetCurLeader_def SetNextLeader_def newProcess_gen_def closeConsensusReqSender_def checkState_gen_def GetProcess_gen_def
        isLegalNumber_gen_def demo_gm_def Let_def)
  have n: "header_number demo_gheader = 41" by (simp add: demo_gheader_def header_number_def)
  have call: "to_process f 41 (demo_gm p) = map_option demo_gm (f p)" for f p
    using legal by (cases "f p") (simp_all add: to_process_def GetProcess_gen_def getProcess_gen_def call_gen_def demo_gm_def)
  have 3: "?upd (demo_gm ((newProcess_gen 41)\<lparr>g_curLeader := 2\<rparr>)) (FullBlockRsp (Some \<lparr>fr_Header = demo_gheader, fr_Txs = Some 7, fr_From = 0\<rparr>)) =
      Some (demo_gm demo_gproc)"
    by (simp add: genor_update_def handleNewBlockRspMsg_def n call demo_fetch)
  have 4: "?upd (demo_gm demo_gproc) (BlockInsertMsg (Some demo_gheader)) = Some (demo_gm demo_gend)"
    by (simp add: genor_update_def blockInsertMsgHandle_def n call demo_insert) (simp add: demo_gm_def)
  have "genor_reachable demo_genv {demo_gview} True ?pm1"
    by (rule genor_reachable.step [OF genor_reachable.start _ _ 1]) (simp_all add: NewProcessManage_gen_def)
  then have "genor_reachable demo_genv {demo_gview} True (demo_gm ((newProcess_gen 41)\<lparr>g_curLeader := 2\<rparr>))"
    by (rule genor_reachable.step [OF _ _ _ 2]) simp_all
  then have "genor_reachable demo_genv {demo_gview} True (demo_gm demo_gproc)" by (rule genor_reachable.step [OF _ _ _ 3]) simp_all
  then show ?thesis by (rule genor_reachable.step [OF _ _ _ 4]) simp_all
qed

theorem genor_refines_processes_witness:
  "gen_reachable demo_genv {demo_gview} 41 demo_gend \<and> length (gm_processMap (demo_gm demo_gend)) \<le> 5"
proof -
  have m: "map_of (gm_processMap (demo_gm demo_gend)) 41 = Some demo_gend" by (simp add: demo_gm_def)
  show ?thesis using genor_refines_processes [OF demo_genor_reachable demo_genv_simps(1)] m by blast
qed


end
