(* ===== verification/Spec2Isabelle.thy ===== *)
theory Spec2Isabelle
  imports Rlp_Encode Vote_Pool Reelect_Progress Ctrl_Manager Blk_Service Gen_Service
begin

text \<open>
  A verification library for the consensus code of the Matrix chain (\<open>go-matrix\<close>).

  \<^bold>\<open>The program.\<close> Blocks of this chain are proposed by a leader, verified and signed by the validators of
  the current topology, mined, and accepted once enough validators signed: all of them if there are at most
  seven, two thirds of them otherwise (a threshold on their stock has the ratio 0 then). Every twentieth block is a broadcast block of the broadcast node, every sixtieth block
  begins a period with newly elected miners and validators. The parts work together as follows.
  The leader election (\<open>verifier/\<close>) runs one controller per block number; it decides which validator leads
  which turn and tells the others (\<open>LeaderChangeNotify\<close>). The block verification
  (\<open>blkconsensus/blkverify/\<close>) runs one process per number; it takes the leader's request, checks and executes
  it, votes, collects the votes of the others (\<open>blkconsensus/votepool/\<close>), asks the DPOS engine
  (\<open>consensus/mtxdpos/\<close>) whether they are enough and then asks the miners. The block generation
  (\<open>blockgenor/\<close>) runs one process per number as well; it makes the leader's request, collects the mining results,
  fetches blocks it lacks and writes the finished block to the chain. The topology of the validators is
  computed from the headers (\<open>mc/\<close>, \<open>core/topology_store.go\<close>); the re-election service (\<open>reelection/\<close>)
  stores the elected lists and turns them into header fields.

  \<^bold>\<open>Theories, in the order in which they build on each other.\<close>
  \<^item> \<open>Matrix_Prelude\<close>: machine types, Go maps as association lists, the unspecified order of \<open>range\<close>, signed
    64-bit arithmetic.
  \<^item> \<open>Chain_Schedule\<close> (\<open>common/broadcast.go\<close>, \<open>role_type.go\<close>, \<open>matrix.go\<close>, \<open>reuse_msg.go\<close>): broadcast and
    re-election numbers, role masks, positions, message throttling. The schedules are two interpretations of one
    locale.
  \<^item> \<open>Sign_Validate\<close> (\<open>crypto/signature_cgo.go\<close>): signatures that carry a vote.
  \<^item> \<open>Block_Types\<close> (\<open>common/types.go\<close>, \<open>core/types/block.go\<close>): headers and their hashes.
  \<^item> \<open>Rlp_Bytes\<close>, \<open>Rlp_Encode\<close> (\<open>rlp/encode.go\<close>, \<open>typecache.go\<close>, \<open>readSize\<close> of \<open>raw.go\<close>): the encoder with its buffer
    of data and list heads, which yields the recursive definition of RLP; it has no writer for the messages of the
    re-election, which \<open>RlpHash\<close> of \<open>Block_Types\<close> reflects.
  \<^item> \<open>Topology\<close> (\<open>mc/funcdef.go\<close>, \<open>core/topology_store.go\<close>): the graph of the network, its transfer by a
    header, and its store; the transfer refines an abstract assignment of positions.
  \<^item> \<open>Dpos\<close> (\<open>consensus/mtxdpos/mtxdpos.go\<close>): the acceptance of signatures, with the float64 threshold computed
    exactly. Accepted sets of two conflicting blocks share a signer of both.
  \<^item> \<open>Vote_Pool\<close> (\<open>blkconsensus/votepool\<close>): votes by hash and by signer, limits and time-outs; which votes are
    taken, and when a stale entry of the time index removes a fresh one.
  \<^item> \<open>Turn_Times\<close>, \<open>Leader_Cdc\<close> (\<open>verifier/trunTimes.go\<close>, \<open>leaderCal.go\<close>, \<open>cdc.go\<close>): the time of the turns
    and who leads them.
  \<^item> \<open>Reelect_Msgs\<close>, \<open>Msg_Pool\<close>, \<open>Master_Cache\<close>, \<open>Reelect_Ctrl\<close> (\<open>mc/msgdef.go\<close>, \<open>accounts/signhelper\<close>,
    \<open>verifier/msgPool.go\<close>, \<open>masterCache.go\<close>, \<open>controller.go\<close>, \<open>ctrlHandle.go\<close>, \<open>ctrlReelection.go\<close>): the
    controller of one block, every handler as a function of its state.
  \<^item> \<open>Reelect_Safety\<close>, \<open>Reelect_Progress\<close>: reachable states of a controller, the invariant, the evidence a
    controller asks for before it changes the turn, which votes of an earlier re-election satisfy as well, when it
    panics, and how a re-election goes on.
  \<^item> \<open>Number_Window\<close>: the contract of a table of workers by block number, a locale.
  \<^item> \<open>Ctrl_Manager\<close> (\<open>verifier/ctrlManager.go\<close>, \<open>leaderReElection.go\<close>): all controllers with their channels and
    the service that feeds them; an instance of the contract.
  \<^item> \<open>Elect_Data\<close> (\<open>reelection/\<close>): generation, storage and announcement of the elected lists.
  \<^item> \<open>Req_Cache\<close>, \<open>Blk_Checks\<close>, \<open>Blk_Process\<close> (\<open>blkconsensus/blkverify/\<close>): the requests a verifier holds, its
    checks of a header, and the process of one number.
  \<^item> \<open>Blk_Safety\<close>, \<open>Blk_Verify\<close>: the invariant of a process in every reachable state, which blocks it votes for and
    has mined, that a quorum ends the verification, and when it panics.
  \<^item> \<open>Blk_Service\<close> (\<open>process_manage.go\<close>, \<open>block_verify.go\<close>): the processes of all numbers and the messages that
    reach them, an instance of the contract of \<open>Number_Window\<close>.
  \<^item> \<open>Gen_Pool\<close>, \<open>Gen_Process\<close> (\<open>blockgenor/\<close>): mining results, block cache and the generator of one number, with the
    parts of \<open>core/\<close> it uses.
  \<^item> \<open>Gen_Safety\<close>, \<open>Gen_Request\<close>: which blocks a generator writes, that their transaction root is not the verified
    one, what a leader's request contains and that verifiers accept it.
  \<^item> \<open>Gen_Service\<close> (\<open>process_manage.go\<close>, \<open>blockgenor.go\<close>): the generators of all numbers; what two services write
    for the same number.

  \<^bold>\<open>How code becomes definitions.\<close> A structure is a record, with the fields prefixed to keep them apart; an
  operation is a function that takes the state and returns the state it leaves. An error value is a
  constructor of an error datatype; a panic (nil dereference, write to a nil map, slice out of range) is the
  value \<^const>\<open>None\<close>, a constructor of its own, or, in \<open>Ctrl_Manager\<close>, the outcome \<open>Crash\<close>.
  Fixed-width integers are words, big integers are integers; \<open>int64\<close> arithmetic is written with its
  wrap-around. What a component sends or publishes is appended to an output list. Clock readings, the order in
  which \<open>range\<close> visits a map, and everything the code asks of services outside the modelled parts are arguments;
  where a theorem needs something of them it says so as a hypothesis. Goroutines are steps of a relation
  that happen one at a time; messages arrive in any order. For a single controller, process or generator this is
  what its goroutine or mutex gives. A handler of a service is one step too, although it takes the mutex of the
  table and that of the process one after the other (\<open>handleRoleUpdatedMsg\<close> takes that of the table twice): two
  handlers that run between each other's locks, such as two role messages, are not covered. Where the code
  shares an object between two places and writes to it (\<open>masterCache.go\<close>, \<open>req_cache.go\<close>) the sharing is part
  of the model. Log output, which has no effect on the state, is left out.

  \<^bold>\<open>Bounds and fuel.\<close> Loops are structural recursions or have a termination proof, and the loops of the code that
  run forever are step relations. One loop has fuel: \<open>count_loop\<close> of \<open>Vote_Pool\<close>, which removes the earliest vote
  of an account until the limit is kept; it gets the number of votes, which is enough since every round removes
  one, and \<open>AddVote\<close> is shown to return. The hypotheses on sizes (fewer than
  \<open>2 ^ 48\<close> validators for the float64 threshold, stock sums below \<open>2 ^ 64\<close>) are stated where they are used
  and are far above what 16-bit positions allow.

  \<^bold>\<open>Not modelled.\<close> The peer-to-peer network, RPC, light clients, swarm, whisper, wallets, command line tools
  and the dashboard do not take part in the decisions above. The execution of transactions (EVM, state
  database, tries, gas), the transaction pool and the proof of work (\<open>consensus/manash\<close>,
  \<open>consensus/cryptonight\<close>) are parameters; an execution returns the header it leaves, and the engine's \<open>Finalize\<close>
  sets only the state root in it, so the roots of transactions and receipts and the bloom filter are those the
  execution was started with. The Keccak hash of an RLP encoding is the parameter \<open>rlpHash\<close> and the curve
  operations are parameters of \<open>Sign_Validate\<close>. \<open>common.NewResendMsgCtrl\<close> is called but not part of the
  source; it is a parameter. Subscriptions and the start of the services only connect channels.
\<close>

end
